(* ===== verification/Ogs_Prelude.thy ===== *)
theory Ogs_Prelude
  imports Main "HOL-Library.Word"
begin

unbundle bit_operations_syntax

text \<open>
  Shared vocabulary of the development: the fixed-width C types as words, the
  return codes of \<open>lib/core\<close>, big-endian reading and writing of 16-, 24-, 32- and
  64-bit words, and the list and word lemmas the component theories use.

  Conventions. A C function that can reach \<open>ogs_assert\<close> or
  \<open>ogs_assert_if_reached\<close> (which abort the process), or that would read or write
  outside an object, has an \<open>option\<close> result whose \<open>None\<close> is that abort or that
  access. An error that the C code reports to its caller is a value: an
  \<open>OGS_ERROR\<close>, a NULL modelled as an inner \<open>None\<close>, and so on.
\<close>

named_theorems be_simps \<open>reading back what was written in network byte order\<close>
named_theorems outcome_simps \<open>unfolding of the option-valued sequencing of C statements\<close>

type_synonym byte = "8 word"
type_synonym u8 = "8 word"
type_synonym u16 = "16 word"
type_synonym u24 = "24 word"
type_synonym u32 = "32 word"
type_synonym u64 = "64 word"
type_synonym bytes = "8 word list"

text \<open>The return codes of \<open>lib/core/ogs-errno.h\<close> that the modelled code uses.\<close>

datatype ogs_rv = OGS_OK | OGS_ERROR | OGS_RETRY

subsection \<open>Network byte order\<close>

text \<open>
  \<open>put16\<close>, \<open>put24\<close>, \<open>put32\<close> and \<open>put64\<close> are the bytes that \<open>htobe16\<close>,
  \<open>htobe32\<close>, \<open>htobe64\<close> leave in memory; \<open>get16\<close> .. \<open>get64\<close> are the shift-and-or
  expressions by which the code reads them back.
\<close>

definition put16 :: "u16 \<Rightarrow> bytes" where
  "put16 w = [ucast (drop_bit 8 w), ucast w]"

definition put24 :: "u32 \<Rightarrow> bytes" where
  "put24 w = [ucast (drop_bit 16 w), ucast (drop_bit 8 w), ucast w]"

definition put32 :: "u32 \<Rightarrow> bytes" where
  "put32 w = [ucast (drop_bit 24 w), ucast (drop_bit 16 w), ucast (drop_bit 8 w), ucast w]"

definition put64 :: "u64 \<Rightarrow> bytes" where
  "put64 w = put32 (ucast (drop_bit 32 w)) @ put32 (ucast w)"

definition get16 :: "byte \<Rightarrow> byte \<Rightarrow> u16" where
  "get16 a b = push_bit 8 (ucast a) OR ucast b"

definition get24 :: "byte \<Rightarrow> byte \<Rightarrow> byte \<Rightarrow> u32" where
  "get24 a b c = push_bit 16 (ucast a) OR push_bit 8 (ucast b) OR ucast c"

definition get32 :: "byte \<Rightarrow> byte \<Rightarrow> byte \<Rightarrow> byte \<Rightarrow> u32" where
  "get32 a b c d =
     push_bit 24 (ucast a) OR push_bit 16 (ucast b) OR push_bit 8 (ucast c) OR ucast d"

definition get64 :: "bytes \<Rightarrow> u64" where
  "get64 xs = foldl (\<lambda>acc b. push_bit 8 acc OR ucast b) 0 xs"

lemma length_put [simp]:
  "length (put16 w) = 2" "length (put24 v) = 3" "length (put32 v) = 4" "length (put64 x) = 8"
  by (simp_all add: put16_def put24_def put32_def put64_def)

lemma get16_put16 [simp, be_simps]: "get16 (ucast (drop_bit 8 w)) (ucast w) = w"
proof (rule bit_word_eqI)
  fix n assume "n < LENGTH(16)"
  then show "bit (get16 (ucast (drop_bit 8 w)) (ucast w)) n \<longleftrightarrow> bit w n"
    by (cases "n < 8") (auto simp: get16_def bit_simps)
qed

lemma get32_put32 [simp, be_simps]:
  "get32 (ucast (drop_bit 24 w)) (ucast (drop_bit 16 w)) (ucast (drop_bit 8 w)) (ucast w) = w"
proof (rule bit_word_eqI)
  fix n assume "n < LENGTH(32)"
  then consider "n < 8" | "8 \<le> n" "n < 16" | "16 \<le> n" "n < 24" | "24 \<le> n" "n < 32"
    by force
  then show "bit (get32 (ucast (drop_bit 24 w)) (ucast (drop_bit 16 w))
      (ucast (drop_bit 8 w)) (ucast w)) n \<longleftrightarrow> bit w n"
    by cases (auto simp: get32_def bit_simps)
qed

lemma get24_put24 [simp, be_simps]:
  "get24 (ucast (drop_bit 16 w)) (ucast (drop_bit 8 w)) (ucast w) = take_bit 24 w"
proof (rule bit_word_eqI)
  fix n assume "n < LENGTH(32)"
  then consider "n < 8" | "8 \<le> n" "n < 16" | "16 \<le> n" "n < 24" | "24 \<le> n" "n < 32"
    by force
  then show "bit (get24 (ucast (drop_bit 16 w)) (ucast (drop_bit 8 w)) (ucast w)) n
      \<longleftrightarrow> bit (take_bit 24 w) n"
    by cases (auto simp: get24_def bit_simps)
qed

lemma get64_put64 [simp, be_simps]: "get64 (put64 w) = w"
proof (rule bit_word_eqI)
  fix n assume "n < LENGTH(64)"
  then consider "n < 8" | "8 \<le> n" "n < 16" | "16 \<le> n" "n < 24" | "24 \<le> n" "n < 32"
    | "32 \<le> n" "n < 40" | "40 \<le> n" "n < 48" | "48 \<le> n" "n < 56" | "56 \<le> n" "n < 64" by force
  then show "bit (get64 (put64 w)) n \<longleftrightarrow> bit w n"
    by cases (auto simp: get64_def put64_def put32_def bit_simps)
qed

subsection \<open>Bytes inside wider words\<close>

lemma bit_byte_le [dest]: "bit (a::byte) n \<Longrightarrow> n < 8"
  using bit_imp_le_length[of a n] by simp

lemma be16_add_eq_or: "push_bit 8 (ucast (a::byte)) + ucast (b::byte) = (push_bit 8 (ucast a) OR ucast b :: u32)"
  by (rule disjunctive_add) (auto simp: bit_simps)

lemma ucast_and_FF [simp]: "ucast (t AND 0xFF :: u32) = (ucast t :: byte)"
proof -
  have "(0xFF :: u32) = mask 8" by (simp add: mask_eq_exp_minus_1)
  then show ?thesis by (simp only: flip: take_bit_eq_mask) (rule bit_word_eqI, auto simp: bit_simps)
qed

lemma and_FF_byte [simp]: "(a::byte) AND 0xFF = a"
proof -
  have "(0xFF :: byte) = mask 8" by (simp add: mask_eq_exp_minus_1)
  then show ?thesis by (simp only: flip: take_bit_eq_mask) (rule bit_word_eqI, auto simp: bit_simps)
qed

lemma bit_less_exp: "unat (t::'a::len word) < 2 ^ k \<Longrightarrow> bit t n \<Longrightarrow> n < k"
  by (metis bit_take_bit_iff  take_bit_nat_eq_self_iff unsigned_take_bit_eq word_unat_eq_iff)

lemma ucast_ucast_byte: "unat (t::u32) < 256 \<Longrightarrow> ucast (ucast t :: byte) = t"
  by (rule bit_word_eqI) (auto simp: bit_simps dest: bit_less_exp[where k = 8, simplified])

lemma be16_join: 
  assumes a: "unat (t::u32) < 65536" shows "push_bit 8 (ucast (ucast (drop_bit 8 t) :: byte)) + ucast (ucast t :: byte) = t"
  unfolding be16_add_eq_or
proof (rule bit_word_eqI)
    fix n assume "n < LENGTH(32)"
    then show "bit (push_bit 8 (ucast (ucast (drop_bit 8 t) :: byte)) OR ucast (ucast t :: byte) :: u32) n \<longleftrightarrow> bit t n"
      using bit_less_exp[of t 16 n] a by (cases "n < 8") (auto simp: bit_simps)
qed

lemma be16_split: "ucast (drop_bit 8 (push_bit 8 (ucast (a::byte)) + ucast (b::byte) :: u32)) = a"
   "ucast (push_bit 8 (ucast (a::byte)) + ucast (b::byte) :: u32) = b"
  unfolding be16_add_eq_or by (rule bit_word_eqI, auto simp: bit_simps)+

lemma unat_take_bit_less: "take_bit k w = w \<Longrightarrow> unat (w::'a::len word) < 2 ^ k"
  by (metis take_bit_nat_less_exp unsigned_take_bit_eq)

lemma be16_bound: "unat (push_bit 8 (ucast (a::byte)) + ucast (b::byte) :: u32) < 65536"
proof -
  have "take_bit 16 (push_bit 8 (ucast a) + ucast b :: u32) = push_bit 8 (ucast a) + ucast b"
    unfolding be16_add_eq_or by (rule bit_word_eqI) (auto simp: bit_simps)
  from unat_take_bit_less[OF this] show ?thesis by simp
qed

lemma unat_byte_lt: "unat (a::byte) < 256"
  using unsigned_less[of a, where 'a = nat] by simp

lemma unat_ucast_byte [simp]: "unat (ucast (a::byte) :: u32) = unat a"
proof -
  have "unat a < 2 ^ LENGTH(32)" using unat_byte_lt[of a] by simp
  then show ?thesis by (simp only: unsigned_ucast_eq take_bit_nat_eq_self)
qed

lemma ucast_ucast_byte_u32 [simp]: "ucast (ucast (a::byte) :: u32) = a"
  by (rule bit_word_eqI) (auto simp: bit_simps)

lemma unat_of_nat_u32: "n < 2 ^ 32 \<Longrightarrow> unat (of_nat n :: u32) = n"
  using take_bit_nat_eq_self[of n 32] by (simp add: unsigned_of_nat)

subsection \<open>Writing into a buffer\<close>

text \<open>
  A write of \<open>bs\<close> at offset \<open>pos\<close>, as \<open>memcpy\<close> or a run of \<open>*(pos++) = \<dots>\<close> makes
  it; \<open>None\<close> if it would leave the buffer. \<open>overlay\<close> is the buffer after a write
  that fits.
\<close>

definition poke :: "bytes \<Rightarrow> nat \<Rightarrow> bytes \<Rightarrow> bytes option" where
  "poke buf pos bs =
     (if pos + length bs \<le> length buf
      then Some (take pos buf @ bs @ drop (pos + length bs) buf) else None)"

definition overlay :: "bytes \<Rightarrow> nat \<Rightarrow> bytes \<Rightarrow> bytes" where
  "overlay buf pos bs = take pos buf @ bs @ drop (pos + length bs) buf"

lemma poke_overlay: "pos + length bs \<le> length buf \<Longrightarrow> poke buf pos bs = Some (overlay buf pos bs)"
  by (simp add: poke_def overlay_def)

lemma length_overlay [simp]: "pos + length bs \<le> length buf \<Longrightarrow> length (overlay buf pos bs) = length buf"
  by (simp add: overlay_def)

lemma overlay_Nil [simp]: "pos \<le> length buf \<Longrightarrow> overlay buf pos [] = buf"
  by (simp add: overlay_def)

lemma overlay_append:
  "pos + length xs \<le> length buf \<Longrightarrow>
     overlay (overlay buf pos xs) (pos + length xs) ys = overlay buf pos (xs @ ys)"
  by (simp add: overlay_def ac_simps)

lemma overlay_whole [simp]: "length bs = length buf \<Longrightarrow> overlay buf 0 bs = bs"
  by (simp add: overlay_def)

end
