(* ===== verification/Ogs_Pool.thy ===== *)
theory Ogs_Pool
  imports Ogs_Prelude
begin

text \<open>
  The object pools of \<open>lib/core/ogs-pool.h\<close>. A pool is an array of \<open>size\<close>
  objects, a ring buffer \<open>free\<close> of pointers to the unused ones with its \<open>head\<close>,
  \<open>tail\<close> and fill count \<open>avail\<close>, and the table \<open>index\<close> of the objects in use;
  pools of contexts also number their objects with a running \<open>id\<close> kept in a hash
  table. A pointer into the array is modelled by its offset (a natural number below
  \<open>size\<close>), NULL by \<open>None\<close>, and the hash table by a map.

  The theory shows that the ring is a FIFO of the unused objects, that an object is
  never handed out twice, that allocation fails exactly when nothing is left, and that
  identifiers find the object they were given to.
\<close>

record ogs_pool =
  p_head :: nat
  p_tail :: nat
  p_size :: nat
  p_avail :: nat
  p_free :: "nat option list"
  p_index :: "nat option list"
  p_node_id :: "nat \<Rightarrow> int"
  p_id_hash :: "int \<rightharpoonup> nat"
  p_id :: int

definition OGS_MIN_POOL_ID :: int where "OGS_MIN_POOL_ID = 1"

definition OGS_MAX_POOL_ID :: int where "OGS_MAX_POOL_ID = 0x7fffffff"

definition OGS_NEXT_ID :: "int \<Rightarrow> int \<Rightarrow> int \<Rightarrow> int" where
  "OGS_NEXT_ID i mn mx = (if i = mx then mn else i + 1)"

definition ogs_pool_init :: "nat \<Rightarrow> ogs_pool" where
  "ogs_pool_init n = \<lparr>p_head = 0, p_tail = 0, p_size = n, p_avail = n,
     p_free = map Some [0..<n], p_index = replicate n None,
     p_node_id = (\<lambda>_. 0), p_id_hash = Map.empty, p_id = 0\<rparr>"

text \<open>
  \<open>ogs_pool_alloc\<close>: the node (NULL when the pool is exhausted) and the new pool. The
  outer \<open>None\<close> is the access through a NULL ring entry that the macro would make.
\<close>

definition ogs_pool_alloc :: "ogs_pool \<Rightarrow> (nat option \<times> ogs_pool) option" where
  "ogs_pool_alloc p =
     (if p_avail p > 0 then
        (if p_head p < length (p_free p) then
           (case p_free p ! p_head p of
              None \<Rightarrow> None
            | Some node \<Rightarrow>
                Some (Some node, p\<lparr>p_avail := p_avail p - 1,
                  p_free := (p_free p)[p_head p := None],
                  p_head := (p_head p + 1) mod p_size p,
                  p_index := (p_index p)[node := Some node]\<rparr>))
         else None)
      else Some (None, p))"

definition ogs_pool_free :: "ogs_pool \<Rightarrow> nat \<Rightarrow> ogs_pool option" where
  "ogs_pool_free p node =
     (if p_avail p < p_size p then
        (if p_tail p < length (p_free p) \<and> node < length (p_index p) then
           Some (p\<lparr>p_avail := p_avail p + 1,
             p_free := (p_free p)[p_tail p := Some node],
             p_tail := (p_tail p + 1) mod p_size p,
             p_index := (p_index p)[node := None]\<rparr>)
         else None)
      else Some p)"

definition ogs_pool_find :: "ogs_pool \<Rightarrow> int \<Rightarrow> nat option" where
  "ogs_pool_find p i =
     (if i > 0 \<and> i \<le> int (p_size p) \<and> nat (i - 1) < length (p_index p)
      then p_index p ! nat (i - 1) else None)"

definition ogs_pool_id_calloc :: "ogs_pool \<Rightarrow> (nat option \<times> ogs_pool) option" where
  "ogs_pool_id_calloc p =
     (case ogs_pool_alloc p of
        None \<Rightarrow> None
      | Some (None, p') \<Rightarrow> Some (None, p')
      | Some (Some node, p') \<Rightarrow>
          (let i = OGS_NEXT_ID (p_id p') 1 OGS_MAX_POOL_ID in
           Some (Some node, p'\<lparr>p_id := i, p_node_id := (p_node_id p')(node := i),
             p_id_hash := (p_id_hash p')(i \<mapsto> node)\<rparr>)))"

definition ogs_pool_id_free :: "ogs_pool \<Rightarrow> nat \<Rightarrow> ogs_pool option" where
  "ogs_pool_id_free p node =
     (if OGS_MIN_POOL_ID \<le> p_node_id p node \<and> p_node_id p node \<le> OGS_MAX_POOL_ID then
        ogs_pool_free (p\<lparr>p_id_hash := (p_id_hash p)(p_node_id p node := None)\<rparr>) node
      else None)"

definition ogs_pool_find_by_id :: "ogs_pool \<Rightarrow> int \<Rightarrow> nat option" where
  "ogs_pool_find_by_id p i = p_id_hash p i"

subsection \<open>The ring as a list of unused objects\<close>

definition pool_unused :: "ogs_pool \<Rightarrow> nat option list" where
  "pool_unused p = map (\<lambda>k. p_free p ! ((p_head p + k) mod p_size p)) [0..<p_avail p]"

definition pool_unused_nodes :: "ogs_pool \<Rightarrow> nat list" where
  "pool_unused_nodes p = map the (pool_unused p)"

definition pool_inv :: "ogs_pool \<Rightarrow> bool" where
  "pool_inv p \<longleftrightarrow>
     length (p_free p) = p_size p \<and> length (p_index p) = p_size p \<and> p_avail p \<le> p_size p \<and>
     (0 < p_size p \<longrightarrow> p_head p < p_size p \<and> p_tail p = (p_head p + p_avail p) mod p_size p) \<and>
     pool_unused p = map Some (pool_unused_nodes p) \<and>
     distinct (pool_unused_nodes p) \<and>
     (\<forall>n < p_size p. p_index p ! n = (if n \<in> set (pool_unused_nodes p) then None else Some n)) \<and>
     (\<forall>n \<in> set (pool_unused_nodes p). n < p_size p)"

definition pool_in_use :: "ogs_pool \<Rightarrow> nat \<Rightarrow> bool" where
  "pool_in_use p n \<longleftrightarrow> n < p_size p \<and> n \<notin> set (pool_unused_nodes p)"

lemma pool_unused_init:
  "pool_unused (ogs_pool_init n) = map Some [0..<n]"
  "pool_unused_nodes (ogs_pool_init n) = [0..<n]"
proof -
  show "pool_unused (ogs_pool_init n) = map Some [0..<n]"
    by (auto simp: pool_unused_def ogs_pool_init_def intro!: nth_equalityI)
  then show "pool_unused_nodes (ogs_pool_init n) = [0..<n]"
    by (simp add: pool_unused_nodes_def comp_def)
qed

lemma pool_inv_init: "pool_inv (ogs_pool_init n)"
  unfolding pool_inv_def pool_unused_init by (simp add: ogs_pool_init_def)

text \<open>Positions of the ring that differ from the one written keep their content.\<close>

lemma ring_pos_neq:
  fixes h k n :: nat
  assumes "k < n" "0 < k"
  shows "(h + k) mod n \<noteq> h mod n"
proof
  assume eq: "(h + k) mod n = h mod n"
  then have "n dvd k"
    using mod_eq_dvd_iff_nat[of h "h + k" n] by simp
  with assms show False by (auto dest: dvd_imp_le)
qed

lemma ring_pos_neq2:
  fixes h k a n :: nat
  assumes "k < a" "a < n"
  shows "(h + k) mod n \<noteq> (h + a) mod n"
proof -
  have "(h + k + (a - k)) mod n \<noteq> (h + k) mod n"
    using assms by (intro ring_pos_neq) auto
  with assms show ?thesis by simp
qed

lemma upt_Suc_shift: "map f [0..<Suc n] = f 0 # map (\<lambda>k. f (Suc k)) [0..<n]"
  by (induction n) auto

lemma pool_alloc_unused:
  assumes inv: "pool_inv p" and av: "0 < p_avail p"
  obtains node p' where "ogs_pool_alloc p = Some (Some node, p')"
    and "pool_unused_nodes p = node # pool_unused_nodes p'"
    and "pool_unused p' = map Some (pool_unused_nodes p')"
    and "p_size p' = p_size p" and "p_avail p = Suc (p_avail p')"
    and "p_index p' = (p_index p)[node := Some node]"
    and "length (p_free p') = p_size p" and "p_head p' = Suc (p_head p) mod p_size p"
    and "p_tail p' = p_tail p"
    and "p_id_hash p' = p_id_hash p" and "p_id p' = p_id p" and "p_node_id p' = p_node_id p"
proof -
  from inv av have sz: "0 < p_size p" and hd: "p_head p < p_size p"
    and len: "length (p_free p) = p_size p" and le: "p_avail p \<le> p_size p"
    and uns: "pool_unused p = map Some (pool_unused_nodes p)"
    by (auto simp: pool_inv_def)
  obtain a where a: "p_avail p = Suc a" using av by (cases "p_avail p") auto
  have unf: "pool_unused p = p_free p ! p_head p
      # map (\<lambda>k. p_free p ! ((p_head p + Suc k) mod p_size p)) [0..<a]"
    using hd by (simp add: pool_unused_def a upt_Suc_shift del: upt_Suc)
  with uns obtain node rest where nr: "pool_unused_nodes p = node # rest"
    and node: "p_free p ! p_head p = Some node"
    and rest: "map (\<lambda>k. p_free p ! ((p_head p + Suc k) mod p_size p)) [0..<a] = map Some rest"
    by (cases "pool_unused_nodes p") auto
  let ?p' = "p\<lparr>p_avail := p_avail p - 1, p_free := (p_free p)[p_head p := None],
      p_head := (p_head p + 1) mod p_size p, p_index := (p_index p)[node := Some node]\<rparr>"
  have "pool_unused ?p' = map Some rest"
  proof -
    have "(p_free p)[p_head p := None] ! ((Suc (p_head p) mod p_size p + k) mod p_size p)
        = p_free p ! ((p_head p + Suc k) mod p_size p)" if "k < a" for k
    proof -
      have "(p_head p + Suc k) mod p_size p \<noteq> p_head p"
        using ring_pos_neq[of "Suc k" "p_size p" "p_head p"] that a le hd by simp
      moreover have "(Suc (p_head p) mod p_size p + k) mod p_size p = (p_head p + Suc k) mod p_size p"
        by (simp add: mod_simps)
      ultimately show ?thesis by simp
    qed
    then have "pool_unused ?p'
        = map (\<lambda>k. p_free p ! ((p_head p + Suc k) mod p_size p)) [0..<a]"
      by (auto simp: pool_unused_def a)
    with rest show ?thesis by simp
  qed
  moreover from this have "pool_unused_nodes ?p' = rest"
    by (simp add: pool_unused_nodes_def comp_def)
  moreover have "ogs_pool_alloc p = Some (Some node, ?p')"
    using av hd len node by (simp add: ogs_pool_alloc_def)
  ultimately show ?thesis
    using nr len a by (intro that[of node ?p']) auto
qed

lemma pool_inv_alloc:
  assumes inv: "pool_inv p" and al: "ogs_pool_alloc p = Some (r, p')"
  shows "pool_inv p'"
proof (cases "0 < p_avail p")
  case False
  with al inv show ?thesis by (auto simp: ogs_pool_alloc_def)
next
  case True
  obtain node q where q: "ogs_pool_alloc p = Some (Some node, q)"
    and un: "pool_unused_nodes p = node # pool_unused_nodes q"
    and us: "pool_unused q = map Some (pool_unused_nodes q)"
    and eqs: "p_size q = p_size p" "p_avail p = Suc (p_avail q)"
      "p_index q = (p_index p)[node := Some node]" "length (p_free q) = p_size p"
      "p_head q = Suc (p_head p) mod p_size p" "p_tail q = p_tail p"
    by (rule pool_alloc_unused[OF inv True]) blast
  with al have p': "p' = q" by simp
  from inv un have hd: "p_head p < p_size p" and tl: "p_tail p = (p_head p + p_avail p) mod p_size p"
    and node: "node < p_size p" and dis: "node \<notin> set (pool_unused_nodes q)"
      "distinct (pool_unused_nodes q)"
    using True by (auto simp: pool_inv_def)
  from inv un have idx: "\<forall>n < p_size p. p_index p ! n =
      (if n = node \<or> n \<in> set (pool_unused_nodes q) then None else Some n)"
    and li: "length (p_index p) = p_size p" and le: "p_avail p \<le> p_size p"
    and bd: "\<forall>n \<in> set (pool_unused_nodes q). n < p_size p"
    by (auto simp: pool_inv_def)
  have "p_tail q = (p_head q + p_avail q) mod p_size q"
    using tl eqs by (simp add: mod_simps)
  moreover have "\<forall>n < p_size q. p_index q ! n = (if n \<in> set (pool_unused_nodes q) then None else Some n)"
    using idx li eqs dis node by (auto simp: nth_list_update)
  ultimately show ?thesis
    unfolding p' pool_inv_def using us eqs li le bd dis hd by simp
qed

lemma pool_free_unused:
  assumes inv: "pool_inv p" and iu0: "pool_in_use p node"
  obtains p' where "ogs_pool_free p node = Some p'"
    and "pool_unused_nodes p' = pool_unused_nodes p @ [node]"
    and "pool_inv p'" and "p_size p' = p_size p" and "p_avail p' = Suc (p_avail p)"
    and "p_id_hash p' = p_id_hash p" and "p_id p' = p_id p" and "p_node_id p' = p_node_id p"
proof -
  from iu0 have iu: "node < p_size p" "node \<notin> set (pool_unused_nodes p)"
    by (simp_all add: pool_in_use_def)
  from inv iu have sz: "0 < p_size p" and hd: "p_head p < p_size p"
    and tl: "p_tail p = (p_head p + p_avail p) mod p_size p"
    and lens: "length (p_free p) = p_size p" "length (p_index p) = p_size p"
    and le: "p_avail p \<le> p_size p" and dis: "distinct (pool_unused_nodes p)"
    and bd: "set (pool_unused_nodes p) \<subseteq> {..<p_size p}"
    and uns: "pool_unused p = map Some (pool_unused_nodes p)"
    by (auto simp: pool_inv_def)
  have lu: "length (pool_unused_nodes p) = p_avail p"
    by (simp add: pool_unused_nodes_def pool_unused_def)
  have "card (set (pool_unused_nodes p)) < card {..<p_size p}"
    using bd iu by (intro psubset_card_mono) auto
  then have lt: "p_avail p < p_size p"
    using distinct_card[OF dis] lu by simp
  let ?p' = "p\<lparr>p_avail := p_avail p + 1, p_free := (p_free p)[p_tail p := Some node],
      p_tail := (p_tail p + 1) mod p_size p, p_index := (p_index p)[node := None]\<rparr>"
  have tb: "p_tail p < p_size p" using tl sz by simp
  have keep: "(p_free p)[p_tail p := Some node] ! ((p_head p + k) mod p_size p)
      = p_free p ! ((p_head p + k) mod p_size p)" if "k < p_avail p" for k
    using ring_pos_neq2[of k "p_avail p" "p_size p" "p_head p"] that lt tl by simp
  have pu: "pool_unused ?p' = pool_unused p @ [Some node]"
    using keep tl tb lens by (simp add: pool_unused_def)
  then have pn: "pool_unused_nodes ?p' = pool_unused_nodes p @ [node]"
    by (simp add: pool_unused_nodes_def)
  have "(Suc (p_tail p)) mod p_size p = (p_head p + Suc (p_avail p)) mod p_size p"
    by (simp add: tl mod_simps)
  moreover have "\<forall>n < p_size p. (p_index p)[node := None] ! n =
      (if n = node \<or> n \<in> set (pool_unused_nodes p) then None else Some n)"
    using inv lens iu by (auto simp: pool_inv_def nth_list_update)
  ultimately have "pool_inv ?p'"
    unfolding pool_inv_def pu pn using lens lt hd dis bd iu uns by auto
  moreover have "ogs_pool_free p node = Some ?p'"
    using lt tb lens iu by (simp add: ogs_pool_free_def)
  ultimately show ?thesis
    using pn by (intro that[of ?p']) auto
qed

subsection \<open>The interface the users of a pool rely on\<close>

text \<open>
  What the contexts, timers and TLV nodes built on a pool need of it: allocation takes
  the object that has been unused longest and fails only when there is none, release
  puts an object that is in use at the end, and nothing else changes. The lemmas of the
  locale hold for every implementation of the interface; the ring buffer is one.
\<close>

locale node_pool =
  fixes alloc :: "'p \<Rightarrow> (nat option \<times> 'p) option"
    and release :: "'p \<Rightarrow> nat \<Rightarrow> 'p option"
    and unused :: "'p \<Rightarrow> nat list"
    and capacity :: "'p \<Rightarrow> nat"
    and inv :: "'p \<Rightarrow> bool"
  assumes alloc_Cons: "inv p \<Longrightarrow> unused p = n # ns \<Longrightarrow>
      \<exists>p'. alloc p = Some (Some n, p') \<and> inv p' \<and> unused p' = ns \<and> capacity p' = capacity p"
    and alloc_Nil: "inv p \<Longrightarrow> unused p = [] \<Longrightarrow> alloc p = Some (None, p)"
    and release_in_use: "inv p \<Longrightarrow> n < capacity p \<Longrightarrow> n \<notin> set (unused p) \<Longrightarrow>
      \<exists>p'. release p n = Some p' \<and> inv p' \<and> unused p' = unused p @ [n] \<and> capacity p' = capacity p"
    and unused_distinct: "inv p \<Longrightarrow> distinct (unused p)"
    and unused_bound: "inv p \<Longrightarrow> set (unused p) \<subseteq> {..<capacity p}"
begin

definition in_use :: "'p \<Rightarrow> nat set" where
  "in_use p = {..<capacity p} - set (unused p)"

lemma card_in_use: "inv p \<Longrightarrow> card (in_use p) + length (unused p) = capacity p"
  using unused_bound[of p] unused_distinct[of p] card_mono[of "{..<capacity p}" "set (unused p)"]
  by (simp add: in_use_def card_Diff_subset distinct_card[symmetric])

lemma alloc_cases:
  assumes "inv p"
  obtains (exhausted) "unused p = []" "alloc p = Some (None, p)" "in_use p = {..<capacity p}"
  | (node) n p' where "alloc p = Some (Some n, p')" "inv p'" "capacity p' = capacity p"
      "unused p = n # unused p'" "n \<notin> in_use p" "in_use p' = insert n (in_use p)"
proof (cases "unused p")
  case Nil
  with assms show ?thesis
    by (intro exhausted) (auto simp: alloc_Nil in_use_def)
next
  case (Cons n ns)
  with assms obtain p' where "alloc p = Some (Some n, p')" "inv p'" "unused p' = ns"
      "capacity p' = capacity p"
    using alloc_Cons by blast
  then show ?thesis
    using Cons unused_bound[OF assms] unused_distinct[OF assms]
    by (intro node[of n p']) (auto simp: in_use_def)
qed

lemma release_cases:
  assumes "inv p" "n \<in> in_use p"
  obtains p' where "release p n = Some p'" "inv p'" "capacity p' = capacity p"
    "unused p' = unused p @ [n]" "in_use p' = in_use p - {n}"
proof -
  from assms have "n < capacity p" "n \<notin> set (unused p)" by (auto simp: in_use_def)
  with release_in_use[OF assms(1), of n] obtain p' where
    "release p n = Some p'" "inv p'" "unused p' = unused p @ [n]" "capacity p' = capacity p"
    by blast
  then show ?thesis by (intro that[of p']) (auto simp: in_use_def)
qed

text \<open>
  An object released behind \<open>length (unused p)\<close> others is handed out again only after
  all of them: the reuse distance that protects stale references.
\<close>

lemma release_goes_last:
  assumes "inv p" "n \<in> in_use p" "release p n = Some p'" "unused p \<noteq> []"
    "alloc p' = Some (Some m, p'')"
  shows "m \<noteq> n"
proof -
  from assms(1,2,3) have u: "inv p'" "unused p' = unused p @ [n]"
    by (auto elim: release_cases)
  with assms(4) obtain x xs where xs: "unused p = x # xs" by (cases "unused p") auto
  with u assms(5) alloc_Cons[of p' x "xs @ [n]"] have "m = x" by auto
  moreover have "x \<noteq> n" using assms(2) xs by (auto simp: in_use_def)
  ultimately show ?thesis by simp
qed

end

lemma pool_alloc_None: "p_avail p = 0 \<Longrightarrow> ogs_pool_alloc p = Some (None, p)"
  by (simp add: ogs_pool_alloc_def)

lemma length_pool_unused_nodes [simp]: "length (pool_unused_nodes p) = p_avail p"
  by (simp add: pool_unused_nodes_def pool_unused_def)

lemma pool_unused_nodes_Nil_iff [simp]: "pool_unused_nodes p = [] \<longleftrightarrow> p_avail p = 0"
  using length_pool_unused_nodes[of p] by (metis length_0_conv)

interpretation ring: node_pool ogs_pool_alloc ogs_pool_free pool_unused_nodes p_size pool_inv
proof
  fix p n ns
  assume inv: "pool_inv p" and un: "pool_unused_nodes p = n # ns"
  then have av: "0 < p_avail p" using length_pool_unused_nodes[of p] by simp
  show "\<exists>p'. ogs_pool_alloc p = Some (Some n, p') \<and> pool_inv p' \<and> pool_unused_nodes p' = ns
      \<and> p_size p' = p_size p"
  proof (rule pool_alloc_unused[OF inv av])
    fix node p'
    assume "ogs_pool_alloc p = Some (Some node, p')" "pool_unused_nodes p = node # pool_unused_nodes p'"
      "p_size p' = p_size p"
    then show ?thesis using un inv pool_inv_alloc by auto
  qed
next
  fix p n
  assume a: "pool_inv p" "n < p_size p" "n \<notin> set (pool_unused_nodes p)"
  then have "pool_in_use p n" by (simp add: pool_in_use_def)
  then show "\<exists>p'. ogs_pool_free p n = Some p' \<and> pool_inv p' \<and>
      pool_unused_nodes p' = pool_unused_nodes p @ [n] \<and> p_size p' = p_size p"
    by (rule pool_free_unused[OF a(1)]) blast
next
  fix p assume "pool_unused_nodes p = []"
  then show "ogs_pool_alloc p = Some (None, p)" by (simp add: pool_alloc_None)
next
  fix p assume "pool_inv p"
  then show "distinct (pool_unused_nodes p)" and "set (pool_unused_nodes p) \<subseteq> {..<p_size p}"
    by (simp_all add: pool_inv_def subset_iff)
qed

subsection \<open>Identifiers\<close>

text \<open>
  In a pool of contexts the hash table finds exactly the objects in use, each under its
  own identifier, and every identifier is in range.
\<close>

definition id_pool_inv :: "ogs_pool \<Rightarrow> bool" where
  "id_pool_inv p \<longleftrightarrow> pool_inv p \<and> 0 \<le> p_id p \<and> p_id p \<le> OGS_MAX_POOL_ID \<and>
     (\<forall>i n. p_id_hash p i = Some n \<longleftrightarrow> pool_in_use p n \<and> p_node_id p n = i) \<and>
     (\<forall>n. pool_in_use p n \<longrightarrow> OGS_MIN_POOL_ID \<le> p_node_id p n \<and> p_node_id p n \<le> OGS_MAX_POOL_ID)"

abbreviation next_pool_id :: "ogs_pool \<Rightarrow> int" where
  "next_pool_id p \<equiv> OGS_NEXT_ID (p_id p) 1 OGS_MAX_POOL_ID"

lemma next_id_range: "0 \<le> i \<Longrightarrow> i \<le> OGS_MAX_POOL_ID \<Longrightarrow>
    OGS_MIN_POOL_ID \<le> OGS_NEXT_ID i 1 OGS_MAX_POOL_ID
    \<and> OGS_NEXT_ID i 1 OGS_MAX_POOL_ID \<le> OGS_MAX_POOL_ID"
  by (auto simp: OGS_NEXT_ID_def OGS_MAX_POOL_ID_def OGS_MIN_POOL_ID_def)

lemma id_pool_inv_init: "id_pool_inv (ogs_pool_init n)"
  unfolding id_pool_inv_def pool_in_use_def pool_unused_init using pool_inv_init[of n]
  by (simp add: ogs_pool_init_def OGS_MAX_POOL_ID_def)

lemma ring_in_use: "ring.in_use p = {n. pool_in_use p n}"
  by (auto simp: ring.in_use_def pool_in_use_def)

lemma pool_alloc_keeps_ids:
  "ogs_pool_alloc p = Some (r, p') \<Longrightarrow>
     p_id_hash p' = p_id_hash p \<and> p_id p' = p_id p \<and> p_node_id p' = p_node_id p"
  by (auto simp: ogs_pool_alloc_def split: if_splits option.splits)

lemma pool_free_keeps_ids:
  "ogs_pool_free p n = Some p' \<Longrightarrow>
     p_id_hash p' = p_id_hash p \<and> p_id p' = p_id p \<and> p_node_id p' = p_node_id p"
  by (auto simp: ogs_pool_free_def split: if_splits)

text \<open>The hash table is not part of the ring, so changing it changes nothing there.\<close>

lemma pool_unused_upd_ids [simp]:
  "pool_unused (p\<lparr>p_id := i\<rparr>) = pool_unused p"
  "pool_unused (p\<lparr>p_node_id := f\<rparr>) = pool_unused p"
  "pool_unused (p\<lparr>p_id_hash := h\<rparr>) = pool_unused p"
  "pool_unused_nodes (p\<lparr>p_id := i\<rparr>) = pool_unused_nodes p"
  "pool_unused_nodes (p\<lparr>p_node_id := f\<rparr>) = pool_unused_nodes p"
  "pool_unused_nodes (p\<lparr>p_id_hash := h\<rparr>) = pool_unused_nodes p"
  by (simp_all add: pool_unused_def pool_unused_nodes_def)

lemma pool_in_use_upd_ids [simp]:
  "pool_in_use (p\<lparr>p_id := i\<rparr>) = pool_in_use p"
  "pool_in_use (p\<lparr>p_node_id := f\<rparr>) = pool_in_use p"
  "pool_in_use (p\<lparr>p_id_hash := h\<rparr>) = pool_in_use p"
  by (simp_all add: pool_in_use_def fun_eq_iff)

lemma pool_inv_upd_ids [simp]:
  "pool_inv (p\<lparr>p_id := i\<rparr>) \<longleftrightarrow> pool_inv p"
  "pool_inv (p\<lparr>p_node_id := f\<rparr>) \<longleftrightarrow> pool_inv p"
  "pool_inv (p\<lparr>p_id_hash := h\<rparr>) \<longleftrightarrow> pool_inv p"
  unfolding pool_inv_def pool_unused_upd_ids by simp_all

lemma id_pool_alloc:
  assumes inv: "id_pool_inv p" and av: "0 < p_avail p"
    and fresh: "p_id_hash p (next_pool_id p) = None"
  obtains n p' where "ogs_pool_id_calloc p = Some (Some n, p')" "id_pool_inv p'"
    "\<not> pool_in_use p n" "pool_in_use p' n" "p_node_id p' n = next_pool_id p"
    "p_id_hash p' = (p_id_hash p)(next_pool_id p \<mapsto> n)" "p_size p' = p_size p"
    "\<And>m. m \<noteq> n \<Longrightarrow> pool_in_use p' m = pool_in_use p m \<and> p_node_id p' m = p_node_id p m"
proof -
  from inv have pinv: "pool_inv p" by (simp add: id_pool_inv_def)
  from pinv obtain n q where q: "ogs_pool_alloc p = Some (Some n, q)" "pool_inv q"
      "p_size q = p_size p" "n \<notin> ring.in_use p" "ring.in_use q = insert n (ring.in_use p)"
    using av by (cases rule: ring.alloc_cases) auto
  note ids = pool_alloc_keeps_ids[OF q(1)]
  let ?i = "next_pool_id p"
  let ?p' = "q\<lparr>p_id := ?i, p_node_id := (p_node_id q)(n := ?i), p_id_hash := (p_id_hash q)(?i \<mapsto> n)\<rparr>"
  have use: "pool_in_use q m \<longleftrightarrow> m = n \<or> pool_in_use p m" for m
    using q(5) by (auto simp: ring_in_use set_eq_iff)
  have nuse: "\<not> pool_in_use p n" using q(4) by (simp add: ring_in_use)
  have old: "p_id_hash p i = Some m \<longleftrightarrow> pool_in_use p m \<and> p_node_id p m = i" for i m
    using inv by (simp add: id_pool_inv_def)
  have nid: "p_node_id p m \<noteq> ?i" if "pool_in_use p m" for m
    using old[of ?i m] fresh that by auto
  have "id_pool_inv ?p'"
    using inv next_id_range[of "p_id p"] ids q(2) use nuse old nid
    by (auto simp: id_pool_inv_def OGS_MIN_POOL_ID_def)
  moreover have "ogs_pool_id_calloc p = Some (Some n, ?p')"
    using q(1) ids by (simp add: ogs_pool_id_calloc_def Let_def)
  ultimately show ?thesis
    using nuse use ids q(3) by (intro that[of n ?p']) auto
qed

lemma id_pool_free:
  assumes inv: "id_pool_inv p" and iu: "pool_in_use p n"
  obtains p' where "ogs_pool_id_free p n = Some p'" "id_pool_inv p'" "\<not> pool_in_use p' n"
    "p_id_hash p' = (p_id_hash p)(p_node_id p n := None)" "p_avail p' = Suc (p_avail p)"
    "p_size p' = p_size p"
    "\<And>m. m \<noteq> n \<Longrightarrow> pool_in_use p' m = pool_in_use p m \<and> p_node_id p' m = p_node_id p m"
proof -
  let ?i = "p_node_id p n"
  let ?q = "p\<lparr>p_id_hash := (p_id_hash p)(?i := None)\<rparr>"
  from inv have qinv: "pool_inv ?q" by (simp add: id_pool_inv_def)
  moreover from iu have iuq: "pool_in_use ?q n" by simp
  ultimately obtain p' where p': "ogs_pool_free ?q n = Some p'" "pool_inv p'"
      "pool_unused_nodes p' = pool_unused_nodes ?q @ [n]" "p_size p' = p_size ?q"
      "p_avail p' = Suc (p_avail ?q)"
    by (rule pool_free_unused) blast
  note ids = pool_free_keeps_ids[OF p'(1)]
  have old: "p_id_hash p i = Some m \<longleftrightarrow> pool_in_use p m \<and> p_node_id p m = i" for i m
    using inv by (simp add: id_pool_inv_def)
  have inj: "m = n" if "pool_in_use p m" "p_node_id p m = ?i" for m
    using old[of ?i n] old[of ?i m] iu that by simp
  have use: "pool_in_use p' m \<longleftrightarrow> m \<noteq> n \<and> pool_in_use p m" for m
    using p'(3,4) by (auto simp: pool_in_use_def)
  have "p_id_hash p' i = Some m \<longleftrightarrow> pool_in_use p' m \<and> p_node_id p' m = i" for i m
    using use[of m] old[of i m] inj[of m] ids by auto
  then have "id_pool_inv p'"
    unfolding id_pool_inv_def using inv ids p'(2) use by (auto simp: id_pool_inv_def)
  moreover have "ogs_pool_id_free p n = Some p'"
    using inv iu p'(1) by (simp add: ogs_pool_id_free_def id_pool_inv_def)
  ultimately show ?thesis
    using p'(4,5) use ids by (intro that[of p']) auto
qed

text \<open>
  The life of a pool: objects are allocated, and released by the code that holds them.
  The counter is the number of successful allocations so far.
\<close>

inductive pool_reach :: "nat \<Rightarrow> nat \<Rightarrow> ogs_pool \<Rightarrow> bool" for n where
  reach_init: "pool_reach n 0 (ogs_pool_init n)"
| reach_full: "pool_reach n k p \<Longrightarrow> ogs_pool_id_calloc p = Some (None, p') \<Longrightarrow> pool_reach n k p'"
| reach_calloc: "pool_reach n k p \<Longrightarrow> ogs_pool_id_calloc p = Some (Some m, p') \<Longrightarrow>
    pool_reach n (Suc k) p'"
| reach_free: "pool_reach n k p \<Longrightarrow> pool_in_use p m \<Longrightarrow> ogs_pool_id_free p m = Some p' \<Longrightarrow>
    pool_reach n k p'"

lemma id_pool_alloc_None:
  assumes "id_pool_inv p"
  shows "ogs_pool_id_calloc p = Some (None, p') \<longleftrightarrow> p_avail p = 0 \<and> p' = p"
proof -
  from assms have "pool_inv p" by (simp add: id_pool_inv_def)
  then show ?thesis
  proof (cases rule: ring.alloc_cases)
    case exhausted
    then show ?thesis by (auto simp: ogs_pool_id_calloc_def)
  next
    case (node m q)
    then have "pool_unused_nodes p \<noteq> []" by simp
    then show ?thesis using node(1) by (simp add: ogs_pool_id_calloc_def Let_def)
  qed
qed

lemma pool_free_keeps_p_id:
  "ogs_pool_id_free p m = Some p' \<Longrightarrow> p_id p' = p_id p"
  using pool_free_keeps_ids by (fastforce simp: ogs_pool_id_free_def split: if_splits)

lemma fresh_next_id:
  assumes "id_pool_inv p" "p_id p < OGS_MAX_POOL_ID"
    and "\<forall>m. pool_in_use p m \<longrightarrow> p_node_id p m \<le> p_id p"
  shows "next_pool_id p = p_id p + 1" "p_id_hash p (next_pool_id p) = None"
proof -
  show nxt: "next_pool_id p = p_id p + 1" using assms(2) by (simp add: OGS_NEXT_ID_def)
  show "p_id_hash p (next_pool_id p) = None"
  proof (cases "p_id_hash p (next_pool_id p)")
    case (Some m)
    with assms(1) have "pool_in_use p m" "p_node_id p m = p_id p + 1"
      by (simp_all add: id_pool_inv_def nxt)
    with assms(3) show ?thesis by fastforce
  qed
qed

lemma pool_reach_inv:
  assumes "pool_reach n k p" "int k \<le> OGS_MAX_POOL_ID"
  shows "id_pool_inv p \<and> p_id p = int k \<and> p_size p = n \<and>
    (\<forall>m. pool_in_use p m \<longrightarrow> p_node_id p m \<le> p_id p)"
  using assms
proof (induction rule: pool_reach.induct)
  case reach_init
  have "\<not> pool_in_use (ogs_pool_init n) m" for m
    unfolding pool_in_use_def pool_unused_init by (simp add: ogs_pool_init_def)
  then show ?case using id_pool_inv_init[of n] by (simp add: ogs_pool_init_def)
next
  case (reach_full k p p')
  then show ?case by (auto simp: id_pool_alloc_None)
next
  case (reach_calloc k p m p')
  then have inv: "id_pool_inv p" and k: "p_id p = int k" "p_size p = n"
      and le: "\<forall>m. pool_in_use p m \<longrightarrow> p_node_id p m \<le> p_id p" by auto
  from k reach_calloc.prems have "p_id p < OGS_MAX_POOL_ID" by simp
  note fresh = fresh_next_id[OF inv this le]
  have "0 < p_avail p" using reach_calloc.hyps(2) id_pool_alloc_None[OF inv] by auto
  then obtain m2 p2 where 2: "ogs_pool_id_calloc p = Some (Some m2, p2)" "id_pool_inv p2"
      "p_node_id p2 m2 = next_pool_id p" "p_size p2 = p_size p"
      "\<And>m. m \<noteq> m2 \<Longrightarrow> pool_in_use p2 m = pool_in_use p m \<and> p_node_id p2 m = p_node_id p m"
    by (rule id_pool_alloc[OF inv _ fresh(2)]) blast
  have "p_id p2 = next_pool_id p"
    using 2(1) pool_alloc_keeps_ids
    by (fastforce simp: ogs_pool_id_calloc_def Let_def split: option.splits prod.splits)
  moreover have "p' = p2" using 2(1) reach_calloc.hyps(2) by simp
  moreover have "p_node_id p2 m' \<le> p_id p + 1" if "pool_in_use p2 m'" for m'
    using 2(3) 2(5)[of m'] le that fresh(1) by (cases "m' = m2") fastforce+
  ultimately show ?case using 2 k fresh(1) by simp
next
  case (reach_free k p m p')
  then have inv: "id_pool_inv p" by simp
  from reach_free.hyps(3) have "p_id p' = p_id p" by (rule pool_free_keeps_p_id)
  moreover from inv reach_free.hyps(2) obtain p2 where "ogs_pool_id_free p m = Some p2"
      "id_pool_inv p2" "\<not> pool_in_use p2 m" "p_size p2 = p_size p"
      "\<And>m'. m' \<noteq> m \<Longrightarrow> pool_in_use p2 m' = pool_in_use p m' \<and> p_node_id p2 m' = p_node_id p m'"
    by (rule id_pool_free) blast
  ultimately show ?case using reach_free by (metis option.inject)
qed

subsection \<open>Properties\<close>

text \<open>C11. The pool as an allocator: \<open>ogs_pool_alloc\<close> reaches no NULL ring entry, fails only
  when all objects are in use, and otherwise hands out an object that nobody holds, the
  one that has been free longest; \<open>ogs_pool_free\<close> of an object in use makes exactly that
  object available again, as the last one to be reused.\<close>

theorem pool_allocator:
  assumes "pool_inv p"
  shows "(case ogs_pool_alloc p of
      None \<Rightarrow> False
    | Some (None, p') \<Rightarrow> p' = p \<and> (\<forall>n < p_size p. pool_in_use p n)
    | Some (Some n, p') \<Rightarrow> pool_inv p' \<and> \<not> pool_in_use p n \<and> n < p_size p \<and>
        pool_unused_nodes p = n # pool_unused_nodes p' \<and>
        (\<forall>m. pool_in_use p' m \<longleftrightarrow> m = n \<or> pool_in_use p m)) \<and>
    (\<forall>n. pool_in_use p n \<longrightarrow> (\<exists>p'. ogs_pool_free p n = Some p' \<and> pool_inv p' \<and>
        pool_unused_nodes p' = pool_unused_nodes p @ [n] \<and>
        (\<forall>m. pool_in_use p' m \<longleftrightarrow> m \<noteq> n \<and> pool_in_use p m)))"
proof (intro conjI allI impI)
  show "case ogs_pool_alloc p of
      None \<Rightarrow> False
    | Some (None, p') \<Rightarrow> p' = p \<and> (\<forall>n < p_size p. pool_in_use p n)
    | Some (Some n, p') \<Rightarrow> pool_inv p' \<and> \<not> pool_in_use p n \<and> n < p_size p \<and>
        pool_unused_nodes p = n # pool_unused_nodes p' \<and>
        (\<forall>m. pool_in_use p' m \<longleftrightarrow> m = n \<or> pool_in_use p m)"
    using assms
  proof (cases rule: ring.alloc_cases)
    case exhausted
    then show ?thesis by (simp add: ring_in_use) (auto simp: set_eq_iff)
  next
    case (node n p')
    moreover have "n < p_size p" using assms node(4) ring.unused_bound[of p] by auto
    ultimately show ?thesis by (auto simp: ring_in_use set_eq_iff)
  qed
  fix n assume "pool_in_use p n"
  then have "n \<in> ring.in_use p" by (simp add: ring_in_use)
  from assms this show "\<exists>p'. ogs_pool_free p n = Some p' \<and> pool_inv p' \<and>
        pool_unused_nodes p' = pool_unused_nodes p @ [n] \<and>
        (\<forall>m. pool_in_use p' m \<longleftrightarrow> m \<noteq> n \<and> pool_in_use p m)"
    by (rule ring.release_cases) (auto simp: ring_in_use set_eq_iff)
qed

theorem pool_allocator_witness:
  "\<exists>p'. ogs_pool_alloc (ogs_pool_init 2) = Some (Some 0, p') \<and> pool_in_use p' 0"
proof -
  obtain q where q: "ogs_pool_alloc (ogs_pool_init 2) = Some (Some 0, q)"
    by (simp add: ogs_pool_alloc_def ogs_pool_init_def upt_rec)
  with pool_allocator[OF pool_inv_init, of 2] have "pool_in_use q 0" by simp
  with q show ?thesis by blast
qed

text \<open>C12. Identifiers: during the first \<open>OGS_MAX_POOL_ID\<close> allocations of a pool, an
  identifier finds an object exactly when the object is in use and the identifier is the
  one it was given, two objects in use never share an identifier, and the next allocation
  still succeeds unless the pool is full.\<close>

theorem pool_ids_unique:
  assumes reach: "pool_reach n k p" and k: "int k \<le> OGS_MAX_POOL_ID"
  shows "(\<forall>i m. ogs_pool_find_by_id p i = Some m \<longleftrightarrow> pool_in_use p m \<and> p_node_id p m = i) \<and>
    inj_on (p_node_id p) {m. pool_in_use p m} \<and>
    (\<exists>r p'. ogs_pool_id_calloc p = Some (r, p') \<and>
       (r = None \<longleftrightarrow> (\<forall>m < n. pool_in_use p m)))"
proof -
  from pool_reach_inv[OF reach k] have inv: "id_pool_inv p" and n: "p_size p = n" by auto
  then have h: "p_id_hash p i = Some m \<longleftrightarrow> pool_in_use p m \<and> p_node_id p m = i" for i m
    by (simp add: id_pool_inv_def)
  from inv have "pool_inv p" by (simp add: id_pool_inv_def)
  then have "\<exists>r p'. ogs_pool_id_calloc p = Some (r, p') \<and> (r = None \<longleftrightarrow> (\<forall>m < n. pool_in_use p m))"
  proof (cases rule: ring.alloc_cases)
    case exhausted
    then show ?thesis
      unfolding ring_in_use using n by (auto simp: ogs_pool_id_calloc_def set_eq_iff)
  next
    case (node m q)
    then have "m < n" using ring.unused_bound[OF \<open>pool_inv p\<close>] n by auto
    with node show ?thesis by (auto simp: ogs_pool_id_calloc_def Let_def ring_in_use)
  qed
  moreover have "inj_on (p_node_id p) {m. pool_in_use p m}"
    by (rule inj_onI) (metis h mem_Collect_eq option.inject)
  ultimately show ?thesis using h by (simp add: ogs_pool_find_by_id_def)
qed

theorem pool_ids_unique_witness:
  "\<exists>p. pool_reach 3 0 p \<and> (\<exists>r p'. ogs_pool_id_calloc p = Some (r, p') \<and> r \<noteq> None)"
proof -
  have "\<not> pool_in_use (ogs_pool_init 3) 0"
    unfolding pool_in_use_def pool_unused_init by simp
  then show ?thesis
    using pool_ids_unique[of 3 0 "ogs_pool_init 3", OF reach_init] reach_init
    by (fastforce simp: OGS_MAX_POOL_ID_def)
qed

text \<open>Beyond that the guarantee is gone: after the running identifier has wrapped, an
  allocation gives an identifier that an object in use still has, and the hash table then
  finds the new object under it and no longer the old one.\<close>

theorem pool_id_wrap_shadows:
  "\<exists>p p' m. id_pool_inv p \<and> ogs_pool_find_by_id p 1 = Some 0 \<and>
     ogs_pool_id_calloc p = Some (Some m, p') \<and> m \<noteq> 0 \<and>
     pool_in_use p' 0 \<and> p_node_id p' 0 = 1 \<and> ogs_pool_find_by_id p' 1 = Some m"
proof -
  let ?p = "\<lparr>p_head = 1, p_tail = 0, p_size = 2, p_avail = 1, p_free = [None, Some 1],
     p_index = [Some 0, None], p_node_id = (\<lambda>_. 1), p_id_hash = [1 \<mapsto> 0], p_id = OGS_MAX_POOL_ID\<rparr>"
  have un: "pool_unused ?p = [Some 1]" "pool_unused_nodes ?p = [1]"
    by (simp_all add: pool_unused_def pool_unused_nodes_def)
  have use: "pool_in_use ?p m \<longleftrightarrow> m = 0" for m unfolding pool_in_use_def un by auto
  have "pool_inv ?p" unfolding pool_inv_def un by (auto simp: less_Suc_eq numeral_2_eq_2)
  then have inv: "id_pool_inv ?p"
    unfolding id_pool_inv_def use by (auto simp: OGS_MAX_POOL_ID_def OGS_MIN_POOL_ID_def)
  let ?q = "\<lparr>p_head = 0, p_tail = 0, p_size = 2, p_avail = 0, p_free = [None, None],
     p_index = [Some 0, Some 1], p_node_id = (\<lambda>_. 1), p_id_hash = [1 \<mapsto> 1], p_id = 1\<rparr>"
  have "ogs_pool_id_calloc ?p = Some (Some 1, ?q)"
    by (simp add: ogs_pool_id_calloc_def ogs_pool_alloc_def OGS_NEXT_ID_def Let_def fun_eq_iff)
  moreover have "pool_in_use ?q 0"
    by (simp add: pool_in_use_def pool_unused_nodes_def pool_unused_def)
  ultimately show ?thesis
    using inv by (intro exI[of _ ?p] exI[of _ ?q] exI[of _ 1]) (simp add: ogs_pool_find_by_id_def)
qed

end
