(* ===== verification/Ogs_Tlv.thy ===== *)
theory Ogs_Tlv
  imports Ogs_Prelude
begin

unbundle bit_operations_syntax

text \<open>
  The type-length-value layer of \<open>lib/core/ogs-tlv.c\<close>, on which the GTPv1-C, GTPv2-C
  and PFCP messages are built. A chain of \<open>ogs_tlv_t\<close> linked by \<open>next\<close> is a list,
  an \<open>embedded\<close> chain is a list inside its node (NULL is the empty list), and the
  \<open>value\<close> pointer is the bytes that can be read there. The node pool is its capacity
  and its number of unused nodes, the only part of it the layer depends on.

  Shown here: how many bytes a chain needs, that rendering writes exactly those bytes
  and nothing outside the buffer, that parsing inverts rendering, that a parsed block
  is the input it came from, and that no parse leaks a node.
\<close>

subsection \<open>Nodes and their pool\<close>

datatype ogs_tlv_mode =
    OGS_TLV_MODE_T1_L1 | OGS_TLV_MODE_T1_L2 | OGS_TLV_MODE_T1_L2_I1
  | OGS_TLV_MODE_T2_L2 | OGS_TLV_MODE_T1
  | OGS_TLV_MODE_UNSET \<comment> \<open>any other value, in particular the 0 that \<open>memset\<close> leaves\<close>

datatype ogs_tlv = Tlv
  (t_mode: ogs_tlv_mode) (t_type: u32) (t_length: u32) (t_instance: u8) (t_value: bytes)
  (t_embedded: "ogs_tlv list")

record tlv_pool =
  tp_size :: nat
  tp_avail :: nat

definition ogs_tlv_get :: "tlv_pool \<Rightarrow> tlv_pool option" where
  "ogs_tlv_get p = (if tp_avail p > 0 then Some (p\<lparr>tp_avail := tp_avail p - 1\<rparr>) else None)"

definition ogs_tlv_free :: "tlv_pool \<Rightarrow> tlv_pool" where
  "ogs_tlv_free p = (if tp_avail p < tp_size p then p\<lparr>tp_avail := tp_avail p + 1\<rparr> else p)"

fun ogs_tlv_free_all :: "tlv_pool \<Rightarrow> ogs_tlv list \<Rightarrow> tlv_pool" where
  "ogs_tlv_free_all p [] = p"
| "ogs_tlv_free_all p (Tlv m t l i v e # rest) =
     ogs_tlv_free_all (ogs_tlv_free (ogs_tlv_free_all p e)) rest"

definition ogs_tlv_value_8 :: "ogs_tlv \<Rightarrow> u8 option" where
  "ogs_tlv_value_8 tlv = (case t_value tlv of a # _ \<Rightarrow> Some a | _ \<Rightarrow> None)"

definition ogs_tlv_value_16 :: "ogs_tlv \<Rightarrow> u16 option" where
  "ogs_tlv_value_16 tlv =
     (case t_value tlv of
        a # b # _ \<Rightarrow> Some ((push_bit 8 (ucast a) AND 0xff00) OR (ucast b AND 0x00ff))
      | _ \<Rightarrow> None)"

definition ogs_tlv_value_32 :: "ogs_tlv \<Rightarrow> u32 option" where
  "ogs_tlv_value_32 tlv =
     (case t_value tlv of
        a # b # c # d # _ \<Rightarrow>
          Some ((push_bit 24 (ucast a) AND 0xff000000) OR (push_bit 16 (ucast b) AND 0x00ff0000)
             OR (push_bit 8 (ucast c) AND 0x0000ff00) OR (ucast d AND 0x000000ff))
      | _ \<Rightarrow> None)"

subsection \<open>Lengths and counts\<close>

definition tlv_header_length :: "ogs_tlv_mode \<Rightarrow> u32 option" where
  "tlv_header_length m =
     (case m of
        OGS_TLV_MODE_T1_L1 \<Rightarrow> Some 2
      | OGS_TLV_MODE_T1_L2 \<Rightarrow> Some 3
      | OGS_TLV_MODE_T1_L2_I1 \<Rightarrow> Some 4
      | OGS_TLV_MODE_T2_L2 \<Rightarrow> Some 4
      | OGS_TLV_MODE_T1 \<Rightarrow> Some 1
      | OGS_TLV_MODE_UNSET \<Rightarrow> None)"

text \<open>
  \<open>ogs_tlv_calc_length\<close> also stores the computed length in the nodes that have an
  embedded chain, so it returns the chain too. Lengths are \<open>uint32_t\<close> and wrap.
\<close>

fun ogs_tlv_calc_length :: "ogs_tlv list \<Rightarrow> (u32 \<times> ogs_tlv list) option" where
  "ogs_tlv_calc_length [] = Some (0, [])"
| "ogs_tlv_calc_length (Tlv m t l i v e # rest) =
     (case tlv_header_length m of
        None \<Rightarrow> None
      | Some h \<Rightarrow>
          (case (if e = [] then Some (l, []) else ogs_tlv_calc_length e) of
             None \<Rightarrow> None
           | Some (l', e') \<Rightarrow>
               (case ogs_tlv_calc_length rest of
                  None \<Rightarrow> None
                | Some (n, rest') \<Rightarrow> Some (h + l' + n, Tlv m t l' i v e' # rest'))))"

fun ogs_tlv_calc_count :: "ogs_tlv list \<Rightarrow> u32" where
  "ogs_tlv_calc_count [] = 0"
| "ogs_tlv_calc_count (Tlv m t l i v e # rest) =
     (if e \<noteq> [] then ogs_tlv_calc_count e else 1) + ogs_tlv_calc_count rest"

subsection \<open>Building chains\<close>

text \<open>
  \<open>ogs_tlv_add\<close> and \<open>ogs_tlv_embed\<close> append a node to a chain, to the embedded chain
  of a parent. (Both copy the value when the chain was started by \<open>ogs_tlv_copy\<close>,
  which only the unit tests call; that variant is not modelled.) \<open>value\<close> is \<open>None\<close>
  for NULL. The outer \<open>None\<close> is a failed \<open>ogs_assert\<close>.
\<close>

definition ogs_tlv_new :: "ogs_tlv_mode \<Rightarrow> u32 \<Rightarrow> u32 \<Rightarrow> u8 \<Rightarrow> bytes option \<Rightarrow> ogs_tlv" where
  "ogs_tlv_new mode type len inst value =
     Tlv mode type len inst (case value of None \<Rightarrow> [] | Some v \<Rightarrow> v) []"

definition ogs_tlv_add :: "tlv_pool \<Rightarrow> ogs_tlv list \<Rightarrow> ogs_tlv_mode \<Rightarrow> u32 \<Rightarrow> u32 \<Rightarrow> u8
    \<Rightarrow> bytes option \<Rightarrow> (tlv_pool \<times> ogs_tlv list) option" where
  "ogs_tlv_add p chain mode type len inst value =
     (case ogs_tlv_get p of
        None \<Rightarrow> None
      | Some p' \<Rightarrow>
          if len \<noteq> 0 \<and> value = None then None
          else Some (p', chain @ [ogs_tlv_new mode type len inst value]))"

definition ogs_tlv_embed :: "tlv_pool \<Rightarrow> ogs_tlv \<Rightarrow> ogs_tlv_mode \<Rightarrow> u32 \<Rightarrow> u32 \<Rightarrow> u8
    \<Rightarrow> bytes option \<Rightarrow> (tlv_pool \<times> ogs_tlv) option" where
  "ogs_tlv_embed p parent mode type len inst value =
     (case ogs_tlv_get p of
        None \<Rightarrow> None
      | Some p' \<Rightarrow>
          (case parent of Tlv pm pt pl pi pv pe \<Rightarrow>
             Some (p', Tlv pm pt pl pi pv (pe @ [ogs_tlv_new mode type len inst value]))))"

subsection \<open>Rendering\<close>

definition tlv_put_type :: "u32 \<Rightarrow> ogs_tlv_mode \<Rightarrow> bytes option" where
  "tlv_put_type type mode =
     (case mode of
        OGS_TLV_MODE_T1_L1 \<Rightarrow> Some [ucast (type AND 0xFF)]
      | OGS_TLV_MODE_T1_L2 \<Rightarrow> Some [ucast (type AND 0xFF)]
      | OGS_TLV_MODE_T1_L2_I1 \<Rightarrow> Some [ucast (type AND 0xFF)]
      | OGS_TLV_MODE_T1 \<Rightarrow> Some [ucast (type AND 0xFF)]
      | OGS_TLV_MODE_T2_L2 \<Rightarrow> Some [ucast (drop_bit 8 type AND 0xFF), ucast (type AND 0xFF)]
      | OGS_TLV_MODE_UNSET \<Rightarrow> None)"

definition tlv_put_length :: "u32 \<Rightarrow> ogs_tlv_mode \<Rightarrow> bytes option" where
  "tlv_put_length len mode =
     (case mode of
        OGS_TLV_MODE_T1_L1 \<Rightarrow> Some [ucast (len AND 0xFF)]
      | OGS_TLV_MODE_T1_L2 \<Rightarrow> Some [ucast (drop_bit 8 len AND 0xFF), ucast (len AND 0xFF)]
      | OGS_TLV_MODE_T1_L2_I1 \<Rightarrow> Some [ucast (drop_bit 8 len AND 0xFF), ucast (len AND 0xFF)]
      | OGS_TLV_MODE_T2_L2 \<Rightarrow> Some [ucast (drop_bit 8 len AND 0xFF), ucast (len AND 0xFF)]
      | OGS_TLV_MODE_T1 \<Rightarrow> Some []
      | OGS_TLV_MODE_UNSET \<Rightarrow> None)"

definition tlv_put_instance :: "u8 \<Rightarrow> ogs_tlv_mode \<Rightarrow> bytes" where
  "tlv_put_instance inst mode =
     (case mode of OGS_TLV_MODE_T1_L2_I1 \<Rightarrow> [inst AND 0xFF] | _ \<Rightarrow> [])"

text \<open>
  \<open>ogs_tlv_render\<close> with \<open>data\<close> at offset \<open>blk\<close> of the buffer: the new buffer and the
  final \<open>pos\<close>; the value the C function returns is \<open>pos - blk\<close>. \<open>None\<close> stands for
  the assertion on the length, for a mode outside the enumeration, for a write outside
  the buffer and for a read past the end of a value. The recursive call is given the
  chain before \<open>ogs_tlv_calc_length\<close> has filled in the lengths of the nodes that have
  children; the renderer never reads those.
\<close>

fun ogs_tlv_render :: "ogs_tlv list \<Rightarrow> bytes \<Rightarrow> nat \<Rightarrow> nat \<Rightarrow> u32 \<Rightarrow> (bytes \<times> nat) option" where
  "ogs_tlv_render [] buf blk pos len = Some (buf, pos)"
| "ogs_tlv_render (Tlv m t l i v e # rest) buf blk pos len =
     Option.bind (tlv_put_type t m) (\<lambda>tb.
     Option.bind (poke buf pos tb) (\<lambda>buf1.
     let pos1 = pos + length tb in
     if e = [] then
       Option.bind (tlv_put_length l m) (\<lambda>lb.
       Option.bind (poke buf1 pos1 lb) (\<lambda>buf2.
       let pos2 = pos1 + length lb; ib = tlv_put_instance i m in
       Option.bind (poke buf2 pos2 ib) (\<lambda>buf3.
       let pos3 = pos2 + length ib in
       if (pos3 - blk) + unat l > unat len then None
       else if length v < unat l then None
       else Option.bind (poke buf3 pos3 (take (unat l) v)) (\<lambda>buf4.
         ogs_tlv_render rest buf4 blk (pos3 + unat l) len))))
     else
       Option.bind (ogs_tlv_calc_length e) (\<lambda>(el, e').
       Option.bind (tlv_put_length el m) (\<lambda>lb.
       Option.bind (poke buf1 pos1 lb) (\<lambda>buf2.
       let pos2 = pos1 + length lb; ib = tlv_put_instance i m in
       Option.bind (poke buf2 pos2 ib) (\<lambda>buf3.
       let pos3 = pos2 + length ib in
       Option.bind (ogs_tlv_render e buf3 pos3 pos3 (len - of_nat (pos3 - blk))) (\<lambda>(buf4, _).
         ogs_tlv_render rest buf4 blk (pos3 + unat el) len)))))))"

subsection \<open>Parsing\<close>

text \<open>
  \<open>tlv_get_element\<close> on the \<open>size\<close> bytes left: the node and the bytes behind it.
  The outer \<open>None\<close> is \<open>ogs_assert_if_reached\<close>, the inner one the returned NULL.
  \<open>tlv_get_element_fixed\<close> leaves the mode of the node as \<open>ogs_tlv_get\<close> cleared it.
\<close>

definition tlv_take_value :: "ogs_tlv_mode \<Rightarrow> u32 \<Rightarrow> u32 \<Rightarrow> u8 \<Rightarrow> bytes \<Rightarrow> (ogs_tlv \<times> bytes) option" where
  "tlv_take_value m t l i rest =
     (if unat l > length rest then None
      else Some (Tlv m t l i (take (unat l) rest) [], drop (unat l) rest))"

definition tlv_get_element :: "bytes \<Rightarrow> ogs_tlv_mode \<Rightarrow> (ogs_tlv \<times> bytes) option option" where
  "tlv_get_element blk mode =
     (case mode of
        OGS_TLV_MODE_T1_L1 \<Rightarrow>
          Some (case blk of
             a # b # rest \<Rightarrow> tlv_take_value mode (ucast a) (ucast b) 0 rest
           | _ \<Rightarrow> None)
      | OGS_TLV_MODE_T1_L2 \<Rightarrow>
          Some (case blk of
             a # b # c # rest \<Rightarrow>
               tlv_take_value mode (ucast a) (push_bit 8 (ucast b) + ucast c) 0 rest
           | _ \<Rightarrow> None)
      | OGS_TLV_MODE_T1_L2_I1 \<Rightarrow>
          Some (case blk of
             a # b # c # d # rest \<Rightarrow>
               tlv_take_value mode (ucast a) (push_bit 8 (ucast b) + ucast c) (d AND 0x0F) rest
           | _ \<Rightarrow> None)
      | OGS_TLV_MODE_T2_L2 \<Rightarrow>
          Some (case blk of
             a # b # c # d # rest \<Rightarrow>
               tlv_take_value mode (push_bit 8 (ucast a) + ucast b)
                 (push_bit 8 (ucast c) + ucast d) 0 rest
           | _ \<Rightarrow> None)
      | OGS_TLV_MODE_T1 \<Rightarrow>
          Some (case blk of a # rest \<Rightarrow> tlv_take_value mode (ucast a) 0 0 rest | _ \<Rightarrow> None)
      | OGS_TLV_MODE_UNSET \<Rightarrow> None)"

definition tlv_get_element_fixed :: "bytes \<Rightarrow> ogs_tlv_mode \<Rightarrow> u32 \<Rightarrow> (ogs_tlv \<times> bytes) option option" where
  "tlv_get_element_fixed blk mode fixed_length =
     (case mode of
        OGS_TLV_MODE_T1 \<Rightarrow>
          Some (case blk of
             a # rest \<Rightarrow> tlv_take_value OGS_TLV_MODE_UNSET (ucast a) fixed_length 0 rest
           | _ \<Rightarrow> None)
      | _ \<Rightarrow> None)"

lemma tlv_take_value_Some:
  "tlv_take_value m t l i rest = Some (tlv, bs) \<Longrightarrow>
     tlv = Tlv m t l i (take (unat l) rest) [] \<and> bs = drop (unat l) rest \<and> unat l \<le> length rest"
  by (auto simp: tlv_take_value_def split: if_splits)

lemma tlv_get_element_shorter:
  "tlv_get_element blk mode = Some (Some (tlv, bs)) \<Longrightarrow> length bs < length blk"
  by (cases mode)
    (auto simp: tlv_get_element_def split: list.splits dest!: tlv_take_value_Some)

text \<open>
  The loop of \<open>ogs_tlv_parse_block\<close> after its first element: \<open>acc\<close> is the chain so
  far (its last node first). A failure releases the chain and the node just taken. The
  final comparison of \<open>length\<close> with \<open>pos - blk\<close> cannot fail, since
  \<open>tlv_get_element\<close> never passes the end.
\<close>

function tlv_parse_loop :: "tlv_pool \<Rightarrow> ogs_tlv list \<Rightarrow> bytes \<Rightarrow> ogs_tlv_mode
    \<Rightarrow> (tlv_pool \<times> ogs_tlv list option) option" where
  "tlv_parse_loop p acc bs mode =
     (if bs = [] then Some (p, Some (rev acc))
      else
        (case ogs_tlv_get p of
           None \<Rightarrow> Some (ogs_tlv_free_all p (rev acc), None)
         | Some p' \<Rightarrow>
             (case tlv_get_element bs mode of
                None \<Rightarrow> None
              | Some None \<Rightarrow> Some (ogs_tlv_free (ogs_tlv_free_all p' (rev acc)), None)
              | Some (Some (tlv, rest)) \<Rightarrow> tlv_parse_loop p' (tlv # acc) rest mode)))"
  by pat_completeness auto
termination
  by (relation "measure (\<lambda>(p, acc, bs, mode). length bs)") (auto dest: tlv_get_element_shorter)

declare tlv_parse_loop.simps [simp del]

definition ogs_tlv_parse_block :: "tlv_pool \<Rightarrow> bytes \<Rightarrow> ogs_tlv_mode
    \<Rightarrow> (tlv_pool \<times> ogs_tlv list option) option" where
  "ogs_tlv_parse_block p data mode =
     (case ogs_tlv_get p of
        None \<Rightarrow> Some (p, None)
      | Some p' \<Rightarrow>
          (case tlv_get_element data mode of
             None \<Rightarrow> None
           | Some None \<Rightarrow> Some (ogs_tlv_free p', None)
           | Some (Some (tlv, rest)) \<Rightarrow> tlv_parse_loop p' [tlv] rest mode))"

definition ogs_tlv_parse_embedded_block :: "tlv_pool \<Rightarrow> ogs_tlv \<Rightarrow> ogs_tlv_mode
    \<Rightarrow> (tlv_pool \<times> ogs_tlv option) option" where
  "ogs_tlv_parse_embedded_block p tlv mode =
     (case ogs_tlv_parse_block p (take (unat (t_length tlv)) (t_value tlv)) mode of
        None \<Rightarrow> None
      | Some (p', None) \<Rightarrow> Some (p', None)
      | Some (p', Some e) \<Rightarrow>
          Some (p', Some (Tlv (t_mode tlv) (t_type tlv) (t_length tlv) (t_instance tlv)
            (t_value tlv) e)))"

fun ogs_tlv_find :: "ogs_tlv list \<Rightarrow> u32 \<Rightarrow> ogs_tlv option" where
  "ogs_tlv_find [] type = None"
| "ogs_tlv_find (Tlv m t l i v e # rest) type =
     (if t = type then Some (Tlv m t l i v e)
      else
        (case (if e \<noteq> [] then ogs_tlv_find e type else None) of
           Some x \<Rightarrow> Some x
         | None \<Rightarrow> ogs_tlv_find rest type))"

subsection \<open>The bytes a chain stands for\<close>

text \<open>The specification of the encoding: header and value of each node, in order.\<close>

definition hdr_size :: "ogs_tlv_mode \<Rightarrow> nat" where
  "hdr_size m = (case tlv_header_length m of None \<Rightarrow> 0 | Some h \<Rightarrow> unat h)"

definition tlv_header :: "ogs_tlv_mode \<Rightarrow> u32 \<Rightarrow> u32 \<Rightarrow> u8 \<Rightarrow> bytes" where
  "tlv_header m t l i = the (tlv_put_type t m) @ the (tlv_put_length l m) @ tlv_put_instance i m"

fun tlv_size :: "ogs_tlv list \<Rightarrow> nat" where
  "tlv_size [] = 0"
| "tlv_size (Tlv m t l i v e # rest) =
     hdr_size m + (if e = [] then unat l else tlv_size e) + tlv_size rest"

fun tlv_bytes :: "ogs_tlv list \<Rightarrow> bytes" where
  "tlv_bytes [] = []"
| "tlv_bytes (Tlv m t l i v e # rest) =
     (if e = [] then tlv_header m t l i @ take (unat l) v
      else tlv_header m t (of_nat (tlv_size e)) i @ tlv_bytes e) @ tlv_bytes rest"

text \<open>Renderable chains: known modes, and values as long as their length field says.\<close>

fun tlv_ok :: "ogs_tlv list \<Rightarrow> bool" where
  "tlv_ok [] = True"
| "tlv_ok (Tlv m t l i v e # rest) =
     (m \<noteq> OGS_TLV_MODE_UNSET \<and> (if e = [] then unat l \<le> length v else tlv_ok e) \<and> tlv_ok rest)"

fun tlv_nodes :: "ogs_tlv list \<Rightarrow> nat" where
  "tlv_nodes [] = 0"
| "tlv_nodes (Tlv m t l i v e # rest) = Suc (tlv_nodes e) + tlv_nodes rest"

lemmas tlv_put_defs = tlv_put_type_def tlv_put_length_def tlv_put_instance_def

lemma hdr_size_simps [simp]:
  "hdr_size OGS_TLV_MODE_T1_L1 = 2" "hdr_size OGS_TLV_MODE_T1_L2 = 3"
  "hdr_size OGS_TLV_MODE_T1_L2_I1 = 4" "hdr_size OGS_TLV_MODE_T2_L2 = 4"
  "hdr_size OGS_TLV_MODE_T1 = 1"
  by (simp_all add: hdr_size_def tlv_header_length_def)

lemma tlv_header_length_Some:
  "m \<noteq> OGS_TLV_MODE_UNSET \<Longrightarrow> tlv_header_length m = Some (of_nat (hdr_size m))"
  by (cases m) (simp_all add: tlv_header_length_def)

lemma tlv_put_Some:
  assumes "m \<noteq> OGS_TLV_MODE_UNSET"
  obtains tb lb where "tlv_put_type t m = Some tb" "tlv_put_length l m = Some lb"
    "tlv_header m t l i = tb @ lb @ tlv_put_instance i m"
    "length tb + length lb + length (tlv_put_instance i m) = hdr_size m"
  using assms by (cases m) (auto simp: tlv_put_defs tlv_header_def)

lemma length_tlv_header [simp]: "m \<noteq> OGS_TLV_MODE_UNSET \<Longrightarrow> length (tlv_header m t l i) = hdr_size m"
  by (cases m) (auto simp: tlv_put_defs tlv_header_def)

lemma length_tlv_bytes [simp]: "tlv_ok ts \<Longrightarrow> length (tlv_bytes ts) = tlv_size ts"
  by (induction ts rule: tlv_bytes.induct) (auto split: if_splits)

text \<open>\<open>ogs_tlv_calc_length\<close> computes the size modulo \<open>2\<^sup>3\<^sup>2\<close>.\<close>

lemma calc_length_size:
  "tlv_ok ts \<Longrightarrow> \<exists>ts'. ogs_tlv_calc_length ts = Some (of_nat (tlv_size ts), ts') \<and> (ts' = [] \<longleftrightarrow> ts = [])"
proof (induction ts rule: ogs_tlv_calc_count.induct)
  case 1
  show ?case by simp
next
  case (2 m t l i v e rest)
  from "2.prems" obtain rest' where
    r: "ogs_tlv_calc_length rest = Some (of_nat (tlv_size rest), rest')"
    using "2.IH"(2) by auto
  have m: "m \<noteq> OGS_TLV_MODE_UNSET" using "2.prems" by simp
  show ?case
  proof (cases "e = []")
    case True
    with r m show ?thesis by (simp add: tlv_header_length_Some)
  next
    case False
    with "2.prems" "2.IH"(1) obtain e' where
      "ogs_tlv_calc_length e = Some (of_nat (tlv_size e), e')" by auto
    with False r m show ?thesis by (simp add: tlv_header_length_Some)
  qed
qed

lemma render_overlay:
  "tlv_ok ts \<Longrightarrow> tlv_size ts < 2 ^ 32 \<Longrightarrow> pos + tlv_size ts \<le> length buf \<Longrightarrow> blk \<le> pos \<Longrightarrow>
     (pos - blk) + tlv_size ts \<le> unat len \<Longrightarrow>
     ogs_tlv_render ts buf blk pos len = Some (overlay buf pos (tlv_bytes ts), pos + tlv_size ts)"
proof (induction ts arbitrary: buf blk pos len rule: ogs_tlv_calc_count.induct)
  case 1
  then show ?case by simp
next
  case (2 m t l i v e rest)
  have m: "m \<noteq> OGS_TLV_MODE_UNSET" using "2.prems" by simp
  let ?len = "if e = [] then l else of_nat (tlv_size e)"
  from m obtain tb lb where puts: "tlv_put_type t m = Some tb" "tlv_put_length ?len m = Some lb"
      "tlv_header m t ?len i = tb @ lb @ tlv_put_instance i m"
      "length tb + length lb + length (tlv_put_instance i m) = hdr_size m"
    by (rule tlv_put_Some[where l = ?len])
  let ?buf3 = "overlay buf pos (tlv_header m t ?len i)"
  let ?pos3 = "pos + hdr_size m"
  have pos3: "pos + length tb + length lb + length (tlv_put_instance i m) = ?pos3"
    using puts(4) by simp
  have fits: "pos + hdr_size m \<le> length buf" using "2.prems" by simp
  have p1: "poke buf pos tb = Some (overlay buf pos tb)"
    using fits puts(4) by (simp add: poke_overlay)
  have p2: "poke (overlay buf pos tb) (pos + length tb) lb = Some (overlay buf pos (tb @ lb))"
    using fits puts(4) by (simp add: poke_overlay overlay_append)
  have p3: "poke (overlay buf pos (tb @ lb)) (pos + length tb + length lb) (tlv_put_instance i m)
      = Some ?buf3"
    using fits puts(3,4) overlay_append[of pos "tb @ lb" buf "tlv_put_instance i m"]
    by (simp add: poke_overlay add.assoc)
  show ?case
  proof (cases "e = []")
    case True
    let ?v = "take (unat l) v"
    have lv: "length ?v = unat l" using "2.prems" True by simp
    have p4: "poke ?buf3 ?pos3 ?v = Some (overlay buf pos (tlv_header m t l i @ ?v))"
      using "2.prems" True lv overlay_append[of pos "tlv_header m t l i" buf ?v] m
      by (simp add: poke_overlay)
    have rest: "ogs_tlv_render rest (overlay buf pos (tlv_header m t l i @ ?v)) blk (?pos3 + unat l) len
        = Some (overlay buf pos (tlv_bytes (Tlv m t l i v e # rest)), ?pos3 + unat l + tlv_size rest)"
      using "2.prems" True lv m
        overlay_append[of pos "tlv_header m t l i @ ?v" buf "tlv_bytes rest"]
      by (subst "2.IH"(2)) (auto simp: add.assoc)
    show ?thesis
      using puts p1 p2 p3 p4 rest pos3 "2.prems" True by (simp add: Let_def add.assoc)
  next
    case False
    have ne: "tlv_size e < 2 ^ 32" and ok: "tlv_ok e" using "2.prems" False by auto
    obtain e' where calc: "ogs_tlv_calc_length e = Some (of_nat (tlv_size e), e')"
      using calc_length_size[OF ok] by blast
    have un: "unat (of_nat (tlv_size e) :: u32) = tlv_size e"
      using ne by (rule unat_of_nat_u32)
    have le: "?pos3 - blk \<le> unat len" using "2.prems" by simp
    then have sub: "unat (len - of_nat (?pos3 - blk)) = unat len - (?pos3 - blk)"
      using unsigned_less[of len, where 'a = nat]
      by (subst unat_sub) (simp_all add: word_le_nat_alt unat_of_nat_u32)
    have emb: "ogs_tlv_render e ?buf3 ?pos3 ?pos3 (len - of_nat (?pos3 - blk))
        = Some (overlay buf pos (tlv_header m t ?len i @ tlv_bytes e), ?pos3 + tlv_size e)"
      using "2.prems" False ok ne m sub
        overlay_append[of pos "tlv_header m t ?len i" buf "tlv_bytes e"]
      by (subst "2.IH"(1)) auto
    have rest: "ogs_tlv_render rest (overlay buf pos (tlv_header m t ?len i @ tlv_bytes e)) blk
          (?pos3 + tlv_size e) len
        = Some (overlay buf pos (tlv_bytes (Tlv m t l i v e # rest)), pos + tlv_size (Tlv m t l i v e # rest))"
      using "2.prems" False ok m
        overlay_append[of pos "tlv_header m t ?len i @ tlv_bytes e" buf "tlv_bytes rest"]
      by (subst "2.IH"(2)) (auto simp: add.assoc)
    show ?thesis
      using puts(1,2) p1 p2 p3 emb rest calc un False by (simp add: Let_def pos3)
  qed
qed

subsection \<open>Parsing inverts rendering\<close>

text \<open>
  The elements a mode can carry: the fields fit the widths of the header, the value has
  the announced length, and nothing is nested yet (compound elements are parsed by a
  second call on their value).
\<close>

fun tlv_elem_ok :: "ogs_tlv_mode \<Rightarrow> ogs_tlv \<Rightarrow> bool" where
  "tlv_elem_ok mode (Tlv m t l i v e) \<longleftrightarrow>
     m = mode \<and> e = [] \<and> unat l = length v \<and>
     (case mode of
        OGS_TLV_MODE_T1_L1 \<Rightarrow> unat t < 256 \<and> unat l < 256 \<and> i = 0
      | OGS_TLV_MODE_T1_L2 \<Rightarrow> unat t < 256 \<and> unat l < 65536 \<and> i = 0
      | OGS_TLV_MODE_T1_L2_I1 \<Rightarrow> unat t < 256 \<and> unat l < 65536 \<and> i AND 0x0F = i
      | OGS_TLV_MODE_T2_L2 \<Rightarrow> unat t < 65536 \<and> unat l < 65536 \<and> i = 0
      | OGS_TLV_MODE_T1 \<Rightarrow> unat t < 256 \<and> l = 0 \<and> i = 0
      | OGS_TLV_MODE_UNSET \<Rightarrow> False)"

lemma get_element_bytes:
  assumes "tlv_elem_ok mode x"
  shows "tlv_get_element (tlv_bytes [x] @ rest) mode = Some (Some (x, rest))"
proof (cases x)
  case (Tlv m t l i v e)
  with assms show ?thesis
    by (cases mode)
      (auto simp: tlv_get_element_def tlv_header_def tlv_put_defs tlv_take_value_def
         ucast_ucast_byte be16_join)
qed

lemma tlv_bytes_Cons: "tlv_bytes (x # xs) = tlv_bytes [x] @ tlv_bytes xs"
  by (cases x) simp

lemma tlv_bytes_append: "tlv_bytes (xs @ ys) = tlv_bytes xs @ tlv_bytes ys"
  by (induction xs) (simp, metis append_Cons append_assoc tlv_bytes_Cons)

lemma tlv_bytes_elem_nonempty: "tlv_elem_ok mode x \<Longrightarrow> tlv_bytes [x] \<noteq> []"
  by (cases x; cases mode) (auto simp: tlv_header_def tlv_put_defs)

lemma get_element_sound:
  assumes "tlv_get_element bs mode = Some (Some (x, rest))"
  shows "tlv_elem_ok mode x" and "length bs = length (tlv_bytes [x]) + length rest"
    and "mode \<noteq> OGS_TLV_MODE_T1_L2_I1 \<Longrightarrow> bs = tlv_bytes [x] @ rest"
proof -
  have hdr: "tlv_elem_ok mode x \<and> length bs = length (tlv_bytes [x]) + length rest \<and>
      (mode \<noteq> OGS_TLV_MODE_T1_L2_I1 \<longrightarrow> bs = tlv_bytes [x] @ rest)"
    using assms
    by (cases mode)
      (auto simp: tlv_get_element_def tlv_header_def tlv_put_defs min_def be16_bound be16_split
         and.assoc unat_byte_lt
       split: list.splits dest!: tlv_take_value_Some)
  then show "tlv_elem_ok mode x" and "length bs = length (tlv_bytes [x]) + length rest"
    and "mode \<noteq> OGS_TLV_MODE_T1_L2_I1 \<Longrightarrow> bs = tlv_bytes [x] @ rest" by blast+
qed

subsection \<open>The pool across a parse\<close>

abbreviation pool_take :: "tlv_pool \<Rightarrow> nat \<Rightarrow> tlv_pool" where
  "pool_take p n \<equiv> p\<lparr>tp_avail := tp_avail p - n\<rparr>"

definition tlv_pool_ok :: "tlv_pool \<Rightarrow> bool" where
  "tlv_pool_ok p \<longleftrightarrow> tp_avail p \<le> tp_size p"

lemma free_all_avail:
  "tlv_pool_ok p \<Longrightarrow>
     ogs_tlv_free_all p ts = p\<lparr>tp_avail := min (tp_size p) (tp_avail p + tlv_nodes ts)\<rparr>"
proof (induction p ts rule: ogs_tlv_free_all.induct)
  case (1 p)
  then show ?case by (simp add: tlv_pool_ok_def min_def)
next
  case (2 p m t l i v e rest)
  let ?q = "ogs_tlv_free (ogs_tlv_free_all p e)"
  have q: "?q = p\<lparr>tp_avail := min (tp_size p) (tp_avail p + Suc (tlv_nodes e))\<rparr>"
    using "2.IH"(1)[OF "2.prems"] by (auto simp: ogs_tlv_free_def min_def)
  then have "tlv_pool_ok ?q" by (simp add: tlv_pool_ok_def)
  from "2.IH"(2)[OF this] q show ?case by (simp add: min_def)
qed

lemma tlv_nodes_flat: "list_all (tlv_elem_ok mode) ts \<Longrightarrow> tlv_nodes ts = length ts"
proof (induction ts)
  case (Cons x xs)
  then show ?case by (cases x) simp
qed simp

lemma parse_loop_complete:
  assumes "list_all (tlv_elem_ok mode) ts" "length ts \<le> tp_avail p"
  shows "tlv_parse_loop p acc (tlv_bytes ts) mode
    = Some (pool_take p (length ts), Some (rev acc @ ts))"
  using assms
proof (induction ts arbitrary: p acc)
  case Nil
  then show ?case by (simp add: tlv_parse_loop.simps)
next
  case (Cons x xs)
  have ne: "tlv_bytes (x # xs) \<noteq> []"
    using tlv_bytes_elem_nonempty[of mode x] Cons.prems by (simp add: tlv_bytes_Cons[of x xs])
  have get: "tlv_get_element (tlv_bytes (x # xs)) mode = Some (Some (x, tlv_bytes xs))"
    using Cons.prems by (simp add: tlv_bytes_Cons[of x xs] get_element_bytes)
  have pool: "ogs_tlv_get p = Some (pool_take p 1)"
    using Cons.prems by (simp add: ogs_tlv_get_def)
  have "tlv_parse_loop (pool_take p 1) (x # acc) (tlv_bytes xs) mode
      = Some (pool_take (pool_take p 1) (length xs), Some (rev (x # acc) @ xs))"
    using Cons.prems by (intro Cons.IH) auto
  with ne get pool show ?case by (subst tlv_parse_loop.simps) simp
qed

text \<open>
  Whatever the loop returns, the nodes it holds are exactly those missing from the pool,
  and on success the elements account for every byte of the input.
\<close>

lemma parse_loop_sound:
  assumes "tlv_parse_loop p acc bs mode = Some (p', r)" "tlv_pool_ok p"
    "list_all (tlv_elem_ok mode) acc" "tp_avail p + length acc \<le> tp_size p"
  shows "case r of
      None \<Rightarrow> p' = p\<lparr>tp_avail := tp_avail p + length acc\<rparr>
    | Some ts \<Rightarrow> \<exists>xs. ts = rev acc @ xs \<and> list_all (tlv_elem_ok mode) xs \<and>
        length xs \<le> tp_avail p \<and> p' = pool_take p (length xs) \<and>
        length (tlv_bytes xs) = length bs \<and>
        (mode \<noteq> OGS_TLV_MODE_T1_L2_I1 \<longrightarrow> tlv_bytes xs = bs)"
  using assms
proof (induction p acc bs mode rule: tlv_parse_loop.induct)
  case (1 p acc bs mode)
  have na: "tlv_nodes (rev acc) = length acc"
    using "1.prems"(3) tlv_nodes_flat[of mode "rev acc"] by (simp add: list.pred_set)
  show ?case
  proof (cases "bs = []")
    case True
    with "1.prems" show ?thesis by (auto simp: tlv_parse_loop.simps)
  next
    case ne: False
    show ?thesis
    proof (cases "ogs_tlv_get p")
      case None
      with ne "1.prems" na show ?thesis
        by (auto simp: tlv_parse_loop.simps free_all_avail)
    next
      case (Some q)
      then have q: "q = pool_take p 1" "0 < tp_avail p"
        by (auto simp: ogs_tlv_get_def split: if_splits)
      from "1.prems"(2) q have qok: "tlv_pool_ok q" by (simp add: tlv_pool_ok_def)
      from "1.prems"(1) ne Some obtain g where g: "tlv_get_element bs mode = Some g"
        by (auto simp: tlv_parse_loop.simps[of p acc bs mode] split: option.splits)
      show ?thesis
      proof (cases g)
        case None
        with "1.prems" ne Some g na q qok show ?thesis
          by (auto simp: tlv_parse_loop.simps[of p acc bs mode] free_all_avail ogs_tlv_free_def)
      next
        case (Some xr)
        obtain x rest where xr: "xr = (x, rest)" by (cases xr)
        with g Some have gx: "tlv_get_element bs mode = Some (Some (x, rest))" by simp
        note snd = get_element_sound[OF gx]
        from "1.prems"(1) ne \<open>ogs_tlv_get p = Some q\<close> gx
        have run: "tlv_parse_loop q (x # acc) rest mode = Some (p', r)"
          by (simp add: tlv_parse_loop.simps[of p acc bs mode])
        have res: "case r of
            None \<Rightarrow> p' = q\<lparr>tp_avail := tp_avail q + length (x # acc)\<rparr>
          | Some ts \<Rightarrow> \<exists>xs. ts = rev (x # acc) @ xs \<and> list_all (tlv_elem_ok mode) xs \<and>
              length xs \<le> tp_avail q \<and> p' = pool_take q (length xs) \<and>
              length (tlv_bytes xs) = length rest \<and>
              (mode \<noteq> OGS_TLV_MODE_T1_L2_I1 \<longrightarrow> tlv_bytes xs = rest)"
          using "1.IH"[OF ne \<open>ogs_tlv_get p = Some q\<close> g Some xr[symmetric] run qok] "1.prems"(3,4) snd(1) q
          by simp
        show ?thesis
        proof (cases r)
          case None
          with res q show ?thesis by simp
        next
          case (Some ts)
          with res obtain xs where xs: "ts = rev (x # acc) @ xs"
            "list_all (tlv_elem_ok mode) xs" "length xs \<le> tp_avail q" "p' = pool_take q (length xs)"
            "length (tlv_bytes xs) = length rest"
            "mode \<noteq> OGS_TLV_MODE_T1_L2_I1 \<longrightarrow> tlv_bytes xs = rest" by auto
          with q snd Some show ?thesis
            by (auto simp: tlv_bytes_Cons[of x xs] intro!: exI[of _ "x # xs"])
        qed
      qed
    qed
  qed
qed

lemma get_element_total: "mode \<noteq> OGS_TLV_MODE_UNSET \<Longrightarrow> \<exists>r. tlv_get_element bs mode = Some r"
  by (cases mode) (simp_all add: tlv_get_element_def)

lemma parse_loop_total:
  "mode \<noteq> OGS_TLV_MODE_UNSET \<Longrightarrow> \<exists>r. tlv_parse_loop p acc bs mode = Some r"
proof (induction p acc bs mode rule: tlv_parse_loop.induct)
  case (1 p acc bs mode)
  obtain g where "tlv_get_element bs mode = Some g"
    using get_element_total[OF "1.prems"] by blast
  then show ?case
    using "1.IH" "1.prems"
    by (subst tlv_parse_loop.simps) (auto split: option.splits prod.splits)
qed

lemma parse_block_total:
  "mode \<noteq> OGS_TLV_MODE_UNSET \<Longrightarrow> \<exists>r. ogs_tlv_parse_block p data mode = Some r"
  using get_element_total[of mode data] parse_loop_total[of mode]
  by (auto simp: ogs_tlv_parse_block_def split: option.splits prod.splits)

lemma parse_block_sound:
  assumes parse: "ogs_tlv_parse_block p data mode = Some (p', r)" and ok: "tlv_pool_ok p"
  shows "case r of
      None \<Rightarrow> p' = p
    | Some ts \<Rightarrow> ts \<noteq> [] \<and> list_all (tlv_elem_ok mode) ts \<and> length ts \<le> tp_avail p \<and>
        p' = pool_take p (length ts) \<and> length (tlv_bytes ts) = length data \<and>
        (mode \<noteq> OGS_TLV_MODE_T1_L2_I1 \<longrightarrow> tlv_bytes ts = data)"
proof (cases "ogs_tlv_get p")
  case None
  with parse show ?thesis by (simp add: ogs_tlv_parse_block_def)
next
  case (Some q)
  then have q: "q = pool_take p 1" "0 < tp_avail p"
    by (auto simp: ogs_tlv_get_def split: if_splits)
  from parse Some obtain g where g: "tlv_get_element data mode = Some g"
    by (auto simp: ogs_tlv_parse_block_def split: option.splits)
  show ?thesis
  proof (cases g)
    case None
    with parse Some g q ok show ?thesis
      by (simp add: ogs_tlv_parse_block_def ogs_tlv_free_def tlv_pool_ok_def split: if_splits)
  next
    case (Some xr)
    obtain x rest where xr: "xr = (x, rest)" by (cases xr)
    with g Some have gx: "tlv_get_element data mode = Some (Some (x, rest))" by simp
    note elem = get_element_sound[OF gx]
    from parse \<open>ogs_tlv_get p = Some q\<close> gx
    have run: "tlv_parse_loop q [x] rest mode = Some (p', r)"
      by (simp add: ogs_tlv_parse_block_def)
    have "tlv_pool_ok q" "tp_avail q + length [x] \<le> tp_size q"
      using q ok by (simp_all add: tlv_pool_ok_def)
    note res = parse_loop_sound[OF run this(1) _ this(2)]
    show ?thesis
    proof (cases r)
      case None
      with res elem(1) q show ?thesis by simp
    next
      case (Some ts)
      with res elem(1) obtain xs where "ts = [x] @ xs" "list_all (tlv_elem_ok mode) xs"
        "length xs \<le> tp_avail q" "p' = pool_take q (length xs)"
        "length (tlv_bytes xs) = length rest"
        "mode \<noteq> OGS_TLV_MODE_T1_L2_I1 \<longrightarrow> tlv_bytes xs = rest" by auto
      with q elem Some show ?thesis by (auto simp: tlv_bytes_Cons[of x xs])
    qed
  qed
qed

lemma parse_block_complete:
  assumes "list_all (tlv_elem_ok mode) ts" "ts \<noteq> []" "length ts \<le> tp_avail p"
  shows "ogs_tlv_parse_block p (tlv_bytes ts) mode = Some (pool_take p (length ts), Some ts)"
proof -
  obtain x xs where ts: "ts = x # xs" using assms(2) by (cases ts) auto
  with assms(1) have "tlv_get_element (tlv_bytes ts) mode = Some (Some (x, tlv_bytes xs))"
    by (simp add: tlv_bytes_Cons[of x xs] get_element_bytes)
  moreover have "ogs_tlv_get p = Some (pool_take p 1)"
    using assms(3) ts by (simp add: ogs_tlv_get_def)
  moreover have "tlv_parse_loop (pool_take p 1) [x] (tlv_bytes xs) mode
      = Some (pool_take (pool_take p 1) (length xs), Some (rev [x] @ xs))"
    using assms ts by (intro parse_loop_complete) auto
  ultimately show ?thesis using ts by (simp add: ogs_tlv_parse_block_def)
qed

lemma elem_ok_tlv_ok: "list_all (tlv_elem_ok mode) ts \<Longrightarrow> tlv_ok ts"
proof (induction ts)
  case (Cons x xs)
  then show ?case by (cases x; cases mode) auto
qed simp

subsection \<open>Properties\<close>

text \<open>C1. For every chain whose nodes have a known mode and values at least as long as
  their length fields, nested to any depth, and whose encoding is shorter than 4 GiB:
  \<open>ogs_tlv_calc_length\<close> returns the size of the encoding, and \<open>ogs_tlv_render\<close> into a
  buffer of exactly that size reaches no assertion, writes nothing outside the buffer,
  fills all of it with the encoding of the nodes in order, and returns its size.\<close>

theorem tlv_render_exact:
  assumes "tlv_ok ts" and "tlv_size ts < 2 ^ 32" and "length buf = tlv_size ts"
  shows "(\<exists>ts'. ogs_tlv_calc_length ts = Some (of_nat (length buf), ts')) \<and>
    ogs_tlv_render ts buf 0 0 (of_nat (length buf)) = Some (tlv_bytes ts, length buf)"
proof
  show "\<exists>ts'. ogs_tlv_calc_length ts = Some (of_nat (length buf), ts')"
    using calc_length_size[OF assms(1)] assms(3) by auto
  show "ogs_tlv_render ts buf 0 0 (of_nat (length buf)) = Some (tlv_bytes ts, length buf)"
    using render_overlay[OF assms(1,2), of 0 buf 0 "of_nat (length buf)"] assms
    by (simp add: unat_of_nat_u32)
qed

theorem tlv_render_exact_witness:
  "let ts = [Tlv OGS_TLV_MODE_T1_L2_I1 1 2 0 [0xAA, 0xBB] [],
             Tlv OGS_TLV_MODE_T1_L2_I1 93 0 1 [] [Tlv OGS_TLV_MODE_T1_L2_I1 73 1 0 [5] []]];
       buf = replicate 15 (0 :: byte)
   in ogs_tlv_render ts buf 0 0 15
        = Some ([1, 0, 2, 0, 0xAA, 0xBB, 93, 0, 5, 1, 73, 0, 1, 0, 5], 15)"
proof -
  let ?ts = "[Tlv OGS_TLV_MODE_T1_L2_I1 1 2 0 [0xAA, 0xBB] [],
             Tlv OGS_TLV_MODE_T1_L2_I1 93 0 1 [] [Tlv OGS_TLV_MODE_T1_L2_I1 73 1 0 [5] []]]"
  have "ogs_tlv_render ?ts (replicate 15 0) 0 0 (of_nat (length (replicate 15 (0 :: byte))))
      = Some (tlv_bytes ?ts, length (replicate 15 (0 :: byte)))"
    by (rule tlv_render_exact[THEN conjunct2]) simp_all
  then show ?thesis by (simp add: tlv_header_def tlv_put_defs)
qed

text \<open>C2. Parsing inverts rendering: for every non-empty list of elements that fit the
  header of a mode, rendering them and then parsing the bytes in that mode gives back
  exactly these elements, provided the node pool has that many nodes.\<close>

theorem tlv_parse_render_roundtrip:
  assumes "list_all (tlv_elem_ok mode) ts" and "ts \<noteq> []" and "length ts \<le> tp_avail p"
    and "tlv_size ts < 2 ^ 32" and "length buf = tlv_size ts"
    and "ogs_tlv_render ts buf 0 0 (of_nat (length buf)) = Some (out, n)"
  shows "ogs_tlv_parse_block p out mode = Some (p\<lparr>tp_avail := tp_avail p - length ts\<rparr>, Some ts)"
proof -
  have "out = tlv_bytes ts"
    using render_overlay[OF elem_ok_tlv_ok[OF assms(1)] assms(4), of 0 buf 0 "of_nat (length buf)"]
      assms elem_ok_tlv_ok[OF assms(1)] by (simp add: unat_of_nat_u32)
  with parse_block_complete[OF assms(1,2,3)] show ?thesis by simp
qed

theorem tlv_parse_render_roundtrip_witness:
  "ogs_tlv_parse_block \<lparr>tp_size = 4, tp_avail = 4\<rparr> [0, 19, 0, 1, 1, 0, 96, 0, 2, 7, 8] OGS_TLV_MODE_T2_L2
     = Some (\<lparr>tp_size = 4, tp_avail = 2\<rparr>,
         Some [Tlv OGS_TLV_MODE_T2_L2 19 1 0 [1] [], Tlv OGS_TLV_MODE_T2_L2 96 2 0 [7, 8] []])"
proof -
  let ?ts = "[Tlv OGS_TLV_MODE_T2_L2 19 1 0 [1] [], Tlv OGS_TLV_MODE_T2_L2 96 2 0 [7, 8] []]"
  let ?buf = "[0, 0, 0, 0, 0, 0, 0, 0, 0, 0, 0] :: byte list"
  have r: "ogs_tlv_render ?ts ?buf 0 0 (of_nat (length ?buf))
      = Some ([0, 19, 0, 1, 1, 0, 96, 0, 2, 7, 8], 11)"
    by (simp add: tlv_put_defs poke_def)
  have "ogs_tlv_parse_block \<lparr>tp_size = 4, tp_avail = 4\<rparr> [0, 19, 0, 1, 1, 0, 96, 0, 2, 7, 8]
      OGS_TLV_MODE_T2_L2
    = Some (\<lparr>tp_size = 4, tp_avail = 4\<rparr>\<lparr>tp_avail := tp_avail \<lparr>tp_size = 4, tp_avail = 4\<rparr> - length ?ts\<rparr>,
        Some ?ts)"
    by (rule tlv_parse_render_roundtrip[OF _ _ _ _ _ r]) simp_all
  then show ?thesis by simp
qed

text \<open>C3. Robustness of the parser against arbitrary input: in every mode of the
  enumeration and for every byte string \<open>ogs_tlv_parse_block\<close> terminates without
  reaching an assertion or reading past the end. If it fails, every node it took is back
  in the pool. If it succeeds, the chain is not empty, its elements are well formed, they
  take as many nodes from the pool as there are elements, their encodings account for
  every byte of the input (and are the input, except for the four spare bits next to the
  instance), and releasing the chain restores the pool.\<close>

theorem tlv_parse_block_robust:
  assumes "mode \<noteq> OGS_TLV_MODE_UNSET" and "tp_avail p \<le> tp_size p"
  shows "\<exists>p' r. ogs_tlv_parse_block p data mode = Some (p', r) \<and>
    (case r of
       None \<Rightarrow> p' = p
     | Some ts \<Rightarrow> ts \<noteq> [] \<and> list_all (tlv_elem_ok mode) ts \<and>
         tp_avail p = tp_avail p' + length ts \<and> ogs_tlv_free_all p' ts = p \<and>
         length (tlv_bytes ts) = length data \<and>
         (mode \<noteq> OGS_TLV_MODE_T1_L2_I1 \<longrightarrow> tlv_bytes ts = data))"
proof -
  have ok: "tlv_pool_ok p" using assms(2) by (simp add: tlv_pool_ok_def)
  obtain p' r where pr: "ogs_tlv_parse_block p data mode = Some (p', r)"
    using parse_block_total[OF assms(1)] by fastforce
  note snd = parse_block_sound[OF pr ok]
  have "ogs_tlv_free_all p' ts = p" if "r = Some ts" for ts
    using snd that ok by (auto simp: free_all_avail tlv_pool_ok_def tlv_nodes_flat)
  with pr snd show ?thesis by (auto split: option.splits)
qed

theorem tlv_parse_block_robust_witness:
  "ogs_tlv_parse_block \<lparr>tp_size = 4, tp_avail = 4\<rparr> [19, 0, 200, 0, 1] OGS_TLV_MODE_T1_L2_I1
     = Some (\<lparr>tp_size = 4, tp_avail = 4\<rparr>, None)"
proof -
  let ?p = "\<lparr>tp_size = 4, tp_avail = 4\<rparr>"
  obtain p' r where pr: "ogs_tlv_parse_block ?p [19, 0, 200, 0, 1] OGS_TLV_MODE_T1_L2_I1 = Some (p', r)"
    and c: "r = None \<longrightarrow> p' = ?p"
    using tlv_parse_block_robust[of OGS_TLV_MODE_T1_L2_I1 ?p "[19, 0, 200, 0, 1]"]
    by (auto split: option.splits)
  moreover from pr have "r = None"
    by (simp add: ogs_tlv_parse_block_def ogs_tlv_get_def tlv_get_element_def tlv_take_value_def)
  ultimately show ?thesis by simp
qed

end
