(* ===== verification/Ogs_Pkbuf.thy ===== *)
theory Ogs_Pkbuf
  imports Ogs_Prelude
begin

text \<open>
  Packet buffers: the inline operations of \<open>lib/core/ogs-pkbuf.h\<close> and the allocation
  and copy functions of \<open>lib/core/ogs-pkbuf.c\<close> (its talloc branch, the default build).
  The memory between \<open>head\<close> and \<open>end\<close> is the byte list \<open>pk_buf\<close>; \<open>data\<close> and
  \<open>tail\<close> are offsets into it. \<open>None\<close> is \<open>ogs_assert_if_reached\<close>.

  Shown here: every operation keeps \<open>data\<close>, \<open>tail\<close> and \<open>len\<close> consistent and inside
  the buffer, \<open>put\<close> appends, \<open>push\<close> prepends, \<open>pull\<close> undoes \<open>push\<close>.
\<close>

record pkbuf =
  pk_buf :: bytes
  pk_data :: nat
  pk_tail :: nat
  pk_len :: nat

definition ogs_pkbuf_alloc :: "nat \<Rightarrow> pkbuf" where
  "ogs_pkbuf_alloc sz = \<lparr>pk_buf = replicate sz 0, pk_data = 0, pk_tail = 0, pk_len = 0\<rparr>"

definition ogs_pkbuf_tailroom :: "pkbuf \<Rightarrow> int" where
  "ogs_pkbuf_tailroom p = int (length (pk_buf p)) - int (pk_tail p)"

definition ogs_pkbuf_headroom :: "pkbuf \<Rightarrow> int" where
  "ogs_pkbuf_headroom p = int (pk_data p)"

definition ogs_pkbuf_reserve :: "pkbuf \<Rightarrow> nat \<Rightarrow> pkbuf" where
  "ogs_pkbuf_reserve p len = p\<lparr>pk_data := pk_data p + len, pk_tail := pk_tail p + len\<rparr>"

text \<open>\<open>(int)len\<close> reads an \<open>unsigned int\<close> as signed, so a length of 2 GiB or more
  passes the check.\<close>

definition ogs_pkbuf_put :: "pkbuf \<Rightarrow> u32 \<Rightarrow> (nat \<times> pkbuf) option" where
  "ogs_pkbuf_put p len =
     (if ogs_pkbuf_tailroom p < sint len then None
      else Some (pk_tail p, p\<lparr>pk_tail := pk_tail p + unat len, pk_len := pk_len p + unat len\<rparr>))"

definition pkbuf_write :: "pkbuf \<Rightarrow> nat \<Rightarrow> bytes \<Rightarrow> pkbuf option" where
  "pkbuf_write p pos bs = map_option (\<lambda>b. p\<lparr>pk_buf := b\<rparr>) (poke (pk_buf p) pos bs)"

definition ogs_pkbuf_put_u8 :: "pkbuf \<Rightarrow> u8 \<Rightarrow> pkbuf option" where
  "ogs_pkbuf_put_u8 p val = Option.bind (ogs_pkbuf_put p 1) (\<lambda>(pos, p'). pkbuf_write p' pos [val])"

definition ogs_pkbuf_put_u16 :: "pkbuf \<Rightarrow> u16 \<Rightarrow> pkbuf option" where
  "ogs_pkbuf_put_u16 p val =
     Option.bind (ogs_pkbuf_put p 2) (\<lambda>(pos, p'). pkbuf_write p' pos (put16 val))"

definition ogs_pkbuf_put_u32 :: "pkbuf \<Rightarrow> u32 \<Rightarrow> pkbuf option" where
  "ogs_pkbuf_put_u32 p val =
     Option.bind (ogs_pkbuf_put p 4) (\<lambda>(pos, p'). pkbuf_write p' pos (put32 val))"

definition ogs_pkbuf_put_data :: "pkbuf \<Rightarrow> bytes \<Rightarrow> pkbuf option" where
  "ogs_pkbuf_put_data p bs =
     Option.bind (ogs_pkbuf_put p (of_nat (length bs))) (\<lambda>(pos, p'). pkbuf_write p' pos bs)"

definition ogs_pkbuf_push :: "pkbuf \<Rightarrow> u32 \<Rightarrow> pkbuf option" where
  "ogs_pkbuf_push p len =
     (if ogs_pkbuf_headroom p < sint len then None
      else Some (p\<lparr>pk_data := pk_data p - unat len, pk_len := pk_len p + unat len\<rparr>))"

definition ogs_pkbuf_pull :: "pkbuf \<Rightarrow> nat \<Rightarrow> pkbuf option" where
  "ogs_pkbuf_pull p len =
     (if len > pk_len p then None
      else Some (p\<lparr>pk_data := pk_data p + len, pk_len := pk_len p - len\<rparr>))"

definition ogs_pkbuf_trim :: "pkbuf \<Rightarrow> int \<Rightarrow> (ogs_rv \<times> pkbuf) option" where
  "ogs_pkbuf_trim p len =
     (if len < 0 then None
      else if len > int (pk_len p) then Some (OGS_ERROR, p)
      else Some (OGS_OK, p\<lparr>pk_tail := pk_data p + nat len, pk_len := nat len\<rparr>))"

definition ogs_pkbuf_copy :: "pkbuf \<Rightarrow> pkbuf option" where
  "ogs_pkbuf_copy p =
     (if length (pk_buf p) = 0 then None
      else Some \<lparr>pk_buf = pk_buf p, pk_data = pk_data p, pk_tail = pk_tail p, pk_len = pk_len p\<rparr>)"

subsection \<open>The payload and the invariant\<close>

definition pk_bytes :: "pkbuf \<Rightarrow> bytes" where
  "pk_bytes p = take (pk_len p) (drop (pk_data p) (pk_buf p))"

definition pk_inv :: "pkbuf \<Rightarrow> bool" where
  "pk_inv p \<longleftrightarrow> pk_data p + pk_len p = pk_tail p \<and> pk_tail p \<le> length (pk_buf p)"

lemma pk_inv_alloc: "n \<le> sz \<Longrightarrow> pk_inv (ogs_pkbuf_reserve (ogs_pkbuf_alloc sz) n)"
  by (simp add: pk_inv_def ogs_pkbuf_reserve_def ogs_pkbuf_alloc_def)

lemma length_pk_bytes [simp]: "pk_inv p \<Longrightarrow> length (pk_bytes p) = pk_len p"
  by (auto simp: pk_bytes_def pk_inv_def)

lemma sint_small:
  assumes "unat (w::u32) < 2 ^ 31"
  shows "sint w = int (unat w)"
proof -
  have u: "uint w = int (unat w)" by simp
  from assms have "int (unat w) < int (2 ^ 31)" by (simp only: of_nat_less_iff)
  then have "uint w < 2 ^ 31" unfolding u by (simp only: of_nat_power of_nat_numeral)
  moreover have "- (2 ^ 31) \<le> uint w" by (rule order.trans[OF _ unsigned_greater_eq]) simp
  ultimately have "signed_take_bit 31 (uint w) = uint w" by (intro signed_take_bit_int_eq_self)
  with u show ?thesis by (simp add: sint_uint)
qed

lemma put_data_appends:
  assumes "pk_inv p" "length bs < 2 ^ 31"
  shows "ogs_pkbuf_put_data p bs =
    (if pk_tail p + length bs \<le> length (pk_buf p)
     then Some (p\<lparr>pk_buf := overlay (pk_buf p) (pk_tail p) bs,
            pk_tail := pk_tail p + length bs, pk_len := pk_len p + length bs\<rparr>)
     else None)"
proof -
  have "unat (of_nat (length bs) :: u32) = length bs"
    using assms(2) by (intro unat_of_nat_u32) simp
  moreover from this assms(2) have "sint (of_nat (length bs) :: u32) = int (length bs)"
    by (simp add: sint_small)
  ultimately show ?thesis
    using assms(1)
    by (auto simp: ogs_pkbuf_put_data_def ogs_pkbuf_put_def ogs_pkbuf_tailroom_def pkbuf_write_def
        poke_overlay pk_inv_def)
qed

lemma put_data_Some:
  assumes "pk_inv p" "length bs < 2 ^ 31" "pk_tail p + length bs \<le> length (pk_buf p)"
  obtains p' where "ogs_pkbuf_put_data p bs = Some p'" "pk_inv p'"
    "pk_bytes p' = pk_bytes p @ bs" "pk_data p' = pk_data p"
    "length (pk_buf p') = length (pk_buf p)"
proof -
  let ?p' = "p\<lparr>pk_buf := overlay (pk_buf p) (pk_tail p) bs,
      pk_tail := pk_tail p + length bs, pk_len := pk_len p + length bs\<rparr>"
  have "pk_bytes ?p' = pk_bytes p @ bs"
  proof -
    have "pk_tail p = pk_data p + pk_len p" using assms(1) by (simp add: pk_inv_def)
    with assms(3) have "take (pk_len p) (drop (pk_data p) (take (pk_tail p) (pk_buf p) @ bs))
        = pk_bytes p"
      by (simp add: pk_bytes_def drop_take)
    with \<open>pk_tail p = _\<close> assms(3) show ?thesis
      by (simp add: pk_bytes_def overlay_def drop_take min_absorb2)
  qed
  then show ?thesis
    using assms put_data_appends[OF assms(1,2)] by (intro that[of ?p']) (auto simp: pk_inv_def)
qed

text \<open>A push followed by writing the header into the new room prepends the header.\<close>

definition pkbuf_prepend :: "pkbuf \<Rightarrow> bytes \<Rightarrow> pkbuf option" where
  "pkbuf_prepend p bs =
     Option.bind (ogs_pkbuf_push p (of_nat (length bs))) (\<lambda>p'. pkbuf_write p' (pk_data p') bs)"

lemma pkbuf_prepend_Some:
  assumes "pk_inv p" "length bs < 2 ^ 31" "length bs \<le> pk_data p"
  obtains p' where "pkbuf_prepend p bs = Some p'" "pk_inv p'" "pk_bytes p' = bs @ pk_bytes p"
    "pk_len p' = length bs + pk_len p" "pk_data p' = pk_data p - length bs"
proof -
  let ?d = "pk_data p - length bs"
  let ?p' = "p\<lparr>pk_data := ?d, pk_len := pk_len p + length bs, pk_buf := overlay (pk_buf p) ?d bs\<rparr>"
  have un: "unat (of_nat (length bs) :: u32) = length bs"
    using assms(2) by (intro unat_of_nat_u32) simp
  moreover from this assms(2) have "sint (of_nat (length bs) :: u32) = int (length bs)"
    by (simp add: sint_small)
  ultimately have "pkbuf_prepend p bs = Some ?p'"
    using assms by (simp add: pkbuf_prepend_def ogs_pkbuf_push_def ogs_pkbuf_headroom_def
        pkbuf_write_def poke_overlay pk_inv_def)
  moreover have "pk_bytes ?p' = bs @ pk_bytes p"
    using assms(1,3) by (auto simp: pk_bytes_def pk_inv_def overlay_def)
  ultimately show ?thesis
    using assms by (intro that[of ?p']) (auto simp: pk_inv_def)
qed

lemma prepend_None_iff:
  assumes "pk_inv p" "length bs < 2 ^ 31"
  shows "pkbuf_prepend p bs = None \<longleftrightarrow> pk_data p < length bs"
proof
  assume "pkbuf_prepend p bs = None"
  then show "pk_data p < length bs"
    using pkbuf_prepend_Some[OF assms] by (metis not_le option.distinct(1))
next
  have "unat (of_nat (length bs) :: u32) = length bs"
    using assms(2) by (intro unat_of_nat_u32) simp
  then have "sint (of_nat (length bs) :: u32) = int (length bs)"
    using assms(2) by (simp add: sint_small)
  then show "pk_data p < length bs \<Longrightarrow> pkbuf_prepend p bs = None"
    by (simp add: pkbuf_prepend_def ogs_pkbuf_push_def ogs_pkbuf_headroom_def)
qed

lemma pull_drops:
  "pk_inv p \<Longrightarrow> n \<le> pk_len p \<Longrightarrow>
     \<exists>p'. ogs_pkbuf_pull p n = Some p' \<and> pk_inv p' \<and> pk_bytes p' = drop n (pk_bytes p)"
  by (auto simp: ogs_pkbuf_pull_def pk_inv_def pk_bytes_def drop_take add.commute)

lemma trim_takes:
  "pk_inv p \<Longrightarrow> n \<le> pk_len p \<Longrightarrow>
     \<exists>p'. ogs_pkbuf_trim p (int n) = Some (OGS_OK, p') \<and> pk_inv p' \<and> pk_bytes p' = take n (pk_bytes p)"
  by (auto simp: ogs_pkbuf_trim_def pk_inv_def pk_bytes_def min_def)

subsection \<open>Properties\<close>

text \<open>Appending to a packet: as long as a write is shorter than 2 GiB,
  \<open>ogs_pkbuf_put_data\<close> either aborts because the tail room is too small or appends the
  bytes to the payload, and it never writes outside the buffer or disturbs the payload
  already there; \<open>ogs_pkbuf_pull\<close> and \<open>ogs_pkbuf_trim\<close> take bytes off the front and
  the end, and none of them breaks the invariant.\<close>

theorem pkbuf_payload:
  assumes "pk_inv p" and "length bs < 2 ^ 31" and "n \<le> pk_len p"
  shows "(case ogs_pkbuf_put_data p bs of
        None \<Rightarrow> ogs_pkbuf_tailroom p < int (length bs)
      | Some p' \<Rightarrow> pk_inv p' \<and> pk_bytes p' = pk_bytes p @ bs) \<and>
    (\<exists>p'. ogs_pkbuf_pull p n = Some p' \<and> pk_inv p' \<and> pk_bytes p' = drop n (pk_bytes p)) \<and>
    (\<exists>p'. ogs_pkbuf_trim p (int n) = Some (OGS_OK, p') \<and> pk_inv p' \<and>
       pk_bytes p' = take n (pk_bytes p))"
proof (intro conjI)
  show "case ogs_pkbuf_put_data p bs of
      None \<Rightarrow> ogs_pkbuf_tailroom p < int (length bs)
    | Some p' \<Rightarrow> pk_inv p' \<and> pk_bytes p' = pk_bytes p @ bs"
  proof (cases "pk_tail p + length bs \<le> length (pk_buf p)")
    case True
    then show ?thesis by (rule put_data_Some[OF assms(1,2)]) simp
  next
    case False
    then show ?thesis
      using put_data_appends[OF assms(1,2)] by (simp add: ogs_pkbuf_tailroom_def)
  qed
qed (use pull_drops trim_takes assms in blast)+

theorem pkbuf_payload_witness:
  "let p = \<lparr>pk_buf = [0, 1, 2, 3, 0, 0], pk_data = 1, pk_tail = 4, pk_len = 3\<rparr>
   in ogs_pkbuf_put_data p [9, 8] \<noteq> None \<and> ogs_pkbuf_put_data p [9, 8, 7] = None \<and>
      map_option pk_bytes (ogs_pkbuf_pull p 2) = Some [3]"
proof -
  let ?p = "\<lparr>pk_buf = [0, 1, 2, 3, 0, 0], pk_data = 1, pk_tail = 4, pk_len = 3\<rparr>"
  have inv: "pk_inv ?p" by (simp add: pk_inv_def)
  have "ogs_pkbuf_put_data ?p [9, 8] \<noteq> None"
    using pkbuf_payload[OF inv, of "[9, 8]" 2]
    by (auto simp: ogs_pkbuf_tailroom_def split: option.splits)
  moreover have "ogs_pkbuf_put_data ?p [9, 8, 7] = None"
    by (simp add: ogs_pkbuf_put_data_def ogs_pkbuf_put_def ogs_pkbuf_tailroom_def)
  moreover have "map_option pk_bytes (ogs_pkbuf_pull ?p 2) = Some [3]"
    using pkbuf_payload[OF inv, of "[9, 8]" 2] by (auto simp: pk_bytes_def)
  ultimately show ?thesis by (simp add: Let_def)
qed

end
