(* ===== verification/Ogs_Tlv_Msg.thy ===== *)
theory Ogs_Tlv_Msg
  imports Ogs_Tlv Ogs_Pkbuf
begin

unbundle bit_operations_syntax

text \<open>
  The descriptor-driven message layer of \<open>lib/core/ogs-tlv-msg.c\<close>: the generated
  descriptor tables of PFCP, GTPv2-C and GTPv1-C say which information elements a message
  may hold and where in the C structure of the message each one lives; \<open>ogs_tlv_build_msg\<close>
  walks a table to encode a structure, \<open>ogs_tlv_parse_msg\<close> and
  \<open>ogs_tlv_parse_msg_desc\<close> to fill one.

  A NULL-terminated array \<open>child_descs\<close> is the list of the entries before the NULL. A
  message structure is a map from byte offsets to the fields that start there: the
  presence word, the number, and the data pointer with its length, of which a descriptor's
  type uses its own. The red-black tree that counts the elements of each type during a
  parse is a map. Allocation of a packet buffer is assumed to succeed.
\<close>

datatype ogs_tlv_ctype =
    OGS_TLV_UINT8 | OGS_TLV_UINT16 | OGS_TLV_UINT24 | OGS_TLV_UINT32
  | OGS_TLV_INT8 | OGS_TLV_INT16 | OGS_TLV_INT24 | OGS_TLV_INT32
  | OGS_TLV_FIXED_STR | OGS_TLV_VAR_STR | OGS_TLV_NULL | OGS_TLV_MORE
  | OGS_TLV_COMPOUND | OGS_TLV_MESSAGE
  | OGS_TV_UINT8 | OGS_TV_UINT16 | OGS_TV_UINT24 | OGS_TV_UINT32
  | OGS_TV_INT8 | OGS_TV_INT16 | OGS_TV_INT24 | OGS_TV_INT32
  | OGS_TV_FIXED_STR | OGS_TV_VAR_STR | OGS_TV_NULL | OGS_TV_MORE

datatype ogs_tlv_desc = Desc
  (d_ctype: ogs_tlv_ctype) (d_type: u16) (d_length: u16) (d_instance: u8) (d_vsize: u16)
  (d_childs: "ogs_tlv_desc list")

record tlv_field =
  f_presence :: u64
  f_num :: u32
  f_data :: bytes
  f_len :: u32

type_synonym tlv_msg = "nat \<Rightarrow> tlv_field"

definition OGS_TLV_MAX_HEADROOM :: nat where "OGS_TLV_MAX_HEADROOM = 16"

definition OGS_TLV_MAX_CHILD_DESC :: nat where "OGS_TLV_MAX_CHILD_DESC = 128"

abbreviation presence_size :: nat where "presence_size \<equiv> 8"

definition tlv_ctype2mode :: "ogs_tlv_ctype \<Rightarrow> ogs_tlv_mode \<Rightarrow> ogs_tlv_mode" where
  "tlv_ctype2mode ctype msg_mode =
     (if ctype \<in> {OGS_TV_UINT8, OGS_TV_UINT16, OGS_TV_UINT24, OGS_TV_UINT32, OGS_TV_INT8,
         OGS_TV_INT16, OGS_TV_INT24, OGS_TV_INT32, OGS_TV_FIXED_STR, OGS_TV_VAR_STR,
         OGS_TV_NULL, OGS_TV_MORE}
      then OGS_TLV_MODE_T1 else msg_mode)"

subsection \<open>Building\<close>

text \<open>Appending a node: into the embedded chain of the parent, or to the top-level chain.\<close>

definition tlv_append :: "bool \<Rightarrow> tlv_pool \<Rightarrow> ogs_tlv list \<Rightarrow> ogs_tlv_mode \<Rightarrow> u32 \<Rightarrow> u32 \<Rightarrow> u8
    \<Rightarrow> bytes option \<Rightarrow> (tlv_pool \<times> ogs_tlv list) option" where
  "tlv_append nested p chain mode type len inst value =
     (if nested then
        map_option (\<lambda>(p', parent). (p', t_embedded parent))
          (ogs_tlv_embed p (Tlv OGS_TLV_MODE_UNSET 0 0 0 [] chain) mode type len inst value)
      else ogs_tlv_add p chain mode type len inst value)"

text \<open>
  \<open>tlv_add_leaf\<close>: \<open>Some (_, None)\<close> is its return of NULL. The number of a field is
  left in network byte order in the structure, which nothing reads again.
\<close>

definition tlv_add_leaf :: "bool \<Rightarrow> tlv_pool \<Rightarrow> ogs_tlv list \<Rightarrow> ogs_tlv_desc \<Rightarrow> tlv_field
    \<Rightarrow> ogs_tlv_mode \<Rightarrow> (tlv_pool \<times> ogs_tlv list option) option" where
  "tlv_add_leaf nested p chain desc v msg_mode =
     (let add = (\<lambda>len value. map_option (\<lambda>(p', c). (p', Some c))
            (tlv_append nested p chain (tlv_ctype2mode (d_ctype desc) msg_mode)
               (ucast (d_type desc)) len (d_instance desc) value));
          c = d_ctype desc
      in if c \<in> {OGS_TLV_UINT8, OGS_TLV_INT8, OGS_TV_UINT8, OGS_TV_INT8} then
           add 1 (Some [ucast (f_num v)])
         else if c \<in> {OGS_TLV_UINT16, OGS_TLV_INT16, OGS_TV_UINT16, OGS_TV_INT16} then
           add 2 (Some (put16 (ucast (f_num v))))
         else if c \<in> {OGS_TLV_UINT24, OGS_TLV_INT24, OGS_TV_UINT24, OGS_TV_INT24} then
           add 3 (Some (put32 (push_bit 8 (f_num v))))
         else if c \<in> {OGS_TLV_UINT32, OGS_TLV_INT32, OGS_TV_UINT32, OGS_TV_INT32} then
           add 4 (Some (put32 (f_num v)))
         else if c \<in> {OGS_TLV_FIXED_STR, OGS_TV_FIXED_STR} then
           add (ucast (d_length desc)) (Some (f_data v))
         else if c = OGS_TLV_VAR_STR then
           (if f_len v = 0 then Some (p, None) else add (f_len v) (Some (f_data v)))
         else if c \<in> {OGS_TLV_NULL, OGS_TV_NULL} then add 0 None
         else Some (p, None))"

abbreviation is_more :: "ogs_tlv_desc list \<Rightarrow> bool" where
  "is_more ds \<equiv> ds \<noteq> [] \<and> d_ctype (hd ds) = OGS_TLV_MORE"

definition set_embedded :: "ogs_tlv list \<Rightarrow> ogs_tlv \<Rightarrow> ogs_tlv" where
  "set_embedded e t = Tlv (t_mode t) (t_type t) (t_length t) (t_instance t) (t_value t) e"

text \<open>
  \<open>tlv_add_compound\<close> walks the descriptors (from \<open>offset\<close> on): \<open>tlv_add_more\<close> is
  its loop over the entries of an array, \<open>tlv_add_one\<close> the code for one present
  element. The result \<open>Some (_, None)\<close> is the return of 0 after an error, otherwise the
  count and the chain built so far.
\<close>

function (sequential) tlv_add_compound :: "bool \<Rightarrow> tlv_pool \<Rightarrow> ogs_tlv list \<Rightarrow> ogs_tlv_desc list \<Rightarrow>
      tlv_msg \<Rightarrow> nat \<Rightarrow> nat \<Rightarrow> ogs_tlv_mode \<Rightarrow> (tlv_pool \<times> (nat \<times> ogs_tlv list) option) option"
  and tlv_add_more :: "nat \<Rightarrow> bool \<Rightarrow> tlv_pool \<Rightarrow> ogs_tlv list \<Rightarrow> ogs_tlv_desc \<Rightarrow>
      tlv_msg \<Rightarrow> nat \<Rightarrow> nat \<Rightarrow> ogs_tlv_mode \<Rightarrow> (tlv_pool \<times> (nat \<times> ogs_tlv list) option) option"
  and tlv_add_one :: "bool \<Rightarrow> tlv_pool \<Rightarrow> ogs_tlv list \<Rightarrow> ogs_tlv_desc \<Rightarrow>
      tlv_msg \<Rightarrow> nat \<Rightarrow> nat \<Rightarrow> ogs_tlv_mode \<Rightarrow> (tlv_pool \<times> (nat \<times> ogs_tlv list) option) option"
where
  "tlv_add_compound nested p chain [] msg off depth mode = Some (p, Some (0, chain))"
| "tlv_add_compound nested p chain (d # ds) msg off depth mode =
     Option.bind
       (if is_more ds then tlv_add_more (unat (d_length (hd ds))) nested p chain d msg off depth mode
        else if f_presence (msg off) = 0 then Some (p, Some (0, chain))
        else tlv_add_one nested p chain d msg off depth mode)
       (\<lambda>(p1, r1).
        case r1 of
          None \<Rightarrow> Some (p1, None)
        | Some (n1, chain1) \<Rightarrow>
            Option.bind
              (tlv_add_compound nested p1 chain1 (if is_more ds then tl ds else ds) msg
                 (off + unat (d_vsize d) * (if is_more ds then unat (d_length (hd ds)) else 1))
                 depth mode)
              (\<lambda>(p2, r2). Some (p2, map_option (\<lambda>(n2, chain2). (n1 + n2, chain2)) r2)))"
| "tlv_add_more 0 nested p chain d msg off depth mode = Some (p, Some (0, chain))"
| "tlv_add_more (Suc k) nested p chain d msg off depth mode =
     (if f_presence (msg off) = 0 then Some (p, Some (0, chain))
      else
        Option.bind (tlv_add_one nested p chain d msg off depth mode) (\<lambda>(p1, r1).
        case r1 of
          None \<Rightarrow> Some (p1, None)
        | Some (n1, chain1) \<Rightarrow>
            Option.bind (tlv_add_more k nested p1 chain1 d msg (off + unat (d_vsize d)) depth mode)
              (\<lambda>(p2, r2). Some (p2, map_option (\<lambda>(n2, chain2). (n1 + n2, chain2)) r2))))"
| "tlv_add_one nested p chain (Desc c t l i vs cds) msg off depth mode =
     (if c = OGS_TLV_COMPOUND then
        Option.bind (tlv_append nested p chain (tlv_ctype2mode c mode) (ucast t) 0 i None)
          (\<lambda>(p1, chain1).
          if depth + 1 > 8 then None
          else Option.bind (tlv_add_compound True p1 [] cds msg (off + presence_size) (depth + 1) mode)
            (\<lambda>(p2, r).
            case r of
              None \<Rightarrow> Some (p2, None)
            | Some (n, e) \<Rightarrow>
                if n = 0 then Some (p2, None)
                else Some (p2, Some (1 + n, butlast chain1 @ [set_embedded e (last chain1)]))))
      else
        map_option (\<lambda>(p1, r). (p1, map_option (\<lambda>chain1. (1, chain1)) r))
          (tlv_add_leaf nested p chain (Desc c t l i vs cds) (msg off) mode))"
  by pat_completeness auto
termination
  by (relation "inv_image (less_than <*lex*> less_than)
      (\<lambda>x. case x of
         Inl (nested, p, chain, ds, _) \<Rightarrow> (2 * size_list size ds, 0)
       | Inr (Inl (k, nested, p, chain, d, _)) \<Rightarrow> (2 * size d + 1, k)
       | Inr (Inr (nested, p, chain, d, _)) \<Rightarrow> (2 * size d, 0))")
    (auto simp: neq_Nil_conv)

text \<open>\<open>ogs_tlv_build_msg\<close>; \<open>Some (_, None)\<close> is its return of NULL.\<close>

definition ogs_tlv_build_msg :: "tlv_pool \<Rightarrow> ogs_tlv_desc \<Rightarrow> tlv_msg \<Rightarrow> ogs_tlv_mode
    \<Rightarrow> (tlv_pool \<times> pkbuf option) option" where
  "ogs_tlv_build_msg p desc msg mode =
     (let alloc = (\<lambda>len. map_option snd (ogs_pkbuf_put
            (ogs_pkbuf_reserve (ogs_pkbuf_alloc (OGS_TLV_MAX_HEADROOM + unat len)) OGS_TLV_MAX_HEADROOM)
            len))
      in if d_ctype desc \<noteq> OGS_TLV_MESSAGE then None
         else if d_childs desc = [] then map_option (\<lambda>pk. (p, Some pk)) (alloc 0)
         else
           Option.bind (tlv_add_compound False p [] (d_childs desc) msg 0 0 mode) (\<lambda>(p1, r).
           case r of
             None \<Rightarrow> Some (p1, None)
           | Some (n, root) \<Rightarrow>
               if n = 0 then Some (p1, None)
               else
                 Option.bind (ogs_tlv_calc_length root) (\<lambda>(len, _).
                 Option.bind (alloc len) (\<lambda>pk.
                 Option.bind (ogs_tlv_render root (pk_buf pk) (pk_data pk) (pk_data pk) len)
                   (\<lambda>(buf, end).
                   if end - pk_data pk \<noteq> unat len then Some (p1, None)
                   else Some (ogs_tlv_free_all p1 root, Some (pk\<lparr>pk_buf := buf\<rparr>)))))))"

subsection \<open>Parsing\<close>

text \<open>
  \<open>tlv_find_desc_by_type_inst\<close>: the descriptors from the found one on (its successor
  is \<open>child_descs[index+1]\<close>) and its offset; the empty list is NULL. The outer
  \<open>None\<close> is the assertion on the entry before an \<open>OGS_TLV_MORE\<close>.
\<close>

fun tlv_find_desc_loop :: "ogs_tlv_desc option \<Rightarrow> nat \<Rightarrow> nat \<Rightarrow> ogs_tlv_desc list \<Rightarrow> u16 \<Rightarrow> u8 \<Rightarrow> nat
    \<Rightarrow> (ogs_tlv_desc list \<times> nat) option" where
  "tlv_find_desc_loop prev match_i offset [] type inst k = Some ([], 0)"
| "tlv_find_desc_loop prev match_i offset (d # ds) type inst k =
     (if d_type d = type \<and> d_instance d = inst \<and> match_i = k then Some (d # ds, offset)
      else
        let match_i' = (if d_type d = type \<and> d_instance d = inst then match_i + 1 else match_i)
        in if d_ctype d = OGS_TLV_MORE then
             (case prev of
                None \<Rightarrow> None
              | Some q \<Rightarrow>
                  if d_ctype q = OGS_TLV_MORE then None
                  else tlv_find_desc_loop (Some d) match_i'
                    (offset + unat (d_vsize q) * (unat (d_length d) - 1)) ds type inst k)
           else tlv_find_desc_loop (Some d) match_i' (offset + unat (d_vsize d)) ds type inst k)"

definition tlv_find_desc_by_type_inst :: "ogs_tlv_desc \<Rightarrow> u16 \<Rightarrow> u8 \<Rightarrow> nat
    \<Rightarrow> (ogs_tlv_desc list \<times> nat) option" where
  "tlv_find_desc_by_type_inst parent_desc type inst k =
     tlv_find_desc_loop None 0 0 (d_childs parent_desc) type inst k"

definition tlv_parse_leaf :: "tlv_field \<Rightarrow> ogs_tlv_desc \<Rightarrow> ogs_tlv \<Rightarrow> (ogs_rv \<times> tlv_field) option" where
  "tlv_parse_leaf v desc tlv =
     (let c = d_ctype desc; b = t_value tlv;
          num = (\<lambda>n w. if t_length tlv \<noteq> n then Some (OGS_ERROR, v)
                  else if length b < unat n then None else Some (OGS_OK, v\<lparr>f_num := w\<rparr>))
      in if c \<in> {OGS_TV_UINT8, OGS_TV_INT8, OGS_TLV_UINT8, OGS_TLV_INT8} then
           num 1 (ucast (b ! 0))
         else if c \<in> {OGS_TV_UINT16, OGS_TV_INT16, OGS_TLV_UINT16, OGS_TLV_INT16} then
           num 2 (ucast (get16 (b ! 0) (b ! 1)))
         else if c \<in> {OGS_TV_UINT24, OGS_TV_INT24, OGS_TLV_UINT24, OGS_TLV_INT24} then
           num 3 (get24 (b ! 0) (b ! 1) (b ! 2))
         else if c \<in> {OGS_TV_UINT32, OGS_TV_INT32, OGS_TLV_UINT32, OGS_TLV_INT32} then
           num 4 (get32 (b ! 0) (b ! 1) (b ! 2) (b ! 3))
         else if c \<in> {OGS_TV_FIXED_STR, OGS_TLV_FIXED_STR} then
           (if t_length tlv \<noteq> ucast (d_length desc) then Some (OGS_ERROR, v)
            else Some (OGS_OK, v\<lparr>f_data := b, f_len := t_length tlv\<rparr>))
         else if c = OGS_TLV_VAR_STR then
           Some (OGS_OK, v\<lparr>f_data := b, f_len := t_length tlv\<rparr>)
         else if c \<in> {OGS_TV_NULL, OGS_TLV_NULL} then
           (if t_length tlv \<noteq> 0 then Some (OGS_ERROR, v) else Some (OGS_OK, v))
         else Some (OGS_ERROR, v))"

text \<open>
  \<open>tlv_count_node_find\<close>: the tree and its array of entries are an association list;
  the key is \<open>type << 8 | instance\<close>, so distinct pairs have distinct keys. The result is
  the count of the entry, added with count 0 when it is new; \<open>None\<close> when the array is
  full.
\<close>

type_synonym tlv_counts = "((u16 \<times> u8) \<times> nat) list"

definition tlv_count_node_find :: "tlv_counts \<Rightarrow> u16 \<Rightarrow> u8 \<Rightarrow> (nat \<times> tlv_counts) option" where
  "tlv_count_node_find counts type inst =
     (case map_of counts (type, inst) of
        Some n \<Rightarrow> Some (n, counts)
      | None \<Rightarrow> if length counts = OGS_TLV_MAX_CHILD_DESC then None
                else Some (0, ((type, inst), 0) # counts))"

definition tlv_count_bump :: "tlv_counts \<Rightarrow> u16 \<Rightarrow> u8 \<Rightarrow> tlv_counts" where
  "tlv_count_bump counts type inst =
     map (\<lambda>(k, n). if k = (type, inst) then (k, n + 1) else (k, n)) counts"

text \<open>The search for the first free entry of an array of \<open>k\<close> elements.\<close>

fun tlv_free_slot :: "tlv_msg \<Rightarrow> nat \<Rightarrow> nat \<Rightarrow> nat \<Rightarrow> nat option" where
  "tlv_free_slot msg off vs 0 = None"
| "tlv_free_slot msg off vs (Suc k) =
     (if f_presence (msg off) = 0 then Some off else tlv_free_slot msg (off + vs) vs k)"

lemma find_desc_loop_sub:
  "tlv_find_desc_loop prev m off ds type inst k = Some (d # ds', off') \<Longrightarrow> d \<in> set ds"
proof (induction prev m off ds type inst k rule: tlv_find_desc_loop.induct)
  case (2 prev mi off e es type inst k)
  then show ?case by (auto simp: Let_def split: if_splits option.splits)
qed simp

lemma find_desc_child:
  "tlv_find_desc_by_type_inst pd type inst k = Some (d # ds', off) \<Longrightarrow> d \<in> set (d_childs pd)"
  using find_desc_loop_sub by (fastforce simp: tlv_find_desc_by_type_inst_def)

lemma size_child: "d \<in> set (d_childs pd) \<Longrightarrow> size d < size pd"
  using size_list_estimation'[of d "d_childs pd" "size d" size] by (cases pd) simp

text \<open>
  \<open>tlv_parse_compound\<close> on the chain still to be read: the return code, the pool, the
  chain with what has been parsed into embedded chains, and the message.
\<close>

function tlv_parse_compound :: "tlv_pool \<Rightarrow> tlv_msg \<Rightarrow> nat \<Rightarrow> ogs_tlv_desc \<Rightarrow> ogs_tlv list \<Rightarrow>
    tlv_counts \<Rightarrow> nat \<Rightarrow> ogs_tlv_mode \<Rightarrow> (ogs_rv \<times> tlv_pool \<times> ogs_tlv list \<times> tlv_msg) option" where
  "tlv_parse_compound p msg base pd [] counts depth mode =
     (if depth > 8 then None else Some (OGS_OK, p, [], msg))"
| "tlv_parse_compound p msg base pd (tlv # tlvs) counts depth mode =
     (if depth > 8 then None else
      let skip = (\<lambda>p msg tlv counts. map_option (\<lambda>(rv, p', ts, msg'). (rv, p', tlv # ts, msg'))
            (tlv_parse_compound p msg base pd tlvs counts depth mode));
          stop = (\<lambda>p msg tlv. Some (OGS_ERROR, p, tlv # tlvs, msg));
          type = ucast (t_type tlv); inst = t_instance tlv
      in case tlv_count_node_find counts type inst of
        None \<Rightarrow> stop p msg tlv
      | Some (n, counts1) \<Rightarrow>
          (case tlv_find_desc_by_type_inst pd type inst n of
             None \<Rightarrow> None
           | Some ([], _) \<Rightarrow> skip p msg tlv counts1
           | Some (d # ds, off0) \<Rightarrow>
               (case (if is_more ds
                      then tlv_free_slot msg (base + off0) (unat (d_vsize d)) (unat (d_length (hd ds)))
                      else Some (base + off0)) of
                  None \<Rightarrow> skip p msg tlv counts1
                | Some off \<Rightarrow>
                    let counts2 = (if is_more ds then counts1 else tlv_count_bump counts1 type inst) in
                    if d_ctype d = OGS_TLV_COMPOUND then
                      (case ogs_tlv_parse_embedded_block p tlv mode of
                         None \<Rightarrow> None
                       | Some (p1, None) \<Rightarrow> stop p1 msg tlv
                       | Some (p1, Some tlv1) \<Rightarrow>
                           (case tlv_parse_compound p1 msg (off + presence_size) d (t_embedded tlv1)
                                   [] (depth + 1) mode of
                              None \<Rightarrow> None
                            | Some (rv, p2, e, msg1) \<Rightarrow>
                                if rv \<noteq> OGS_OK then stop p2 msg1 (set_embedded e tlv1)
                                else skip p2 (msg1(off := (msg1 off)\<lparr>f_presence := 1\<rparr>))
                                       (set_embedded e tlv1) counts2))
                    else
                      (case tlv_parse_leaf (msg off) d tlv of
                         None \<Rightarrow> None
                       | Some (rv, v) \<Rightarrow>
                           if rv \<noteq> OGS_OK then stop p (msg(off := v)) tlv
                           else skip p (msg(off := v\<lparr>f_presence := 1\<rparr>)) tlv counts2))))"
  by pat_completeness auto
termination
  by (relation "inv_image (less_than <*lex*> less_than)
      (\<lambda>(p, msg, base, pd, tlvs, counts, depth, mode). (size pd, length tlvs))")
    (auto dest!: find_desc_child size_child)

declare tlv_parse_compound.simps [simp del]

definition ogs_tlv_parse_msg :: "tlv_pool \<Rightarrow> tlv_msg \<Rightarrow> ogs_tlv_desc \<Rightarrow> bytes \<Rightarrow> ogs_tlv_mode
    \<Rightarrow> (ogs_rv \<times> tlv_pool \<times> tlv_msg) option" where
  "ogs_tlv_parse_msg p msg desc data mode =
     (if d_ctype desc \<noteq> OGS_TLV_MESSAGE \<or> d_childs desc = [] then None
      else
        (case ogs_tlv_parse_block p data mode of
           None \<Rightarrow> None
         | Some (p1, None) \<Rightarrow> Some (OGS_ERROR, p1, msg)
         | Some (p1, Some root) \<Rightarrow>
             map_option (\<lambda>(rv, p2, root', msg'). (rv, ogs_tlv_free_all p2 root', msg'))
               (tlv_parse_compound p1 msg 0 desc root [] 0 mode)))"

subsection \<open>Parsing with the formats of the table\<close>

definition parse_get_element_type :: "bytes \<Rightarrow> ogs_tlv_mode \<Rightarrow> u16 option" where
  "parse_get_element_type bs mode =
     (case mode of
        OGS_TLV_MODE_T2_L2 \<Rightarrow>
          (case bs of a # b # _ \<Rightarrow> Some (push_bit 8 (ucast a) + ucast b) | _ \<Rightarrow> None)
      | OGS_TLV_MODE_UNSET \<Rightarrow> None
      | _ \<Rightarrow> (case bs of a # _ \<Rightarrow> Some (ucast a) | _ \<Rightarrow> None))"

definition tlv_get_element_desc :: "bytes \<Rightarrow> ogs_tlv_mode \<Rightarrow> ogs_tlv_desc
    \<Rightarrow> (ogs_tlv \<times> bytes) option option" where
  "tlv_get_element_desc blk msg_mode desc =
     (if (msg_mode = OGS_TLV_MODE_T2_L2 \<and> length blk < 2) \<or> length blk < 1 then Some None
      else
        Option.bind (parse_get_element_type blk msg_mode) (\<lambda>tag.
        Option.bind (tlv_find_desc_by_type_inst desc tag 0 0) (\<lambda>(ds, _).
        case ds of
          [] \<Rightarrow> Some None
        | d # _ \<Rightarrow>
            let mode = tlv_ctype2mode (d_ctype d) msg_mode
            in if mode = OGS_TLV_MODE_T1 then tlv_get_element_fixed blk mode (ucast (d_length d))
               else tlv_get_element blk mode)))"

lemma tlv_get_element_fixed_shorter:
  "tlv_get_element_fixed blk mode l = Some (Some (tlv, bs)) \<Longrightarrow> length bs < length blk"
  by (cases mode)
    (auto simp: tlv_get_element_fixed_def split: list.splits dest!: tlv_take_value_Some)

lemma tlv_get_element_desc_shorter:
  "tlv_get_element_desc blk mode desc = Some (Some (tlv, bs)) \<Longrightarrow> length bs < length blk"
proof -
  assume a: "tlv_get_element_desc blk mode desc = Some (Some (tlv, bs))"
  then obtain tag ds off where "parse_get_element_type blk mode = Some tag"
      and f: "tlv_find_desc_by_type_inst desc tag 0 0 = Some (ds, off)"
    by (auto simp: tlv_get_element_desc_def bind_eq_Some_conv split: if_splits)
  with a show ?thesis
    by (cases ds) (auto simp: tlv_get_element_desc_def Let_def split: if_splits
        dest: tlv_get_element_shorter tlv_get_element_fixed_shorter)
qed

function tlv_parse_desc_loop :: "tlv_pool \<Rightarrow> ogs_tlv list \<Rightarrow> bytes \<Rightarrow> ogs_tlv_mode \<Rightarrow> ogs_tlv_desc
    \<Rightarrow> (tlv_pool \<times> ogs_tlv list option) option" where
  "tlv_parse_desc_loop p acc bs mode desc =
     (if bs = [] then Some (p, Some (rev acc))
      else
        (case ogs_tlv_get p of
           None \<Rightarrow> Some (ogs_tlv_free_all p (rev acc), None)
         | Some p' \<Rightarrow>
             (case tlv_get_element_desc bs mode desc of
                None \<Rightarrow> None
              | Some None \<Rightarrow> Some (ogs_tlv_free (ogs_tlv_free_all p' (rev acc)), None)
              | Some (Some (tlv, rest)) \<Rightarrow> tlv_parse_desc_loop p' (tlv # acc) rest mode desc)))"
  by pat_completeness auto
termination
  by (relation "measure (\<lambda>(p, acc, bs, mode, desc). length bs)") (auto dest: tlv_get_element_desc_shorter)

declare tlv_parse_desc_loop.simps [simp del]

definition ogs_tlv_parse_block_desc :: "tlv_pool \<Rightarrow> bytes \<Rightarrow> ogs_tlv_mode \<Rightarrow> ogs_tlv_desc
    \<Rightarrow> (tlv_pool \<times> ogs_tlv list option) option" where
  "ogs_tlv_parse_block_desc p data mode desc =
     (case ogs_tlv_get p of
        None \<Rightarrow> Some (p, None)
      | Some p' \<Rightarrow>
          (case tlv_get_element_desc data mode desc of
             None \<Rightarrow> None
           | Some None \<Rightarrow> Some (ogs_tlv_free p', None)
           | Some (Some (tlv, rest)) \<Rightarrow> tlv_parse_desc_loop p' [tlv] rest mode desc))"

definition ogs_tlv_parse_msg_desc :: "tlv_pool \<Rightarrow> tlv_msg \<Rightarrow> ogs_tlv_desc \<Rightarrow> bytes \<Rightarrow> ogs_tlv_mode
    \<Rightarrow> (ogs_rv \<times> tlv_pool \<times> tlv_msg) option" where
  "ogs_tlv_parse_msg_desc p msg desc data mode =
     (if d_ctype desc \<noteq> OGS_TLV_MESSAGE \<or> d_childs desc = [] then None
      else
        (case ogs_tlv_parse_block_desc p data mode desc of
           None \<Rightarrow> None
         | Some (p1, None) \<Rightarrow> Some (OGS_ERROR, p1, msg)
         | Some (p1, Some root) \<Rightarrow>
             map_option (\<lambda>(rv, p2, root', msg'). (rv, ogs_tlv_free_all p2 root', msg'))
               (tlv_parse_compound p1 msg 0 desc root [] 0 mode)))"

subsection \<open>Well-formed tables\<close>

text \<open>
  No \<open>OGS_TLV_MORE\<close> at the start of a table or after another one, and at most \<open>n\<close>
  levels of compound elements below the root: the tables of a message may use the eight
  levels that the walks assert.
\<close>

fun more_ok :: "bool \<Rightarrow> ogs_tlv_desc list \<Rightarrow> bool" where
  "more_ok after [] = True"
| "more_ok after (d # ds) = ((d_ctype d = OGS_TLV_MORE \<longrightarrow> after) \<and> more_ok (d_ctype d \<noteq> OGS_TLV_MORE) ds)"

primrec desc_wf :: "nat \<Rightarrow> ogs_tlv_desc \<Rightarrow> bool" where
  "desc_wf 0 d \<longleftrightarrow> more_ok False (d_childs d) \<and> (\<forall>c \<in> set (d_childs d). d_ctype c \<noteq> OGS_TLV_COMPOUND)"
| "desc_wf (Suc n) d \<longleftrightarrow> more_ok False (d_childs d) \<and>
     (\<forall>c \<in> set (d_childs d). d_ctype c = OGS_TLV_COMPOUND \<longrightarrow> desc_wf n c)"

lemma find_desc_loop_total:
  "more_ok (case prev of None \<Rightarrow> False | Some q \<Rightarrow> d_ctype q \<noteq> OGS_TLV_MORE) ds \<Longrightarrow>
     \<exists>r. tlv_find_desc_loop prev m off ds type inst k = Some r"
  by (induction prev m off ds type inst k rule: tlv_find_desc_loop.induct)
    (auto simp: Let_def split: option.splits)

lemma find_desc_total: "desc_wf n pd \<Longrightarrow> \<exists>r. tlv_find_desc_by_type_inst pd type inst k = Some r"
  unfolding tlv_find_desc_by_type_inst_def
  by (rule find_desc_loop_total) (cases n; simp)

definition tlv_val_ok :: "ogs_tlv \<Rightarrow> bool" where
  "tlv_val_ok t \<longleftrightarrow> unat (t_length t) = length (t_value t) \<and> t_embedded t = []"

lemma elem_ok_val_ok: "tlv_elem_ok mode t \<Longrightarrow> tlv_val_ok t"
  by (cases t) (simp add: tlv_val_ok_def)

lemma tlv_parse_leaf_total: "tlv_val_ok t \<Longrightarrow> \<exists>rv v'. tlv_parse_leaf v d t = Some (rv, v')"
  by (auto simp: tlv_parse_leaf_def Let_def tlv_val_ok_def)

lemma tlv_nodes_Cons: "tlv_nodes (t # ts) = Suc (tlv_nodes (t_embedded t)) + tlv_nodes ts"
  by (cases t) simp

lemma tlv_nodes_append: "tlv_nodes (xs @ ys) = tlv_nodes xs + tlv_nodes ys"
  by (induction xs) (simp_all add: tlv_nodes_Cons)

text \<open>A walk keeps the pool's account: the nodes it holds are those missing from the pool.\<close>

definition pool_account :: "tlv_pool \<Rightarrow> ogs_tlv list \<Rightarrow> tlv_pool \<Rightarrow> ogs_tlv list \<Rightarrow> bool" where
  "pool_account p ts p' ts' \<longleftrightarrow>
     tp_size p' = tp_size p \<and> tp_avail p' + tlv_nodes ts' = tp_avail p + tlv_nodes ts"

lemma pool_account_Cons:
  "pool_account p ts p' ts' \<Longrightarrow> pool_account p (t # ts) p' (t # ts')"
  by (simp add: pool_account_def tlv_nodes_Cons)

lemma parse_embedded_account:
  assumes a: "tlv_val_ok t" "tlv_pool_ok p" and m: "mode \<noteq> OGS_TLV_MODE_UNSET"
  obtains (fail) "ogs_tlv_parse_embedded_block p t mode = Some (p, None)"
  | (ok) t' p' where "ogs_tlv_parse_embedded_block p t mode = Some (p', Some t')"
      "pool_account p [t] p' [t']" "list_all (tlv_elem_ok mode) (t_embedded t')" "tlv_pool_ok p'"
      "t_type t' = t_type t"
proof -
  obtain p' r where pr: "ogs_tlv_parse_block p (take (unat (t_length t)) (t_value t)) mode = Some (p', r)"
    using parse_block_total[OF m] by fastforce
  note snd = parse_block_sound[OF pr a(2)]
  show ?thesis
  proof (cases r)
    case None
    with pr snd show ?thesis by (intro fail) (simp add: ogs_tlv_parse_embedded_block_def)
  next
    case (Some ts)
    let ?t' = "Tlv (t_mode t) (t_type t) (t_length t) (t_instance t) (t_value t) ts"
    from snd Some have ts: "list_all (tlv_elem_ok mode) ts" "length ts \<le> tp_avail p"
        "p' = pool_take p (length ts)" by simp_all
    then have "pool_account p [t] p' [?t']"
      using a by (simp add: pool_account_def tlv_nodes_flat tlv_nodes_Cons tlv_val_ok_def)
    with pr Some ts a show ?thesis
      by (intro ok[of p' ?t']) (auto simp: ogs_tlv_parse_embedded_block_def tlv_pool_ok_def)
  qed
qed

lemma desc_wf_child:
  assumes "desc_wf n pd" "c \<in> set (d_childs pd)" "d_ctype c = OGS_TLV_COMPOUND"
  obtains k where "n = Suc k" "desc_wf k c"
  using assms by (cases n) auto

lemma set_embedded_nodes: "tlv_nodes [set_embedded e t] = Suc (tlv_nodes e)"
  by (simp add: set_embedded_def)

lemma tlv_parse_compound_total:
  assumes "desc_wf n pd" "depth + n \<le> 8" "mode \<noteq> OGS_TLV_MODE_UNSET"
    and "tlv_pool_ok p" "list_all tlv_val_ok ts"
  shows "\<exists>rv p' ts' msg'. tlv_parse_compound p msg base pd ts counts depth mode
      = Some (rv, p', ts', msg') \<and> pool_account p ts p' ts' \<and> tlv_pool_ok p'"
  using assms
proof (induction n arbitrary: p msg base pd ts counts depth rule: less_induct)
  case (less n)
  note outer = less.IH
  have d8: "\<not> depth > 8" using less.prems(2) by simp
  show ?case
    using less.prems(4,5)
  proof (induction ts arbitrary: p msg counts)
    case Nil
    then show ?case using d8 by (simp add: tlv_parse_compound.simps pool_account_def)
  next
    case (Cons t ts)
    have tok: "tlv_val_ok t" and tsok: "list_all tlv_val_ok ts" using Cons.prems by simp_all
    let ?P = "\<lambda>r. \<exists>rv p' ts' msg'. r = Some (rv, p', ts', msg') \<and>
        pool_account p (t # ts) p' ts' \<and> tlv_pool_ok p'"
    let ?skip = "\<lambda>p msg t counts. map_option (\<lambda>(rv, p', ts, msg'). (rv, p', t # ts, msg'))
        (tlv_parse_compound p msg base pd ts counts depth mode)"
    have skip: "?P (?skip q m t' c)" if "tlv_pool_ok q" "pool_account p [t] q [t']" for q m t' c
    proof -
      note q = that
      obtain rv p' ts' msg' where i: "tlv_parse_compound q m base pd ts c depth mode = Some (rv, p', ts', msg')"
          "pool_account q ts p' ts'" "tlv_pool_ok p'"
        using Cons.IH[OF q(1) tsok] by blast
      then have "pool_account p (t # ts) p' (t' # ts')"
        using q(2) by (auto simp: pool_account_def tlv_nodes_Cons)
      with i show ?thesis by simp
    qed
    have stop: "?P (Some (OGS_ERROR, q, t' # ts, m))" if "tlv_pool_ok q" "pool_account p [t] q [t']" for q m t'
      using that by (auto simp: pool_account_def tlv_nodes_Cons)
    have refl: "pool_account p [t] p [t]" by (simp add: pool_account_def)
    let ?type = "ucast (t_type t)" and ?inst = "t_instance t"
    show ?case
    proof (cases "tlv_count_node_find counts ?type ?inst")
      case None
      then show ?thesis using d8 stop[OF Cons.prems(1) refl] by (simp add: tlv_parse_compound.simps Let_def)
    next
      case (Some nc)
      obtain k counts1 where nc: "nc = (k, counts1)" by (cases nc)
      obtain r where "tlv_find_desc_by_type_inst pd ?type ?inst k = Some r"
        using find_desc_total[OF less.prems(1)] by blast
      then obtain fds off0 where f: "tlv_find_desc_by_type_inst pd ?type ?inst k = Some (fds, off0)"
        by (cases r) auto
      show ?thesis
      proof (cases fds)
        case Nil
        then show ?thesis
          using d8 Some nc f skip[OF Cons.prems(1) refl] by (simp add: tlv_parse_compound.simps Let_def)
      next
        case dds: (Cons d ds)
        let ?slot = "if is_more ds
            then tlv_free_slot msg (base + off0) (unat (d_vsize d)) (unat (d_length (hd ds)))
            else Some (base + off0)"
        note step = tlv_parse_compound.simps(2)[of p msg base pd t ts counts depth mode]
        show ?thesis
        proof (cases ?slot)
          case None
          then show ?thesis
            using d8 Some nc f dds skip[OF Cons.prems(1) refl, of msg counts1]
            by (simp add: step Let_def)
        next
          case (Some off)
          let ?c2 = "if is_more ds then counts1 else tlv_count_bump counts1 ?type ?inst"
          show ?thesis
          proof (cases "d_ctype d = OGS_TLV_COMPOUND")
            case False
            obtain rv v where l: "tlv_parse_leaf (msg off) d t = Some (rv, v)"
              using tlv_parse_leaf_total[OF tok] by blast
            show ?thesis
              using d8 \<open>tlv_count_node_find counts ?type ?inst = Some nc\<close> nc f dds Some l False
                stop[OF Cons.prems(1) refl] skip[OF Cons.prems(1) refl]
              by (cases "rv = OGS_OK") (simp_all add: step Let_def)
          next
            case True
            have dc: "d \<in> set (d_childs pd)" using f dds find_desc_child by blast
            obtain k' where k': "n = Suc k'" "desc_wf k' d"
              by (rule desc_wf_child[OF less.prems(1) dc True])
            show ?thesis
            proof (cases rule: parse_embedded_account[OF tok Cons.prems(1) less.prems(3), case_names fail ok])
              case fail
              then show ?thesis
                using d8 \<open>tlv_count_node_find counts ?type ?inst = Some nc\<close> nc f dds Some True
                  stop[OF Cons.prems(1) refl] by (simp add: step Let_def)
            next
              case (ok t' p1)
              have "list_all tlv_val_ok (t_embedded t')"
                using ok(3) elem_ok_val_ok by (auto simp: list.pred_set)
              then obtain rv p2 e msg1 where i: "tlv_parse_compound p1 msg (off + 8) d (t_embedded t') []
                    (depth + 1) mode = Some (rv, p2, e, msg1)" "pool_account p1 (t_embedded t') p2 e" "tlv_pool_ok p2"
                using outer[of k' d "depth + 1" p1 "t_embedded t'" msg "off + 8" "[]"] k' less.prems(2,3) ok(4)
                by auto
              have acc: "pool_account p [t] p2 [set_embedded e t']"
                using ok(2) i(2) by (simp add: pool_account_def tlv_nodes_Cons set_embedded_def)
              show ?thesis
                using d8 \<open>tlv_count_node_find counts ?type ?inst = Some nc\<close> nc f dds Some True ok(1) i(1)
                  stop[OF i(3) acc] skip[OF i(3) acc]
                by (cases "rv = OGS_OK") (simp_all add: step Let_def)
            qed
          qed
        qed
      qed
    qed
  qed
qed

lemma val_ok_nodes: "list_all tlv_val_ok ts \<Longrightarrow> tlv_nodes ts = length ts"
  by (induction ts) (auto simp: tlv_nodes_Cons tlv_val_ok_def)

lemma account_free_all:
  assumes "tlv_pool_ok p" "tlv_pool_ok p1" "tp_size p1 = tp_size p"
    and "tp_avail p1 + tlv_nodes ts = tp_avail p"
  shows "ogs_tlv_free_all p1 ts = p"
  using assms by (simp add: free_all_avail tlv_pool_ok_def min_def)

lemma parse_then_free:
  assumes wf: "desc_wf 8 desc" and m: "mode \<noteq> OGS_TLV_MODE_UNSET" and ok: "tlv_pool_ok p" "tlv_pool_ok p1"
    and root: "list_all tlv_val_ok root" "tp_size p1 = tp_size p" "tp_avail p1 + length root = tp_avail p"
  shows "\<exists>rv msg'. map_option (\<lambda>(rv, p2, root', msg'). (rv, ogs_tlv_free_all p2 root', msg'))
      (tlv_parse_compound p1 msg 0 desc root [] 0 mode) = Some (rv, p, msg')"
proof -
  obtain rv p2 ts' msg' where c: "tlv_parse_compound p1 msg 0 desc root [] 0 mode = Some (rv, p2, ts', msg')"
      "pool_account p1 root p2 ts'" "tlv_pool_ok p2"
    using tlv_parse_compound_total[OF wf _ m ok(2) root(1), of 0 msg 0 "[]"] by auto
  have "ogs_tlv_free_all p2 ts' = p"
    using c(2) root(2,3) val_ok_nodes[OF root(1)]
    by (intro account_free_all[OF ok(1) c(3)]) (simp_all add: pool_account_def)
  with c(1) show ?thesis by simp
qed

lemma take_value_val_ok: "tlv_take_value m t l i rest = Some (x, r) \<Longrightarrow> tlv_val_ok x"
  by (auto dest!: tlv_take_value_Some simp: tlv_val_ok_def)

lemma get_element_fixed_val_ok: "tlv_get_element_fixed blk mode l = Some (Some (x, r)) \<Longrightarrow> tlv_val_ok x"
  by (cases mode) (auto simp: tlv_get_element_fixed_def split: list.splits dest: take_value_val_ok)

lemma get_element_desc_cases:
  assumes "desc_wf n desc" "mode \<noteq> OGS_TLV_MODE_UNSET"
  obtains (null) "tlv_get_element_desc blk mode desc = Some None"
  | (elem) x r where "tlv_get_element_desc blk mode desc = Some (Some (x, r))" "tlv_val_ok x"
proof (cases "(mode = OGS_TLV_MODE_T2_L2 \<and> length blk < 2) \<or> length blk < 1")
  case True
  then show ?thesis by (intro null) (auto simp: tlv_get_element_desc_def)
next
  case False
  then obtain tag where tag: "parse_get_element_type blk mode = Some tag"
    using assms(2)
    by (cases mode; cases blk; cases "tl blk") (auto simp: parse_get_element_type_def)
  obtain ds off where f: "tlv_find_desc_by_type_inst desc tag 0 0 = Some (ds, off)"
    using find_desc_total[OF assms(1)] by fastforce
  show ?thesis
  proof (cases ds)
    case Nil
    with False tag f show ?thesis by (intro null) (auto simp: tlv_get_element_desc_def)
  next
    case (Cons d ds')
    let ?m = "tlv_ctype2mode (d_ctype d) mode"
    have m: "?m \<noteq> OGS_TLV_MODE_UNSET" using assms(2) by (simp add: tlv_ctype2mode_def)
    have eq: "tlv_get_element_desc blk mode desc =
        (if ?m = OGS_TLV_MODE_T1 then tlv_get_element_fixed blk ?m (ucast (d_length d)) else tlv_get_element blk ?m)"
      using False tag f Cons by (auto simp: tlv_get_element_desc_def Let_def)
    show ?thesis
    proof (cases "?m = OGS_TLV_MODE_T1")
      case True
      then obtain r where "tlv_get_element_fixed blk ?m (ucast (d_length d)) = Some r"
        by (simp add: tlv_get_element_fixed_def)
      then show ?thesis
        using True eq null elem get_element_fixed_val_ok by (cases r) auto
    next
      case False
      obtain r where "tlv_get_element blk ?m = Some r" using get_element_total[OF m] by blast
      then show ?thesis
        using False eq null elem get_element_sound(1) elem_ok_val_ok by (cases r) fastforce+
    qed
  qed
qed

lemma parse_desc_loop_run:
  assumes "desc_wf n desc" "mode \<noteq> OGS_TLV_MODE_UNSET" "tlv_pool_ok p" "list_all tlv_val_ok acc"
    and "tp_avail p + length acc \<le> tp_size p"
  shows "\<exists>p' r. tlv_parse_desc_loop p acc bs mode desc = Some (p', r) \<and> tp_size p' = tp_size p \<and>
    (case r of None \<Rightarrow> tp_avail p' = tp_avail p + length acc
     | Some ts \<Rightarrow> list_all tlv_val_ok ts \<and> tp_avail p' + length ts = tp_avail p + length acc)"
  using assms
proof (induction p acc bs mode desc rule: tlv_parse_desc_loop.induct)
  case (1 p acc bs mode desc)
  have na: "tlv_nodes (rev acc) = length acc"
    using val_ok_nodes[of "rev acc"] "1.prems"(4) by (simp add: list.pred_set)
  note step = tlv_parse_desc_loop.simps[of p acc bs mode desc]
  show ?case
  proof (cases "bs = []")
    case True
    then show ?thesis
      using "1.prems" by (simp add: tlv_parse_desc_loop.simps[of p acc "[]"] list.pred_set)
  next
    case ne: False
    show ?thesis
    proof (cases "ogs_tlv_get p")
      case None
      then show ?thesis using ne na "1.prems" by (simp add: step free_all_avail)
    next
      case (Some q)
      then have q: "q = pool_take p 1" "0 < tp_avail p" by (auto simp: ogs_tlv_get_def split: if_splits)
      have qok: "tlv_pool_ok q" using "1.prems"(3) q by (simp add: tlv_pool_ok_def)
      show ?thesis
      proof (cases rule: get_element_desc_cases[OF "1.prems"(1,2), of bs, case_names null elem])
        case null
        then show ?thesis
          using ne Some na q qok "1.prems" by (simp add: step free_all_avail ogs_tlv_free_def)
      next
        case (elem x r)
        have "\<exists>p' r'. tlv_parse_desc_loop q (x # acc) r mode desc = Some (p', r') \<and> tp_size p' = tp_size q \<and>
            (case r' of None \<Rightarrow> tp_avail p' = tp_avail q + length (x # acc)
             | Some ts \<Rightarrow> list_all tlv_val_ok ts \<and> tp_avail p' + length ts = tp_avail q + length (x # acc))"
          using "1.IH"[OF ne Some elem(1)] "1.prems" qok elem(2) q by simp
        then obtain p' r' where i: "tlv_parse_desc_loop q (x # acc) r mode desc = Some (p', r')"
            "tp_size p' = tp_size q" "(case r' of None \<Rightarrow> tp_avail p' = tp_avail q + length (x # acc)
             | Some ts \<Rightarrow> list_all tlv_val_ok ts \<and> tp_avail p' + length ts = tp_avail q + length (x # acc))"
          by blast
        have "tlv_parse_desc_loop p acc bs mode desc = Some (p', r')"
          using ne Some elem(1) i(1) by (simp add: step)
        then show ?thesis using i(2,3) q by (intro exI[of _ p'] exI[of _ r']) (auto split: option.splits)
      qed
    qed
  qed
qed

lemma parse_block_desc_run:
  assumes "desc_wf n desc" "mode \<noteq> OGS_TLV_MODE_UNSET" "tlv_pool_ok p"
  shows "\<exists>p' r. ogs_tlv_parse_block_desc p data mode desc = Some (p', r) \<and> tp_size p' = tp_size p \<and>
    (case r of None \<Rightarrow> p' = p
     | Some ts \<Rightarrow> list_all tlv_val_ok ts \<and> tp_avail p' + length ts = tp_avail p)"
proof (cases "ogs_tlv_get p")
  case None
  then show ?thesis by (simp add: ogs_tlv_parse_block_desc_def)
next
  case (Some q)
  then have q: "q = pool_take p 1" "0 < tp_avail p" by (auto simp: ogs_tlv_get_def split: if_splits)
  have qok: "tlv_pool_ok q" using assms(3) q by (simp add: tlv_pool_ok_def)
  show ?thesis
  proof (cases rule: get_element_desc_cases[OF assms(1,2), of data, case_names null elem])
    case null
    then show ?thesis
      using Some q assms(3) by (simp add: ogs_tlv_parse_block_desc_def ogs_tlv_free_def tlv_pool_ok_def)
  next
    case (elem x r)
    have "tp_avail q + length [x] \<le> tp_size q" using q assms(3) by (simp add: tlv_pool_ok_def)
    then obtain p' r' where i: "tlv_parse_desc_loop q [x] r mode desc = Some (p', r')" "tp_size p' = tp_size q"
        "(case r' of None \<Rightarrow> tp_avail p' = tp_avail q + length [x]
          | Some ts \<Rightarrow> list_all tlv_val_ok ts \<and> tp_avail p' + length ts = tp_avail q + length [x])"
      using parse_desc_loop_run[OF assms(1,2) qok, of "[x]" r] elem(2) by auto
    then show ?thesis
      using Some elem(1) q by (auto simp: ogs_tlv_parse_block_desc_def split: option.splits)
  qed
qed

subsection \<open>Building keeps the account\<close>

lemma tlv_append_account:
  assumes "tlv_append nested p chain m t l i v = Some (p', chain')" "tlv_pool_ok p"
  shows "pool_account p chain p' chain'" "tlv_pool_ok p'"
    "\<exists>x. chain' = chain @ [x] \<and> t_embedded x = []"
proof -
  have "p' = pool_take p 1 \<and> 0 < tp_avail p \<and> chain' = chain @ [ogs_tlv_new m t l i v]"
    using assms(1) by (auto simp: tlv_append_def ogs_tlv_add_def ogs_tlv_embed_def ogs_tlv_get_def
        split: if_splits option.splits)
  then show "pool_account p chain p' chain'" "tlv_pool_ok p'" "\<exists>x. chain' = chain @ [x] \<and> t_embedded x = []"
    using assms(2)
    by (auto simp: pool_account_def tlv_nodes_append ogs_tlv_new_def tlv_pool_ok_def)
qed

lemma tlv_add_leaf_account:
  assumes "tlv_add_leaf nested p chain d v mode = Some (p', Some chain')" "tlv_pool_ok p"
  shows "pool_account p chain p' chain'" "tlv_pool_ok p'"
proof -
  obtain m t l i w where "tlv_append nested p chain m t l i w = Some (p', chain')"
    using assms(1) by (auto simp: tlv_add_leaf_def Let_def split: if_splits)
  from tlv_append_account[OF this assms(2)]
  show "pool_account p chain p' chain'" "tlv_pool_ok p'" by blast+
qed

lemma pool_account_trans:
  "pool_account p ts p1 ts1 \<Longrightarrow> pool_account p1 ts1 p2 ts2 \<Longrightarrow> pool_account p ts p2 ts2"
  by (simp add: pool_account_def)

lemma add_compound_account:
  "tlv_add_compound nested p chain ds msg off depth mode = Some (p', Some (n, chain')) \<Longrightarrow>
     tlv_pool_ok p \<Longrightarrow> pool_account p chain p' chain' \<and> tlv_pool_ok p'"
  "tlv_add_more k nested p chain d msg off depth mode = Some (p', Some (n, chain')) \<Longrightarrow>
     tlv_pool_ok p \<Longrightarrow> pool_account p chain p' chain' \<and> tlv_pool_ok p'"
  "tlv_add_one nested p chain d msg off depth mode = Some (p', Some (n, chain')) \<Longrightarrow>
     tlv_pool_ok p \<Longrightarrow> pool_account p chain p' chain' \<and> tlv_pool_ok p'"
proof (induction nested p chain ds msg off depth mode and k nested p chain d msg off depth mode
    and nested p chain d msg off depth mode arbitrary: p' n chain' and p' n chain' and p' n chain'
    rule: tlv_add_compound_tlv_add_more_tlv_add_one.induct)
  case (2 nested p chain d ds msg off depth mode)
  from "2.prems"(1) obtain p1 n1 chain1 n2 where
    1: "(if is_more ds then tlv_add_more (unat (d_length (hd ds))) nested p chain d msg off depth mode
        else if f_presence (msg off) = 0 then Some (p, Some (0, chain))
        else tlv_add_one nested p chain d msg off depth mode) = Some (p1, Some (n1, chain1))"
    and 2: "tlv_add_compound nested p1 chain1 (if is_more ds then tl ds else ds) msg
         (off + unat (d_vsize d) * (if is_more ds then unat (d_length (hd ds)) else 1))
         depth mode = Some (p', Some (n2, chain'))"
    by (auto simp: bind_eq_Some_conv split: option.splits)
  have a1: "pool_account p chain p1 chain1 \<and> tlv_pool_ok p1"
    using 1 "2.IH"(1,2) "2.prems"(2) by (auto simp: pool_account_def split: if_splits)
  from "2.IH"(3)[OF 1 refl refl refl 2] a1 show ?case using pool_account_trans by blast
next
  case (4 k nested p chain d msg off depth mode)
  show ?case
  proof (cases "f_presence (msg off) = 0")
    case True
    then show ?thesis using "4.prems" by (simp add: pool_account_def)
  next
    case False
    with "4.prems"(1) obtain p1 n1 chain1 n2 where
      1: "tlv_add_one nested p chain d msg off depth mode = Some (p1, Some (n1, chain1))"
      and 2: "tlv_add_more k nested p1 chain1 d msg (off + unat (d_vsize d)) depth mode = Some (p', Some (n2, chain'))"
      by (auto simp: bind_eq_Some_conv split: option.splits)
    from "4.IH"(1)[OF False 1 "4.prems"(2)] "4.IH"(2)[OF False 1 refl refl refl 2]
    show ?thesis using pool_account_trans by blast
  qed
next
  case (5 nested p chain c t l i vs cds msg off depth mode)
  show ?case
  proof (cases "c = OGS_TLV_COMPOUND")
    case False
    with "5.prems" show ?thesis using tlv_add_leaf_account by fastforce
  next
    case True
    with "5.prems"(1) obtain p1 chain1 where
      1: "tlv_append nested p chain (tlv_ctype2mode c mode) (ucast t) 0 i None = Some (p1, chain1)"
      by (auto simp: bind_eq_Some_conv)
    have d8: "\<not> depth + 1 > 8" using True 1 "5.prems"(1) by auto
    obtain e n2 where
      2: "tlv_add_compound True p1 [] cds msg (off + presence_size) (depth + 1) mode = Some (p', Some (n2, e))"
      and c: "chain' = butlast chain1 @ [set_embedded e (last chain1)]"
      using True 1 d8 "5.prems"(1) by (auto simp: bind_eq_Some_conv split: option.splits if_splits)
    note a1 = tlv_append_account[OF 1 "5.prems"(2)]
    from "5.IH"[OF True 1 refl d8 2 a1(2)] have a2: "pool_account p1 [] p' e" "tlv_pool_ok p'" by auto
    from a1(3) obtain x where "chain1 = chain @ [x]" "t_embedded x = []" by blast
    with a1(1) a2 c show ?thesis
      by (auto simp: pool_account_def tlv_nodes_append tlv_nodes_Cons set_embedded_def)
  qed
qed (auto simp: pool_account_def)

subsection \<open>Properties\<close>

text \<open>C14. Robustness of the message parsers: for a well-formed descriptor table of at most eight
  levels and for every byte string a peer may send, \<open>ogs_tlv_parse_msg\<close> and
  \<open>ogs_tlv_parse_msg_desc\<close> terminate without reaching an assertion or reading outside an
  element, and, whether they succeed or fail at any level, all nodes they took are back in
  the pool.\<close>

theorem tlv_parse_msg_robust:
  assumes "d_ctype desc = OGS_TLV_MESSAGE" "d_childs desc \<noteq> []" "desc_wf 8 desc"
    and "mode \<noteq> OGS_TLV_MODE_UNSET" "tp_avail p \<le> tp_size p"
  shows "(\<exists>rv msg'. ogs_tlv_parse_msg p msg desc data mode = Some (rv, p, msg')) \<and>
    (\<exists>rv msg'. ogs_tlv_parse_msg_desc p msg desc data mode = Some (rv, p, msg'))"
proof
  have ok: "tlv_pool_ok p" using assms(5) by (simp add: tlv_pool_ok_def)
  obtain p1 r where b: "ogs_tlv_parse_block p data mode = Some (p1, r)"
    using parse_block_total[OF assms(4)] by fastforce
  note snd = parse_block_sound[OF b ok]
  show "\<exists>rv msg'. ogs_tlv_parse_msg p msg desc data mode = Some (rv, p, msg')"
  proof (cases r)
    case None
    with b snd assms show ?thesis by (simp add: ogs_tlv_parse_msg_def)
  next
    case (Some root)
    with snd have root: "list_all (tlv_elem_ok mode) root" "length root \<le> tp_avail p"
        "p1 = pool_take p (length root)" by simp_all
    have v: "list_all tlv_val_ok root" using root(1) elem_ok_val_ok by (auto simp: list.pred_set)
    have "tlv_pool_ok p1" "tp_size p1 = tp_size p" "tp_avail p1 + length root = tp_avail p"
      using root ok by (simp_all add: tlv_pool_ok_def)
    from parse_then_free[OF assms(3,4) ok this(1) v this(2,3), of msg]
    show ?thesis using b Some assms by (simp add: ogs_tlv_parse_msg_def)
  qed
  obtain p2 r2 where b2: "ogs_tlv_parse_block_desc p data mode desc = Some (p2, r2)"
    "tp_size p2 = tp_size p" "(case r2 of None \<Rightarrow> p2 = p
     | Some ts \<Rightarrow> list_all tlv_val_ok ts \<and> tp_avail p2 + length ts = tp_avail p)"
    using parse_block_desc_run[OF assms(3,4) ok] by blast
  show "\<exists>rv msg'. ogs_tlv_parse_msg_desc p msg desc data mode = Some (rv, p, msg')"
  proof (cases r2)
    case None
    with b2 assms show ?thesis by (simp add: ogs_tlv_parse_msg_desc_def)
  next
    case (Some root)
    with b2(3) have v: "list_all tlv_val_ok root" "tp_avail p2 + length root = tp_avail p" by simp_all
    have "tlv_pool_ok p2" using b2(2) v(2) ok by (simp add: tlv_pool_ok_def)
    from parse_then_free[OF assms(3,4) ok this v(1) b2(2) v(2), of msg]
    show ?thesis using b2(1) Some assms by (simp add: ogs_tlv_parse_msg_desc_def)
  qed
qed

theorem tlv_parse_msg_robust_witness:
  "let desc = Desc OGS_TLV_MESSAGE 0 0 0 0 [Desc OGS_TLV_COMPOUND 1 0 0 40
         [Desc OGS_TLV_UINT8 3 1 0 16 [], Desc OGS_TLV_MORE 0 2 0 0 []]];
       p = \<lparr>tp_size = 4, tp_avail = 4\<rparr>
   in \<exists>rv msg'. ogs_tlv_parse_msg p (\<lambda>_. \<lparr>f_presence = 0, f_num = 0, f_data = [], f_len = 0\<rparr>) desc
        [0, 1, 0, 5, 0, 3, 0, 9, 7] OGS_TLV_MODE_T2_L2 = Some (rv, p, msg')"
  unfolding Let_def
  by (rule tlv_parse_msg_robust[THEN conjunct1]) (simp_all add: eval_nat_numeral)

text \<open>A message that the table walk turns into a chain whose values cover their lengths is
  rendered.\<close>

lemma build_msg_of_walk:
  assumes walk: "tlv_add_compound False p [] (d_childs desc) msg 0 0 mode = Some (p1, Some (n, root))"
    and n: "0 < n" and desc: "d_ctype desc = OGS_TLV_MESSAGE" "d_childs desc \<noteq> []"
    and root: "tlv_ok root" "tlv_size root < 2 ^ 31" and p: "tp_avail p \<le> tp_size p"
  shows "\<exists>pk. ogs_tlv_build_msg p desc msg mode = Some (p, Some pk) \<and> pk_inv pk \<and>
    pk_bytes pk = tlv_bytes root \<and> ogs_pkbuf_headroom pk = int OGS_TLV_MAX_HEADROOM"
proof -
  let ?n = "tlv_size root" and ?l = "of_nat (tlv_size root) :: u32"
  have un: "unat ?l = ?n" using root(2) by (intro unat_of_nat_u32) simp
  then have sl: "sint ?l = int ?n" using root(2) by (simp add: sint_small)
  obtain ts' where len: "ogs_tlv_calc_length root = Some (?l, ts')"
    using calc_length_size[OF root(1)] by blast
  let ?pk = "\<lparr>pk_buf = replicate (16 + ?n) 0, pk_data = 16, pk_tail = 16 + ?n, pk_len = ?n\<rparr>"
  let ?buf = "overlay (replicate (16 + ?n) 0) 16 (tlv_bytes root)"
  have alloc: "map_option snd (ogs_pkbuf_put (ogs_pkbuf_reserve (ogs_pkbuf_alloc
      (OGS_TLV_MAX_HEADROOM + unat ?l)) OGS_TLV_MAX_HEADROOM) ?l) = Some ?pk"
    using un sl by (simp add: ogs_pkbuf_put_def ogs_pkbuf_tailroom_def ogs_pkbuf_reserve_def
        ogs_pkbuf_alloc_def OGS_TLV_MAX_HEADROOM_def)
  have ren: "ogs_tlv_render root (replicate (16 + ?n) 0) 16 16 ?l = Some (?buf, 16 + ?n)"
    using root un by (intro render_overlay) simp_all
  have ok: "tlv_pool_ok p" using p by (simp add: tlv_pool_ok_def)
  from add_compound_account(1)[OF walk ok]
  have "tp_size p1 = tp_size p" "tp_avail p1 + tlv_nodes root = tp_avail p" "tlv_pool_ok p1"
    by (simp_all add: pool_account_def)
  then have free: "ogs_tlv_free_all p1 root = p" by (intro account_free_all[OF ok])
  have "ogs_tlv_build_msg p desc msg mode = Some (p, Some (?pk\<lparr>pk_buf := ?buf\<rparr>))"
    using desc walk n len ren free un by (simp add: ogs_tlv_build_msg_def alloc[unfolded un])
  moreover have "pk_bytes (?pk\<lparr>pk_buf := ?buf\<rparr>) = tlv_bytes root"
    using root(1) by (simp add: pk_bytes_def overlay_def)
  ultimately show ?thesis
    using root(1) by (intro exI[of _ "?pk\<lparr>pk_buf := ?buf\<rparr>"])
      (simp add: pk_inv_def ogs_pkbuf_headroom_def OGS_TLV_MAX_HEADROOM_def)
qed

definition demo_desc :: ogs_tlv_desc where
  "demo_desc = Desc OGS_TLV_MESSAGE 0 0 0 0
     [Desc OGS_TLV_UINT16 96 2 0 16 [], Desc OGS_TLV_VAR_STR 22 0 0 24 []]"

definition demo_msg :: "bytes \<Rightarrow> tlv_msg" where
  "demo_msg name = (\<lambda>_. \<lparr>f_presence = 1, f_num = 0x0102, f_data = name, f_len = of_nat (length name)\<rparr>)"

lemmas demo_build = demo_desc_def demo_msg_def tlv_append_def ogs_tlv_add_def ogs_tlv_get_def
  ogs_tlv_new_def tlv_ctype2mode_def tlv_add_leaf_def put16_def

text \<open>Failure of a build loses nodes: when an element cannot be encoded (here a variable
  string of length 0), \<open>ogs_tlv_build_msg\<close> returns NULL without releasing the nodes it
  has already taken, so every such call shrinks the pool for good.\<close>

theorem tlv_build_msg_leaks:
  "ogs_tlv_build_msg \<lparr>tp_size = 4, tp_avail = 4\<rparr> demo_desc (demo_msg []) OGS_TLV_MODE_T2_L2
     = Some (\<lparr>tp_size = 4, tp_avail = 3\<rparr>, None)"
  by (simp add: ogs_tlv_build_msg_def demo_build)

text \<open>An element of type 0 is not always skipped as unknown: the \<open>OGS_TLV_MORE\<close> entries
  of a table have type 0 and instance 0, so in a message whose table has an array such an
  element matches the entry and the whole message is rejected, while without the array the
  element is ignored.\<close>

theorem tlv_type_zero_rejected:
  "let p = \<lparr>tp_size = 4, tp_avail = 4\<rparr>; m = (\<lambda>_. \<lparr>f_presence = 0, f_num = 0, f_data = [], f_len = 0\<rparr>);
       e = Desc OGS_TLV_UINT8 3 1 0 16 []; more = Desc OGS_TLV_MORE 0 2 0 0 []
   in ogs_tlv_parse_msg p m (Desc OGS_TLV_MESSAGE 0 0 0 0 [e, more]) [0, 0, 0, 0] OGS_TLV_MODE_T2_L2
        = Some (OGS_ERROR, p, m) \<and>
      ogs_tlv_parse_msg p m (Desc OGS_TLV_MESSAGE 0 0 0 0 [e]) [0, 0, 0, 0] OGS_TLV_MODE_T2_L2
        = Some (OGS_OK, p, m)"
  by (simp add: Let_def ogs_tlv_parse_msg_def ogs_tlv_parse_block_def ogs_tlv_get_def
      tlv_get_element_def tlv_take_value_def tlv_parse_loop.simps tlv_parse_compound.simps
      tlv_count_node_find_def tlv_find_desc_by_type_inst_def tlv_parse_leaf_def ogs_tlv_free_def
      OGS_TLV_MAX_CHILD_DESC_def fun_eq_iff)

end
