(* ===== verification/Ogs_Tlv_Build.thy ===== *)
theory Ogs_Tlv_Build
  imports Ogs_Tlv_Msg
begin

unbundle bit_operations_syntax

text \<open>
  What \<open>ogs_tlv_build_msg\<close> puts on the wire, said without its walk, its
  nodes and its shifts: the elements that are present in a message, in the order of the descriptor
  table, each with its type, the length of its value and the value in octets, most significant octet
  first.
\<close>

subsection \<open>The elements of a message\<close>

definition be_octets :: "nat \<Rightarrow> nat \<Rightarrow> bytes" where
  "be_octets n k = map (\<lambda>i. of_nat (k div 256 ^ i)) (rev [0..<n])"

datatype tlv_elem =
    Leaf ogs_tlv_mode u16 u8 bytes
  | Group ogs_tlv_mode u16 u8 "tlv_elem list"

definition element_octets :: "ogs_tlv_mode \<Rightarrow> u16 \<Rightarrow> u8 \<Rightarrow> bytes \<Rightarrow> bytes" where
  "element_octets mode type inst value =
     (case mode of
        OGS_TLV_MODE_T1_L1 \<Rightarrow> be_octets 1 (unat type) @ be_octets 1 (length value)
      | OGS_TLV_MODE_T1_L2 \<Rightarrow> be_octets 1 (unat type) @ be_octets 2 (length value)
      | OGS_TLV_MODE_T1_L2_I1 \<Rightarrow> be_octets 1 (unat type) @ be_octets 2 (length value) @ [inst]
      | OGS_TLV_MODE_T2_L2 \<Rightarrow> be_octets 2 (unat type) @ be_octets 2 (length value)
      | OGS_TLV_MODE_T1 \<Rightarrow> be_octets 1 (unat type)
      | OGS_TLV_MODE_UNSET \<Rightarrow> []) @ value"

fun elem_octets :: "tlv_elem \<Rightarrow> bytes" where
  "elem_octets (Leaf mode type inst value) = element_octets mode type inst value"
| "elem_octets (Group mode type inst es) = element_octets mode type inst (concat (map elem_octets es))"

fun elem_nodes :: "tlv_elem \<Rightarrow> nat" where
  "elem_nodes (Leaf mode type inst value) = 1"
| "elem_nodes (Group mode type inst es) = 1 + sum_list (map elem_nodes es)"

abbreviation message_nodes :: "tlv_elem list \<Rightarrow> nat" where
  "message_nodes es \<equiv> sum_list (map elem_nodes es)"

lemma elem_nodes_pos [simp]: "0 < elem_nodes e"
  by (cases e) simp_all

abbreviation message_octets :: "tlv_elem list \<Rightarrow> bytes" where
  "message_octets es \<equiv> concat (map elem_octets es)"

text \<open>The types of the TV formats have no length field; the numbers have as many octets as
  their types say.\<close>

definition elem_mode :: "ogs_tlv_ctype \<Rightarrow> ogs_tlv_mode \<Rightarrow> ogs_tlv_mode" where
  "elem_mode c mode =
     (case c of
        OGS_TV_UINT8 \<Rightarrow> OGS_TLV_MODE_T1 | OGS_TV_UINT16 \<Rightarrow> OGS_TLV_MODE_T1
      | OGS_TV_UINT24 \<Rightarrow> OGS_TLV_MODE_T1 | OGS_TV_UINT32 \<Rightarrow> OGS_TLV_MODE_T1
      | OGS_TV_INT8 \<Rightarrow> OGS_TLV_MODE_T1 | OGS_TV_INT16 \<Rightarrow> OGS_TLV_MODE_T1
      | OGS_TV_INT24 \<Rightarrow> OGS_TLV_MODE_T1 | OGS_TV_INT32 \<Rightarrow> OGS_TLV_MODE_T1
      | OGS_TV_FIXED_STR \<Rightarrow> OGS_TLV_MODE_T1 | OGS_TV_NULL \<Rightarrow> OGS_TLV_MODE_T1
      | _ \<Rightarrow> mode)"

definition number_octets :: "ogs_tlv_ctype \<Rightarrow> nat option" where
  "number_octets c =
     (case c of
        OGS_TLV_UINT8 \<Rightarrow> Some 1 | OGS_TLV_INT8 \<Rightarrow> Some 1 | OGS_TV_UINT8 \<Rightarrow> Some 1 | OGS_TV_INT8 \<Rightarrow> Some 1
      | OGS_TLV_UINT16 \<Rightarrow> Some 2 | OGS_TLV_INT16 \<Rightarrow> Some 2 | OGS_TV_UINT16 \<Rightarrow> Some 2 | OGS_TV_INT16 \<Rightarrow> Some 2
      | OGS_TLV_UINT24 \<Rightarrow> Some 3 | OGS_TLV_INT24 \<Rightarrow> Some 3 | OGS_TV_UINT24 \<Rightarrow> Some 3 | OGS_TV_INT24 \<Rightarrow> Some 3
      | OGS_TLV_UINT32 \<Rightarrow> Some 4 | OGS_TLV_INT32 \<Rightarrow> Some 4 | OGS_TV_UINT32 \<Rightarrow> Some 4 | OGS_TV_INT32 \<Rightarrow> Some 4
      | _ \<Rightarrow> None)"

text \<open>The value of a present leaf; none when it has no encoding: an unknown type, an empty variable
  string, or a string whose length is more than the data it points to.\<close>

definition leaf_value :: "ogs_tlv_ctype \<Rightarrow> u16 \<Rightarrow> tlv_field \<Rightarrow> bytes option" where
  "leaf_value c len v =
     (case number_octets c of
        Some n \<Rightarrow> Some (be_octets n (unat (f_num v)))
      | None \<Rightarrow>
          if c = OGS_TLV_FIXED_STR \<or> c = OGS_TV_FIXED_STR then
            (if unat len \<le> length (f_data v) then Some (take (unat len) (f_data v)) else None)
          else if c = OGS_TLV_VAR_STR then
            (if 0 < f_len v \<and> unat (f_len v) \<le> length (f_data v)
             then Some (take (unat (f_len v)) (f_data v)) else None)
          else if c = OGS_TLV_NULL \<or> c = OGS_TV_NULL then Some []
          else None)"

text \<open>The offsets of the present entries: of an array those before the first absent one.\<close>

definition present_at :: "tlv_msg \<Rightarrow> nat \<Rightarrow> nat \<Rightarrow> nat \<Rightarrow> nat list" where
  "present_at msg off step n =
     takeWhile (\<lambda>at. f_presence (msg at) \<noteq> 0) (map (\<lambda>j. off + j * step) [0..<n])"

definition entries :: "ogs_tlv_desc list \<Rightarrow> nat" where
  "entries ds = (if is_more ds then unat (d_length (hd ds)) else 1)"

definition after_entries :: "ogs_tlv_desc list \<Rightarrow> ogs_tlv_desc list" where
  "after_entries ds = (if is_more ds then tl ds else ds)"

function message_elems :: "ogs_tlv_mode \<Rightarrow> tlv_msg \<Rightarrow> nat \<Rightarrow> ogs_tlv_desc list \<Rightarrow> tlv_elem list option"
  and desc_elem :: "ogs_tlv_mode \<Rightarrow> tlv_msg \<Rightarrow> nat \<Rightarrow> ogs_tlv_desc \<Rightarrow> tlv_elem option"
where
  "message_elems mode msg off [] = Some []"
| "message_elems mode msg off (d # ds) =
     Option.bind (those (map (\<lambda>at. desc_elem mode msg at d) (present_at msg off (unat (d_vsize d)) (entries ds))))
       (\<lambda>es. map_option ((@) es)
          (message_elems mode msg (off + unat (d_vsize d) * entries ds) (after_entries ds)))"
| "desc_elem mode msg off (Desc c t l i vs cds) =
     (if c = OGS_TLV_COMPOUND then
        (case message_elems mode msg (off + presence_size) cds of
           Some (e # es) \<Rightarrow> Some (Group mode t i (e # es))
         | _ \<Rightarrow> None)
      else map_option (Leaf (elem_mode c mode) t i) (leaf_value c l (msg off)))"
  by pat_completeness auto
termination
  by (relation "measure (\<lambda>x. case x of
         Inl (mode, msg, off, ds) \<Rightarrow> 2 * size_list size ds
       | Inr (mode, msg, off, d) \<Rightarrow> 2 * size d)")
    (auto simp: after_entries_def neq_Nil_conv)

subsection \<open>Nodes that stand for elements\<close>

fun elem_rep :: "tlv_elem \<Rightarrow> ogs_tlv \<Rightarrow> bool" where
  "elem_rep (Leaf mode type inst value) x \<longleftrightarrow> mode \<noteq> OGS_TLV_MODE_UNSET \<and>
     (\<exists>len v. x = Tlv mode (ucast type) len inst v [] \<and> unat len = length value \<and>
        length value \<le> length v \<and> take (length value) v = value)"
| "elem_rep (Group mode type inst es) x \<longleftrightarrow> mode \<noteq> OGS_TLV_MODE_UNSET \<and> es \<noteq> [] \<and>
     (\<exists>len v ts. x = Tlv mode (ucast type) len inst v ts \<and> list_all2 elem_rep es ts)"

lemma be_octets_simps:
  "be_octets 1 k = [of_nat k]" "be_octets 2 k = [of_nat (k div 256), of_nat k]"
  by (simp_all add: be_octets_def numeral_2_eq_2)

lemma put_octets:
  "ucast (ucast (t :: u16) :: u32) = (ucast t :: u8)"
  "ucast (drop_bit 8 (ucast (t :: u16) :: u32)) = (of_nat (unat t div 256) :: u8)"
  "n < 2 ^ 32 \<Longrightarrow> ucast (drop_bit 8 (of_nat n :: u32)) = (of_nat (n div 256) :: u8)"
  "n < 2 ^ 32 \<Longrightarrow> ucast (of_nat n :: u32) = (of_nat n :: u8)"
proof -
  have bits: "ucast (drop_bit 8 (w :: u32)) = (of_nat (unat w div 256) :: u8)" for w
    by (simp add: word_unat_eq_iff unsigned_ucast_eq unsigned_drop_bit_eq drop_bit_eq_div unat_div unat_of_nat take_bit_eq_mod)
  show "ucast (ucast t :: u32) = (ucast t :: u8)" by (rule bit_word_eqI) (simp add: bit_simps)
  show "ucast (drop_bit 8 (ucast t :: u32)) = (of_nat (unat t div 256) :: u8)"
    using unsigned_less [of t, where 'a = nat] unfolding bits by (simp add: unsigned_ucast_eq take_bit_nat_eq_self)
  assume "n < 2 ^ 32"
  then have n: "unat (of_nat n :: u32) = n" by (simp add: unat_of_nat)
  show "ucast (drop_bit 8 (of_nat n :: u32)) = (of_nat (n div 256) :: u8)" unfolding bits n ..
  show "ucast (of_nat n :: u32) = (of_nat n :: u8)"
    using \<open>n < 2 ^ 32\<close> by (simp add: word_unat_eq_iff unsigned_ucast_eq n unat_of_nat take_bit_eq_mod)
qed

lemma header_octets:
  assumes "mode \<noteq> OGS_TLV_MODE_UNSET" "length value < 2 ^ 32"
  shows "tlv_header mode (ucast type) (of_nat (length value)) inst @ value = element_octets mode type inst value"
  using assms
  by (cases mode) (simp_all add: tlv_header_def element_octets_def tlv_put_defs be_octets_simps put_octets del: One_nat_def)

text \<open>From the nodes of the elements to those of the message.\<close>

lemma rep_octets_list:
  assumes "list_all2 rep es ts" "length (message_octets es) < 2 ^ 32"
    and "\<And>e x. e \<in> set es \<Longrightarrow> x \<in> set ts \<Longrightarrow> rep e x \<Longrightarrow> length (elem_octets e) < 2 ^ 32 \<Longrightarrow>
      tlv_ok [x] \<and> tlv_bytes [x] = elem_octets e \<and> tlv_nodes [x] = elem_nodes e"
  shows "tlv_ok ts \<and> tlv_bytes ts = message_octets es \<and> tlv_nodes ts = message_nodes es"
  using assms
proof (induction rule: list_all2_induct)
  case (Cons e es x ts)
  have one: "tlv_ok [x] \<and> tlv_bytes [x] = elem_octets e \<and> tlv_nodes [x] = elem_nodes e"
    using Cons.prems(2) [of e x] Cons.prems(1) Cons.hyps(1) by simp
  moreover have "tlv_ok ts \<and> tlv_bytes ts = message_octets es \<and> tlv_nodes ts = message_nodes es"
    by (rule Cons.IH) (use Cons.prems in auto)
  moreover have "tlv_ok (x # ts) = (tlv_ok [x] \<and> tlv_ok ts)" by (cases x) simp
  moreover have "tlv_nodes (x # ts) = tlv_nodes [x] + tlv_nodes ts" by (cases x) simp
  ultimately show ?case using tlv_bytes_Cons [of x ts] by simp
qed simp

lemma rep_octets:
  "elem_rep e x \<Longrightarrow> length (elem_octets e) < 2 ^ 32 \<Longrightarrow>
     tlv_ok [x] \<and> tlv_bytes [x] = elem_octets e \<and> tlv_nodes [x] = elem_nodes e"
proof (induction e x rule: elem_rep.induct)
  case (1 mode type inst val x)
  then obtain len v where x: "x = Tlv mode (ucast type) len inst v []" "unat len = length val"
    "length val \<le> length v" "take (length val) v = val" "mode \<noteq> OGS_TLV_MODE_UNSET" by auto
  have "length val < 2 ^ 32" using 1(2) by (simp add: element_octets_def)
  moreover from x(2) have "len = of_nat (length val)" by (simp flip: x(2))
  ultimately show ?case using x header_octets [of mode val type inst] by (simp add: unat_of_nat)
next
  case (2 mode type inst es x)
  then obtain len v ts where x: "x = Tlv mode (ucast type) len inst v ts" "list_all2 elem_rep es ts"
    "mode \<noteq> OGS_TLV_MODE_UNSET" "ts \<noteq> []" by auto
  have len: "length (message_octets es) < 2 ^ 32" using "2.prems"(2) by (simp add: element_octets_def)
  have ts: "tlv_ok ts \<and> tlv_bytes ts = message_octets es \<and> tlv_nodes ts = message_nodes es"
    by (rule rep_octets_list [OF x(2) len]) (use "2.IH" x in blast)
  then have "tlv_size ts = length (message_octets es)" by (metis length_tlv_bytes)
  then show ?case using ts x header_octets [OF x(3) len, of type inst] by simp
qed

lemma message_rep_octets:
  "list_all2 elem_rep es ts \<Longrightarrow> length (message_octets es) < 2 ^ 32 \<Longrightarrow>
     tlv_ok ts \<and> tlv_bytes ts = message_octets es \<and> tlv_nodes ts = message_nodes es"
  by (rule rep_octets_list) (use rep_octets in blast)+

subsection \<open>The walk builds the nodes of the elements\<close>

text \<open>A leaf that has a value becomes one node with it.\<close>

lemma append_node:
  assumes "0 < tp_avail p" "nested \<or> len = 0 \<or> value \<noteq> None"
  shows "tlv_append nested p chain mode type len inst value =
    Some (pool_take p 1, chain @ [Tlv mode type len inst (case value of None \<Rightarrow> [] | Some v \<Rightarrow> v) []])"
  using assms by (auto simp: tlv_append_def ogs_tlv_embed_def ogs_tlv_add_def ogs_tlv_get_def ogs_tlv_new_def)

lemma octet_of_number: "(of_nat (unat w div 256 ^ k) :: u8) = ucast (drop_bit (8 * k) (w :: u32))"
proof -
  have "unat (drop_bit (8 * k) w) = unat w div 256 ^ k"
    using unsigned_less [of w, where 'a = nat]
    by (simp only: unsigned_drop_bit_eq) (simp add: drop_bit_eq_div power_mult take_bit_nat_eq_self)
  then show ?thesis by (simp add: word_unat_eq_iff unsigned_ucast_eq unat_of_nat take_bit_eq_mod)
qed

lemma number_value:
  "be_octets 1 (unat w) = [ucast (w :: u32)]"
  "be_octets 2 (unat w) = put16 (ucast w)"
  "be_octets 3 (unat w) = take 3 (put32 (push_bit 8 w))"
  "be_octets 4 (unat w) = put32 w"
proof -
  have upt: "rev [0..<1] = [0 :: nat]" "rev [0..<2] = [1, 0 :: nat]" "rev [0..<3] = [2, 1, 0 :: nat]"
    "rev [0..<4] = [3, 2, 1, 0 :: nat]" by (simp_all add: upt_rec)
  have octets: "be_octets n (unat w) = map (\<lambda>i. ucast (drop_bit (8 * i) w)) (rev [0..<n])" for n
    by (simp add: be_octets_def octet_of_number)
  show "be_octets 1 (unat w) = [ucast w]" unfolding octets upt by simp
  show "be_octets 2 (unat w) = put16 (ucast w)"
    unfolding octets upt put16_def by (auto simp: bit_eq_iff bit_simps)
  show "be_octets 3 (unat w) = take 3 (put32 (push_bit 8 w))"
    unfolding octets upt put32_def by (auto simp: bit_eq_iff bit_simps)
  show "be_octets 4 (unat w) = put32 w" unfolding octets upt put32_def by simp
qed

lemma add_leaf_value:
  assumes "leaf_value c l v = Some val" "0 < tp_avail p" "mode \<noteq> OGS_TLV_MODE_UNSET" "c \<noteq> OGS_TLV_COMPOUND"
  shows "\<exists>x. tlv_add_leaf nested p chain (Desc c t l i vs cds) v mode = Some (pool_take p 1, Some (chain @ [x])) \<and>
    elem_rep (Leaf (elem_mode c mode) t i val) x"
  using assms
  by (cases c) (auto simp: leaf_value_def number_octets_def tlv_add_leaf_def append_node elem_mode_def
      tlv_ctype2mode_def number_value unsigned_ucast_eq take_bit_nat_eq_self less_trans [OF unsigned_less] split: if_splits simp del: One_nat_def)

text \<open>What the levels of a table leave for the levels of a message: the walk asserts at most
  eight.\<close>

definition level_ok :: "nat \<Rightarrow> ogs_tlv_desc \<Rightarrow> bool" where
  "level_ok depth d \<longleftrightarrow> (d_ctype d = OGS_TLV_COMPOUND \<longrightarrow> (\<exists>n. depth + 1 + n \<le> 8 \<and> desc_wf n d))"

lemma level_ok_child:
  assumes "level_ok depth (Desc OGS_TLV_COMPOUND t l i vs cds)"
  shows "depth + 1 \<le> 8" "\<And>d. d \<in> set cds \<Longrightarrow> level_ok (depth + 1) d"
proof -
  obtain n where n: "depth + 1 + n \<le> 8" "desc_wf n (Desc OGS_TLV_COMPOUND t l i vs cds)"
    using assms by (auto simp: level_ok_def)
  then show "depth + 1 \<le> 8" by simp
  show "level_ok (depth + 1) d" if child: "d \<in> set cds" for d
  proof (cases "d_ctype d = OGS_TLV_COMPOUND")
    case True
    obtain k where "n = Suc k" "desc_wf k d" by (rule desc_wf_child [OF n(2) _ True]) (use child in simp_all)
    then show ?thesis using n(1) by (auto simp: level_ok_def)
  qed (simp add: level_ok_def)
qed

lemma present_at_simps:
  "present_at msg off step 0 = []"
  "present_at msg off step (Suc k) =
     (if f_presence (msg off) = 0 then [] else off # present_at msg (off + step) step k)"
proof -
  have "map (\<lambda>j. off + j * step) [0..<Suc k] = off # map (\<lambda>j. off + step + j * step) [0..<k]"
    by (simp add: map_upt_Suc algebra_simps del: upt_Suc)
  then show "present_at msg off step (Suc k) =
     (if f_presence (msg off) = 0 then [] else off # present_at msg (off + step) step k)"
    by (simp add: present_at_def del: upt_Suc)
qed (simp add: present_at_def)

lemma add_compound_elems:
  "message_elems mode msg off ds = Some es \<Longrightarrow> message_nodes es \<le> tp_avail p \<Longrightarrow>
     mode \<noteq> OGS_TLV_MODE_UNSET \<Longrightarrow> (\<And>d. d \<in> set ds \<Longrightarrow> level_ok depth d) \<Longrightarrow>
     \<exists>ts. tlv_add_compound nested p chain ds msg off depth mode =
        Some (pool_take p (message_nodes es), Some (message_nodes es, chain @ ts)) \<and> list_all2 elem_rep es ts"
  "those (map (\<lambda>at. desc_elem mode msg at d) (present_at msg off (unat (d_vsize d)) k)) = Some es \<Longrightarrow>
     message_nodes es \<le> tp_avail p \<Longrightarrow> mode \<noteq> OGS_TLV_MODE_UNSET \<Longrightarrow> level_ok depth d \<Longrightarrow>
     \<exists>ts. tlv_add_more k nested p chain d msg off depth mode =
        Some (pool_take p (message_nodes es), Some (message_nodes es, chain @ ts)) \<and> list_all2 elem_rep es ts"
  "desc_elem mode msg off d = Some e \<Longrightarrow> elem_nodes e \<le> tp_avail p \<Longrightarrow>
     mode \<noteq> OGS_TLV_MODE_UNSET \<Longrightarrow> level_ok depth d \<Longrightarrow>
     \<exists>x. tlv_add_one nested p chain d msg off depth mode =
        Some (pool_take p (elem_nodes e), Some (elem_nodes e, chain @ [x])) \<and> elem_rep e x"
proof (induction nested p chain ds msg off depth mode and k nested p chain d msg off depth mode
    and nested p chain d msg off depth mode arbitrary: es and es and e
    rule: tlv_add_compound_tlv_add_more_tlv_add_one.induct)
  case (1 nested p chain msg off depth mode)
  then show ?case by simp
next
  case (2 nested p chain d ds msg off depth mode)
  let ?size = "unat (d_vsize d)"
  from "2.prems"(1) obtain es1 es2 where
    1: "those (map (\<lambda>at. desc_elem mode msg at d) (present_at msg off ?size (entries ds))) = Some es1"
    and 2: "message_elems mode msg (off + ?size * entries ds) (after_entries ds) = Some es2"
    and es: "es = es1 @ es2"
    by (auto simp: bind_eq_Some_conv)
  have lev: "level_ok depth d" "\<And>d. d \<in> set (after_entries ds) \<Longrightarrow> level_ok depth d"
    using "2.prems"(4) by (auto simp: after_entries_def dest: list.set_sel(2) split: if_splits)
  have n: "message_nodes es1 \<le> tp_avail p" "message_nodes es2 \<le> tp_avail p - message_nodes es1"
    using "2.prems"(2) by (simp_all add: es)
  let ?first = "if is_more ds then tlv_add_more (unat (d_length (hd ds))) nested p chain d msg off depth mode
    else if f_presence (msg off) = 0 then Some (p, Some (0, chain))
    else tlv_add_one nested p chain d msg off depth mode"
  obtain ts1 where first: "?first = Some (pool_take p (message_nodes es1), Some (message_nodes es1, chain @ ts1))"
    and rep1: "list_all2 elem_rep es1 ts1"
  proof (cases "is_more ds")
    case True
    then have "entries ds = unat (d_length (hd ds))" by (simp add: entries_def)
    from "2.IH"(1) [OF True 1 [unfolded this] n(1) "2.prems"(3) lev(1)]
    show ?thesis using True that by auto
  next
    case False
    then have e1: "entries ds = Suc 0" by (auto simp: entries_def)
    show ?thesis
    proof (cases "f_presence (msg off) = 0")
      case True
      then show ?thesis using 1 \<open>\<not> is_more ds\<close> e1 by (intro that [of "[]"]) (auto simp: present_at_simps)
    next
      case present: False
      then obtain e where e: "desc_elem mode msg off d = Some e" "es1 = [e]"
        using 1 e1 by (auto simp: present_at_simps split: option.splits)
      from "2.IH"(2) [OF False present e(1) _ "2.prems"(3) lev(1)] n(1) e(2)
      obtain x where "tlv_add_one nested p chain d msg off depth mode =
          Some (pool_take p (elem_nodes e), Some (elem_nodes e, chain @ [x]))" "elem_rep e x"
        by auto
      then show ?thesis using False present e(2) by (intro that [of "[x]"]) auto
    qed
  qed
  have rest: "off + unat (d_vsize d) * (if is_more ds then unat (d_length (hd ds)) else 1) = off + ?size * entries ds"
    "(if is_more ds then tl ds else ds) = after_entries ds"
    by (simp_all add: entries_def after_entries_def)
  from "2.IH"(3) [OF first refl refl refl, unfolded rest, OF 2] n(2) "2.prems"(3) lev(2)
  obtain ts2 where "tlv_add_compound nested (pool_take p (message_nodes es1)) (chain @ ts1) (after_entries ds) msg
      (off + ?size * entries ds) depth mode = Some (pool_take (pool_take p (message_nodes es1)) (message_nodes es2),
        Some (message_nodes es2, (chain @ ts1) @ ts2))" "list_all2 elem_rep es2 ts2"
    by auto
  then show ?case
    unfolding tlv_add_compound.simps(2) first bind.bind_lunit rest
    using rep1 by (intro exI [of _ "ts1 @ ts2"]) (simp add: es list_all2_appendI)
next
  case (3 nested p chain d msg off depth mode)
  then show ?case by (simp add: present_at_simps)
next
  case (4 k nested p chain d msg off depth mode)
  show ?case
  proof (cases "f_presence (msg off) = 0")
    case True
    then show ?thesis using "4.prems"(1) by (simp add: present_at_simps)
  next
    case False
    then obtain e es' where e: "desc_elem mode msg off d = Some e"
      "those (map (\<lambda>at. desc_elem mode msg at d) (present_at msg (off + unat (d_vsize d)) (unat (d_vsize d)) k)) = Some es'"
      "es = e # es'"
      using "4.prems"(1) by (auto simp: present_at_simps split: option.splits)
    obtain x where x: "tlv_add_one nested p chain d msg off depth mode =
        Some (pool_take p (elem_nodes e), Some (elem_nodes e, chain @ [x]))" "elem_rep e x"
      using "4.IH"(1) [OF False e(1) _ "4.prems"(3,4)] "4.prems"(2) e(3) by auto
    have av: "message_nodes es' \<le> tp_avail (pool_take p (elem_nodes e))" using "4.prems"(2) e(3) by simp
    obtain ts where "tlv_add_more k nested (pool_take p (elem_nodes e)) (chain @ [x]) d msg (off + unat (d_vsize d)) depth mode =
        Some (pool_take (pool_take p (elem_nodes e)) (message_nodes es'), Some (message_nodes es', (chain @ [x]) @ ts))"
      "list_all2 elem_rep es' ts"
      using "4.IH"(2) [OF False x(1) refl refl refl e(2) av "4.prems"(3,4)] by auto
    then show ?thesis using False x e(3) by (intro exI [of _ "x # ts"]) simp
  qed
next
  case (5 nested p chain c t l i vs cds msg off depth mode)
  show ?case
  proof (cases "c = OGS_TLV_COMPOUND")
    case False
    then obtain val where val: "leaf_value c l (msg off) = Some val" "e = Leaf (elem_mode c mode) t i val"
      using "5.prems"(1) by auto
    have "0 < tp_avail p" using "5.prems"(2) val(2) by simp
    from add_leaf_value [OF val(1) this "5.prems"(3) False, of nested chain t i vs cds]
    show ?thesis using False val(2) by auto
  next
    case True
    then obtain es where es: "message_elems mode msg (off + presence_size) cds = Some es" "es \<noteq> []"
      "e = Group mode t i es"
      using "5.prems"(1) by (auto split: option.splits list.splits)
    note lev = level_ok_child [OF "5.prems"(4) [unfolded True]]
    have avail: "0 < tp_avail p" "message_nodes es \<le> tp_avail (pool_take p 1)"
      using "5.prems"(2) by (simp_all add: es(3))
    let ?x = "Tlv mode (ucast t) 0 i [] []"
    have new: "tlv_append nested p chain (tlv_ctype2mode c mode) (ucast t) 0 i None = Some (pool_take p 1, chain @ [?x])"
      using avail(1) True by (simp add: append_node tlv_ctype2mode_def)
    have d8: "\<not> depth + 1 > 8" using lev(1) by simp
    obtain ts where ts: "tlv_add_compound True (pool_take p 1) [] cds msg (off + presence_size) (depth + 1) mode =
        Some (pool_take (pool_take p 1) (message_nodes es), Some (message_nodes es, [] @ ts))" "list_all2 elem_rep es ts"
      using "5.IH" [OF True new refl d8 es(1) avail(2) "5.prems"(3) lev(2)] by auto
    show ?thesis using True new d8 ts es "5.prems"(3) by (auto simp: set_embedded_def ex_in_conv)
  qed
qed

subsection \<open>Properties\<close>

text \<open>C15. A message whose present elements all have an encoding is built completely:
  \<open>ogs_tlv_build_msg\<close> returns a packet whose payload is exactly the octets of these
  elements in the order of the table (types, lengths and numbers most significant octet first, in as
  many octets as the format and the type of the element say; strings as they are; an array up to its
  first absent entry; a compound element around the elements of its part of the message), with the
  headroom for a protocol header in front, and gives all nodes back to the pool.\<close>

theorem tlv_build_msg_encodes:
  assumes "message_elems mode msg 0 (d_childs desc) = Some es" "es \<noteq> []"
    and "d_ctype desc = OGS_TLV_MESSAGE" "desc_wf 8 desc" "mode \<noteq> OGS_TLV_MODE_UNSET"
    and "message_nodes es \<le> tp_avail p" "tp_avail p \<le> tp_size p" "length (message_octets es) < 2 ^ 31"
  shows "\<exists>pk. ogs_tlv_build_msg p desc msg mode = Some (p, Some pk) \<and> pk_inv pk \<and>
    pk_bytes pk = message_octets es \<and> ogs_pkbuf_headroom pk = int OGS_TLV_MAX_HEADROOM"
proof -
  have lev: "level_ok 0 d" if child: "d \<in> set (d_childs desc)" for d
  proof (cases "d_ctype d = OGS_TLV_COMPOUND")
    case True
    obtain k where "8 = Suc k" "desc_wf k d" by (rule desc_wf_child [OF assms(4) child True])
    then show ?thesis by (auto simp: level_ok_def)
  qed (simp add: level_ok_def)
  obtain ts where walk: "tlv_add_compound False p [] (d_childs desc) msg 0 0 mode =
      Some (pool_take p (message_nodes es), Some (message_nodes es, ts))" and rep: "list_all2 elem_rep es ts"
    using add_compound_elems(1) [OF assms(1,6,5) lev, of False "[]"] by auto
  have ts: "tlv_ok ts" "tlv_bytes ts = message_octets es"
    using message_rep_octets [OF rep] assms(8) by simp_all
  have "tlv_size ts < 2 ^ 31" using assms(8) length_tlv_bytes [OF ts(1)] ts(2) by simp
  moreover have "0 < message_nodes es" using assms(2) by (cases es) simp_all
  moreover have "d_childs desc \<noteq> []" using assms(1,2) by auto
  ultimately show ?thesis
    using build_msg_of_walk [OF walk _ assms(3) _ ts(1) _ assms(7)] by (simp add: ts(2))
qed

text \<open>A 24-bit number, an array of which one of two entries is present, and a compound
  element.\<close>

definition nested_desc :: ogs_tlv_desc where
  "nested_desc = Desc OGS_TLV_MESSAGE 0 0 0 0
     [Desc OGS_TLV_UINT24 84 3 0 16 [], Desc OGS_TLV_VAR_STR 22 0 0 24 [], Desc OGS_TLV_MORE 0 2 0 0 [],
      Desc OGS_TLV_COMPOUND 1 0 0 40 [Desc OGS_TLV_UINT16 56 2 0 16 [], Desc OGS_TLV_NULL 57 0 0 8 []]]"

definition nested_msg :: tlv_msg where
  "nested_msg = (\<lambda>at. \<lparr>f_presence = (if at = 40 then 0 else 1), f_num = 0x010203, f_data = [7, 8, 9], f_len = 2\<rparr>)"

theorem tlv_build_msg_encodes_witness:
  "\<exists>pk. ogs_tlv_build_msg \<lparr>tp_size = 8, tp_avail = 8\<rparr> nested_desc nested_msg OGS_TLV_MODE_T2_L2
      = Some (\<lparr>tp_size = 8, tp_avail = 8\<rparr>, Some pk) \<and>
    pk_bytes pk = [0, 84, 0, 3, 1, 2, 3,  0, 22, 0, 2, 7, 8,  0, 1, 0, 10,  0, 56, 0, 2, 2, 3,  0, 57, 0, 0]"
proof -
  let ?es = "[Leaf OGS_TLV_MODE_T2_L2 84 0 [1, 2, 3], Leaf OGS_TLV_MODE_T2_L2 22 0 [7, 8],
    Group OGS_TLV_MODE_T2_L2 1 0 [Leaf OGS_TLV_MODE_T2_L2 56 0 [2, 3], Leaf OGS_TLV_MODE_T2_L2 57 0 []]]"
  have upt: "[0..<2] = [0, 1 :: nat]" "[0..<3] = [0, 1, 2 :: nat]" by (simp_all add: upt_rec)
  have es: "message_elems OGS_TLV_MODE_T2_L2 nested_msg 0 (d_childs nested_desc) = Some ?es"
    by (simp add: nested_desc_def nested_msg_def present_at_def entries_def after_entries_def leaf_value_def
        number_octets_def elem_mode_def be_octets_def upt)
  have octets: "message_octets ?es =
      [0, 84, 0, 3, 1, 2, 3,  0, 22, 0, 2, 7, 8,  0, 1, 0, 10,  0, 56, 0, 2, 2, 3,  0, 57, 0, 0]"
    by (simp add: element_octets_def be_octets_def upt)
  have wf: "desc_wf 8 nested_desc" "d_ctype nested_desc = OGS_TLV_MESSAGE"
    by (simp_all add: nested_desc_def eval_nat_numeral)
  show ?thesis
    using tlv_build_msg_encodes [OF es _ wf(2,1), of "\<lparr>tp_size = 8, tp_avail = 8\<rparr>"] unfolding octets by auto
qed

end
