(* ===== verification/Ogs_Conv.thy ===== *)
theory Ogs_Conv
  imports Ogs_Prelude
begin

unbundle bit_operations_syntax

text \<open>
  The conversions of \<open>lib/core/ogs-conv.c\<close> between octets and their hexadecimal and
  decimal (TBCD) texts, by which subscriber identities, keys and addresses enter and leave
  the network functions. Characters are their ASCII codes; an output buffer is the list of
  its octets, and \<open>None\<close> is a write outside it.

  Shown here: hexadecimal output is read back, the checked reader accepts exactly the
  strings of the right length and alphabet, and decimal identities survive the way into
  TBCD and back, for even and odd numbers of digits.
\<close>

subsection \<open>Characters\<close>

definition ch_isdigit :: "byte \<Rightarrow> bool" where "ch_isdigit c \<longleftrightarrow> 48 \<le> c \<and> c \<le> 57"

definition ch_islower :: "byte \<Rightarrow> bool" where "ch_islower c \<longleftrightarrow> 97 \<le> c \<and> c \<le> 122"

definition ch_isupper :: "byte \<Rightarrow> bool" where "ch_isupper c \<longleftrightarrow> 65 \<le> c \<and> c \<le> 90"

definition ch_isspace :: "byte \<Rightarrow> bool" where "ch_isspace c \<longleftrightarrow> c = 32 \<or> (9 \<le> c \<and> c \<le> 13)"

definition ch_tolower :: "byte \<Rightarrow> byte" where "ch_tolower c = (if ch_isupper c then c + 32 else c)"

definition ogs_from_hex :: "byte \<Rightarrow> byte" where
  "ogs_from_hex ch = (if ch_isdigit ch then ch - 48 else ch_tolower ch - 97 + 10)"

definition ogs_to_hex :: "byte \<Rightarrow> byte" where
  "ogs_to_hex ch = [48, 49, 50, 51, 52, 53, 54, 55, 56, 57, 65, 66, 67, 68, 69, 70] ! unat (ch AND 15)"

subsection \<open>Hexadecimal\<close>

text \<open>The value of a digit as \<open>ogs_ascii_to_hex\<close> computes it, modulo 256: only the low
  eight bits are ever stored.\<close>

definition hex_value :: "byte \<Rightarrow> byte" where
  "hex_value c = (if ch_isdigit c then c - 48 else if ch_islower c then c - 97 + 10 else c - 65 + 10)"

fun ascii_to_hex_loop :: "bytes \<Rightarrow> bytes \<Rightarrow> nat \<Rightarrow> nat \<Rightarrow> nat \<Rightarrow> (bytes \<times> nat) option" where
  "ascii_to_hex_loop [] out out_len j k = Some (out, j)"
| "ascii_to_hex_loop (c # cs) out out_len j k =
     (if \<not> j < out_len then Some (out, j)
      else if ch_isspace c then ascii_to_hex_loop cs out out_len j k
      else if \<not> j < length out then None
      else if even k then
        ascii_to_hex_loop cs (out[j := push_bit 4 (hex_value c)]) out_len j (k + 1)
      else
        ascii_to_hex_loop cs (out[j := out ! j OR hex_value c]) out_len (j + 1) (k + 1))"

definition ogs_ascii_to_hex :: "bytes \<Rightarrow> bytes \<Rightarrow> nat \<Rightarrow> (bytes \<times> nat) option" where
  "ogs_ascii_to_hex inp out out_len = ascii_to_hex_loop inp out out_len 0 0"

definition ch_ishex :: "byte \<Rightarrow> bool" where
  "ch_ishex c \<longleftrightarrow> (48 \<le> c \<and> c \<le> 57) \<or> (97 \<le> c \<and> c \<le> 102) \<or> (65 \<le> c \<and> c \<le> 70)"

definition ogs_ascii_to_hex_checked :: "bytes \<Rightarrow> bytes \<Rightarrow> int \<Rightarrow> (ogs_rv \<times> bytes) option" where
  "ogs_ascii_to_hex_checked inp out out_len =
     (if out_len < 0 \<or> out_len > (2 ^ 31 - 1) div 2 \<or> int (length inp) \<noteq> out_len * 2
      then Some (OGS_ERROR, out)
      else if \<not> list_all ch_ishex inp then Some (OGS_ERROR, out)
      else map_option (\<lambda>(out', _). (OGS_OK, out')) (ogs_ascii_to_hex inp out (nat out_len)))"

text \<open>
  \<open>ogs_slprintf(p, last, "%02x", b)\<close>: as many of the two digits as fit in front of
  \<open>last\<close> and a NUL; the pointer moves by two, or back by one when \<open>p\<close> has reached
  \<open>last\<close>.
\<close>

definition lower_digit :: "byte \<Rightarrow> byte" where
  "lower_digit d = (if d < 10 then d + 48 else d - 10 + 97)"

definition hex2 :: "byte \<Rightarrow> bytes" where
  "hex2 b = [lower_digit (drop_bit 4 b), lower_digit (b AND 0x0F)]"

fun hex_to_ascii_loop :: "bytes \<Rightarrow> bytes \<Rightarrow> nat \<Rightarrow> nat \<Rightarrow> bytes option" where
  "hex_to_ascii_loop [] out lst p = Some out"
| "hex_to_ascii_loop (b # bs) out lst p =
     (if p < lst then
        Option.bind (poke out p (take (lst - p - 1) (hex2 b) @ [0]))
          (\<lambda>out'. hex_to_ascii_loop bs out' lst (p + 2))
      else hex_to_ascii_loop bs out lst (p - 1))"

definition ogs_hex_to_ascii :: "bytes \<Rightarrow> bytes \<Rightarrow> nat \<Rightarrow> bytes option" where
  "ogs_hex_to_ascii inp out out_len =
     Option.bind (poke out 0 [0]) (\<lambda>out0.
       hex_to_ascii_loop (take (if length inp > out_len then out_len else length inp) inp) out0 out_len 0)"

subsection \<open>Integers in network order\<close>

definition ogs_uint64_to_buffer :: "u64 \<Rightarrow> nat \<Rightarrow> bytes" where
  "ogs_uint64_to_buffer num n = map (\<lambda>i. ucast (drop_bit ((n - 1 - i) * 8) num)) [0..<n]"

definition ogs_buffer_to_uint64 :: "bytes \<Rightarrow> nat \<Rightarrow> u64" where
  "ogs_buffer_to_uint64 buf n =
     foldl (\<lambda>num i. num OR push_bit ((n - 1 - i) * 8) (ucast (buf ! i))) 0 [0..<n]"

subsection \<open>TBCD\<close>

fun bcd_loop :: "bytes \<Rightarrow> bytes \<Rightarrow> nat \<Rightarrow> bytes option" where
  "bcd_loop [] out i = Some out"
| "bcd_loop (c # cs) out i =
     (if \<not> i div 2 < length out then None
      else if odd i then
        bcd_loop cs (out[i div 2 := out ! (i div 2) OR (push_bit 4 (c - 0x30) AND 0xF0)]) (i + 1)
      else bcd_loop cs (out[i div 2 := (c - 0x30) AND 0x0F]) (i + 1))"

definition ogs_bcd_to_buffer :: "bytes \<Rightarrow> bytes \<Rightarrow> (bytes \<times> nat) option" where
  "ogs_bcd_to_buffer inp out =
     Option.bind (bcd_loop inp out 0) (\<lambda>out'.
       let out_len = (length inp + 1) div 2
       in if odd (length inp) then
            Some (out'[out_len - 1 := out' ! (out_len - 1) OR 0xF0], out_len)
          else Some (out', out_len))"

fun bcd_reverse_loop :: "bytes \<Rightarrow> bytes \<Rightarrow> nat \<Rightarrow> bytes option" where
  "bcd_reverse_loop [] out i = Some out"
| "bcd_reverse_loop (c # cs) out i =
     (if \<not> i div 2 < length out then None
      else if odd i then
        bcd_reverse_loop cs (out[i div 2 := out ! (i div 2) OR ((c - 0x30) AND 0x0F)]) (i + 1)
      else bcd_reverse_loop cs (out[i div 2 := push_bit 4 (c - 0x30) AND 0xF0]) (i + 1))"

definition ogs_bcd_to_buffer_reverse_order :: "bytes \<Rightarrow> bytes \<Rightarrow> (bytes \<times> nat) option" where
  "ogs_bcd_to_buffer_reverse_order inp out =
     Option.bind (bcd_reverse_loop inp out 0) (\<lambda>out'.
       let out_len = (length inp + 1) div 2
       in if odd (length inp) then
            Some (out'[out_len - 1 := out' ! (out_len - 1) OR 0xF0], out_len)
          else Some (out', out_len))"

text \<open>\<open>ogs_buffer_to_bcd\<close>: the inner \<open>None\<close> is its return of NULL.\<close>

definition bcd_digits :: "byte \<Rightarrow> bytes" where
  "bcd_digits b = [0x30 + (b AND 0x0F), 0x30 + drop_bit 4 (b AND 0xF0)]"

definition ogs_buffer_to_bcd :: "bytes \<Rightarrow> bytes \<Rightarrow> int \<Rightarrow> bytes option option" where
  "ogs_buffer_to_bcd inp out out_len =
     (if int (length inp) > (2 ^ 31 - 1) div 2 then Some None
      else
        let n = (if inp \<noteq> [] \<and> last inp AND 0xF0 = 0xF0 then 2 * length inp - 1 else 2 * length inp)
        in if out_len < int n + 1 then Some None
           else Option.bind (poke out 0 (concat (map bcd_digits inp))) (\<lambda>out1.
             Option.bind (poke out1 n [0]) (\<lambda>out2. Some (Some out2))))"

subsection \<open>Integers and their texts\<close>

text \<open>\<open>printf\<close> with \<open>%0<width>x\<close> and \<open>%0<width>llx\<close>.\<close>

fun hex_digits :: "nat \<Rightarrow> bytes" where
  "hex_digits n = (if n < 16 then [lower_digit (of_nat n)]
     else hex_digits (n div 16) @ [lower_digit (of_nat (n mod 16))])"

declare hex_digits.simps [simp del]

definition printf_0x :: "nat \<Rightarrow> nat \<Rightarrow> bytes" where
  "printf_0x width n = replicate (width - length (hex_digits n)) 48 @ hex_digits n"

definition ogs_uint24_to_0string :: "24 word \<Rightarrow> bytes" where
  "ogs_uint24_to_0string x = printf_0x 6 (unat x)"

definition ogs_uint28_to_0string :: "u32 \<Rightarrow> bytes" where
  "ogs_uint28_to_0string x = printf_0x 7 (unat x)"

definition ogs_uint32_to_0string :: "u32 \<Rightarrow> bytes" where
  "ogs_uint32_to_0string x = printf_0x 8 (unat x)"

definition ogs_uint36_to_0string :: "u64 \<Rightarrow> bytes" where
  "ogs_uint36_to_0string x = printf_0x 9 (unat x)"

definition ogs_uint64_to_0string :: "u64 \<Rightarrow> bytes" where
  "ogs_uint64_to_0string x = printf_0x 16 (unat x)"

definition ogs_left_trimcharacter :: "bytes \<Rightarrow> byte \<Rightarrow> bytes" where
  "ogs_left_trimcharacter str to_remove = dropWhile (\<lambda>c. c = to_remove) str"

definition ogs_uint64_to_string :: "u64 \<Rightarrow> bytes" where
  "ogs_uint64_to_string x = ogs_left_trimcharacter (ogs_uint64_to_0string x) 48"

text \<open>
  \<open>strtoull\<close>: the value, the text behind the number and whether it was out of range.
  Without a digit nothing is consumed.
\<close>

definition digit_of :: "nat \<Rightarrow> byte \<Rightarrow> nat option" where
  "digit_of base c =
     (let d = (if ch_isdigit c then unat c - 48 else if ch_islower c then unat c - 87
               else if ch_isupper c then unat c - 55 else base)
      in if d < base then Some d else None)"

fun scan_digits :: "nat \<Rightarrow> bytes \<Rightarrow> nat \<Rightarrow> nat \<times> bytes" where
  "scan_digits base [] v = (v, [])"
| "scan_digits base (c # cs) v =
     (case digit_of base c of None \<Rightarrow> (v, c # cs) | Some d \<Rightarrow> scan_digits base cs (v * base + d))"

definition skip_sign :: "bytes \<Rightarrow> bool \<times> bytes" where
  "skip_sign s = (case s of [] \<Rightarrow> (False, []) | c # cs \<Rightarrow>
     if c = 45 then (True, cs) else if c = 43 then (False, cs) else (False, s))"

definition skip_0x :: "bytes \<Rightarrow> bytes" where
  "skip_0x s = (case s of a # b # c # cs \<Rightarrow>
     if a = 48 \<and> (b = 120 \<or> b = 88) \<and> ch_ishex c then c # cs else s | _ \<Rightarrow> s)"

definition strtoull :: "bytes \<Rightarrow> nat \<Rightarrow> u64 \<times> bytes \<times> bool" where
  "strtoull s base =
     (let (neg, s1) = skip_sign (dropWhile ch_isspace s);
          s2 = (if base = 16 then skip_0x s1 else s1);
          (v, rest) = scan_digits base s2 0
      in if length rest = length s2 then (0, s, False)
         else if v \<ge> 2 ^ 64 then (- 1, rest, True)
         else (if neg then - of_nat v else of_nat v, rest, False))"

text \<open>The value returned and \<open>errno\<close> as the caller finds it.\<close>

datatype errno = E_NONE | EINVAL | ERANGE

definition ogs_uint64_from_string :: "bytes \<Rightarrow> nat \<Rightarrow> u64 \<times> errno" where
  "ogs_uint64_from_string str base =
     (if str = [] then (0, E_NONE)
      else if hd str = 45 then (0, EINVAL)
      else let (v, rest, range) = strtoull str base
           in if length rest = length str then (0, EINVAL)
              else if rest \<noteq> [] then (0, EINVAL)
              else if range then (0, ERANGE)
              else (v, E_NONE))"

definition ogs_uint24_from_string :: "bytes \<Rightarrow> nat \<Rightarrow> 24 word" where
  "ogs_uint24_from_string str base = ucast (fst (ogs_uint64_from_string str base))"

subsection \<open>Hexadecimal round trip\<close>

lemma nibble_cases: "(d::byte) < 16 \<Longrightarrow> d \<in> {0, 1, 2, 3, 4, 5, 6, 7, 8, 9, 10, 11, 12, 13, 14, 15}"
proof -
  assume "d < 16"
  then have "unat d < 16" by (simp add: word_less_nat_alt)
  then have "unat d \<in> {0, 1, 2, 3, 4, 5, 6, 7, 8, 9, 10, 11, 12, 13, 14, 15}"
    by (simp only: insert_iff empty_iff) arith
  then have "of_nat (unat d) \<in> (of_nat ` {0, 1, 2, 3, 4, 5, 6, 7, 8, 9, 10, 11, 12, 13, 14, 15} :: byte set)"
    by (rule imageI)
  then show ?thesis by simp
qed

lemma hex_value_lower: "d < 16 \<Longrightarrow> hex_value (lower_digit d) = d"
  by (drule nibble_cases) (auto simp: hex_value_def lower_digit_def ch_isdigit_def ch_islower_def)

lemma lower_ishex: "d < 16 \<Longrightarrow> ch_ishex (lower_digit d)"
  by (drule nibble_cases) (auto simp: lower_digit_def ch_ishex_def)

lemma nibbles: "drop_bit 4 (b::byte) < 16" "b AND 0x0F < 16"
  "push_bit 4 (drop_bit 4 b) OR (b AND 0x0F) = b"
proof -
  have m: "(0x0F::byte) = mask 4" by (simp add: mask_eq_exp_minus_1)
  show "push_bit 4 (drop_bit 4 b) OR (b AND 0x0F) = b"
    unfolding m by (rule bit_word_eqI) (auto simp: bit_simps)
  have "unat (b AND 0x0F) < 2 ^ 4"
    unfolding m by (rule unat_take_bit_less) (simp add: take_bit_eq_mask ac_simps)
  then show "b AND 0x0F < 16" by (simp add: word_less_nat_alt)
  have "unat (drop_bit 4 b) < 2 ^ 4"
    by (rule unat_take_bit_less) (rule bit_word_eqI, auto simp: bit_simps)
  then show "drop_bit 4 b < 16" by (simp add: word_less_nat_alt)
qed


lemma length_hex2 [simp]: "length (hex2 b) = 2" by (simp add: hex2_def)

lemma length_concat_hex2 [simp]: "length (concat (map hex2 bs)) = 2 * length bs"
  by (induction bs) auto

lemma hex2_ishex: "list_all ch_ishex (concat (map hex2 bs))"
  by (induction bs) (auto simp: hex2_def lower_ishex nibbles)

lemma overlay_overlay_back:
  assumes "p + 2 + length w + 1 \<le> length out" "length v = 2"
  shows "overlay (overlay out p (v @ [0])) (p + 2) (w @ [0]) = overlay out p (v @ w @ [0])"
  using assms unfolding overlay_def by (auto simp: min_def take_Cons' eval_nat_numeral ac_simps)

lemma hex_to_ascii_loop_all:
  assumes "p + 2 * length bs < lst" "lst \<le> length out" "bs \<noteq> []"
  shows "hex_to_ascii_loop bs out lst p = Some (overlay out p (concat (map hex2 bs) @ [0]))"
  using assms
proof (induction bs arbitrary: out p)
  case (Cons b bs)
  have t: "take (lst - p - 1) (hex2 b) = hex2 b" using Cons.prems by simp
  have pk: "poke out p (hex2 b @ [0]) = Some (overlay out p (hex2 b @ [0]))"
    using Cons.prems by (intro poke_overlay) simp
  show ?case
  proof (cases "bs = []")
    case True
    then show ?thesis using Cons.prems t pk by simp
  next
    case False
    have "hex_to_ascii_loop bs (overlay out p (hex2 b @ [0])) lst (p + 2)
        = Some (overlay (overlay out p (hex2 b @ [0])) (p + 2) (concat (map hex2 bs) @ [0]))"
      using Cons.prems False by (intro Cons.IH) auto
    moreover have "overlay (overlay out p (hex2 b @ [0])) (p + 2) (concat (map hex2 bs) @ [0])
        = overlay out p (hex2 b @ concat (map hex2 bs) @ [0])"
      using Cons.prems by (intro overlay_overlay_back) auto
    ultimately show ?thesis using Cons.prems t pk by simp
  qed
qed simp

fun hex_pairs :: "bytes \<Rightarrow> bytes" where
  "hex_pairs (a # b # cs) = (push_bit 4 (hex_value a) OR hex_value b) # hex_pairs cs"
| "hex_pairs _ = []"

lemma ishex_not_space: "ch_ishex c \<Longrightarrow> \<not> ch_isspace c"
  unfolding ch_ishex_def ch_isspace_def by (auto simp: word_le_nat_alt)

lemma length_hex_pairs [simp]: "length (hex_pairs cs) = length cs div 2"
  by (induction cs rule: hex_pairs.induct) auto

lemma ascii_to_hex_loop_pairs:
  assumes "list_all ch_ishex cs" "length cs = 2 * (n - j)" "j \<le> n" "n = length out" "even k"
  shows "ascii_to_hex_loop cs out n j k = Some (take j out @ hex_pairs cs, n)"
  using assms
proof (induction cs arbitrary: out j k rule: hex_pairs.induct)
  case (1 a b cs)
  have j: "j < length out" using 1 by auto
  have "ascii_to_hex_loop (a # b # cs) out n j k
      = ascii_to_hex_loop cs (out[j := push_bit 4 (hex_value a) OR hex_value b]) n (Suc j) (Suc (Suc k))"
    using "1.prems" j by (simp add: ishex_not_space)
  also have "\<dots> = Some (take (Suc j) (out[j := push_bit 4 (hex_value a) OR hex_value b]) @ hex_pairs cs, n)"
    using "1.prems" j by (intro "1.IH") auto
  finally show ?case using j by (simp add: take_Suc_conv_app_nth)
qed auto

lemma hex_pairs_hex2: "hex_pairs (concat (map hex2 bs)) = bs"
proof (induction bs)
  case (Cons b bs)
  then show ?case using nibbles[of b] by (simp add: hex2_def hex_value_lower)
qed simp


text \<open>Hexadecimal text. \<open>ogs_hex_to_ascii\<close> with room for all digits writes two digits per
  octet and a NUL, and \<open>ogs_ascii_to_hex_checked\<close> reads them back into the octets; the
  buffer behind the NUL is not touched.\<close>

theorem hex_text_roundtrip:
  assumes "2 * length bs < n" "n \<le> length out"
    and "int (length bs) \<le> (2 ^ 31 - 1) div 2" "length out2 = length bs"
  shows "\<exists>digits. ogs_hex_to_ascii bs out n = Some (digits @ 0 # drop (2 * length bs + 1) out)
      \<and> length digits = 2 * length bs
      \<and> ogs_ascii_to_hex_checked digits out2 (int (length bs)) = Some (OGS_OK, bs)"
proof (intro exI conjI)
  let ?digits = "concat (map hex2 bs)"
  have "ogs_hex_to_ascii bs out n = Some (overlay out 0 (?digits @ [0]))"
  proof (cases "bs = []")
    case True
    then show ?thesis using assms by (simp add: ogs_hex_to_ascii_def poke_overlay)
  next
    case False
    have o: "out \<noteq> []" using assms by auto
    have "ogs_hex_to_ascii bs out n = hex_to_ascii_loop bs (overlay out 0 [0]) n 0"
      using assms o by (simp add: ogs_hex_to_ascii_def poke_overlay Suc_le_eq)
    also have "\<dots> = Some (overlay (overlay out 0 [0]) 0 (?digits @ [0]))"
      using assms False o by (intro hex_to_ascii_loop_all) (auto simp: Suc_le_eq)
    also have "overlay (overlay out 0 [0]) 0 (?digits @ [0]) = overlay out 0 (?digits @ [0])"
      using assms False by (cases bs) (simp_all add: overlay_def)
    finally show ?thesis .
  qed
  then show "ogs_hex_to_ascii bs out n = Some (?digits @ 0 # drop (2 * length bs + 1) out)"
    by (simp add: overlay_def)
  show "length ?digits = 2 * length bs" by simp
  show "ogs_ascii_to_hex_checked ?digits out2 (int (length bs)) = Some (OGS_OK, bs)"
  proof -
    have "ascii_to_hex_loop ?digits out2 (length bs) 0 0 = Some (bs, length bs)"
      using ascii_to_hex_loop_pairs[OF hex2_ishex _ _ assms(4)[symmetric], of bs 0 0]
      by (simp add: hex_pairs_hex2)
    moreover have "\<not> (int (length bs) > (2 ^ 31 - 1) div 2)" using assms(3) by linarith
    ultimately show ?thesis
      unfolding ogs_ascii_to_hex_checked_def ogs_ascii_to_hex_def by (simp add: hex2_ishex)
  qed
qed

theorem hex_text_roundtrip_witness:
  "\<exists>digits. ogs_hex_to_ascii [0xAB, 0x01] [9, 9, 9, 9, 9, 9] 5 = Some (digits @ 0 # [9])
      \<and> length digits = 4 \<and> ogs_ascii_to_hex_checked digits [7, 7] 2 = Some (OGS_OK, [0xAB, 0x01])"
  using hex_text_roundtrip[of "[0xAB, 0x01]" 5 "[9, 9, 9, 9, 9, 9]" "[7, 7]"] by simp

text \<open>The checked reader. \<open>ogs_ascii_to_hex_checked\<close> succeeds on exactly the texts of two
  hexadecimal digits per octet of the output and then fills the output with their values;
  any other text, a blank included, is refused with the output untouched, and no octet
  outside the output is written.\<close>

theorem ascii_to_hex_checked_exact:
  assumes "n = int (length out)"
  shows "ogs_ascii_to_hex_checked str out n = Some
    (if n \<le> (2 ^ 31 - 1) div 2 \<and> int (length str) = 2 * n \<and> list_all ch_ishex str
     then (OGS_OK, hex_pairs str) else (OGS_ERROR, out))"
proof (cases "n \<le> (2 ^ 31 - 1) div 2 \<and> int (length str) = 2 * n \<and> list_all ch_ishex str")
  case True
  then have "ascii_to_hex_loop str out (length out) 0 0 = Some (hex_pairs str, length out)"
    using assms ascii_to_hex_loop_pairs[of str "length out" 0 out 0] by simp
  with True assms show ?thesis by (simp add: ogs_ascii_to_hex_checked_def ogs_ascii_to_hex_def)
next
  case False
  then show ?thesis using assms by (auto simp: ogs_ascii_to_hex_checked_def)
qed

theorem ascii_to_hex_checked_exact_witness:
  "ogs_ascii_to_hex_checked [0x41, 0x62, 0x30, 0x46] [0, 0] 2 = Some (OGS_OK, [0xAB, 0x0F])"
  using ascii_to_hex_checked_exact[of 2 "[0, 0]" "[0x41, 0x62, 0x30, 0x46]"]
  by (simp add: ch_ishex_def hex_value_def ch_isdigit_def ch_islower_def)

subsection \<open>Octets of integers\<close>

lemma bit_foldl_OR:
  "bit (foldl (\<lambda>num i. num OR f i) (a::'w::len word) xs) k \<longleftrightarrow> bit a k \<or> (\<exists>i \<in> set xs. bit (f i) k)"
  by (induction xs arbitrary: a) (auto simp: bit_or_iff)

lemma buffer_to_uint64_bit:
  assumes "n \<le> 8" "length buf = n"
  shows "bit (ogs_buffer_to_uint64 buf n) k \<longleftrightarrow> k < 8 * n \<and> bit (buf ! (n - 1 - k div 8)) (k mod 8)"
proof -
  have one: "bit (push_bit ((n - 1 - i) * 8) (ucast (buf ! i)) :: u64) k
      \<longleftrightarrow> i = n - 1 - k div 8 \<and> k < 8 * n \<and> bit (buf ! i) (k mod 8)" if "i < n" for i
  proof -
    have "(n - 1 - i) * 8 \<le> k \<and> k - (n - 1 - i) * 8 < 8 \<longleftrightarrow> i = n - 1 - k div 8 \<and> k < 8 * n"
      using that by auto
    moreover have "k - (n - 1 - i) * 8 = k mod 8" if "i = n - 1 - k div 8" "k < 8 * n"
    proof -
      have "n - 1 - i = k div 8" using that by auto
      then show ?thesis by (simp add: modulo_nat_def)
    qed
    ultimately show ?thesis
      using assms by (auto simp: bit_simps dest: bit_byte_le)
  qed
  show ?thesis
    unfolding ogs_buffer_to_uint64_def bit_foldl_OR using one
    by (auto simp: Bex_def)
qed


lemma length_uint64_to_buffer [simp]: "length (ogs_uint64_to_buffer num n) = n"
  by (simp add: ogs_uint64_to_buffer_def)

lemma uint64_to_buffer_bit:
  "i < n \<Longrightarrow> bit (ogs_uint64_to_buffer num n ! i) j \<longleftrightarrow> j < 8 \<and> bit num ((n - 1 - i) * 8 + j)"
  by (auto simp: ogs_uint64_to_buffer_def bit_simps ac_simps)

lemma octet_index: "k < 8 * n \<Longrightarrow> (n - 1 - (n - 1 - k div 8)) * 8 + k mod 8 = (k::nat)"
  "i < n \<Longrightarrow> j < 8 \<Longrightarrow> n - 1 - ((n - 1 - i) * 8 + j) div 8 = (i::nat)"
  by auto

text \<open>Octets of integers. For up to eight octets \<open>ogs_buffer_to_uint64\<close> inverts
  \<open>ogs_uint64_to_buffer\<close> up to the bits that do not fit, and every buffer is the image of
  the number read from it.\<close>

theorem uint64_buffer_roundtrip:
  assumes "n \<le> 8" "length buf = n"
  shows "ogs_buffer_to_uint64 (ogs_uint64_to_buffer num n) n = take_bit (8 * n) num
    \<and> ogs_uint64_to_buffer (ogs_buffer_to_uint64 buf n) n = buf"
proof
  show "ogs_buffer_to_uint64 (ogs_uint64_to_buffer num n) n = take_bit (8 * n) num"
  proof (rule bit_word_eqI)
    fix k
    have "n - 1 - k div 8 < n" if "k < 8 * n" using that by auto
    then show "bit (ogs_buffer_to_uint64 (ogs_uint64_to_buffer num n) n) k = bit (take_bit (8 * n) num) k"
      unfolding buffer_to_uint64_bit[OF assms(1) length_uint64_to_buffer]
      by (auto simp: uint64_to_buffer_bit bit_take_bit_iff octet_index)
  qed
  show "ogs_uint64_to_buffer (ogs_buffer_to_uint64 buf n) n = buf"
  proof (rule nth_equalityI)
    fix i assume "i < length (ogs_uint64_to_buffer (ogs_buffer_to_uint64 buf n) n)"
    then have i: "i < n" by simp
    show "ogs_uint64_to_buffer (ogs_buffer_to_uint64 buf n) n ! i = buf ! i"
    proof (rule bit_word_eqI)
      fix j assume "j < LENGTH(8)"
      moreover have "(n - 1 - i) * 8 + j < 8 * n" if "j < 8" using i that by auto
      ultimately show "bit (ogs_uint64_to_buffer (ogs_buffer_to_uint64 buf n) n ! i) j = bit (buf ! i) j"
        using i octet_index(2)[OF i]
        by (simp add: uint64_to_buffer_bit buffer_to_uint64_bit[OF assms])
    qed
  qed (simp add: assms)
qed

theorem uint64_buffer_roundtrip_witness:
  "ogs_buffer_to_uint64 (ogs_uint64_to_buffer 0x123456 2) 2 = 0x3456
   \<and> ogs_uint64_to_buffer (ogs_buffer_to_uint64 [1, 2] 2) 2 = [1, 2]"
proof -
  have "take_bit (8 * 2) (0x123456 :: u64) = 0x3456" by simp
  then show ?thesis using uint64_buffer_roundtrip[of 2 "[1, 2]" "0x123456"] by simp
qed

subsection \<open>Numbers as text\<close>

lemma digit_of_lower: "d < 16 \<Longrightarrow> digit_of 16 (lower_digit (of_nat d)) = Some d"
proof -
  assume d: "d < 16"
  have "digit_of 16 (lower_digit e) = Some (unat e)" if "e < 16" for e :: byte
    using nibble_cases[OF that]
    by (simp only: insert_iff empty_iff, elim disjE)
      (simp_all add: digit_of_def lower_digit_def ch_isdigit_def ch_islower_def ch_isupper_def)
  moreover have "unat (of_nat d :: byte) = d"
    using d by (simp add: unsigned_of_nat take_bit_nat_eq_self)
  moreover from this d have "(of_nat d :: byte) < 16" by (simp add: word_less_nat_alt)
  ultimately show ?thesis by metis
qed

lemma ishex_digit:
  assumes "ch_ishex c"
  shows "\<exists>d. digit_of 16 c = Some d"
proof -
  have "(48 \<le> unat c \<and> unat c \<le> 57) \<or> (97 \<le> unat c \<and> unat c \<le> 102) \<or> (65 \<le> unat c \<and> unat c \<le> 70)"
    using assms by (simp add: ch_ishex_def word_le_nat_alt)
  then show ?thesis
    unfolding digit_of_def Let_def ch_isdigit_def ch_islower_def ch_isupper_def
    by (elim disjE) (simp_all add: word_le_nat_alt, linarith+)
qed

lemma scan_digits_append:
  "list_all ch_ishex xs \<Longrightarrow> scan_digits 16 (xs @ ys) v = scan_digits 16 ys (fst (scan_digits 16 xs v))"
  by (induction xs arbitrary: v) (auto dest!: ishex_digit)

lemma scan_digits_all: "list_all ch_ishex xs \<Longrightarrow> snd (scan_digits 16 xs v) = []"
  by (induction xs arbitrary: v) (auto dest!: ishex_digit)

lemma hex_digits_ishex: "list_all ch_ishex (hex_digits n)"
proof (induction n rule: hex_digits.induct)
  case (1 n)
  have "(of_nat (n mod 16) :: byte) < 16"
    by (simp add: word_less_nat_alt unsigned_of_nat take_bit_nat_eq_self)
  moreover have "n < 16 \<Longrightarrow> (of_nat n :: byte) < 16"
    by (simp add: word_less_nat_alt unsigned_of_nat take_bit_nat_eq_self)
  ultimately show ?case using 1 by (subst hex_digits.simps) (auto intro!: lower_ishex)
qed

lemma hex_digits_value: "fst (scan_digits 16 (hex_digits n) 0) = n"
proof (induction n rule: hex_digits.induct)
  case (1 n)
  show ?case
  proof (cases "n < 16")
    case True
    then show ?thesis by (subst hex_digits.simps) (simp add: digit_of_lower)
  next
    case False
    then show ?thesis using 1
      by (subst hex_digits.simps) (simp add: scan_digits_append hex_digits_ishex digit_of_lower)
  qed
qed

lemma hex_digits_hd: "0 < n \<Longrightarrow> hex_digits n \<noteq> [] \<and> hd (hex_digits n) \<noteq> 48"
proof (induction n rule: hex_digits.induct)
  case (1 n)
  show ?case
  proof (cases "n < 16")
    case True
    have "lower_digit (of_nat n) \<noteq> 48"
      using digit_of_lower[OF True] 1(2) by (auto simp: digit_of_def ch_isdigit_def)
    with True show ?thesis by (subst hex_digits.simps, subst hex_digits.simps) simp
  next
    case False
    then show ?thesis using 1 by (subst hex_digits.simps, subst hex_digits.simps) auto
  qed
qed

lemma uint64_from_hex_string:
  assumes "list_all ch_ishex str" "str \<noteq> []"
  shows "ogs_uint64_from_string str 16 = (let v = fst (scan_digits 16 str 0) in
    if v < 2 ^ 64 then (of_nat v, E_NONE) else (0, ERANGE))"
proof -
  obtain c cs where s: "str = c # cs" using assms(2) by (cases str) auto
  have c: "\<not> ch_isspace c" "c \<noteq> 45" "c \<noteq> 43"
    using assms s by (auto simp: ishex_not_space ch_ishex_def)
  have x: "skip_0x str = str"
    using assms by (auto simp: skip_0x_def ch_ishex_def split: list.split)
  show ?thesis
    using c s x assms scan_digits_all[OF assms(1), of 0]
    by (auto simp: ogs_uint64_from_string_def strtoull_def skip_sign_def Let_def split: prod.split)
qed


lemma printf_0x_value:
  "list_all ch_ishex (printf_0x w n) \<and> printf_0x w n \<noteq> [] \<and> fst (scan_digits 16 (printf_0x w n) 0) = n"
proof -
  have z: "list_all ch_ishex (replicate k 48) \<and> fst (scan_digits 16 (replicate k 48) 0) = 0" for k
    by (induction k) (auto simp: ch_ishex_def digit_of_def ch_isdigit_def)
  have "hex_digits n \<noteq> []" by (subst hex_digits.simps) simp
  then show ?thesis
    using z by (simp add: printf_0x_def hex_digits_ishex scan_digits_append hex_digits_value)
qed

lemma trim_printf_0x:
  "ogs_left_trimcharacter (printf_0x w n) 48 = (if n = 0 then [] else hex_digits n)"
proof (cases "n = 0")
  case True
  then show ?thesis
    by (simp add: ogs_left_trimcharacter_def printf_0x_def hex_digits.simps[of 0] lower_digit_def)
next
  case False
  with hex_digits_hd[of n] have "dropWhile (\<lambda>c. c = 48) (hex_digits n) = hex_digits n"
    by (cases "hex_digits n") auto
  with False show ?thesis by (simp add: ogs_left_trimcharacter_def printf_0x_def dropWhile_append)
qed

lemma unat_u64_lt: "unat (x :: u64) < 2 ^ 64"
  by (rule order_less_le_trans[OF unsigned_less]) simp

text \<open>Numbers as text. What \<open>ogs_uint64_to_string\<close>, \<open>ogs_uint64_to_0string\<close> and
  \<open>ogs_uint36_to_0string\<close> print is read back by \<open>ogs_uint64_from_string\<close> in base 16
  without error, zero included, which \<open>ogs_uint64_to_string\<close> prints as the empty text; the
  24-bit texts come back as the 24-bit value.\<close>

theorem uint64_text_roundtrip:
  "ogs_uint64_from_string (ogs_uint64_to_string x) 16 = (x, E_NONE)
   \<and> ogs_uint64_from_string (ogs_uint64_to_0string x) 16 = (x, E_NONE)
   \<and> ogs_uint64_from_string (ogs_uint36_to_0string x) 16 = (x, E_NONE)
   \<and> ogs_uint24_from_string (ogs_uint24_to_0string t) 16 = t"
proof -
  have z: "ogs_uint64_from_string (printf_0x w (unat x)) 16 = (x, E_NONE)" for w and x :: u64
    using printf_0x_value[of w "unat x"] unat_u64_lt[of x]
    by (simp add: uint64_from_hex_string Let_def)
  have "ogs_uint64_from_string (ogs_uint64_to_string x) 16 = (x, E_NONE)"
  proof (cases "x = 0")
    case True
    then show ?thesis
      by (simp add: ogs_uint64_to_string_def ogs_uint64_to_0string_def trim_printf_0x ogs_uint64_from_string_def)
  next
    case False
    then have "0 < unat x" by (simp add: unat_gt_0)
    with hex_digits_hd have "hex_digits (unat x) \<noteq> []" by blast
    with False \<open>0 < unat x\<close> show ?thesis
      using unat_u64_lt[of x]
      by (simp add: ogs_uint64_to_string_def ogs_uint64_to_0string_def trim_printf_0x
          uint64_from_hex_string hex_digits_ishex hex_digits_value Let_def)
  qed
  moreover have "ogs_uint24_from_string (ogs_uint24_to_0string t) 16 = t"
  proof -
    have "unat t < 2 ^ 64" by (rule order_less_le_trans[OF unsigned_less]) simp
    moreover have "ucast (ucast t :: u64) = t" by (rule bit_word_eqI) (simp add: bit_simps)
    ultimately show ?thesis
      using printf_0x_value[of 6 "unat t"]
      by (simp add: ogs_uint24_from_string_def ogs_uint24_to_0string_def uint64_from_hex_string Let_def)
  qed
  ultimately show ?thesis
    by (simp add: z ogs_uint64_to_0string_def ogs_uint36_to_0string_def)
qed

text \<open>A negative number behind a blank. \<open>ogs_uint64_from_string\<close> means to refuse negative
  numbers, but looks for the sign in the first character only: with a blank in front,
  \<open>strtoull\<close> takes the sign and the negated value is returned without an error.\<close>

theorem uint64_from_string_blank_negative:
  assumes "list_all ch_ishex str" "str \<noteq> []" "fst (scan_digits 16 str 0) < 2 ^ 64"
  shows "ogs_uint64_from_string (45 # str) 16 = (0, EINVAL)
    \<and> ogs_uint64_from_string (32 # 45 # str) 16 = (- of_nat (fst (scan_digits 16 str 0)), E_NONE)"
proof
  show "ogs_uint64_from_string (45 # str) 16 = (0, EINVAL)" by (simp add: ogs_uint64_from_string_def)
  have x: "skip_0x str = str"
    using assms by (auto simp: skip_0x_def ch_ishex_def split: list.split)
  have b: "ch_isspace 32" "\<not> ch_isspace 45" by (simp_all add: ch_isspace_def)
  show "ogs_uint64_from_string (32 # 45 # str) 16
      = (- of_nat (fst (scan_digits 16 str 0)), E_NONE)"
    using x b assms scan_digits_all[OF assms(1), of 0]
    by (auto simp: ogs_uint64_from_string_def strtoull_def skip_sign_def Let_def split: prod.split)
qed

theorem uint64_from_string_blank_negative_witness:
  "ogs_uint64_from_string [45, 49] 16 = (0, EINVAL) \<and> ogs_uint64_from_string [32, 45, 49] 16 = (- 1, E_NONE)"
  using uint64_from_string_blank_negative[of "[49]"]
  by (simp add: ch_ishex_def digit_of_def ch_isdigit_def)

subsection \<open>TBCD round trip\<close>

text \<open>The reference packing: first digit in the low nibble, second in the high nibble.\<close>

fun bcd_pack :: "bytes \<Rightarrow> bytes" where
  "bcd_pack (a # b # cs) = (((a - 0x30) AND 0x0F) OR (push_bit 4 (b - 0x30) AND 0xF0)) # bcd_pack cs"
| "bcd_pack [a] = [(a - 0x30) AND 0x0F]"
| "bcd_pack [] = []"

lemma length_bcd_pack [simp]: "length (bcd_pack cs) = (length cs + 1) div 2"
  by (induction cs rule: bcd_pack.induct) auto

lemma bcd_loop_pack:
  "k + (length cs + 1) div 2 \<le> length out
   \<Longrightarrow> bcd_loop cs out (2 * k) = Some (take k out @ bcd_pack cs @ drop (k + (length cs + 1) div 2) out)"
proof (induction cs arbitrary: out k rule: bcd_pack.induct)
  case (1 a b cs)
  let ?v = "((a - 0x30) AND 0x0F) OR (push_bit 4 (b - 0x30) AND 0xF0)"
  have k: "k < length out" using 1(2) by simp
  have "bcd_loop (a # b # cs) out (2 * k) = bcd_loop cs (out[k := ?v]) (2 * Suc k)"
    using k by simp
  also have "\<dots> = Some (take (Suc k) (out[k := ?v]) @ bcd_pack cs @ drop (Suc k + (length cs + 1) div 2) (out[k := ?v]))"
    using 1(2) by (intro 1(1)) simp
  finally show ?case using k by (simp add: take_Suc_conv_app_nth)
next
  case (2 a)
  then show ?case by (simp add: upd_conv_take_nth_drop)
qed simp

definition bcd_digit :: "byte \<Rightarrow> bool" where "bcd_digit c \<longleftrightarrow> 0x30 \<le> c \<and> c \<le> 0x39"

lemma bcd_digit_cases: "bcd_digit c \<Longrightarrow> c \<in> {0x30, 0x31, 0x32, 0x33, 0x34, 0x35, 0x36, 0x37, 0x38, 0x39}"
proof -
  assume "bcd_digit c"
  then have "48 \<le> unat c \<and> unat c \<le> 57" by (simp add: bcd_digit_def word_le_nat_alt)
  then have "unat c \<in> {48, 49, 50, 51, 52, 53, 54, 55, 56, 57}"
    by (simp only: insert_iff empty_iff) arith
  then have "of_nat (unat c) \<in> (of_nat ` {48, 49, 50, 51, 52, 53, 54, 55, 56, 57} :: byte set)"
    by (rule imageI)
  then show ?thesis by simp
qed

lemma nibble_parts:
  "((a AND 0x0F) OR (push_bit 4 b AND 0xF0)) AND 0x0F = a AND (0x0F :: byte)"
  "drop_bit 4 (((a AND 0x0F) OR (push_bit 4 b AND 0xF0)) AND 0xF0) = b AND (0x0F :: byte)"
  "(a AND 0x0F) AND 0xF0 = (0 :: byte)"
  "((a AND 0x0F) OR 0xF0) AND 0x0F = a AND (0x0F :: byte)"
  "((a AND 0x0F) OR 0xF0) AND 0xF0 = (0xF0 :: byte)"
proof -
  have m: "(0x0F :: byte) = mask 4" "(0xF0 :: byte) = push_bit 4 (mask 4)"
    by (simp_all add: mask_eq_exp_minus_1)
  show "((a AND 0x0F) OR (push_bit 4 b AND 0xF0)) AND 0x0F = a AND (0x0F :: byte)"
    unfolding m by (rule bit_word_eqI) (auto simp: bit_simps)
  show "drop_bit 4 (((a AND 0x0F) OR (push_bit 4 b AND 0xF0)) AND 0xF0) = b AND (0x0F :: byte)"
    unfolding m by (rule bit_word_eqI) (auto simp: bit_simps)
  show "(a AND 0x0F) AND 0xF0 = (0 :: byte)"
    unfolding m by (rule bit_word_eqI) (auto simp: bit_simps)
  show "((a AND 0x0F) OR 0xF0) AND 0x0F = a AND (0x0F :: byte)"
    unfolding m by (rule bit_word_eqI) (auto simp: bit_simps)
  show "((a AND 0x0F) OR 0xF0) AND 0xF0 = (0xF0 :: byte)"
    unfolding m by (rule bit_word_eqI) (auto simp: bit_simps)
qed

lemma nibble_high: "drop_bit 4 (push_bit 4 b) AND 0x0F = b AND (0x0F :: byte)"
proof -
  have m: "(0x0F :: byte) = mask 4" by (simp add: mask_eq_exp_minus_1)
  show ?thesis unfolding m by (rule bit_word_eqI) (auto simp: bit_simps)
qed

lemma bcd_digit_nibble:
  "bcd_digit c \<Longrightarrow> 0x30 + ((c - 0x30) AND 0x0F) = c \<and> (c - 0x30) AND 0x0F \<noteq> 0x0F"
  by (drule bcd_digit_cases, simp only: insert_iff empty_iff, elim disjE) simp_all


text \<open>The reference coding with the filler for an odd number of digits.\<close>

fun tbcd :: "bytes \<Rightarrow> bytes" where
  "tbcd (a # b # cs) = (((a - 0x30) AND 0x0F) OR (push_bit 4 (b - 0x30) AND 0xF0)) # tbcd cs"
| "tbcd [a] = [((a - 0x30) AND 0x0F) OR 0xF0]"
| "tbcd [] = []"

lemma length_tbcd [simp]: "length (tbcd cs) = (length cs + 1) div 2"
  by (induction cs rule: tbcd.induct) auto

lemma tbcd_filler:
  "tbcd cs = (if odd (length cs)
     then (bcd_pack cs)[length cs div 2 := bcd_pack cs ! (length cs div 2) OR 0xF0] else bcd_pack cs)"
  by (induction cs rule: tbcd.induct) auto

lemma tbcd_digits:
  "list_all bcd_digit cs \<Longrightarrow> concat (map bcd_digits (tbcd cs)) = (if odd (length cs) then cs @ [0x3F] else cs)"
  by (induction cs rule: tbcd.induct) (auto simp: bcd_digits_def nibble_parts nibble_high bcd_digit_nibble)

lemma nibble_not_F: "d AND 0x0F \<noteq> 0x0F \<Longrightarrow> (x OR (push_bit 4 d AND 0xF0)) AND 0xF0 \<noteq> (0xF0 :: byte)"
  if "x AND 0xF0 = 0"
proof
  have m: "(0x0F :: byte) = mask 4" "(0xF0 :: byte) = push_bit 4 (mask 4)"
    by (simp_all add: mask_eq_exp_minus_1)
  assume d: "d AND 0x0F \<noteq> 0x0F" and e: "(x OR (push_bit 4 d AND 0xF0)) AND 0xF0 = 0xF0"
  have "(x OR (push_bit 4 d AND 0xF0)) AND 0xF0 = (x AND 0xF0) OR (push_bit 4 d AND 0xF0)"
    by (rule bit_word_eqI) (auto simp: bit_simps)
  with that e have "push_bit 4 d AND 0xF0 = (0xF0 :: byte)" by simp
  then have "drop_bit 4 (push_bit 4 d AND 0xF0) = drop_bit 4 (0xF0 :: byte)" by simp
  moreover have "drop_bit 4 (push_bit 4 d AND 0xF0) = d AND (0x0F :: byte)"
    unfolding m by (rule bit_word_eqI) (auto simp: bit_simps)
  ultimately show False using d by simp
qed

lemma last_tbcd:
  "list_all bcd_digit cs \<Longrightarrow> cs \<noteq> [] \<Longrightarrow> (last (tbcd cs) AND 0xF0 = 0xF0) \<longleftrightarrow> odd (length cs)"
proof (induction cs rule: tbcd.induct)
  case (1 a b cs)
  have n: "tbcd cs = [] \<longleftrightarrow> cs = []" by (cases cs rule: tbcd.cases) auto
  have "(((a - 0x30) AND 0x0F) OR (push_bit 4 (b - 0x30) AND 0xF0)) AND 0xF0 \<noteq> 0xF0"
    using 1(2) bcd_digit_nibble[of b] by (intro nibble_not_F nibble_parts) auto
  with 1 n show ?case by (cases "cs = []") auto
qed (auto simp: nibble_parts)

lemma bcd_to_buffer_tbcd:
  assumes "(length str + 1) div 2 \<le> length out"
  shows "ogs_bcd_to_buffer str out =
    Some (tbcd str @ drop ((length str + 1) div 2) out, (length str + 1) div 2)"
proof -
  have l: "bcd_loop str out 0 = Some (bcd_pack str @ drop ((length str + 1) div 2) out)"
    using bcd_loop_pack[of 0 str out] assms by simp
  have o: "odd (length str) \<Longrightarrow> (length str + 1) div 2 - 1 = length str div 2"
    "odd (length str) \<Longrightarrow> length str div 2 < (length str + 1) div 2" by presburger+
  show ?thesis
    using o by (auto simp: ogs_bcd_to_buffer_def l tbcd_filler Let_def list_update_append nth_append)
qed

text \<open>C13. TBCD identities. A text of decimal digits is coded by \<open>ogs_bcd_to_buffer\<close> with two
  digits per octet and the filler for an odd number of them, within the octets it reports,
  and \<open>ogs_buffer_to_bcd\<close> gives the digits and a NUL back exactly when they fit, writing
  nothing otherwise.\<close>

theorem bcd_roundtrip:
  assumes "list_all bcd_digit str" "(length str + 1) div 2 \<le> length out"
    and "int (length str) < 2 ^ 31 - 1" "n \<le> int (length out2)"
  shows "\<exists>buf len. ogs_bcd_to_buffer str out = Some (buf @ drop len out, len)
      \<and> length buf = len \<and> len = (length str + 1) div 2
      \<and> ogs_buffer_to_bcd buf out2 n = Some (if n < int (length str) + 1 then None
           else Some (str @ 0 # drop (length str + 1) out2))"
proof (intro exI conjI)
  show "ogs_bcd_to_buffer str out =
      Some (tbcd str @ drop ((length str + 1) div 2) out, (length str + 1) div 2)"
    by (rule bcd_to_buffer_tbcd[OF assms(2)])
  show "length (tbcd str) = (length str + 1) div 2" by simp
  have b: "\<not> int (length (tbcd str)) > (2 ^ 31 - 1) div 2" using assms(3) by simp
  have e: "tbcd str = [] \<longleftrightarrow> str = []" by (cases str rule: tbcd.cases) auto
  have num: "(if tbcd str \<noteq> [] \<and> last (tbcd str) AND 0xF0 = 0xF0
      then 2 * length (tbcd str) - 1 else 2 * length (tbcd str)) = length str"
    using last_tbcd[OF assms(1)] e by auto
  show "ogs_buffer_to_bcd (tbcd str) out2 n = Some (if n < int (length str) + 1 then None
      else Some (str @ 0 # drop (length str + 1) out2))"
  proof (cases "n < int (length str) + 1")
    case True
    then show ?thesis unfolding ogs_buffer_to_bcd_def num Let_def using b by simp
  next
    case False
    then have l: "length str + 1 \<le> length out2" using assms(4) by linarith
    let ?ds = "concat (map bcd_digits (tbcd str))"
    have p1: "poke out2 0 ?ds = Some (?ds @ drop (length ?ds) out2)"
      using l tbcd_digits[OF assms(1)] by (subst poke_overlay) (auto simp: overlay_def)
    have p2: "poke (?ds @ drop (length ?ds) out2) (length str) [0]
        = Some (str @ 0 # drop (length str + 1) out2)"
      using l tbcd_digits[OF assms(1)] by (subst poke_overlay) (auto simp: overlay_def)
    show ?thesis
      unfolding ogs_buffer_to_bcd_def num Let_def using b False p1 p2 by simp
  qed
qed simp

theorem bcd_roundtrip_witness:
  "\<exists>buf len. ogs_bcd_to_buffer [0x30, 0x30, 0x31] [0, 0, 9] = Some (buf @ drop len [0, 0, 9], len)
      \<and> length buf = len \<and> len = 2
      \<and> ogs_buffer_to_bcd buf [8, 8, 8, 8] 4 = Some (Some [0x30, 0x30, 0x31, 0])"
  using bcd_roundtrip[of "[0x30, 0x30, 0x31]" "[0, 0, 9]" 4 "[8, 8, 8, 8]"]
  by (simp add: bcd_digit_def) (simp add: numeral_2_eq_2)

lemma bcd_reverse_loop_append:
  "bcd_reverse_loop (xs @ ys) out i =
   Option.bind (bcd_reverse_loop xs out i) (\<lambda>out'. bcd_reverse_loop ys out' (i + length xs))"
  by (induction xs arbitrary: out i) auto

lemma filler_swallows: "(x AND 0xF0) OR 0xF0 = (0xF0 :: byte)"
  by (rule bit_word_eqI) (auto simp: bit_simps)

text \<open>The reverse order loses a digit. For an odd number of digits
  \<open>ogs_bcd_to_buffer_reverse_order\<close> puts the filler on the nibble of the last digit, so the
  result does not depend on that digit.\<close>

theorem bcd_reverse_order_loses_digit:
  assumes "even (length str)"
  shows "ogs_bcd_to_buffer_reverse_order (str @ [c]) out = ogs_bcd_to_buffer_reverse_order (str @ [d]) out"
  using assms
  by (auto simp: ogs_bcd_to_buffer_reverse_order_def bcd_reverse_loop_append filler_swallows Let_def
      split: Option.bind_splits)

theorem bcd_reverse_order_loses_digit_witness:
  "ogs_bcd_to_buffer_reverse_order [0x31, 0x32, 0x33] [0, 0]
   = ogs_bcd_to_buffer_reverse_order [0x31, 0x32, 0x37] [0, 0]"
  using bcd_reverse_order_loses_digit[of "[0x31, 0x32]" "0x33" "[0, 0]" "0x37"] by simp

end
