(* ===== verification/Ogs_Ie.thy ===== *)
theory Ogs_Ie
  imports Ogs_Conv
begin

unbundle bit_operations_syntax

text \<open>
  The way \<open>lib/pfcp/types.c\<close> and \<open>lib/gtp/v2/types.c\<close> read and write the octets of an
  information element. A parser is a sequence of statements, each of which compares the octets
  it needs with the length of the element, copies them and advances \<open>size\<close>, some of them
  inside an \<open>if\<close> on a flag read before; a failing comparison returns at once. A builder is a
  sequence of statements that assert room in the buffer of the caller, copy octets into it and
  advance \<open>size\<close>. Statements are functions here, a block is the list of its statements.

  \<open>Overread\<close> is a copy from beyond the end of the element, which a comparison should have
  prevented; the result \<open>None\<close> of a builder is a failed assertion, a write or read outside an
  object, or a \<open>size\<close> that leaves the range of \<open>int16_t\<close>.

  Shown here: blocks of guarded statements never read beyond the element; a block reads back
  what the matching block of writes left. The locale \<open>ie_codec\<close> is the contract of a pair of
  routines, from which their users get that an element determines the value it was built from,
  up to what the encoding leaves out.
\<close>

subsection \<open>Reading\<close>

datatype 's reading = Stop int 's | Go nat 's | Overread

type_synonym 's stmt = "bytes \<Rightarrow> nat \<Rightarrow> 's \<Rightarrow> 's reading"

fun block :: "'s stmt list \<Rightarrow> 's stmt" where
  "block [] d sz s = Go sz s"
| "block (k # ks) d sz s = (case k d sz s of Go sz' s' \<Rightarrow> block ks d sz' s' | r \<Rightarrow> r)"

declare block.simps(2) [simp del]

definition copy :: "('s \<Rightarrow> nat) \<Rightarrow> (bytes \<Rightarrow> 's \<Rightarrow> 's) \<Rightarrow> 's stmt" where
  "copy n f d sz s =
     (if sz + n s \<le> length d then Go (sz + n s) (f (take (n s) (drop sz d)) s) else Overread)"

text \<open>The comparison with the length, with the value that is returned when it fails.\<close>

definition check :: "(nat \<Rightarrow> int) \<Rightarrow> ('s \<Rightarrow> nat) \<Rightarrow> 's stmt" where
  "check err n d sz s = (if sz + n s > length d then Stop (err sz) s else Go sz s)"

definition field :: "(nat \<Rightarrow> int) \<Rightarrow> ('s \<Rightarrow> nat) \<Rightarrow> (bytes \<Rightarrow> 's \<Rightarrow> 's) \<Rightarrow> 's stmt" where
  "field err n f = block [check err n, copy n f]"

definition only_if :: "('s \<Rightarrow> bool) \<Rightarrow> 's stmt list \<Rightarrow> 's stmt" where
  "only_if c ks d sz s = (if c s then block ks d sz s else Go sz s)"

definition int16 :: "nat \<Rightarrow> int" where "int16 n = sint (of_nat n :: 16 word)"

fun outcome :: "'s reading \<Rightarrow> (int \<times> 's) option" where
  "outcome (Stop v s) = Some (v, s)"
| "outcome (Go sz s) = Some (int16 sz, s)"
| "outcome Overread = None"

lemma int16_small [simp]: "n < 2 ^ 15 \<Longrightarrow> int16 n = int n"
  by (simp add: int16_def signed_of_nat signed_take_bit_int_eq_self)

lemma int16_le [simp]: "int16 n \<le> int n"
proof -
  have "int16 n = (int n + 2 ^ 15) mod 2 ^ 16 - 2 ^ 15"
    by (simp add: int16_def signed_of_nat signed_take_bit_eq_take_bit_shift take_bit_eq_mod)
  moreover have "(int n + 2 ^ 15) mod 2 ^ 16 \<le> int n + 2 ^ 15" by (rule zmod_le_nonneg_dividend) simp
  ultimately show ?thesis by linarith
qed

text \<open>A statement is guarded from \<open>m\<close> on when, reached at a \<open>size\<close> of at least \<open>m\<close>, it does not
  read beyond the element, does not go back and does not return more than the length.\<close>

definition guarded :: "nat \<Rightarrow> 's stmt \<Rightarrow> bool" where
  "guarded m k \<longleftrightarrow> (\<forall>d sz s. m \<le> sz \<longrightarrow> sz \<le> length d \<longrightarrow>
     (case k d sz s of Stop v _ \<Rightarrow> v \<le> int (length d) | Go sz' _ \<Rightarrow> sz \<le> sz' \<and> sz' \<le> length d | Overread \<Rightarrow> False))"

named_theorems guarded_intros \<open>statements that stay inside the element\<close>

lemma guardedI [intro?]:
  assumes "\<And>d sz s. m \<le> sz \<Longrightarrow> sz \<le> length d \<Longrightarrow>
     (case k d sz s of Stop v _ \<Rightarrow> v \<le> int (length d) | Go sz' _ \<Rightarrow> sz \<le> sz' \<and> sz' \<le> length d | Overread \<Rightarrow> False)"
  shows "guarded m k"
  using assms unfolding guarded_def by blast

lemma guarded_cases:
  assumes "guarded m k" "m \<le> sz" "sz \<le> length d"
  obtains v s' where "k d sz s = Stop v s'" "v \<le> int (length d)"
  | sz' s' where "k d sz s = Go sz' s'" "sz \<le> sz'" "sz' \<le> length d"
  using assms(1)[unfolded guarded_def, rule_format, OF assms(2,3), of s] by (cases "k d sz s") auto

lemma guarded_block [guarded_intros]: "list_all (guarded m) ks \<Longrightarrow> guarded m (block ks)"
proof (induction ks)
  case (Cons k ks)
  then have k: "guarded m k" and ks: "guarded m (block ks)" by auto
  show ?case
  proof
    fix d sz s assume sz: "m \<le> sz" "sz \<le> length (d :: bytes)"
    show "case block (k # ks) d sz s of Stop v _ \<Rightarrow> v \<le> int (length d) | Go sz' _ \<Rightarrow> sz \<le> sz' \<and> sz' \<le> length d | Overread \<Rightarrow> False"
    proof (rule guarded_cases[OF k sz, of s])
      fix sz1 s1 assume 1: "k d sz s = Go sz1 s1" "sz \<le> sz1" "sz1 \<le> length d"
      then show ?thesis
        using sz by (cases rule: guarded_cases[OF ks _ 1(3), of s1]) (auto simp: block.simps(2))
    qed (simp add: block.simps(2))
  qed
qed (simp add: guarded_def)

lemma guarded_field [guarded_intros]:
  assumes "\<And>i. m \<le> i \<Longrightarrow> err i \<le> int i"
  shows "guarded m (field err n f)"
proof
  fix d sz s assume sz: "m \<le> sz" "sz \<le> length (d :: bytes)"
  show "case field err n f d sz s of Stop v _ \<Rightarrow> v \<le> int (length d)
      | Go sz' _ \<Rightarrow> sz \<le> sz' \<and> sz' \<le> length d | Overread \<Rightarrow> False"
    using assms[of sz] sz by (simp add: field_def check_def copy_def block.simps(2))
qed

lemma guarded_check [guarded_intros]:
  assumes "\<And>i. m \<le> i \<Longrightarrow> err i \<le> int i"
  shows "guarded m (check err n)"
proof
  fix d sz s assume sz: "m \<le> sz" "sz \<le> length (d :: bytes)"
  show "case check err n d sz s of Stop v _ \<Rightarrow> v \<le> int (length d)
      | Go sz' _ \<Rightarrow> sz \<le> sz' \<and> sz' \<le> length d | Overread \<Rightarrow> False"
    using assms[of sz] sz by (simp add: check_def)
qed

lemma guarded_only_if [guarded_intros]: "list_all (guarded m) ks \<Longrightarrow> guarded m (only_if c ks)"
  using guarded_block[of m ks] by (auto simp: guarded_def only_if_def)

lemma list_all_guarded [guarded_intros]:
  "list_all (guarded m) []" "guarded m k \<Longrightarrow> list_all (guarded m) ks \<Longrightarrow> list_all (guarded m) (k # ks)"
  by simp_all

lemma block_append: "block (ks @ ls) d sz s = (case block ks d sz s of Go sz' s' \<Rightarrow> block ls d sz' s' | r \<Rightarrow> r)"
  by (induction ks arbitrary: sz s) (auto simp: block.simps(2) split: reading.splits)

text \<open>Evaluation of a block, with the conditional blocks spliced in.\<close>

lemma block_eval:
  "block (field err n f # ks) d sz s =
     (if sz + n s > length d then Stop (err sz) s else block ks d (sz + n s) (f (take (n s) (drop sz d)) s))"
  "block (copy n f # ks) d sz s =
     (if sz + n s > length d then Overread else block ks d (sz + n s) (f (take (n s) (drop sz d)) s))"
  "block (only_if c ls # ks) d sz s = (if c s then block (ls @ ks) d sz s else block ks d sz s)"
  by (simp_all add: field_def copy_def check_def only_if_def block_append block.simps(2))

lemma guarded_outcome:
  assumes "list_all (guarded 0) ks"
  shows "\<exists>v s'. outcome (block ks d 0 s) = Some (v, s') \<and> v \<le> int (length d)"
  by (rule guarded_cases[OF guarded_block[OF assms], of 0 d s]) (auto intro: order_trans[OF int16_le])

text \<open>A statement in front of the octets it is meant for.\<close>

definition reads :: "'s stmt \<Rightarrow> bytes \<Rightarrow> 's \<Rightarrow> 's \<Rightarrow> bool" where
  "reads k xs s s' \<longleftrightarrow> (\<forall>pre post. k (pre @ xs @ post) (length pre) s = Go (length pre + length xs) s')"

lemma reads_Nil: "reads (block []) [] s s"
  by (simp add: reads_def)

lemma reads_Cons:
  assumes "reads k xs s s1" "reads (block ks) ys s1 s2"
  shows "reads (block (k # ks)) (xs @ ys) s s2"
  unfolding reads_def
proof (intro allI)
  fix pre post
  show "block (k # ks) (pre @ (xs @ ys) @ post) (length pre) s = Go (length pre + length (xs @ ys)) s2"
    using assms(1)[unfolded reads_def, rule_format, of pre "ys @ post"]
      assms(2)[unfolded reads_def, rule_format, of "pre @ xs" post]
    by (simp add: block.simps(2) add.assoc)
qed

lemma reads_field: "length xs = n s \<Longrightarrow> reads (field err n f) xs s (f xs s)"
  by (simp add: reads_def field_def check_def copy_def block.simps(2))

lemma reads_field_to: "length xs = n s \<Longrightarrow> s' = f xs s \<Longrightarrow> reads (field err n f) xs s s'"
  by (simp add: reads_field)

lemma reads_only_if:
  assumes "c s = b" "b \<Longrightarrow> reads (block ks) xs s s'" "\<not> b \<Longrightarrow> s' = s"
  shows "reads (only_if c ks) (if b then xs else []) s s'"
  using assms by (auto simp: reads_def only_if_def)

lemma reads_opt:
  assumes "c s = b" "b \<Longrightarrow> length xs = n s" "s' = (if b then f xs s else s)"
  shows "reads (only_if c [field err n f]) (if b then xs else []) s s'"
  using assms reads_Cons[OF reads_field reads_Nil, of xs n s err f] by (intro reads_only_if) auto

text \<open>A run of optional fields behind a flags octet: flag, length, assignment and octets.\<close>

lemma reads_opts:
  assumes "\<forall>(i, n, f, xs) \<in> set gs. length xs = n \<and> (\<forall>b s. flg (f b s) = flg s)" "flg s = (w :: byte)"
  shows "reads (block (map (\<lambda>(i, n, f, xs). only_if (\<lambda>s. bit (flg s) i) [field err (\<lambda>_. n) f]) gs))
    (concat (map (\<lambda>(i, n, f, xs). if bit w i then xs else []) gs))
    s (fold (\<lambda>(i, n, f, xs) s. if bit w i then f xs s else s) gs s)"
  using assms
proof (induction gs arbitrary: s)
  case (Cons g gs)
  obtain i n f xs where g: "g = (i, n, f, xs)" by (cases g) auto
  have "reads (only_if (\<lambda>s. bit (flg s) i) [field err (\<lambda>_. n) f]) (if bit w i then xs else []) s
      (if bit w i then f xs s else s)"
    by (rule reads_opt) (use Cons.prems g in auto)
  moreover have "flg (if bit w i then f xs s else s) = w" using Cons.prems g by simp
  then have "reads (block (map (\<lambda>(i, n, f, xs). only_if (\<lambda>s. bit (flg s) i) [field err (\<lambda>_. n) f]) gs))
      (concat (map (\<lambda>(i, n, f, xs). if bit w i then xs else []) gs)) (if bit w i then f xs s else s)
      (fold (\<lambda>(i, n, f, xs) s. if bit w i then f xs s else s) gs (if bit w i then f xs s else s))"
    using Cons.prems(1) by (intro Cons.IH) auto
  ultimately show ?case unfolding g by (simp only: list.map prod.case concat.simps fold_simps) (rule reads_Cons)
qed (simp add: reads_Nil)

lemma reads_whole: "reads k d s s' \<Longrightarrow> k d 0 s = Go (length d) s'"
  unfolding reads_def by (drule spec[of _ "[]"], drule spec[of _ "[]"]) simp

subsection \<open>Writing\<close>

type_synonym wstmt = "nat \<Rightarrow> bytes \<Rightarrow> bytes option"

definition emit :: "bytes \<Rightarrow> wstmt" where
  "emit xs data_len w =
     (if length w + length xs \<le> data_len \<and> length w + length xs < 2 ^ 15 then Some (w @ xs) else None)"

text \<open>The first \<open>n\<close> octets of an object.\<close>

definition emit_from :: "nat \<Rightarrow> bytes \<Rightarrow> wstmt" where
  "emit_from n obj data_len w = (if n \<le> length obj then emit (take n obj) data_len w else None)"

fun wblock :: "wstmt list \<Rightarrow> wstmt" where
  "wblock [] data_len w = Some w"
| "wblock (k # ks) data_len w = Option.bind (k data_len w) (wblock ks data_len)"

definition wonly_if :: "bool \<Rightarrow> wstmt list \<Rightarrow> wstmt" where
  "wonly_if c ks data_len w = (if c then wblock ks data_len w else Some w)"

lemmas build_eval = bind_eq_Some_conv emit_def emit_from_def wonly_if_def

lemma emits:
  "length w + length xs \<le> n \<Longrightarrow> length w + length xs < 2 ^ 15 \<Longrightarrow> emit xs n w = Some (w @ xs)"
  by (simp add: emit_def)

lemma emits_map:
  "length w + length (concat (map f ms)) \<le> n \<Longrightarrow> length w + length (concat (map f ms)) < 2 ^ 15 \<Longrightarrow>
   wblock (map (\<lambda>m. emit (f m)) ms) n w = Some (w @ concat (map f ms))"
  by (induction ms arbitrary: w) (simp_all add: emits)

text \<open>Writes that need room for at most \<open>m\<close> octets.\<close>

definition fits :: "wstmt \<Rightarrow> nat \<Rightarrow> bool" where
  "fits k m \<longleftrightarrow> (\<forall>n w. length w + m \<le> n \<and> length w + m < 2 ^ 15 \<longrightarrow>
     (\<exists>w'. k n w = Some w' \<and> length w' \<le> length w + m))"

lemma fits_emit: "fits (emit xs) (length xs)"
  by (auto simp: fits_def emit_def)

lemma fits_only_if: "fits (wblock ks) m \<Longrightarrow> fits (wonly_if c ks) m"
  by (auto simp: fits_def wonly_if_def)

lemma fits_block: "fits (wblock []) 0" "fits k m \<Longrightarrow> fits (wblock ks) m' \<Longrightarrow> fits (wblock (k # ks)) (m + m')"
proof -
  assume k: "fits k m" and ks: "fits (wblock ks) m'"
  show "fits (wblock (k # ks)) (m + m')"
    unfolding fits_def
  proof (intro allI impI)
    fix n and w :: bytes assume n: "length w + (m + m') \<le> n \<and> length w + (m + m') < 2 ^ 15"
    obtain w1 where w1: "k n w = Some w1" "length w1 \<le> length w + m"
      using k[unfolded fits_def, rule_format, of w n] n by auto
    then obtain w2 where w2: "wblock ks n w1 = Some w2" "length w2 \<le> length w1 + m'"
      using ks[unfolded fits_def, rule_format, of w1 n] n by auto
    then show "\<exists>w'. wblock (k # ks) n w = Some w' \<and> length w' \<le> length w + (m + m')" using w1 by auto
  qed
qed (simp add: fits_def)

lemma fitsD: "fits (wblock ks) m \<Longrightarrow> m \<le> n \<Longrightarrow> m < 2 ^ 15 \<Longrightarrow> \<exists>d. wblock ks n [] = Some d"
  unfolding fits_def by (drule spec[of _ n], drule spec[of _ "[]"]) auto

subsection \<open>Bit rates\<close>

text \<open>A rate in kbit/s fills five octets.\<close>

lemma kbit_rates:
  "take_bit 40 (w :: u64) * 1000 mod 1000 = 0" "take_bit 40 (w :: u64) * 1000 div 1000 = take_bit 40 w"
proof -
  have b: "unat (take_bit 40 w) < 2 ^ 40" by (rule unat_take_bit_less) simp
  then have m: "unat (take_bit 40 w * 1000) = unat (take_bit 40 w) * 1000"
    by (subst unat_mult_lem[THEN iffD1]) simp_all
  show "take_bit 40 w * 1000 mod 1000 = 0" "take_bit 40 w * 1000 div 1000 = take_bit 40 w"
    by (simp_all add: word_unat_eq_iff unat_mod unat_div m)
qed

lemma uint64_to_buffer_take: "ogs_uint64_to_buffer (take_bit 40 num) 5 = ogs_uint64_to_buffer num 5"
proof (rule nth_equalityI)
  fix i assume "i < length (ogs_uint64_to_buffer (take_bit 40 num) 5)"
  then have i: "i < 5" by simp
  show "ogs_uint64_to_buffer (take_bit 40 num) 5 ! i = ogs_uint64_to_buffer num 5 ! i"
    by (rule bit_word_eqI) (use i in \<open>auto simp: uint64_to_buffer_bit bit_simps\<close>)
qed simp

subsection \<open>The contract of a pair of routines\<close>

text \<open>\<open>build\<close> may refuse a value (a failed assertion); what it builds, \<open>parse\<close> reads back
  completely, up to the normal form of the encoding. Some parsers leave the structure of the
  caller alone when they refuse the element; \<open>accepted\<close> is their result otherwise.\<close>

definition accepted :: "(int \<times> 'a option) option \<Rightarrow> (int \<times> 'a) option" where
  "accepted r = Option.bind r (\<lambda>(v, x). map_option (Pair v) x)"

locale ie_codec =
  fixes build :: "'a \<Rightarrow> nat \<Rightarrow> bytes option"
    and parse :: "bytes \<Rightarrow> (int \<times> 'a) option"
    and norm :: "'a \<Rightarrow> 'a"
  assumes parse_build: "build x n = Some d \<Longrightarrow> parse d = Some (int (length d), norm x)"
    and room: "build x n = Some d \<Longrightarrow> length d \<le> n"
begin

lemma same_octets: "build x n = Some d \<Longrightarrow> build y m = Some d \<Longrightarrow> norm x = norm y"
  using parse_build[of x n d] parse_build[of y m d] by simp

end

text \<open>A codec is stable when the normal form is built to the same octets: parsing and building
  again changes nothing.\<close>

locale ie_codec_stable = ie_codec +
  assumes build_norm: "build x n = Some d \<Longrightarrow> build (norm x) n = Some d"
begin

lemma rebuild:
  assumes "build x n = Some d" "parse d = Some (v, y)"
  shows "build y n = Some d \<and> v = int (length d)"
  using assms parse_build[OF assms(1)] build_norm[OF assms(1)] by simp

lemma norm_idem: "build x n = Some d \<Longrightarrow> norm (norm x) = norm x"
  using same_octets[OF build_norm] by blast

end

end
