(* ===== verification/Pfcp_Types.thy ===== *)
theory Pfcp_Types
  imports Ogs_Ie
begin

unbundle bit_operations_syntax

text \<open>
  The structured information elements of PFCP, \<open>lib/pfcp/types.c\<close>: SDF filter, bit rates,
  volume threshold, dropped downlink traffic threshold, volume measurement and user identity.
  The flags octet of a structure is a union with bit fields; a bit field is a bit of it, on a
  little-endian host as the build files assume. The counters \<open>int16_t size\<close> of the builders
  and the buffer of the caller are those of \<open>Ogs_Ie\<close>.

  Shown here: what each builder writes is read back by its parser; the parsers never read
  beyond the element and never return more than its length; and two fields of an SDF filter,
  the TOS traffic class and the flow label, do not survive.
\<close>

abbreviation returns_0 :: "nat \<Rightarrow> int" where "returns_0 \<equiv> \<lambda>_. 0"

subsection \<open>SDF filter\<close>

record ogs_pfcp_sdf_filter =
  sdf_flags :: u8
  sdf_spare2 :: u8
  sdf_flow_description_len :: u16
  sdf_flow_description :: bytes
  sdf_tos_traffic_class :: u16
  sdf_security_parameter_index :: u32
  sdf_flow_label :: u32
  sdf_filter_id :: u32

abbreviation "fd f \<equiv> bit (sdf_flags f) 0"
abbreviation "ttc f \<equiv> bit (sdf_flags f) 1"
abbreviation "spi f \<equiv> bit (sdf_flags f) 2"
abbreviation "fl f \<equiv> bit (sdf_flags f) 3"
abbreviation "bid f \<equiv> bit (sdf_flags f) 4"

definition sdf_zero :: ogs_pfcp_sdf_filter where
  "sdf_zero = \<lparr> sdf_flags = 0, sdf_spare2 = 0, sdf_flow_description_len = 0, sdf_flow_description = [],
     sdf_tos_traffic_class = 0, sdf_security_parameter_index = 0, sdf_flow_label = 0, sdf_filter_id = 0 \<rparr>"

text \<open>The memory of a 32-bit variable holds its octets in reverse; \<open>be32toh\<close> reverses them.\<close>

definition mem32 :: "u32 \<Rightarrow> bytes" where "mem32 w = rev (put32 w)"

definition load32 :: "bytes \<Rightarrow> u32" where
  "load32 bs = get32 (bs ! 3) (bs ! 2) (bs ! 1) (bs ! 0)"

definition be32toh :: "u32 \<Rightarrow> u32" where "be32toh w = load32 (rev (mem32 w))"

definition be16_of :: "bytes \<Rightarrow> u16" where "be16_of bs = get16 (bs ! 0) (bs ! 1)"

definition be32_of :: "bytes \<Rightarrow> u32" where "be32_of bs = get32 (bs ! 0) (bs ! 1) (bs ! 2) (bs ! 3)"

text \<open>The TOS traffic class is a 16-bit field that is converted with \<open>be32toh\<close>, and the three
  octets of the flow label are copied into the first octets of a 32-bit variable, which is then
  converted.\<close>

definition sdf_set_tos :: "bytes \<Rightarrow> ogs_pfcp_sdf_filter \<Rightarrow> ogs_pfcp_sdf_filter" where
  "sdf_set_tos bs f = f\<lparr> sdf_tos_traffic_class := ucast (be32toh (ucast (get16 (bs ! 1) (bs ! 0)))) \<rparr>"

definition sdf_set_label :: "bytes \<Rightarrow> ogs_pfcp_sdf_filter \<Rightarrow> ogs_pfcp_sdf_filter" where
  "sdf_set_label bs f = f\<lparr> sdf_flow_label := be32toh (load32 (bs @ drop 3 (mem32 (sdf_flow_label f)))) \<rparr>"

definition ogs_pfcp_build_sdf_filter :: "ogs_pfcp_sdf_filter \<Rightarrow> nat \<Rightarrow> bytes option" where
  "ogs_pfcp_build_sdf_filter f data_len =
     (if data_len = 0 then None
      else wblock [
        emit [sdf_flags f],
        emit [sdf_spare2 f],
        wonly_if (fd f) [
          emit (put16 (sdf_flow_description_len f)),
          emit_from (unat (sdf_flow_description_len f)) (sdf_flow_description f)],
        wonly_if (ttc f) [emit (put16 (sdf_tos_traffic_class f))],
        wonly_if (spi f) [emit (put32 (sdf_security_parameter_index f))],
        wonly_if (fl f) [emit (take 3 (put32 (sdf_flow_label f)))],
        wonly_if (bid f) [emit (put32 (sdf_filter_id f))]] data_len [])"

definition ogs_pfcp_parse_sdf_filter :: "bytes \<Rightarrow> (int \<times> ogs_pfcp_sdf_filter) option" where
  "ogs_pfcp_parse_sdf_filter octet =
     outcome (block [
       field returns_0 (\<lambda>_. 1) (\<lambda>b f. f\<lparr> sdf_flags := b ! 0 \<rparr>),
       field returns_0 (\<lambda>_. 1) (\<lambda>b f. f\<lparr> sdf_spare2 := b ! 0 \<rparr>),
       only_if fd [
         field returns_0 (\<lambda>_. 2) (\<lambda>b f. f\<lparr> sdf_flow_description_len := be16_of b \<rparr>),
         field returns_0 (\<lambda>f. unat (sdf_flow_description_len f)) (\<lambda>b f. f\<lparr> sdf_flow_description := b \<rparr>)],
       only_if ttc [field returns_0 (\<lambda>_. 2) sdf_set_tos],
       only_if spi [field returns_0 (\<lambda>_. 4) (\<lambda>b f. f\<lparr> sdf_security_parameter_index := be32_of b \<rparr>)],
       only_if fl [field returns_0 (\<lambda>_. 3) sdf_set_label],
       only_if bid [field returns_0 (\<lambda>_. 4) (\<lambda>b f. f\<lparr> sdf_filter_id := be32_of b \<rparr>)]] octet 0 sdf_zero)"

subsection \<open>Bit rates\<close>

record ogs_pfcp_bitrate =
  br_uplink :: u64
  br_downlink :: u64

definition OGS_PFCP_BITRATE_LEN :: nat where "OGS_PFCP_BITRATE_LEN = 10"

definition kbps_up :: "u64 \<Rightarrow> u64" where
  "kbps_up r = r div 1000 + (if r mod 1000 \<noteq> 0 then 1 else 0)"

definition ogs_pfcp_build_bitrate :: "ogs_pfcp_bitrate \<Rightarrow> nat \<Rightarrow> bytes option" where
  "ogs_pfcp_build_bitrate b data_len =
     (if data_len < OGS_PFCP_BITRATE_LEN then None
      else wblock [
        emit (ogs_uint64_to_buffer (kbps_up (br_uplink b)) 5),
        emit (ogs_uint64_to_buffer (kbps_up (br_downlink b)) 5)] data_len [])"

definition ogs_pfcp_parse_bitrate :: "bytes \<Rightarrow> (int \<times> ogs_pfcp_bitrate option) option" where
  "ogs_pfcp_parse_bitrate octet =
     (if length octet \<noteq> OGS_PFCP_BITRATE_LEN then Some (0, None)
      else map_option (\<lambda>(v, b). (v, Some b)) (outcome (block [
        copy (\<lambda>_. 5) (\<lambda>bs b. b\<lparr> br_uplink := ogs_buffer_to_uint64 bs 5 * 1000 \<rparr>),
        copy (\<lambda>_. 5) (\<lambda>bs b. b\<lparr> br_downlink := ogs_buffer_to_uint64 bs 5 * 1000 \<rparr>)]
        octet 0 \<lparr> br_uplink = 0, br_downlink = 0 \<rparr>)))"

subsection \<open>Volume threshold and quota\<close>

record ogs_pfcp_volume_threshold =
  vt_flags :: u8
  vt_total :: u64
  vt_uplink :: u64
  vt_downlink :: u64

abbreviation "vt_tovol v \<equiv> bit (vt_flags v) 0"
abbreviation "vt_ulvol v \<equiv> bit (vt_flags v) 1"
abbreviation "vt_dlvol v \<equiv> bit (vt_flags v) 2"

definition vt_zero :: ogs_pfcp_volume_threshold where
  "vt_zero = \<lparr> vt_flags = 0, vt_total = 0, vt_uplink = 0, vt_downlink = 0 \<rparr>"

definition ogs_pfcp_build_volume :: "ogs_pfcp_volume_threshold \<Rightarrow> nat \<Rightarrow> bytes option" where
  "ogs_pfcp_build_volume v data_len =
     (if data_len < 25 \<or> vt_flags v = 0 then None
      else wblock [
        emit [vt_flags v],
        wonly_if (vt_tovol v) [emit (put64 (vt_total v))],
        wonly_if (vt_ulvol v) [emit (put64 (vt_uplink v))],
        wonly_if (vt_dlvol v) [emit (put64 (vt_downlink v))]] data_len [])"

definition ogs_pfcp_parse_volume :: "bytes \<Rightarrow> (int \<times> ogs_pfcp_volume_threshold) option" where
  "ogs_pfcp_parse_volume octet =
     outcome (block [
       field returns_0 (\<lambda>_. 1) (\<lambda>b v. v\<lparr> vt_flags := b ! 0 \<rparr>),
       only_if vt_tovol [field returns_0 (\<lambda>_. 8) (\<lambda>b v. v\<lparr> vt_total := get64 b \<rparr>)],
       only_if vt_ulvol [field returns_0 (\<lambda>_. 8) (\<lambda>b v. v\<lparr> vt_uplink := get64 b \<rparr>)],
       only_if vt_dlvol [field returns_0 (\<lambda>_. 8) (\<lambda>b v. v\<lparr> vt_downlink := get64 b \<rparr>)]] octet 0 vt_zero)"

subsection \<open>Dropped downlink traffic threshold\<close>

record ogs_pfcp_dropped_dl_traffic_threshold =
  dt_flags :: u8
  dt_downlink_packets :: u64
  dt_bytes :: u64

abbreviation "dt_dlpa t \<equiv> bit (dt_flags t) 0"
abbreviation "dt_dlby t \<equiv> bit (dt_flags t) 1"

definition dt_zero :: ogs_pfcp_dropped_dl_traffic_threshold where
  "dt_zero = \<lparr> dt_flags = 0, dt_downlink_packets = 0, dt_bytes = 0 \<rparr>"

definition ogs_pfcp_build_dropped_dl_traffic_threshold ::
    "ogs_pfcp_dropped_dl_traffic_threshold \<Rightarrow> nat \<Rightarrow> bytes option" where
  "ogs_pfcp_build_dropped_dl_traffic_threshold t data_len =
     (if data_len < 17 \<or> dt_flags t = 0 then None
      else wblock [
        emit [dt_flags t],
        wonly_if (dt_dlpa t) [emit (put64 (dt_downlink_packets t))],
        wonly_if (dt_dlby t) [emit (put64 (dt_bytes t))]] data_len [])"

definition ogs_pfcp_parse_dropped_dl_traffic_threshold ::
    "bytes \<Rightarrow> (int \<times> ogs_pfcp_dropped_dl_traffic_threshold) option" where
  "ogs_pfcp_parse_dropped_dl_traffic_threshold octet =
     outcome (block [
       field returns_0 (\<lambda>_. 1) (\<lambda>b t. t\<lparr> dt_flags := b ! 0 \<rparr>),
       only_if dt_dlpa [field returns_0 (\<lambda>_. 8) (\<lambda>b t. t\<lparr> dt_downlink_packets := get64 b \<rparr>)],
       only_if dt_dlby [field returns_0 (\<lambda>_. 8) (\<lambda>b t. t\<lparr> dt_bytes := get64 b \<rparr>)]] octet 0 dt_zero)"

subsection \<open>Volume measurement\<close>

record ogs_pfcp_volume_measurement =
  vm_flags :: u8
  vm_total :: u64
  vm_uplink :: u64
  vm_downlink :: u64
  vm_total_n :: u64
  vm_uplink_n :: u64
  vm_downlink_n :: u64

definition vm_zero :: ogs_pfcp_volume_measurement where
  "vm_zero = \<lparr> vm_flags = 0, vm_total = 0, vm_uplink = 0, vm_downlink = 0,
     vm_total_n = 0, vm_uplink_n = 0, vm_downlink_n = 0 \<rparr>"

abbreviation "vm_has i v \<equiv> bit (vm_flags v) i"

definition ogs_pfcp_build_volume_measurement :: "ogs_pfcp_volume_measurement \<Rightarrow> nat \<Rightarrow> bytes option" where
  "ogs_pfcp_build_volume_measurement v data_len =
     (if data_len < 49 \<or> vm_flags v = 0 then None
      else wblock [
        emit [vm_flags v],
        wonly_if (vm_has 0 v) [emit (put64 (vm_total v))],
        wonly_if (vm_has 1 v) [emit (put64 (vm_uplink v))],
        wonly_if (vm_has 2 v) [emit (put64 (vm_downlink v))],
        wonly_if (vm_has 3 v) [emit (put64 (vm_total_n v))],
        wonly_if (vm_has 4 v) [emit (put64 (vm_uplink_n v))],
        wonly_if (vm_has 5 v) [emit (put64 (vm_downlink_n v))]] data_len [])"

definition ogs_pfcp_parse_volume_measurement :: "bytes \<Rightarrow> (int \<times> ogs_pfcp_volume_measurement) option" where
  "ogs_pfcp_parse_volume_measurement octet =
     outcome (block [
       field returns_0 (\<lambda>_. 1) (\<lambda>b v. v\<lparr> vm_flags := b ! 0 \<rparr>),
       only_if (vm_has 0) [field returns_0 (\<lambda>_. 8) (\<lambda>b v. v\<lparr> vm_total := get64 b \<rparr>)],
       only_if (vm_has 1) [field returns_0 (\<lambda>_. 8) (\<lambda>b v. v\<lparr> vm_uplink := get64 b \<rparr>)],
       only_if (vm_has 2) [field returns_0 (\<lambda>_. 8) (\<lambda>b v. v\<lparr> vm_downlink := get64 b \<rparr>)],
       only_if (vm_has 3) [field returns_0 (\<lambda>_. 8) (\<lambda>b v. v\<lparr> vm_total_n := get64 b \<rparr>)],
       only_if (vm_has 4) [field returns_0 (\<lambda>_. 8) (\<lambda>b v. v\<lparr> vm_uplink_n := get64 b \<rparr>)],
       only_if (vm_has 5) [field returns_0 (\<lambda>_. 8) (\<lambda>b v. v\<lparr> vm_downlink_n := get64 b \<rparr>)]] octet 0 vm_zero)"

subsection \<open>Usage report trigger\<close>

record ogs_pfcp_usage_report_trigger =
  reptri_5 :: u8
  reptri_6 :: u8
  reptri_7 :: u8

definition ogs_pfcp_parse_usage_report_trigger :: "u32 \<Rightarrow> ogs_pfcp_usage_report_trigger" where
  "ogs_pfcp_parse_usage_report_trigger u24 =
     \<lparr> reptri_5 = ucast (drop_bit 16 u24 AND 0xFF), reptri_6 = ucast (drop_bit 8 u24 AND 0xFF),
       reptri_7 = ucast (u24 AND 0xFF) \<rparr>"

subsection \<open>User identity\<close>

record ogs_pfcp_user_id =
  ui_flags :: u8
  ui_imsi_len :: u8
  ui_imsi :: bytes
  ui_imeisv_len :: u8
  ui_imeisv :: bytes
  ui_msisdn_len :: u8
  ui_msisdn :: bytes

abbreviation "imsif u \<equiv> bit (ui_flags u) 0"
abbreviation "imeif u \<equiv> bit (ui_flags u) 1"
abbreviation "msisdnf u \<equiv> bit (ui_flags u) 2"

definition ogs_pfcp_build_user_id :: "ogs_pfcp_user_id \<Rightarrow> nat \<Rightarrow> bytes option" where
  "ogs_pfcp_build_user_id u data_len =
     (if data_len = 0 then None
      else wblock [
        emit [ui_flags u],
        wonly_if (imsif u) [emit [ui_imsi_len u], emit_from (unat (ui_imsi_len u)) (ui_imsi u)],
        wonly_if (imeif u) [emit [ui_imeisv_len u], emit_from (unat (ui_imeisv_len u)) (ui_imeisv u)],
        wonly_if (msisdnf u) [emit [ui_msisdn_len u], emit_from (unat (ui_msisdn_len u)) (ui_msisdn u)]]
        data_len [])"

subsection \<open>What is read back\<close>

definition vt_norm :: "ogs_pfcp_volume_threshold \<Rightarrow> ogs_pfcp_volume_threshold" where
  "vt_norm v = v\<lparr> vt_total := if vt_tovol v then vt_total v else 0,
     vt_uplink := if vt_ulvol v then vt_uplink v else 0, vt_downlink := if vt_dlvol v then vt_downlink v else 0 \<rparr>"

definition dt_norm :: "ogs_pfcp_dropped_dl_traffic_threshold \<Rightarrow> ogs_pfcp_dropped_dl_traffic_threshold" where
  "dt_norm t = t\<lparr> dt_downlink_packets := if dt_dlpa t then dt_downlink_packets t else 0,
     dt_bytes := if dt_dlby t then dt_bytes t else 0 \<rparr>"

definition vm_norm :: "ogs_pfcp_volume_measurement \<Rightarrow> ogs_pfcp_volume_measurement" where
  "vm_norm v = v\<lparr> vm_total := if vm_has 0 v then vm_total v else 0,
     vm_uplink := if vm_has 1 v then vm_uplink v else 0, vm_downlink := if vm_has 2 v then vm_downlink v else 0,
     vm_total_n := if vm_has 3 v then vm_total_n v else 0,
     vm_uplink_n := if vm_has 4 v then vm_uplink_n v else 0,
     vm_downlink_n := if vm_has 5 v then vm_downlink_n v else 0 \<rparr>"

definition kbps_norm :: "u64 \<Rightarrow> u64" where "kbps_norm r = take_bit 40 (kbps_up r) * 1000"

definition br_norm :: "ogs_pfcp_bitrate \<Rightarrow> ogs_pfcp_bitrate" where
  "br_norm b = \<lparr> br_uplink = kbps_norm (br_uplink b), br_downlink = kbps_norm (br_downlink b) \<rparr>"

text \<open>What of an SDF filter is read back.\<close>

definition sdf_norm :: "ogs_pfcp_sdf_filter \<Rightarrow> ogs_pfcp_sdf_filter" where
  "sdf_norm f = f\<lparr>
     sdf_flow_description_len := if fd f then sdf_flow_description_len f else 0,
     sdf_flow_description := if fd f then take (unat (sdf_flow_description_len f)) (sdf_flow_description f) else [],
     sdf_tos_traffic_class := 0,
     sdf_security_parameter_index := if spi f then sdf_security_parameter_index f else 0,
     sdf_flow_label := if fl f then push_bit 8 (drop_bit 8 (sdf_flow_label f)) else 0,
     sdf_filter_id := if bid f then sdf_filter_id f else 0 \<rparr>"

text \<open>Rounded up and cut to 40 bits, a rate is stable.\<close>

lemma kbps_up_norm: "kbps_up (kbps_norm r) = take_bit 40 (kbps_up r)"
  by (simp add: kbps_norm_def kbps_up_def[of "take_bit 40 (kbps_up r) * 1000"] kbit_rates)

lemma arg_cong4: "a = a' \<Longrightarrow> b = b' \<Longrightarrow> c = c' \<Longrightarrow> d = d' \<Longrightarrow> f a b c d = f a' b' c' d'"
  by simp

lemma tos_lost: "sdf_set_tos bs f = f\<lparr> sdf_tos_traffic_class := 0 \<rparr>"
proof -
  have "ucast (be32toh (ucast (t :: u16))) = (0 :: u16)" for t
    using bit_imp_le_length[of t] by (intro bit_word_eqI)
      (fastforce simp: be32toh_def load32_def mem32_def put32_def get32_def bit_simps)
  then show ?thesis by (simp add: sdf_set_tos_def)
qed

lemma label_read:
  assumes "sdf_flow_label f = 0"
  shows "sdf_set_label [ucast (drop_bit 24 w), ucast (drop_bit 16 w), ucast (drop_bit 8 w)] f
     = f\<lparr> sdf_flow_label := push_bit 8 (drop_bit 8 w) \<rparr>"
proof -
  have "be32toh (load32 [a, b, c, 0]) = get32 a b c 0" for a b c
  proof -
    have "get32 (ucast (get32 0 c b a)) (ucast (drop_bit 8 (get32 0 c b a)))
        (ucast (drop_bit 16 (get32 0 c b a))) (ucast (drop_bit 24 (get32 0 c b a))) = get32 a b c 0"
      by (rule arg_cong4[where f = get32]) (rule bit_word_eqI, auto simp: get32_def bit_simps)+
    then show ?thesis by (simp add: be32toh_def load32_def mem32_def put32_def)
  qed
  moreover have "get32 (ucast (drop_bit 24 w)) (ucast (drop_bit 16 w)) (ucast (drop_bit 8 w)) 0 = push_bit 8 (drop_bit 8 w)"
  proof (rule bit_word_eqI)
    fix n assume "n < LENGTH(32)"
    then consider "n < 8" | "8 \<le> n" "n < 16" | "16 \<le> n" "n < 24" | "24 \<le> n" "n < 32" by force
    then show "bit (get32 (ucast (drop_bit 24 w)) (ucast (drop_bit 16 w)) (ucast (drop_bit 8 w)) 0) n
        = bit (push_bit 8 (drop_bit 8 w)) n"
      by cases (auto simp: get32_def bit_simps)
  qed
  ultimately show ?thesis
    using assms by (simp add: sdf_set_label_def mem32_def put32_def)
qed

lemma build_volume_octets:
  "ogs_pfcp_build_volume v n = Some d \<longleftrightarrow> vt_flags v \<noteq> 0 \<and> 25 \<le> n \<and>
   d = vt_flags v # (if vt_tovol v then put64 (vt_total v) else []) @
     (if vt_ulvol v then put64 (vt_uplink v) else []) @ (if vt_dlvol v then put64 (vt_downlink v) else [])"
  by (auto simp: ogs_pfcp_build_volume_def build_eval split: if_splits)

lemma build_threshold_octets:
  "ogs_pfcp_build_dropped_dl_traffic_threshold t n = Some d \<longleftrightarrow> dt_flags t \<noteq> 0 \<and> 17 \<le> n \<and>
   d = dt_flags t # (if dt_dlpa t then put64 (dt_downlink_packets t) else []) @
     (if dt_dlby t then put64 (dt_bytes t) else [])"
  by (auto simp: ogs_pfcp_build_dropped_dl_traffic_threshold_def build_eval split: if_splits)

lemma build_bitrate_octets:
  "ogs_pfcp_build_bitrate b n = Some d \<longleftrightarrow> 10 \<le> n \<and>
   d = ogs_uint64_to_buffer (kbps_up (br_uplink b)) 5 @ ogs_uint64_to_buffer (kbps_up (br_downlink b)) 5"
  by (auto simp: ogs_pfcp_build_bitrate_def OGS_PFCP_BITRATE_LEN_def build_eval split: if_splits)

lemma build_measurement_octets:
  "ogs_pfcp_build_volume_measurement v n = Some d \<longleftrightarrow> vm_flags v \<noteq> 0 \<and> 49 \<le> n \<and>
   d = vm_flags v # (if vm_has 0 v then put64 (vm_total v) else []) @
     (if vm_has 1 v then put64 (vm_uplink v) else []) @ (if vm_has 2 v then put64 (vm_downlink v) else []) @
     (if vm_has 3 v then put64 (vm_total_n v) else []) @
     (if vm_has 4 v then put64 (vm_uplink_n v) else []) @ (if vm_has 5 v then put64 (vm_downlink_n v) else [])"
  by (auto simp: ogs_pfcp_build_volume_measurement_def build_eval)

interpretation vt: ie_codec_stable ogs_pfcp_build_volume ogs_pfcp_parse_volume vt_norm
proof
  fix v n d assume "ogs_pfcp_build_volume v n = Some d"
  then show "ogs_pfcp_parse_volume d = Some (int (length d), vt_norm v)"
    unfolding build_volume_octets ogs_pfcp_parse_volume_def
    by (cases "vt_tovol v"; cases "vt_ulvol v"; cases "vt_dlvol v")
      (auto simp: block_eval vt_norm_def vt_zero_def)
qed (auto simp: build_volume_octets vt_norm_def)

interpretation dt: ie_codec_stable ogs_pfcp_build_dropped_dl_traffic_threshold
    ogs_pfcp_parse_dropped_dl_traffic_threshold dt_norm
proof
  fix v n d assume "ogs_pfcp_build_dropped_dl_traffic_threshold v n = Some d"
  then show "ogs_pfcp_parse_dropped_dl_traffic_threshold d = Some (int (length d), dt_norm v)"
    unfolding build_threshold_octets ogs_pfcp_parse_dropped_dl_traffic_threshold_def
    by (cases "dt_dlpa v"; cases "dt_dlby v") (auto simp: block_eval dt_norm_def dt_zero_def)
qed (auto simp: build_threshold_octets dt_norm_def)

interpretation vm: ie_codec_stable ogs_pfcp_build_volume_measurement ogs_pfcp_parse_volume_measurement vm_norm
proof
  fix v n d assume "ogs_pfcp_build_volume_measurement v n = Some d"
  then show "ogs_pfcp_parse_volume_measurement d = Some (int (length d), vm_norm v)"
    unfolding build_measurement_octets ogs_pfcp_parse_volume_measurement_def
    by (cases "vm_has 0 v"; cases "vm_has 1 v"; cases "vm_has 2 v"; cases "vm_has 3 v"; cases "vm_has 4 v"; cases "vm_has 5 v")
      (auto simp: block_eval vm_norm_def vm_zero_def)
qed (auto simp: build_measurement_octets vm_norm_def)

interpretation br: ie_codec_stable ogs_pfcp_build_bitrate "\<lambda>d. accepted (ogs_pfcp_parse_bitrate d)" br_norm
proof
  fix b n d assume "ogs_pfcp_build_bitrate b n = Some d"
  then show "accepted (ogs_pfcp_parse_bitrate d) = Some (int (length d), br_norm b)"
    by (auto simp: build_bitrate_octets ogs_pfcp_parse_bitrate_def accepted_def OGS_PFCP_BITRATE_LEN_def
        block_eval br_norm_def kbps_norm_def uint64_buffer_roundtrip[of 5 "replicate 5 0"])
qed (auto simp: build_bitrate_octets br_norm_def kbps_up_norm uint64_to_buffer_take)

lemma build_sdf_octets:
  "ogs_pfcp_build_sdf_filter f n = Some d \<Longrightarrow>
     (fd f \<longrightarrow> unat (sdf_flow_description_len f) \<le> length (sdf_flow_description f)) \<and> length d \<le> n \<and> length d < 2 ^ 15 \<and>
   d = sdf_flags f # sdf_spare2 f # (if fd f then put16 (sdf_flow_description_len f) @
       take (unat (sdf_flow_description_len f)) (sdf_flow_description f) else []) @
     (if ttc f then put16 (sdf_tos_traffic_class f) else []) @
     (if spi f then put32 (sdf_security_parameter_index f) else []) @
     (if fl f then take 3 (put32 (sdf_flow_label f)) else []) @ (if bid f then put32 (sdf_filter_id f) else [])"
  by (auto simp: ogs_pfcp_build_sdf_filter_def build_eval split: if_splits)

lemma sdf_parse_build:
  assumes "ogs_pfcp_build_sdf_filter f n = Some d"
  shows "ogs_pfcp_parse_sdf_filter d = Some (int (length d), sdf_norm f)"
proof -
  note o = build_sdf_octets[OF assms]
  define F where "F = sdf_norm f"
  let ?s = "\<lambda>a b c e g. \<lparr> sdf_flags = sdf_flags f, sdf_spare2 = sdf_spare2 f, sdf_flow_description_len = a,
     sdf_flow_description = b, sdf_tos_traffic_class = 0, sdf_security_parameter_index = c,
     sdf_flow_label = e, sdf_filter_id = g \<rparr>"
  let ?L = "sdf_flow_description_len F" and ?D = "sdf_flow_description F"
    and ?S = "sdf_security_parameter_index F" and ?B = "sdf_flow_label F" and ?I = "sdf_filter_id F"
  have head: "reads (field returns_0 (\<lambda>_. 1) (\<lambda>b f. f\<lparr> sdf_flags := b ! 0 \<rparr>)) [sdf_flags f] sdf_zero
      (sdf_zero\<lparr> sdf_flags := sdf_flags f \<rparr>)"
    "reads (field returns_0 (\<lambda>_. 1) (\<lambda>b f. f\<lparr> sdf_spare2 := b ! 0 \<rparr>)) [sdf_spare2 f]
      (sdf_zero\<lparr> sdf_flags := sdf_flags f \<rparr>) (?s 0 [] 0 0 0)"
    by (rule reads_field_to; simp add: sdf_zero_def)+
  have desc: "reads (only_if fd [
         field returns_0 (\<lambda>_. 2) (\<lambda>b f. f\<lparr> sdf_flow_description_len := be16_of b \<rparr>),
         field returns_0 (\<lambda>f. unat (sdf_flow_description_len f)) (\<lambda>b f. f\<lparr> sdf_flow_description := b \<rparr>)])
      (if fd f then put16 (sdf_flow_description_len f) @
        take (unat (sdf_flow_description_len f)) (sdf_flow_description f) @ [] else []) (?s 0 [] 0 0 0) (?s ?L ?D 0 0 0)"
  proof (rule reads_only_if)
    assume "fd f"
    with o show "reads (block [
         field returns_0 (\<lambda>_. 2) (\<lambda>b f. f\<lparr> sdf_flow_description_len := be16_of b \<rparr>),
         field returns_0 (\<lambda>f. unat (sdf_flow_description_len f)) (\<lambda>b f. f\<lparr> sdf_flow_description := b \<rparr>)])
      (put16 (sdf_flow_description_len f) @ take (unat (sdf_flow_description_len f)) (sdf_flow_description f) @ [])
      (?s 0 [] 0 0 0) (?s ?L ?D 0 0 0)"
      by (intro reads_Cons[OF reads_field_to[where s' = "?s ?L [] 0 0 0"] reads_Cons[OF reads_field_to reads_Nil]])
        (simp_all add: F_def sdf_norm_def be16_of_def put16_def)
  qed (simp_all add: F_def sdf_norm_def)
  let ?gs = "[(1, 2 :: nat, sdf_set_tos, put16 (sdf_tos_traffic_class f)),
    (2, 4, \<lambda>b f. f\<lparr> sdf_security_parameter_index := be32_of b \<rparr>, put32 (sdf_security_parameter_index f)),
    (3, 3, sdf_set_label, take 3 (put32 (sdf_flow_label f))),
    (4, 4, \<lambda>b f. f\<lparr> sdf_filter_id := be32_of b \<rparr>, put32 (sdf_filter_id f))]"
  let ?fields = "block (map (\<lambda>(i, n, g, xs). only_if (\<lambda>s. bit (sdf_flags s) i) [field returns_0 (\<lambda>_. n) g]) ?gs)"
  let ?octets = "concat (map (\<lambda>(i, n, g, xs). if bit (sdf_flags f) i then xs else []) ?gs)"
  have "reads ?fields ?octets (?s ?L ?D 0 0 0)
      (fold (\<lambda>(i, n, g, xs) s. if bit (sdf_flags f) i then g xs s else s) ?gs (?s ?L ?D 0 0 0))"
    by (rule reads_opts) (simp_all add: sdf_set_tos_def sdf_set_label_def)
  moreover have "fold (\<lambda>(i, n, g, xs) s. if bit (sdf_flags f) i then g xs s else s) ?gs (?s ?L ?D 0 0 0) = F"
    by (simp add: F_def sdf_norm_def tos_lost label_read be32_of_def put32_def)
  ultimately have fields: "reads ?fields ?octets (?s ?L ?D 0 0 0) F" by simp
  have d: "d = [sdf_flags f] @ [sdf_spare2 f] @ (if fd f then put16 (sdf_flow_description_len f) @
        take (unat (sdf_flow_description_len f)) (sdf_flow_description f) @ [] else []) @ ?octets"
    using o by simp
  have len: "length d < 2 ^ 15" using o by blast
  from reads_whole[OF reads_Cons[OF head(1) reads_Cons[OF head(2) reads_Cons[OF desc fields]]], folded d] len
  show ?thesis by (simp add: ogs_pfcp_parse_sdf_filter_def F_def)
qed

interpretation sdf: ie_codec ogs_pfcp_build_sdf_filter ogs_pfcp_parse_sdf_filter sdf_norm
  by unfold_locales (use sdf_parse_build build_sdf_octets in blast)+

subsection \<open>User identity\<close>

text \<open>The user identity has no parser here. Its builder gives the announced identities, each
  behind its length, and nothing when a length exceeds the array of the structure.\<close>

lemma build_user_id_octets:
  assumes "ogs_pfcp_build_user_id u n = Some d"
  shows "length d \<le> n \<and> (imsif u \<longrightarrow> unat (ui_imsi_len u) \<le> length (ui_imsi u))
   \<and> (imeif u \<longrightarrow> unat (ui_imeisv_len u) \<le> length (ui_imeisv u))
   \<and> (msisdnf u \<longrightarrow> unat (ui_msisdn_len u) \<le> length (ui_msisdn u))
   \<and> d = ui_flags u # (if imsif u then ui_imsi_len u # take (unat (ui_imsi_len u)) (ui_imsi u) else []) @
     (if imeif u then ui_imeisv_len u # take (unat (ui_imeisv_len u)) (ui_imeisv u) else []) @
     (if msisdnf u then ui_msisdn_len u # take (unat (ui_msisdn_len u)) (ui_msisdn u) else [])"
  using assms unfolding ogs_pfcp_build_user_id_def
  by (cases "imsif u"; cases "imeif u"; cases "msisdnf u") (auto simp: build_eval split: if_splits)

subsection \<open>Properties\<close>

lemma kbps_norm_nat: "unat (kbps_norm r) = (unat r + 999) div 1000 mod 2 ^ 40 * 1000"
proof -
  have lt: "unat r div 1000 + 1 < 2 ^ 64" using unsigned_less[of r, where 'a = nat] by auto
  have "unat (kbps_up r) = unat r div 1000 + (if unat r mod 1000 \<noteq> 0 then 1 else 0)"
  proof (cases "unat r mod 1000 = 0")
    case True
    then have "r mod 1000 = 0" by (simp add: word_unat_eq_iff unat_mod)
    then show ?thesis using True by (simp add: kbps_up_def unat_div)
  next
    case False
    then have "r mod 1000 \<noteq> 0" by (simp add: word_unat_eq_iff unat_mod)
    moreover have "unat (r div 1000 + 1) = unat r div 1000 + 1"
      using lt by (subst unat_add_lem[THEN iffD1]) (auto simp: unat_div)
    ultimately show ?thesis using False by (simp add: kbps_up_def)
  qed
  also have "\<dots> = (unat r + 999) div 1000"
  proof -
    define q m where qm: "q = unat r div 1000" "m = unat r mod 1000"
    have r: "unat r + 999 = 1000 * q + (m + 999)" "m < 1000" by (simp_all add: qm)
    have "(m + 999) div 1000 = (if m \<noteq> 0 then 1 else 0)" using r(2) by (auto intro!: div_nat_eqI)
    then have "(1000 * q + (m + 999)) div 1000 = q + (if m \<noteq> 0 then 1 else 0)" by simp
    then show ?thesis unfolding r(1) qm(1)[symmetric] qm(2)[symmetric] by simp
  qed
  finally have "unat (take_bit 40 (kbps_up r)) = (unat r + 999) div 1000 mod 2 ^ 40"
    by (simp only: unsigned_take_bit_eq) (simp only: take_bit_eq_mod)
  moreover from this have "unat (take_bit 40 (kbps_up r)) < 2 ^ 40" by simp
  ultimately show ?thesis
    unfolding kbps_norm_def by (subst unat_mult_lem[THEN iffD1]) simp_all
qed

text \<open>C21. Volume threshold, dropped downlink traffic threshold, volume measurement and bit
  rates. A structure with some flag is built in a buffer of the size of the structure, and the
  parser reads all of the element back: the flags, the fields the flags announce, and zero for the
  others. A bit rate element holds the uplink rate and then the downlink rate in kbit/s, rounded up,
  of which 40 bits are kept: both are read back as these multiples of 1000 bit/s, and build the same
  octets.\<close>

theorem pfcp_ie_roundtrip:
  assumes "49 \<le> n" "vt_flags v \<noteq> 0" "dt_flags t \<noteq> 0" "vm_flags m \<noteq> 0"
  shows "(\<exists>d. ogs_pfcp_build_volume v n = Some d \<and> ogs_pfcp_parse_volume d = Some (int (length d), vt_norm v))
    \<and> (\<exists>d. ogs_pfcp_build_dropped_dl_traffic_threshold t n = Some d
         \<and> ogs_pfcp_parse_dropped_dl_traffic_threshold d = Some (int (length d), dt_norm t))
    \<and> (\<exists>d. ogs_pfcp_build_volume_measurement m n = Some d
         \<and> ogs_pfcp_parse_volume_measurement d = Some (int (length d), vm_norm m))
    \<and> (\<exists>d b'. ogs_pfcp_build_bitrate b n = Some d \<and> ogs_pfcp_parse_bitrate d = Some (10, Some b')
         \<and> unat (br_uplink b') = (unat (br_uplink b) + 999) div 1000 mod 2 ^ 40 * 1000
         \<and> unat (br_downlink b') = (unat (br_downlink b) + 999) div 1000 mod 2 ^ 40 * 1000
         \<and> ogs_pfcp_build_bitrate b' n = Some d)"
proof (intro conjI)
  obtain d where d: "ogs_pfcp_build_bitrate b n = Some d" "length d = 10"
    using assms(1) build_bitrate_octets[of b n] by auto
  from br.parse_build[OF d(1)] have "ogs_pfcp_parse_bitrate d = Some (10, Some (br_norm b))"
    using d(2) by (auto simp: accepted_def bind_eq_Some_conv)
  moreover have "ogs_pfcp_build_bitrate (br_norm b) n = Some d" by (rule br.build_norm[OF d(1)])
  ultimately show "\<exists>d b'. ogs_pfcp_build_bitrate b n = Some d \<and> ogs_pfcp_parse_bitrate d = Some (10, Some b')
       \<and> unat (br_uplink b') = (unat (br_uplink b) + 999) div 1000 mod 2 ^ 40 * 1000
       \<and> unat (br_downlink b') = (unat (br_downlink b) + 999) div 1000 mod 2 ^ 40 * 1000
       \<and> ogs_pfcp_build_bitrate b' n = Some d"
    using d(1) by (intro exI[of _ d] exI[of _ "br_norm b"]) (simp add: br_norm_def kbps_norm_nat)
next
  obtain d where "ogs_pfcp_build_volume v n = Some d" using assms build_volume_octets[of v n] by auto
  with vt.parse_build show "\<exists>d. ogs_pfcp_build_volume v n = Some d
      \<and> ogs_pfcp_parse_volume d = Some (int (length d), vt_norm v)" by blast
next
  obtain d where "ogs_pfcp_build_dropped_dl_traffic_threshold t n = Some d"
    using assms build_threshold_octets[of t n] by auto
  with dt.parse_build show "\<exists>d. ogs_pfcp_build_dropped_dl_traffic_threshold t n = Some d
      \<and> ogs_pfcp_parse_dropped_dl_traffic_threshold d = Some (int (length d), dt_norm t)" by blast
next
  obtain d where "ogs_pfcp_build_volume_measurement m n = Some d"
    using assms build_measurement_octets[of m n] by auto
  with vm.parse_build show "\<exists>d. ogs_pfcp_build_volume_measurement m n = Some d
      \<and> ogs_pfcp_parse_volume_measurement d = Some (int (length d), vm_norm m)" by blast
qed

theorem pfcp_ie_roundtrip_witness:
  "(\<exists>d. ogs_pfcp_build_volume \<lparr> vt_flags = 2, vt_total = 9, vt_uplink = 7, vt_downlink = 0 \<rparr> 49 = Some d
     \<and> ogs_pfcp_parse_volume d = Some (int (length d), \<lparr> vt_flags = 2, vt_total = 0, vt_uplink = 7, vt_downlink = 0 \<rparr>))
   \<and> (\<exists>d b'. ogs_pfcp_build_bitrate \<lparr> br_uplink = 1, br_downlink = 2500 \<rparr> 49 = Some d
     \<and> ogs_pfcp_parse_bitrate d = Some (10, Some b') \<and> unat (br_uplink b') = 1000 \<and> unat (br_downlink b') = 3000)"
proof -
  let ?v = "\<lparr> vt_flags = 2, vt_total = 9, vt_uplink = 7, vt_downlink = 0 \<rparr>"
  note all = pfcp_ie_roundtrip[of 49 ?v "\<lparr> dt_flags = 1, dt_downlink_packets = 0, dt_bytes = 0 \<rparr>"
      "vm_zero\<lparr> vm_flags := 1 \<rparr>" "\<lparr> br_uplink = 1, br_downlink = 2500 \<rparr>", simplified]
  have "vt_norm ?v = ?v\<lparr> vt_total := 0 \<rparr>" by (simp add: vt_norm_def)
  then show ?thesis using all by auto
qed

text \<open>C22. SDF filter. Building and parsing keep the flags, the flow description, the SPI and the
  filter identifier; the TOS traffic class always comes back as 0, and the flow label without
  its last octet.\<close>

theorem pfcp_sdf_filter_roundtrip:
  assumes "fd f \<longrightarrow> unat (sdf_flow_description_len f) \<le> length (sdf_flow_description f)"
    and "17 + unat (sdf_flow_description_len f) \<le> n" "17 + unat (sdf_flow_description_len f) < 2 ^ 15"
  shows "\<exists>d f'. ogs_pfcp_build_sdf_filter f n = Some d \<and> ogs_pfcp_parse_sdf_filter d = Some (int (length d), f')
    \<and> f' = sdf_norm f \<and> sdf_tos_traffic_class f' = 0"
proof -
  have "\<exists>d. ogs_pfcp_build_sdf_filter f n = Some d"
    using assms by (simp add: ogs_pfcp_build_sdf_filter_def build_eval)
  then show ?thesis using sdf.parse_build by (auto simp: sdf_norm_def)
qed

theorem pfcp_sdf_filter_roundtrip_witness:
  "\<exists>d. ogs_pfcp_build_sdf_filter (sdf_zero\<lparr> sdf_flags := 10, sdf_tos_traffic_class := 0x2EFC, sdf_flow_label := 0x12345 \<rparr>) 99 = Some d
     \<and> ogs_pfcp_parse_sdf_filter d = Some (int (length d), sdf_zero\<lparr> sdf_flags := 10, sdf_flow_label := 0x12300 \<rparr>)"
proof -
  let ?f = "sdf_zero\<lparr> sdf_flags := 10, sdf_tos_traffic_class := 0x2EFC, sdf_flow_label := 0x12345 \<rparr>"
  have "\<exists>d f'. ogs_pfcp_build_sdf_filter ?f 99 = Some d \<and> ogs_pfcp_parse_sdf_filter d = Some (int (length d), f')
      \<and> f' = sdf_norm ?f \<and> sdf_tos_traffic_class f' = 0"
    by (rule pfcp_sdf_filter_roundtrip) (simp_all add: sdf_zero_def)
  moreover have "push_bit 8 (drop_bit 8 0x12345) = (0x12300 :: u32)" by (simp add: drop_bit_eq_div push_bit_eq_mult)
  then have "sdf_norm ?f = sdf_zero\<lparr> sdf_flags := 10, sdf_flow_label := 0x12300 \<rparr>"
    by (simp add: sdf_zero_def sdf_norm_def)
  ultimately show ?thesis by metis
qed

definition announced :: "nat \<Rightarrow> bytes \<Rightarrow> nat" where
  "announced k d = 1 + 8 * length (filter (bit (hd d)) [0..<k])"

lemma optional_octets:
  assumes "\<forall>(i, f) \<in> set gs. \<forall>b s. flg (f b s) = flg s" "sz \<le> length d"
  shows "\<exists>s'. block (map (\<lambda>(i, f). only_if (\<lambda>s. bit (flg s) i) [field returns_0 (\<lambda>_. 8) f]) gs) d sz s =
    (let m = sz + 8 * length (filter (bit (flg s :: byte)) (map fst gs)) in if m \<le> length d then Go m s' else Stop 0 s')"
  using assms
proof (induction gs arbitrary: sz s)
  case (Cons g gs)
  obtain i f where g: "g = (i, f)" by (cases g)
  show ?case
  proof (cases "bit (flg s) i \<and> sz + 8 \<le> length d")
    case True
    then show ?thesis
      using Cons.prems Cons.IH[of "sz + 8" "f (take 8 (drop sz d)) s"] g by (simp add: block_eval add.assoc)
  next
    case False
    then show ?thesis using Cons.prems Cons.IH[of sz s] g by (auto simp: block_eval)
  qed
qed simp

lemma int16_announced: "k \<le> 8 \<Longrightarrow> int16 (announced k d) = int (announced k d)"
  using length_filter_le[of "bit (hd d)" "[0..<k]"] by (intro int16_small) (simp add: announced_def)

lemma announced_result:
  assumes "\<And>b s. flg (f0 b s) = b ! 0" "\<forall>(i, f) \<in> set gs. \<forall>b s. flg (f b s) = flg s" "map fst gs = [0..<k]" "k \<le> 8"
  shows "\<exists>x. outcome (block (field returns_0 (\<lambda>_. 1) f0 #
      map (\<lambda>(i, f). only_if (\<lambda>s. bit (flg s) i) [field returns_0 (\<lambda>_. 8) f]) gs) d 0 s0)
    = Some (if d \<noteq> [] \<and> announced k d \<le> length d then int (announced k d) else 0, x)"
proof (cases d)
  case (Cons b ds)
  then show ?thesis
    using optional_octets[OF assms(2), of 1 d "f0 [b] s0"] assms(1,3)
      int16_announced[OF assms(4), of d]
    by (auto simp: block_eval announced_def Let_def split: if_splits)
qed (simp add: block_eval)

lemma upto_lists: "[0..<2] = [0, 1]" "[0..<3] = [0, 1, 2]" "[0..<6] = [0, 1, 2, 3, 4, 5]"
  by (simp_all add: upt_rec)

text \<open>Parsing untrusted elements. On any octets the parsers read inside the element and return at
  most its length; those of the volume elements return 0 exactly when the octets do not reach
  for the fields the flags announce.\<close>

theorem pfcp_ie_parse_bounds:
  "(\<exists>v f. ogs_pfcp_parse_sdf_filter d = Some (v, f) \<and> v \<le> int (length d))
   \<and> (\<exists>b. ogs_pfcp_parse_bitrate d = Some (if length d = 10 then 10 else 0, b))
   \<and> (\<exists>x. ogs_pfcp_parse_volume d =
         Some (if d \<noteq> [] \<and> announced 3 d \<le> length d then int (announced 3 d) else 0, x))
   \<and> (\<exists>x. ogs_pfcp_parse_dropped_dl_traffic_threshold d =
         Some (if d \<noteq> [] \<and> announced 2 d \<le> length d then int (announced 2 d) else 0, x))
   \<and> (\<exists>x. ogs_pfcp_parse_volume_measurement d =
         Some (if d \<noteq> [] \<and> announced 6 d \<le> length d then int (announced 6 d) else 0, x))"
proof (intro conjI)
  show "\<exists>v f. ogs_pfcp_parse_sdf_filter d = Some (v, f) \<and> v \<le> int (length d)"
    unfolding ogs_pfcp_parse_sdf_filter_def
    by (rule guarded_outcome) (intro guarded_intros; simp)
  show "\<exists>b. ogs_pfcp_parse_bitrate d = Some (if length d = 10 then 10 else 0, b)"
    by (simp add: ogs_pfcp_parse_bitrate_def OGS_PFCP_BITRATE_LEN_def block_eval)
  show "\<exists>x. ogs_pfcp_parse_volume d =
         Some (if d \<noteq> [] \<and> announced 3 d \<le> length d then int (announced 3 d) else 0, x)"
    using announced_result[of vt_flags "\<lambda>b v. v\<lparr> vt_flags := b ! 0 \<rparr>"
      "[(0, \<lambda>b v. v\<lparr> vt_total := get64 b \<rparr>), (1, \<lambda>b v. v\<lparr> vt_uplink := get64 b \<rparr>),
        (2, \<lambda>b v. v\<lparr> vt_downlink := get64 b \<rparr>)]" 3 d vt_zero]
    by (simp add: ogs_pfcp_parse_volume_def upto_lists)
  show "\<exists>x. ogs_pfcp_parse_dropped_dl_traffic_threshold d =
         Some (if d \<noteq> [] \<and> announced 2 d \<le> length d then int (announced 2 d) else 0, x)"
    using announced_result[of dt_flags "\<lambda>b v. v\<lparr> dt_flags := b ! 0 \<rparr>"
      "[(0, \<lambda>b v. v\<lparr> dt_downlink_packets := get64 b \<rparr>), (1, \<lambda>b v. v\<lparr> dt_bytes := get64 b \<rparr>)]" 2 d dt_zero]
    by (simp add: ogs_pfcp_parse_dropped_dl_traffic_threshold_def upto_lists)
  show "\<exists>x. ogs_pfcp_parse_volume_measurement d =
         Some (if d \<noteq> [] \<and> announced 6 d \<le> length d then int (announced 6 d) else 0, x)"
    using announced_result[of vm_flags "\<lambda>b v. v\<lparr> vm_flags := b ! 0 \<rparr>"
      "[(0, \<lambda>b v. v\<lparr> vm_total := get64 b \<rparr>), (1, \<lambda>b v. v\<lparr> vm_uplink := get64 b \<rparr>),
        (2, \<lambda>b v. v\<lparr> vm_downlink := get64 b \<rparr>), (3, \<lambda>b v. v\<lparr> vm_total_n := get64 b \<rparr>),
        (4, \<lambda>b v. v\<lparr> vm_uplink_n := get64 b \<rparr>), (5, \<lambda>b v. v\<lparr> vm_downlink_n := get64 b \<rparr>)]" 6 d vm_zero]
    by (simp add: ogs_pfcp_parse_volume_measurement_def upto_lists)
qed

end
