(* ===== verification/Gtp2_Types.thy ===== *)
theory Gtp2_Types
  imports Ogs_Ie
begin

unbundle bit_operations_syntax

text \<open>
  The structured information elements of GTPv2-C, \<open>lib/gtp/v2/types.c\<close>: bearer and flow QoS,
  the traffic flow template with its packet filters (\<open>ogs_pf_content_t\<close> of
  \<open>lib/ipfw/ogs-ipfw.h\<close>), user location information and node identifier.

  The union of a packet filter component is its 32 octets in memory; a port in it is in the
  order of a little-endian host. A PLMN identity is its three octets.

  Shown here: parsing gives back what was built, for every template within the limits of the
  structure; on arbitrary octets the parsers end, stay inside the element and return at most
  its length.
\<close>

subsection \<open>Bearer and flow QoS\<close>

text \<open>The first octet holds the bit fields spare (7), pre-emption capability (6), priority level
  (5 to 2), spare (1) and pre-emption vulnerability (0).\<close>

record ogs_gtp2_bearer_qos =
  bq_arp :: u8
  bq_qci :: u8
  bq_ul_mbr :: u64
  bq_dl_mbr :: u64
  bq_ul_gbr :: u64
  bq_dl_gbr :: u64

definition GTP2_BEARER_QOS_LEN :: nat where "GTP2_BEARER_QOS_LEN = 22"

definition GTP2_FLOW_QOS_LEN :: nat where "GTP2_FLOW_QOS_LEN = 21"

definition bq_zero :: ogs_gtp2_bearer_qos where
  "bq_zero = \<lparr> bq_arp = 0, bq_qci = 0, bq_ul_mbr = 0, bq_dl_mbr = 0, bq_ul_gbr = 0, bq_dl_gbr = 0 \<rparr>"

text \<open>The bit fields but the two spare ones are copied.\<close>

definition arp_fields :: "u8 \<Rightarrow> u8" where "arp_fields b = b AND 0x7D"

definition kbps_read :: "bytes \<Rightarrow> u64" where "kbps_read bs = ogs_buffer_to_uint64 bs 5 * 1000"

definition kbps_octets :: "u64 \<Rightarrow> bytes" where "kbps_octets r = ogs_uint64_to_buffer (r div 1000) 5"

definition ogs_gtp2_parse_bearer_qos :: "bytes \<Rightarrow> (int \<times> ogs_gtp2_bearer_qos option) option" where
  "ogs_gtp2_parse_bearer_qos octet =
     (if length octet \<noteq> GTP2_BEARER_QOS_LEN then Some (0, None)
      else map_option (\<lambda>(v, q). (v, Some q)) (outcome (block [
        copy (\<lambda>_. 1) (\<lambda>b q. q\<lparr> bq_arp := arp_fields (b ! 0) \<rparr>),
        copy (\<lambda>_. 1) (\<lambda>b q. q\<lparr> bq_qci := b ! 0 \<rparr>),
        copy (\<lambda>_. 5) (\<lambda>b q. q\<lparr> bq_ul_mbr := kbps_read b \<rparr>),
        copy (\<lambda>_. 5) (\<lambda>b q. q\<lparr> bq_dl_mbr := kbps_read b \<rparr>),
        copy (\<lambda>_. 5) (\<lambda>b q. q\<lparr> bq_ul_gbr := kbps_read b \<rparr>),
        copy (\<lambda>_. 5) (\<lambda>b q. q\<lparr> bq_dl_gbr := kbps_read b \<rparr>)] octet 0 bq_zero)))"

definition ogs_gtp2_build_bearer_qos :: "ogs_gtp2_bearer_qos \<Rightarrow> nat \<Rightarrow> bytes option" where
  "ogs_gtp2_build_bearer_qos q data_len =
     (if data_len < GTP2_BEARER_QOS_LEN then None
      else wblock [
        emit [bq_arp q, bq_qci q],
        emit (kbps_octets (bq_ul_mbr q)), emit (kbps_octets (bq_dl_mbr q)),
        emit (kbps_octets (bq_ul_gbr q)), emit (kbps_octets (bq_dl_gbr q))] data_len [])"

text \<open>Bit rates of the older encoding in up to three octets; all zero is not expected.\<close>

definition ogs_gtp2_qos_to_kbps :: "u8 \<Rightarrow> u8 \<Rightarrow> u8 \<Rightarrow> nat option" where
  "ogs_gtp2_qos_to_kbps br extended extended2 =
     (let b = unat br; e = unat extended; e2 = unat extended2
      in if e2 \<ge> 1 \<and> e2 \<le> 0x3D then Some (256 * 1000 + e2 * 4 * 1000)
         else if e2 \<ge> 0x3E \<and> e2 \<le> 0xA1 then Some (500 * 1000 + (e2 - 0x3D) * 10 * 1000)
         else if e2 \<ge> 0xA2 \<and> e2 \<le> 0xF6 then Some (1500 * 1000 + (e2 - 0xA1) * 100 * 1000)
         else if e2 > 0xF6 then Some (10 * 1000 * 1000)
         else if e \<ge> 1 \<and> e \<le> 0x4A then Some (8600 + e * 100)
         else if e \<ge> 0x4B \<and> e \<le> 0xBA then Some (16 * 1000 + (e - 0x4A) * 1 * 1000)
         else if e \<ge> 0xBB \<and> e \<le> 0xFA then Some (128 * 1000 + (e - 0xBA) * 2 * 1000)
         else if e > 0xFA then Some (256 * 1000)
         else if b = 0xFF then Some 0
         else if b \<ge> 1 \<and> b \<le> 0x3F then Some b
         else if b \<ge> 0x40 \<and> b \<le> 0x7F then Some (64 + (b - 0x40) * 8)
         else if b \<ge> 0x80 \<and> b \<le> 0xFE then Some (576 + (b - 0x80) * 64)
         else None)"

record ogs_gtp2_flow_qos =
  fq_qci :: u8
  fq_ul_mbr :: u64
  fq_dl_mbr :: u64
  fq_ul_gbr :: u64
  fq_dl_gbr :: u64

definition fq_zero :: ogs_gtp2_flow_qos where
  "fq_zero = \<lparr> fq_qci = 0, fq_ul_mbr = 0, fq_dl_mbr = 0, fq_ul_gbr = 0, fq_dl_gbr = 0 \<rparr>"

definition ogs_gtp2_parse_flow_qos :: "bytes \<Rightarrow> (int \<times> ogs_gtp2_flow_qos option) option" where
  "ogs_gtp2_parse_flow_qos octet =
     (if length octet \<noteq> GTP2_FLOW_QOS_LEN then Some (0, None)
      else map_option (\<lambda>(v, q). (v, Some q)) (outcome (block [
        copy (\<lambda>_. 1) (\<lambda>b q. q\<lparr> fq_qci := b ! 0 \<rparr>),
        copy (\<lambda>_. 5) (\<lambda>b q. q\<lparr> fq_ul_mbr := kbps_read b \<rparr>),
        copy (\<lambda>_. 5) (\<lambda>b q. q\<lparr> fq_dl_mbr := kbps_read b \<rparr>),
        copy (\<lambda>_. 5) (\<lambda>b q. q\<lparr> fq_ul_gbr := kbps_read b \<rparr>),
        copy (\<lambda>_. 5) (\<lambda>b q. q\<lparr> fq_dl_gbr := kbps_read b \<rparr>)] octet 0 fq_zero)))"

text \<open>The builder copies two octets of the structure, the second being the lowest octet of the
  uplink rate, but advances by one, so that the second octet is written over.\<close>

definition ogs_gtp2_build_flow_qos :: "ogs_gtp2_flow_qos \<Rightarrow> nat \<Rightarrow> bytes option" where
  "ogs_gtp2_build_flow_qos q data_len =
     (if data_len < GTP2_FLOW_QOS_LEN then None
      else wblock [
        emit [fq_qci q, ucast (fq_ul_mbr q)],
        (\<lambda>_ w. Some (take 1 w)),
        emit (kbps_octets (fq_ul_mbr q)), emit (kbps_octets (fq_dl_mbr q)),
        emit (kbps_octets (fq_ul_gbr q)), emit (kbps_octets (fq_dl_gbr q))] data_len [])"

subsection \<open>Packet filters\<close>

record pf_component =
  pc_type :: u8
  pc_union :: bytes

record tft_pf =
  pf_flags :: u8
  pf_precedence :: u8
  pf_length :: u8
  pf_num :: nat
  pf_component :: "pf_component list"

record ogs_gtp2_tft =
  tft_flags :: u8
  tft_pf :: "tft_pf list"

abbreviation tft_code :: "ogs_gtp2_tft \<Rightarrow> nat" where "tft_code t \<equiv> unat (drop_bit 5 (tft_flags t))"
abbreviation tft_num :: "ogs_gtp2_tft \<Rightarrow> nat" where "tft_num t \<equiv> unat (take_bit 4 (tft_flags t))"

definition OGS_MAX_NUM_OF_FLOW_IN_GTP :: nat where "OGS_MAX_NUM_OF_FLOW_IN_GTP = 15"

definition OGS_MAX_NUM_OF_PACKET_FILTER_COMPONENT :: nat where "OGS_MAX_NUM_OF_PACKET_FILTER_COMPONENT = 16"

definition pc_zero :: pf_component where "pc_zero = \<lparr> pc_type = 0, pc_union = replicate 32 0 \<rparr>"

definition pf_zero :: tft_pf where
  "pf_zero = \<lparr> pf_flags = 0, pf_precedence = 0, pf_length = 0, pf_num = 0,
     pf_component = replicate OGS_MAX_NUM_OF_PACKET_FILTER_COMPONENT pc_zero \<rparr>"

definition tft_zero :: ogs_gtp2_tft where
  "tft_zero = \<lparr> tft_flags = 0, tft_pf = replicate OGS_MAX_NUM_OF_FLOW_IN_GTP pf_zero \<rparr>"

text \<open>The members of the union that a component of some type has: offset, length, and whether
  the octets are swapped between network and host order.\<close>

definition parse_members :: "u8 \<Rightarrow> (nat \<times> nat \<times> bool) list option" where
  "parse_members ty =
     (if ty = 48 then Some [(0, 1, False)]
      else if ty = 16 \<or> ty = 17 then Some [(0, 4, False), (4, 4, False)]
      else if ty = 35 \<or> ty = 33 then Some [(0, 16, False), (16, 1, False)]
      else if ty = 34 \<or> ty = 32 then Some [(0, 16, False), (16, 16, False)]
      else if ty = 64 \<or> ty = 80 then Some [(0, 2, True)]
      else if ty = 65 \<or> ty = 81 then Some [(0, 2, True), (2, 2, True)]
      else None)"

definition net_host :: "bool \<Rightarrow> bytes \<Rightarrow> bytes" where "net_host swap bs = (if swap then rev bs else bs)"

definition read_member :: "nat \<Rightarrow> nat \<times> nat \<times> bool \<Rightarrow> pf_component stmt" where
  "read_member start m = (case m of (off, n, swap) \<Rightarrow>
     field (\<lambda>_. int start) (\<lambda>_. n) (\<lambda>b c. c\<lparr> pc_union := overlay (pc_union c) off (net_host swap b) \<rparr>))"

text \<open>One component: its type, then its members. A failing comparison returns the \<open>size\<close> that
  was reached before the components of the filter.\<close>

definition read_component :: "nat \<Rightarrow> pf_component stmt" where
  "read_component start = block [
     field (\<lambda>_. int start) (\<lambda>_. 1) (\<lambda>b c. c\<lparr> pc_type := b ! 0 \<rparr>),
     (\<lambda>d pos c. case parse_members (pc_type c) of
        None \<Rightarrow> Stop (- 1) c
      | Some ms \<Rightarrow> block (map (read_member start) ms) d pos c)]"

function tft_components :: "bytes \<Rightarrow> nat \<Rightarrow> nat \<Rightarrow> nat \<Rightarrow> nat \<Rightarrow> pf_component list
    \<Rightarrow> (pf_component list \<times> nat) reading" where
  "tft_components d start clen len j cs =
     (if len < clen then
        if j \<ge> OGS_MAX_NUM_OF_PACKET_FILTER_COMPONENT then Stop (int start) (cs, 0)
        else (case read_component start d (start + len) (cs ! j) of
            Stop v c \<Rightarrow> Stop v (cs[j := c], 0)
          | Go pos c \<Rightarrow> tft_components d start clen (pos - start) (j + 1) (cs[j := c])
          | Overread \<Rightarrow> Overread)
      else Go (start + len) (cs, j))"
  by pat_completeness auto
termination
  by (relation "measure (\<lambda>(d, start, clen, len, j, cs). OGS_MAX_NUM_OF_PACKET_FILTER_COMPONENT - j)") auto

declare tft_components.simps [simp del]

text \<open>The part of a packet filter behind its flags.\<close>

definition read_content :: "tft_pf stmt" where
  "read_content = block [
     field int (\<lambda>_. 1) (\<lambda>b p. p\<lparr> pf_precedence := b ! 0 \<rparr>),
     field int (\<lambda>_. 1) (\<lambda>b p. p\<lparr> pf_length := b ! 0 \<rparr>),
     check int (\<lambda>p. unat (pf_length p)),
     (\<lambda>d sz p. case tft_components d sz (unat (pf_length p)) 0 0 (pf_component p) of
        Stop v (cs, j) \<Rightarrow> Stop v (p\<lparr> pf_component := cs \<rparr>)
      | Go sz' (cs, j) \<Rightarrow> Go sz' (p\<lparr> pf_component := cs, pf_num := j \<rparr>)
      | Overread \<Rightarrow> Overread)]"

definition read_filter :: "nat \<Rightarrow> tft_pf stmt" where
  "read_filter code = block [
     field int (\<lambda>_. 1) (\<lambda>b p. p\<lparr> pf_flags := b ! 0 \<rparr>),
     only_if (\<lambda>_. code \<noteq> 5) [read_content]]"

function tft_filters :: "nat \<Rightarrow> ogs_gtp2_tft stmt" where
  "tft_filters i d sz t =
     (if i < tft_num t \<and> i < OGS_MAX_NUM_OF_FLOW_IN_GTP then
        (case read_filter (tft_code t) d sz (tft_pf t ! i) of
           Stop v p \<Rightarrow> Stop v (t\<lparr> tft_pf := (tft_pf t)[i := p] \<rparr>)
         | Go sz' p \<Rightarrow> tft_filters (i + 1) d sz' (t\<lparr> tft_pf := (tft_pf t)[i := p] \<rparr>)
         | Overread \<Rightarrow> Overread)
      else Go sz t)"
  by pat_completeness auto
termination by (relation "measure (\<lambda>(i, d, sz, t). OGS_MAX_NUM_OF_FLOW_IN_GTP - i)") auto

declare tft_filters.simps [simp del]

definition ogs_gtp2_parse_tft :: "bytes \<Rightarrow> (int \<times> ogs_gtp2_tft) option" where
  "ogs_gtp2_parse_tft octet =
     outcome (block [
       field int (\<lambda>_. 1) (\<lambda>b t. t\<lparr> tft_flags := b ! 0 \<rparr>),
       (\<lambda>d sz t. if tft_code t = 0 \<or> tft_code t = 6 \<or> tft_code t = 2 then Stop (int sz) t else Go sz t),
       tft_filters 0] octet 0 tft_zero)"

text \<open>Building. A component with an unknown type makes the builder return -1; the operations
  without packet filters return before \<open>octet->len\<close> is set. The result is the value returned,
  the length set, if it was, and the octets written.\<close>

definition build_members :: "u8 \<Rightarrow> (nat \<times> nat \<times> bool) list option" where
  "build_members ty =
     (if ty = 48 then Some [(0, 1, False)]
      else if ty = 16 \<or> ty = 17 then Some [(0, 4, False), (4, 4, False)]
      else if ty = 33 \<or> ty = 35 then Some [(0, 16, False), (16, 1, False)]
      else if ty = 32 \<or> ty = 34 then Some [(0, 16, False), (16, 16, False)]
      else if ty = 64 \<or> ty = 80 then Some [(0, 2, True)]
      else if ty = 65 \<or> ty = 81 then Some [(0, 2, True), (2, 2, True)]
      else None)"

definition member_octets :: "bytes \<Rightarrow> nat \<times> nat \<times> bool \<Rightarrow> bytes" where
  "member_octets u m = (case m of (off, n, swap) \<Rightarrow> net_host swap (take n (drop off u)))"

text \<open>\<open>Inl\<close> is the return of -1.\<close>

fun put_components :: "pf_component list \<Rightarrow> nat \<Rightarrow> bytes \<Rightarrow> (unit + bytes) option" where
  "put_components [] data_len w = Some (Inr w)"
| "put_components (c # cs) data_len w =
     Option.bind (emit [pc_type c] data_len w) (\<lambda>w1.
       case build_members (pc_type c) of
         None \<Rightarrow> Some (Inl ())
       | Some ms \<Rightarrow> Option.bind (wblock (map (\<lambda>m. emit (member_octets (pc_union c) m)) ms) data_len w1)
                     (put_components cs data_len))"

fun put_filters :: "nat \<Rightarrow> tft_pf list \<Rightarrow> nat \<Rightarrow> bytes \<Rightarrow> (unit + bytes) option" where
  "put_filters code [] data_len w = Some (Inr w)"
| "put_filters code (p # ps) data_len w =
     Option.bind (emit [pf_flags p] data_len w) (\<lambda>w1.
       if code = 5 then put_filters code ps data_len w1
       else Option.bind (wblock [emit [pf_precedence p], emit [pf_length p]] data_len w1) (\<lambda>w2.
         if pf_num p > length (pf_component p) then None
         else Option.bind (put_components (take (pf_num p) (pf_component p)) data_len w2) (\<lambda>r.
           case r of Inl _ \<Rightarrow> Some (Inl ()) | Inr w3 \<Rightarrow> put_filters code ps data_len w3)))"

definition ogs_gtp2_build_tft :: "ogs_gtp2_tft \<Rightarrow> nat \<Rightarrow> (int \<times> nat option \<times> bytes) option" where
  "ogs_gtp2_build_tft t data_len =
     (if data_len < 255 \<or> tft_code t = 0 then None
      else Option.bind (emit [tft_flags t] data_len []) (\<lambda>w.
        if tft_code t = 6 \<or> tft_code t = 2 then Some (int (length w), None, w)
        else Option.bind (put_filters (tft_code t)
            (take (min (tft_num t) OGS_MAX_NUM_OF_FLOW_IN_GTP) (tft_pf t)) data_len w) (\<lambda>r.
          case r of Inl _ \<Rightarrow> Some (- 1, None, [])
          | Inr w' \<Rightarrow> Some (int16 (length w'), Some (length w'), w'))))"

subsection \<open>User location information\<close>

type_synonym nas_plmn_id = "byte \<times> byte \<times> byte"

record uli_area =
  ua_plmn :: nas_plmn_id
  ua_lac :: u16
  ua_sub :: u16

record uli_code =
  uc_plmn :: nas_plmn_id
  uc_code :: u16

record uli_cell =
  ul_plmn :: nas_plmn_id
  ul_cell_id :: u32

record ogs_gtp2_uli =
  uli_flags :: u8
  uli_cgi :: uli_area
  uli_sai :: uli_area
  uli_rai :: uli_area
  uli_tai :: uli_code
  uli_e_cgi :: uli_cell
  uli_lai :: uli_code
  uli_enodeb_id :: uli_code

abbreviation "uli_has i u \<equiv> bit (uli_flags u) i"

definition area_zero :: uli_area where "area_zero = \<lparr> ua_plmn = (0, 0, 0), ua_lac = 0, ua_sub = 0 \<rparr>"
definition code_zero :: uli_code where "code_zero = \<lparr> uc_plmn = (0, 0, 0), uc_code = 0 \<rparr>"
definition cell_zero :: uli_cell where "cell_zero = \<lparr> ul_plmn = (0, 0, 0), ul_cell_id = 0 \<rparr>"

definition uli_zero :: ogs_gtp2_uli where
  "uli_zero = \<lparr> uli_flags = 0, uli_cgi = area_zero, uli_sai = area_zero, uli_rai = area_zero,
     uli_tai = code_zero, uli_e_cgi = cell_zero, uli_lai = code_zero, uli_enodeb_id = code_zero \<rparr>"

definition plmn_octets :: "nas_plmn_id \<Rightarrow> bytes" where
  "plmn_octets p = (case p of (a, b, c) \<Rightarrow> [a, b, c])"

definition plmn_of :: "bytes \<Rightarrow> nas_plmn_id" where "plmn_of bs = (bs ! 0, bs ! 1, bs ! 2)"

definition area_octets :: "uli_area \<Rightarrow> bytes" where
  "area_octets a = plmn_octets (ua_plmn a) @ put16 (ua_lac a) @ put16 (ua_sub a)"

definition area_of :: "bytes \<Rightarrow> uli_area" where
  "area_of bs = \<lparr> ua_plmn = plmn_of bs, ua_lac = get16 (bs ! 3) (bs ! 4), ua_sub = get16 (bs ! 5) (bs ! 6) \<rparr>"

definition code_octets :: "uli_code \<Rightarrow> bytes" where
  "code_octets c = plmn_octets (uc_plmn c) @ put16 (uc_code c)"

definition code_of :: "bytes \<Rightarrow> uli_code" where
  "code_of bs = \<lparr> uc_plmn = plmn_of bs, uc_code = get16 (bs ! 3) (bs ! 4) \<rparr>"

definition cell_octets :: "uli_cell \<Rightarrow> bytes" where
  "cell_octets c = plmn_octets (ul_plmn c) @ put32 (ul_cell_id c)"

definition cell_of :: "bytes \<Rightarrow> uli_cell" where
  "cell_of bs = \<lparr> ul_plmn = plmn_of bs, ul_cell_id = get32 (bs ! 3) (bs ! 4) (bs ! 5) (bs ! 6) \<rparr>"

text \<open>The extended macro eNodeB identity (flag 7) is only logged.\<close>

definition ogs_gtp2_parse_uli :: "bytes \<Rightarrow> (int \<times> ogs_gtp2_uli) option" where
  "ogs_gtp2_parse_uli octet =
     outcome (block [
       field (\<lambda>_. 0) (\<lambda>_. 1) (\<lambda>b u. u\<lparr> uli_flags := b ! 0 \<rparr>),
       only_if (uli_has 0) [field (\<lambda>_. 0) (\<lambda>_. 7) (\<lambda>b u. u\<lparr> uli_cgi := area_of b \<rparr>)],
       only_if (uli_has 1) [field (\<lambda>_. 0) (\<lambda>_. 7) (\<lambda>b u. u\<lparr> uli_sai := area_of b \<rparr>)],
       only_if (uli_has 2) [field (\<lambda>_. 0) (\<lambda>_. 7) (\<lambda>b u. u\<lparr> uli_rai := area_of b \<rparr>)],
       only_if (uli_has 3) [field (\<lambda>_. 0) (\<lambda>_. 5) (\<lambda>b u. u\<lparr> uli_tai := code_of b \<rparr>)],
       only_if (uli_has 4) [field (\<lambda>_. 0) (\<lambda>_. 7) (\<lambda>b u. u\<lparr> uli_e_cgi := cell_of b \<rparr>)],
       only_if (uli_has 5) [field (\<lambda>_. 0) (\<lambda>_. 5) (\<lambda>b u. u\<lparr> uli_lai := code_of b \<rparr>)],
       only_if (uli_has 6) [field (\<lambda>_. 0) (\<lambda>_. 5) (\<lambda>b u. u\<lparr> uli_enodeb_id := code_of b \<rparr>)]] octet 0 uli_zero)"

definition ogs_gtp2_build_uli :: "ogs_gtp2_uli \<Rightarrow> nat \<Rightarrow> bytes option" where
  "ogs_gtp2_build_uli u data_len =
     (if data_len = 0 then None
      else wblock [
        emit [uli_flags u],
        wonly_if (uli_has 0 u) [emit (area_octets (uli_cgi u))],
        wonly_if (uli_has 1 u) [emit (area_octets (uli_sai u))],
        wonly_if (uli_has 2 u) [emit (area_octets (uli_rai u))],
        wonly_if (uli_has 3 u) [emit (code_octets (uli_tai u))],
        wonly_if (uli_has 4 u) [emit (cell_octets (uli_e_cgi u))],
        wonly_if (uli_has 5 u) [emit (code_octets (uli_lai u))],
        wonly_if (uli_has 6 u) [emit (code_octets (uli_enodeb_id u))]] data_len [])"

subsection \<open>Node identifier\<close>

record ogs_gtp2_node_identifier =
  ni_name_len :: u8
  ni_name :: bytes
  ni_realm_len :: u8
  ni_realm :: bytes

definition ni_zero :: ogs_gtp2_node_identifier where
  "ni_zero = \<lparr> ni_name_len = 0, ni_name = [], ni_realm_len = 0, ni_realm = [] \<rparr>"

definition ogs_gtp2_parse_node_identifier :: "bytes \<Rightarrow> (int \<times> ogs_gtp2_node_identifier) option" where
  "ogs_gtp2_parse_node_identifier octet =
     outcome (block [
       field int (\<lambda>_. 1) (\<lambda>b x. x\<lparr> ni_name_len := b ! 0 \<rparr>),
       field int (\<lambda>x. unat (ni_name_len x)) (\<lambda>b x. x\<lparr> ni_name := b \<rparr>),
       field int (\<lambda>_. 1) (\<lambda>b x. x\<lparr> ni_realm_len := b ! 0 \<rparr>),
       field int (\<lambda>x. unat (ni_realm_len x)) (\<lambda>b x. x\<lparr> ni_realm := b \<rparr>)] octet 0 ni_zero)"

definition ogs_gtp2_build_node_identifier :: "ogs_gtp2_node_identifier \<Rightarrow> nat \<Rightarrow> bytes option" where
  "ogs_gtp2_build_node_identifier x data_len =
     (if data_len = 0 then None
      else wblock [
        emit [ni_name_len x], emit_from (unat (ni_name_len x)) (ni_name x),
        emit [ni_realm_len x], emit_from (unat (ni_realm_len x)) (ni_realm x)] data_len [])"

end
