(* ===== verification/Gtp2_Types_Props.thy ===== *)
theory Gtp2_Types_Props
  imports Gtp2_Types
begin

unbundle bit_operations_syntax

text \<open>
  What the element routines of \<open>Gtp2_Types\<close> guarantee. First the traffic flow template: the
  octets a template is built to, the value the parser makes of them, and that the two agree for
  every template within the limits of the structure. Then the other elements, each as an
  interpretation of the codec contract of \<open>Ogs_Ie\<close>. Last, arbitrary octets.
\<close>

subsection \<open>Octets of a template\<close>

definition comp_octets :: "pf_component \<Rightarrow> bytes" where
  "comp_octets c = pc_type c # concat (map (member_octets (pc_union c)) (the (build_members (pc_type c))))"

definition filter_octets :: "nat \<Rightarrow> tft_pf \<Rightarrow> bytes" where
  "filter_octets code p = pf_flags p #
     (if code = 5 then [] else pf_precedence p # pf_length p # concat (map comp_octets (take (pf_num p) (pf_component p))))"

text \<open>What the parser makes of it: members of the type, everything else zero.\<close>

definition put_member :: "bytes \<Rightarrow> pf_component \<Rightarrow> nat \<times> nat \<times> bool \<Rightarrow> pf_component" where
  "put_member u c m = (case m of (off, n, swap) \<Rightarrow> c\<lparr> pc_union := overlay (pc_union c) off (take n (drop off u)) \<rparr>)"

definition comp_norm :: "pf_component \<Rightarrow> pf_component" where
  "comp_norm c = foldl (put_member (pc_union c)) (pc_zero\<lparr> pc_type := pc_type c \<rparr>) (the (build_members (pc_type c)))"

definition filter_norm :: "nat \<Rightarrow> tft_pf \<Rightarrow> tft_pf" where
  "filter_norm code p =
     (if code = 5 then pf_zero\<lparr> pf_flags := pf_flags p \<rparr>
      else p\<lparr> pf_component := map comp_norm (take (pf_num p) (pf_component p)) @ replicate (16 - pf_num p) pc_zero \<rparr>)"

definition tft_norm :: "ogs_gtp2_tft \<Rightarrow> ogs_gtp2_tft" where
  "tft_norm t = t\<lparr> tft_pf := map (filter_norm (tft_code t)) (take (tft_num t) (tft_pf t)) @ replicate (15 - tft_num t) pf_zero \<rparr>"

text \<open>A template within the limits of the structure whose filters announce the length of their
  components.\<close>

definition comp_ok :: "pf_component \<Rightarrow> bool" where
  "comp_ok c \<longleftrightarrow> build_members (pc_type c) \<noteq> None \<and> length (pc_union c) = 32"

definition filter_ok :: "nat \<Rightarrow> tft_pf \<Rightarrow> bool" where
  "filter_ok code p \<longleftrightarrow> code = 5 \<or> length (pf_component p) = 16 \<and> pf_num p \<le> 16
     \<and> list_all comp_ok (take (pf_num p) (pf_component p))
     \<and> length (concat (map comp_octets (take (pf_num p) (pf_component p)))) = unat (pf_length p)"

definition tft_ok :: "ogs_gtp2_tft \<Rightarrow> bool" where
  "tft_ok t \<longleftrightarrow> length (tft_pf t) = 15 \<and> tft_num t \<le> 15 \<and> tft_code t \<notin> {0, 2, 6}
     \<and> list_all (filter_ok (tft_code t)) (take (tft_num t) (tft_pf t))"

lemma parse_build_members: "parse_members ty = build_members ty"
  by (simp add: parse_members_def build_members_def disj_commute)

lemma members_bounds: "build_members ty = Some ms \<Longrightarrow> (off, n, swap) \<in> set ms \<Longrightarrow> off + n \<le> 32"
  by (auto simp: build_members_def split: if_splits)

lemma net_host_involution [simp]: "net_host s (net_host s xs) = xs" "length (net_host s xs) = length xs"
  by (simp_all add: net_host_def)

lemma reads_members:
  assumes "\<forall>(off, n, swap) \<in> set ms. off + n \<le> length u"
  shows "reads (block (map (read_member st) ms)) (concat (map (member_octets u) ms)) c (foldl (put_member u) c ms)"
  using assms
proof (induction ms arbitrary: c)
  case (Cons m ms)
  obtain off n swap where m: "m = (off, n, swap)" by (cases m)
  have "reads (read_member st m) (member_octets u m) c (put_member u c m)"
    unfolding m read_member_def prod.case using Cons.prems m
    by (intro reads_field_to) (auto simp: member_octets_def put_member_def)
  with Cons show ?case by (auto intro!: reads_Cons)
qed (simp add: reads_Nil)

lemma reads_component:
  assumes "comp_ok c"
  shows "reads (read_component st) (comp_octets c) pc_zero (comp_norm c)"
proof -
  obtain ms where ms: "build_members (pc_type c) = Some ms" using assms by (auto simp: comp_ok_def)
  have b: "\<forall>(off, n, swap) \<in> set ms. off + n \<le> length (pc_union c)"
    using members_bounds[OF ms] assms by (auto simp: comp_ok_def)
  have "reads (\<lambda>d pos c. case parse_members (pc_type c) of None \<Rightarrow> Stop (- 1) c
        | Some ms \<Rightarrow> block (map (read_member st) ms) d pos c)
      (concat (map (member_octets (pc_union c)) ms)) (pc_zero\<lparr> pc_type := pc_type c \<rparr>) (comp_norm c)"
    using reads_members[OF b, of st "pc_zero\<lparr> pc_type := pc_type c \<rparr>"]
    by (simp add: reads_def parse_build_members ms comp_norm_def)
  then show ?thesis
    using reads_Cons[OF reads_field_to reads_Cons[OF _ reads_Nil],
        of "[pc_type c]" "\<lambda>_. 1" pc_zero "pc_zero\<lparr> pc_type := pc_type c \<rparr>" "\<lambda>b c. c\<lparr> pc_type := b ! 0 \<rparr>"]
    by (fastforce simp: read_component_def comp_octets_def ms)
qed

lemma comp_octets_nonempty: "0 < length (comp_octets c)"
  by (simp add: comp_octets_def)

lemma drop_replicate_update:
  assumes "drop j A = replicate (n - j) z"
  shows "drop (j + 1) (A[j := x]) = replicate (n - (j + 1)) z"
proof -
  have "drop (j + 1) A = drop 1 (drop j A)" by simp
  with assms show ?thesis by simp
qed

lemma components_read:
  assumes "list_all comp_ok cs" "start + len = length pre" "length A = 16" "j + length cs \<le> 16"
    and "drop j A = replicate (16 - j) pc_zero"
  shows "tft_components (pre @ concat (map comp_octets cs) @ post) start (len + length (concat (map comp_octets cs))) len j A
    = Go (length pre + length (concat (map comp_octets cs)))
        (take j A @ map comp_norm cs @ drop (j + length cs) A, j + length cs)"
  using assms
proof (induction cs arbitrary: pre len j A)
  case Nil
  then show ?case using append_take_drop_id[of j A] by (simp add: tft_components.simps[of _ start len len])
next
  case (Cons c cs)
  let ?x = "comp_octets c" and ?xs = "concat (map comp_octets cs)"
  have j: "j < 16" using Cons.prems(4) by simp
  have Aj: "A ! j = pc_zero"
    using Cons.prems(3,5) j nth_drop[of j A 0] by simp
  have 1: "read_component start (pre @ ?x @ ?xs @ post) (start + len) (A ! j) = Go (length pre + length ?x) (comp_norm c)"
    using reads_component[of c start] Cons.prems(1,2) Aj by (simp add: reads_def)
  have d1: "drop (j + 1) (A[j := comp_norm c]) = replicate (16 - (j + 1)) pc_zero"
    by (rule drop_replicate_update[OF Cons.prems(5)])
  have IH: "tft_components ((pre @ ?x) @ ?xs @ post) start (len + length ?x + length ?xs) (len + length ?x) (j + 1) (A[j := comp_norm c])
    = Go (length (pre @ ?x) + length ?xs)
        (take (j + 1) (A[j := comp_norm c]) @ map comp_norm cs @ drop (j + 1 + length cs) (A[j := comp_norm c]), j + 1 + length cs)"
    by (rule Cons.IH) (use Cons.prems d1 in auto)
  have "take (j + 1) (A[j := comp_norm c]) = take j A @ [comp_norm c]"
    using Cons.prems(3) j by (simp add: take_Suc_conv_app_nth)
  moreover have "length pre + length ?x - start = len + length ?x" using Cons.prems(2) by simp
  ultimately show ?case
    using 1 IH j comp_octets_nonempty[of c]
    by (simp add: tft_components.simps[of _ start _ len] OGS_MAX_NUM_OF_PACKET_FILTER_COMPONENT_def add.assoc)
qed

lemma reads_content:
  assumes "filter_ok code p" "code \<noteq> 5"
  shows "reads read_content (pf_precedence p # pf_length p # concat (map comp_octets (take (pf_num p) (pf_component p))))
    (pf_zero\<lparr> pf_flags := pf_flags p \<rparr>) (filter_norm code p)"
  unfolding reads_def
proof (intro allI)
  fix pre post
  let ?cs = "take (pf_num p) (pf_component p)"
  let ?X = "concat (map comp_octets ?cs)"
  have cs: "length ?cs = pf_num p" "list_all comp_ok ?cs" "length ?X = unat (pf_length p)" "pf_num p \<le> 16"
    using assms by (auto simp: filter_ok_def)
  have "tft_components ((pre @ [pf_precedence p, pf_length p]) @ ?X @ post) (length pre + 2) (0 + length ?X) 0 0 (replicate 16 pc_zero)
    = Go (length (pre @ [pf_precedence p, pf_length p]) + length ?X)
        (take 0 (replicate 16 pc_zero) @ map comp_norm ?cs @ drop (0 + length ?cs) (replicate 16 pc_zero), 0 + length ?cs)"
    by (rule components_read) (use cs in auto)
  then show "read_content (pre @ (pf_precedence p # pf_length p # ?X) @ post) (length pre) (pf_zero\<lparr> pf_flags := pf_flags p \<rparr>)
      = Go (length pre + length (pf_precedence p # pf_length p # ?X)) (filter_norm code p)"
    using cs assms(2)
    by (simp add: read_content_def block.simps(2) field_def check_def copy_def pf_zero_def filter_norm_def
        OGS_MAX_NUM_OF_PACKET_FILTER_COMPONENT_def nth_append)
qed

lemma reads_filter:
  assumes "filter_ok code p"
  shows "reads (read_filter code) (filter_octets code p) pf_zero (filter_norm code p)"
proof -
  have f: "reads (field int (\<lambda>_. 1) (\<lambda>b p. p\<lparr> pf_flags := b ! 0 \<rparr>)) [pf_flags p] pf_zero (pf_zero\<lparr> pf_flags := pf_flags p \<rparr>)"
    by (rule reads_field_to) simp_all
  have "reads (only_if (\<lambda>_. code \<noteq> 5) [read_content])
      (if code \<noteq> 5 then (pf_precedence p # pf_length p # concat (map comp_octets (take (pf_num p) (pf_component p)))) @ [] else [])
      (pf_zero\<lparr> pf_flags := pf_flags p \<rparr>) (filter_norm code p)"
    using assms by (intro reads_only_if reads_Cons[OF reads_content reads_Nil]) (auto simp: filter_norm_def)
  from reads_Cons[OF f reads_Cons[OF this reads_Nil]] show ?thesis
    by (simp add: read_filter_def filter_octets_def split: if_splits)
qed

lemma filters_read:
  assumes "list_all (filter_ok (tft_code t)) ps" "length (tft_pf t) = 15" "i + length ps = tft_num t" "tft_num t \<le> 15"
    and "drop i (tft_pf t) = replicate (15 - i) pf_zero"
  shows "tft_filters i (pre @ concat (map (filter_octets (tft_code t)) ps) @ post) (length pre) t
    = Go (length pre + length (concat (map (filter_octets (tft_code t)) ps)))
        (t\<lparr> tft_pf := take i (tft_pf t) @ map (filter_norm (tft_code t)) ps @ drop (i + length ps) (tft_pf t) \<rparr>)"
  using assms
proof (induction ps arbitrary: pre i t)
  case Nil
  then show ?case using append_take_drop_id[of i "tft_pf t"] by (simp add: tft_filters.simps[of i] tft_filters.simps[of "tft_num t"])
next
  case (Cons p ps)
  let ?c = "tft_code t"
  let ?x = "filter_octets ?c p" and ?xs = "concat (map (filter_octets ?c) ps)"
  let ?t = "t\<lparr> tft_pf := (tft_pf t)[i := filter_norm ?c p] \<rparr>"
  have i: "i < 15" "i < tft_num t" using Cons.prems(3,4) by auto
  have ti: "tft_pf t ! i = pf_zero" using Cons.prems(2,5) i nth_drop[of i "tft_pf t" 0] by simp
  have 1: "read_filter ?c (pre @ ?x @ ?xs @ post) (length pre) (tft_pf t ! i) = Go (length pre + length ?x) (filter_norm ?c p)"
    using reads_filter[of ?c p] Cons.prems(1) ti by (simp add: reads_def)
  have d1: "drop (i + 1) (tft_pf ?t) = replicate (15 - (i + 1)) pf_zero"
    using drop_replicate_update[OF Cons.prems(5)] by simp
  have IH: "tft_filters (i + 1) ((pre @ ?x) @ concat (map (filter_octets (tft_code ?t)) ps) @ post) (length (pre @ ?x)) ?t
    = Go (length (pre @ ?x) + length (concat (map (filter_octets (tft_code ?t)) ps)))
        (?t\<lparr> tft_pf := take (i + 1) (tft_pf ?t) @ map (filter_norm (tft_code ?t)) ps @ drop (i + 1 + length ps) (tft_pf ?t) \<rparr>)"
    by (rule Cons.IH) (use Cons.prems d1 in auto)
  have "take (i + 1) (tft_pf ?t) = take i (tft_pf t) @ [filter_norm ?c p]"
    using Cons.prems(2) i by (simp add: take_Suc_conv_app_nth)
  then show ?case
    using 1 IH i by (simp add: tft_filters.simps[of i] OGS_MAX_NUM_OF_FLOW_IN_GTP_def add.assoc)
qed

lemma tft_read:
  assumes "tft_ok t"
  shows "block [field int (\<lambda>_. 1) (\<lambda>b t. t\<lparr> tft_flags := b ! 0 \<rparr>),
       (\<lambda>d sz t. if tft_code t = 0 \<or> tft_code t = 6 \<or> tft_code t = 2 then Stop (int sz) t else Go sz t),
       tft_filters 0] (tft_flags t # concat (map (filter_octets (tft_code t)) (take (tft_num t) (tft_pf t)))) 0 tft_zero
    = Go (1 + length (concat (map (filter_octets (tft_code t)) (take (tft_num t) (tft_pf t))))) (tft_norm t)"
proof -
  let ?z = "tft_zero\<lparr> tft_flags := tft_flags t \<rparr>" and ?ps = "take (tft_num t) (tft_pf t)"
  have "tft_filters 0 ([tft_flags t] @ concat (map (filter_octets (tft_code ?z)) ?ps) @ []) (length [tft_flags t]) ?z
    = Go (length [tft_flags t] + length (concat (map (filter_octets (tft_code ?z)) ?ps)))
        (?z\<lparr> tft_pf := take 0 (tft_pf ?z) @ map (filter_norm (tft_code ?z)) ?ps @ drop (0 + length ?ps) (tft_pf ?z) \<rparr>)"
    by (rule filters_read) (use assms in \<open>auto simp: tft_ok_def tft_zero_def OGS_MAX_NUM_OF_FLOW_IN_GTP_def\<close>)
  then show ?thesis
    using assms unfolding block_eval
    by (auto simp: block.simps(2) tft_ok_def tft_norm_def tft_zero_def OGS_MAX_NUM_OF_FLOW_IN_GTP_def)
qed

subsection \<open>Building a template\<close>

lemma put_components_octets:
  assumes "list_all comp_ok cs" "length w + length (concat (map comp_octets cs)) \<le> n"
    "length w + length (concat (map comp_octets cs)) < 2 ^ 15"
  shows "put_components cs n w = Some (Inr (w @ concat (map comp_octets cs)))"
  using assms
proof (induction cs arbitrary: w)
  case (Cons c cs)
  obtain ms where ms: "build_members (pc_type c) = Some ms" using Cons.prems(1) by (auto simp: comp_ok_def)
  have c: "comp_octets c = pc_type c # concat (map (member_octets (pc_union c)) ms)" by (simp add: comp_octets_def ms)
  have "wblock (map (\<lambda>m. emit (member_octets (pc_union c) m)) ms) n (w @ [pc_type c])
      = Some ((w @ [pc_type c]) @ concat (map (member_octets (pc_union c)) ms))"
    by (rule emits_map) (use Cons.prems c in auto)
  with Cons.IH[of "w @ comp_octets c"] Cons.prems c show ?case by (simp add: emits ms)
qed simp

lemma put_filters_octets:
  assumes "list_all (filter_ok code) ps" "length w + length (concat (map (filter_octets code) ps)) \<le> n"
    "length w + length (concat (map (filter_octets code) ps)) < 2 ^ 15"
  shows "put_filters code ps n w = Some (Inr (w @ concat (map (filter_octets code) ps)))"
  using assms
proof (induction ps arbitrary: w)
  case (Cons p ps)
  show ?case
  proof (cases "code = 5")
    case True
    with Cons.IH[of "w @ filter_octets code p"] Cons.prems show ?thesis
      by (simp add: emits filter_octets_def)
  next
    case False
    let ?cs = "take (pf_num p) (pf_component p)"
    have f: "filter_octets code p = pf_flags p # pf_precedence p # pf_length p # concat (map comp_octets ?cs)"
      using False by (simp add: filter_octets_def)
    have "put_components ?cs n (w @ [pf_flags p, pf_precedence p, pf_length p])
        = Some (Inr ((w @ [pf_flags p, pf_precedence p, pf_length p]) @ concat (map comp_octets ?cs)))"
      by (rule put_components_octets) (use Cons.prems False f in \<open>auto simp: filter_ok_def\<close>)
    with Cons.IH[of "w @ filter_octets code p"] Cons.prems False f show ?thesis
      by (auto simp: emits filter_ok_def)
  qed
qed simp

definition tft_octets :: "ogs_gtp2_tft \<Rightarrow> bytes" where
  "tft_octets t = tft_flags t # concat (map (filter_octets (tft_code t)) (take (tft_num t) (tft_pf t)))"

lemma filter_octets_length: "filter_ok code p \<Longrightarrow> length (filter_octets code p) \<le> 258"
  using unat_byte_lt[of "pf_length p"] by (auto simp: filter_octets_def filter_ok_def)

lemma tft_octets_length:
  assumes "tft_ok t"
  shows "length (tft_octets t) < 2 ^ 15"
proof -
  have "length (concat (map (filter_octets code) ps)) \<le> 258 * length ps" if "list_all (filter_ok code) ps" for code ps
    using that by (induction ps) (auto dest: filter_octets_length)
  from this[of "tft_code t" "take (tft_num t) (tft_pf t)"] assms show ?thesis
    by (auto simp: tft_ok_def tft_octets_def)
qed

text \<open>Without packet filters the octet count of the element is left as it was.\<close>

lemma tft_build_without_filters:
  "tft_code t \<in> {2, 6} \<Longrightarrow> 255 \<le> n \<Longrightarrow> ogs_gtp2_build_tft t n = Some (1, None, [tft_flags t])"
  by (auto simp: ogs_gtp2_build_tft_def emits)

text \<open>C23. Traffic flow templates. A template within the limits of the structure is built when the
  buffer has room, and parsing gives back its operation, its packet filters and their components
  in order, with what the encoding does not carry set to zero.\<close>

theorem gtp2_tft_roundtrip:
  assumes "tft_ok t" "255 \<le> n" "length (tft_octets t) \<le> n"
  shows "ogs_gtp2_build_tft t n = Some (int (length (tft_octets t)), Some (length (tft_octets t)), tft_octets t)
    \<and> ogs_gtp2_parse_tft (tft_octets t) = Some (int (length (tft_octets t)), tft_norm t)"
proof
  note len = tft_octets_length[OF assms(1)]
  have "put_filters (tft_code t) (take (tft_num t) (tft_pf t)) n [tft_flags t] = Some (Inr (tft_octets t))"
    using put_filters_octets[of "tft_code t" "take (tft_num t) (tft_pf t)" "[tft_flags t]" n] assms len
    by (simp add: tft_ok_def tft_octets_def)
  then show "ogs_gtp2_build_tft t n = Some (int (length (tft_octets t)), Some (length (tft_octets t)), tft_octets t)"
    using assms len by (simp add: ogs_gtp2_build_tft_def emits tft_ok_def OGS_MAX_NUM_OF_FLOW_IN_GTP_def)
  show "ogs_gtp2_parse_tft (tft_octets t) = Some (int (length (tft_octets t)), tft_norm t)"
    using tft_read[OF assms(1)] len unfolding ogs_gtp2_parse_tft_def
    by (simp only: tft_octets_def outcome.simps) simp
qed

text \<open>A new template with one filter for UDP from port 53.\<close>

definition dns_tft :: ogs_gtp2_tft where
  "dns_tft = tft_zero\<lparr> tft_flags := 0x21, tft_pf := (tft_pf tft_zero)[0 :=
     \<lparr> pf_flags = 0x11, pf_precedence = 7, pf_length = 5, pf_num = 2, pf_component =
        [\<lparr> pc_type = 48, pc_union = (replicate 32 0)[0 := 17] \<rparr>,
         \<lparr> pc_type = 80, pc_union = (replicate 32 0)[0 := 53] \<rparr>] @ replicate 14 pc_zero \<rparr>] \<rparr>"

theorem gtp2_tft_roundtrip_witness:
  "ogs_gtp2_build_tft dns_tft 255 = Some (9, Some 9, [0x21, 0x11, 7, 5, 48, 17, 80, 0, 53])
   \<and> ogs_gtp2_parse_tft [0x21, 0x11, 7, 5, 48, 17, 80, 0, 53] = Some (9, dns_tft)"
proof -
  have o: "tft_octets dns_tft = [0x21, 0x11, 7, 5, 48, 17, 80, 0, 53]" by code_simp
  have n: "tft_norm dns_tft = dns_tft" by code_simp
  have "tft_ok dns_tft" by code_simp
  from gtp2_tft_roundtrip[OF this, of 255] show ?thesis by (simp add: o n)
qed

subsection \<open>The fixed-length and optional elements\<close>

definition kbps_down :: "u64 \<Rightarrow> u64" where "kbps_down r = take_bit 40 (r div 1000) * 1000"

definition bq_norm :: "ogs_gtp2_bearer_qos \<Rightarrow> ogs_gtp2_bearer_qos" where
  "bq_norm q = \<lparr> bq_arp = arp_fields (bq_arp q), bq_qci = bq_qci q, bq_ul_mbr = kbps_down (bq_ul_mbr q),
     bq_dl_mbr = kbps_down (bq_dl_mbr q), bq_ul_gbr = kbps_down (bq_ul_gbr q), bq_dl_gbr = kbps_down (bq_dl_gbr q) \<rparr>"

definition fq_norm :: "ogs_gtp2_flow_qos \<Rightarrow> ogs_gtp2_flow_qos" where
  "fq_norm q = \<lparr> fq_qci = fq_qci q, fq_ul_mbr = kbps_down (fq_ul_mbr q), fq_dl_mbr = kbps_down (fq_dl_mbr q),
     fq_ul_gbr = kbps_down (fq_ul_gbr q), fq_dl_gbr = kbps_down (fq_dl_gbr q) \<rparr>"

definition uli_norm :: "ogs_gtp2_uli \<Rightarrow> ogs_gtp2_uli" where
  "uli_norm u = \<lparr> uli_flags = uli_flags u,
     uli_cgi = if uli_has 0 u then uli_cgi u else area_zero,
     uli_sai = if uli_has 1 u then uli_sai u else area_zero,
     uli_rai = if uli_has 2 u then uli_rai u else area_zero,
     uli_tai = if uli_has 3 u then uli_tai u else code_zero,
     uli_e_cgi = if uli_has 4 u then uli_e_cgi u else cell_zero,
     uli_lai = if uli_has 5 u then uli_lai u else code_zero,
     uli_enodeb_id = if uli_has 6 u then uli_enodeb_id u else code_zero \<rparr>"

definition ni_norm :: "ogs_gtp2_node_identifier \<Rightarrow> ogs_gtp2_node_identifier" where
  "ni_norm x = x\<lparr> ni_name := take (unat (ni_name_len x)) (ni_name x),
     ni_realm := take (unat (ni_realm_len x)) (ni_realm x) \<rparr>"

lemma kbps_octets_read [simp]:
  "length (kbps_octets r) = 5" "kbps_read (kbps_octets r) = kbps_down r" "kbps_octets (kbps_down r) = kbps_octets r"
  by (simp_all add: kbps_octets_def kbps_read_def kbps_down_def kbit_rates uint64_to_buffer_take
      uint64_buffer_roundtrip[of 5 "replicate 5 0"])

lemma build_bearer_octets:
  "ogs_gtp2_build_bearer_qos q n = Some d \<longleftrightarrow> 22 \<le> n \<and>
   d = bq_arp q # bq_qci q # kbps_octets (bq_ul_mbr q) @ kbps_octets (bq_dl_mbr q) @
     kbps_octets (bq_ul_gbr q) @ kbps_octets (bq_dl_gbr q)"
  by (auto simp: ogs_gtp2_build_bearer_qos_def GTP2_BEARER_QOS_LEN_def build_eval)

lemma build_flow_octets:
  "ogs_gtp2_build_flow_qos q n = Some d \<longleftrightarrow> 21 \<le> n \<and>
   d = fq_qci q # kbps_octets (fq_ul_mbr q) @ kbps_octets (fq_dl_mbr q) @
     kbps_octets (fq_ul_gbr q) @ kbps_octets (fq_dl_gbr q)"
  by (auto simp: ogs_gtp2_build_flow_qos_def GTP2_FLOW_QOS_LEN_def build_eval)

interpretation bq: ie_codec ogs_gtp2_build_bearer_qos "\<lambda>d. accepted (ogs_gtp2_parse_bearer_qos d)" bq_norm
proof
  fix q n d assume "ogs_gtp2_build_bearer_qos q n = Some d"
  then show "accepted (ogs_gtp2_parse_bearer_qos d) = Some (int (length d), bq_norm q)"
    by (simp add: build_bearer_octets ogs_gtp2_parse_bearer_qos_def GTP2_BEARER_QOS_LEN_def accepted_def
        block_eval bq_norm_def bq_zero_def)
qed (simp add: build_bearer_octets)

interpretation fq: ie_codec_stable ogs_gtp2_build_flow_qos "\<lambda>d. accepted (ogs_gtp2_parse_flow_qos d)" fq_norm
proof
  fix q n d assume "ogs_gtp2_build_flow_qos q n = Some d"
  then show "accepted (ogs_gtp2_parse_flow_qos d) = Some (int (length d), fq_norm q)"
    by (simp add: build_flow_octets ogs_gtp2_parse_flow_qos_def GTP2_FLOW_QOS_LEN_def accepted_def
        block_eval fq_norm_def fq_zero_def)
qed (simp_all add: build_flow_octets fq_norm_def)

lemma plmn_octets [simp]: "length (plmn_octets p) = 3" "plmn_of (plmn_octets p @ xs) = p"
  "(plmn_octets p @ xs) ! 3 = xs ! 0" "(plmn_octets p @ xs) ! 4 = xs ! 1"
  "(plmn_octets p @ xs) ! 5 = xs ! 2" "(plmn_octets p @ xs) ! 6 = xs ! 3"
  by (simp_all add: plmn_octets_def plmn_of_def split: prod.splits)

lemma location_octets [simp]:
  "length (area_octets a) = 7" "area_of (area_octets a) = a"
  "length (code_octets c) = 5" "code_of (code_octets c) = c"
  "length (cell_octets x) = 7" "cell_of (cell_octets x) = x"
  by (simp_all add: area_octets_def area_of_def code_octets_def code_of_def cell_octets_def cell_of_def put16_def put32_def)

lemma build_uli_octets:
  "ogs_gtp2_build_uli u n = Some d \<Longrightarrow> length d \<le> n \<and> length d < 2 ^ 15 \<and> n \<noteq> 0 \<and>
   d = uli_flags u # (if uli_has 0 u then area_octets (uli_cgi u) else []) @
     (if uli_has 1 u then area_octets (uli_sai u) else []) @ (if uli_has 2 u then area_octets (uli_rai u) else []) @
     (if uli_has 3 u then code_octets (uli_tai u) else []) @ (if uli_has 4 u then cell_octets (uli_e_cgi u) else []) @
     (if uli_has 5 u then code_octets (uli_lai u) else []) @ (if uli_has 6 u then code_octets (uli_enodeb_id u) else [])"
  by (auto simp: ogs_gtp2_build_uli_def build_eval split: if_splits)

lemma uli_if_update:
  fixes u :: ogs_gtp2_uli
  shows "(if b then u\<lparr> uli_cgi := x \<rparr> else u) = u\<lparr> uli_cgi := if b then x else uli_cgi u \<rparr>"
    "(if b then u\<lparr> uli_sai := x \<rparr> else u) = u\<lparr> uli_sai := if b then x else uli_sai u \<rparr>"
    "(if b then u\<lparr> uli_rai := x \<rparr> else u) = u\<lparr> uli_rai := if b then x else uli_rai u \<rparr>"
    "(if b then u\<lparr> uli_tai := y \<rparr> else u) = u\<lparr> uli_tai := if b then y else uli_tai u \<rparr>"
    "(if b then u\<lparr> uli_e_cgi := z \<rparr> else u) = u\<lparr> uli_e_cgi := if b then z else uli_e_cgi u \<rparr>"
    "(if b then u\<lparr> uli_lai := y \<rparr> else u) = u\<lparr> uli_lai := if b then y else uli_lai u \<rparr>"
    "(if b then u\<lparr> uli_enodeb_id := y \<rparr> else u) = u\<lparr> uli_enodeb_id := if b then y else uli_enodeb_id u \<rparr>"
  by simp_all

lemma uli_parse_build:
  assumes "ogs_gtp2_build_uli u n = Some d"
  shows "ogs_gtp2_parse_uli d = Some (int (length d), uli_norm u)"
proof -
  let ?z = "uli_zero\<lparr> uli_flags := uli_flags u \<rparr>"
  let ?gs = "[(0, 7 :: nat, \<lambda>b (u :: ogs_gtp2_uli). u\<lparr> uli_cgi := area_of b \<rparr>, area_octets (uli_cgi u)),
    (1, 7, \<lambda>b u. u\<lparr> uli_sai := area_of b \<rparr>, area_octets (uli_sai u)),
    (2, 7, \<lambda>b u. u\<lparr> uli_rai := area_of b \<rparr>, area_octets (uli_rai u)),
    (3, 5, \<lambda>b u. u\<lparr> uli_tai := code_of b \<rparr>, code_octets (uli_tai u)),
    (4, 7, \<lambda>b u. u\<lparr> uli_e_cgi := cell_of b \<rparr>, cell_octets (uli_e_cgi u)),
    (5, 5, \<lambda>b u. u\<lparr> uli_lai := code_of b \<rparr>, code_octets (uli_lai u)),
    (6, 5, \<lambda>b u. u\<lparr> uli_enodeb_id := code_of b \<rparr>, code_octets (uli_enodeb_id u))]"
  let ?F = "fold (\<lambda>(i, n, f, xs) s. if bit (uli_flags u) i then f xs s else s) ?gs ?z"
  have head: "reads (field (\<lambda>_. 0) (\<lambda>_. 1) (\<lambda>b u. u\<lparr> uli_flags := b ! 0 \<rparr>)) [uli_flags u] uli_zero ?z"
    by (rule reads_field_to) simp_all
  have F: "?F = uli_norm u"
    by (simp only: fold_simps prod.case id_apply uli_if_update location_octets)
      (simp add: uli_norm_def uli_zero_def)
  have d: "d = [uli_flags u] @ concat (map (\<lambda>(i, n, f, xs). if bit (uli_flags u) i then xs else []) ?gs)"
    using build_uli_octets[OF assms] by simp
  have len: "length d < 2 ^ 15" using build_uli_octets[OF assms] by blast
  have "reads (block (map (\<lambda>(i, n, f, xs). only_if (\<lambda>s. bit (uli_flags s) i) [field (\<lambda>_. 0) (\<lambda>_. n) f]) ?gs))
      (concat (map (\<lambda>(i, n, f, xs). if bit (uli_flags u) i then xs else []) ?gs)) ?z ?F"
    by (rule reads_opts) simp_all
  from reads_whole[OF reads_Cons[OF head this], folded d, unfolded F] len
  show ?thesis by (simp add: ogs_gtp2_parse_uli_def)
qed

lemma wonly_if_guard: "wonly_if c [emit (f (if c then x else y))] = wonly_if c [emit (f x)]"
  by (cases c) (simp_all add: wonly_if_def fun_eq_iff)

lemma build_uli_norm: "ogs_gtp2_build_uli (uli_norm u) n = ogs_gtp2_build_uli u n"
  unfolding ogs_gtp2_build_uli_def uli_norm_def ogs_gtp2_uli.simps wonly_if_guard ..

lemma build_uli_room:
  assumes "44 \<le> n"
  shows "\<exists>d. ogs_gtp2_build_uli u n = Some d"
proof -
  note f = fits_block fits_emit fits_only_if[OF fits_block(2)[OF fits_emit fits_block(1)]]
  have "\<exists>d. wblock [emit [uli_flags u],
        wonly_if (uli_has 0 u) [emit (area_octets (uli_cgi u))],
        wonly_if (uli_has 1 u) [emit (area_octets (uli_sai u))],
        wonly_if (uli_has 2 u) [emit (area_octets (uli_rai u))],
        wonly_if (uli_has 3 u) [emit (code_octets (uli_tai u))],
        wonly_if (uli_has 4 u) [emit (cell_octets (uli_e_cgi u))],
        wonly_if (uli_has 5 u) [emit (code_octets (uli_lai u))],
        wonly_if (uli_has 6 u) [emit (code_octets (uli_enodeb_id u))]] n [] = Some d"
    by (rule fitsD, (rule f)+) (use assms in simp_all)
  with assms show ?thesis by (simp add: ogs_gtp2_build_uli_def)
qed

interpretation uli: ie_codec_stable ogs_gtp2_build_uli ogs_gtp2_parse_uli uli_norm
proof
  fix u n d assume d: "ogs_gtp2_build_uli u n = Some d"
  show "ogs_gtp2_parse_uli d = Some (int (length d), uli_norm u)" by (rule uli_parse_build[OF d])
  show "length d \<le> n" using build_uli_octets[OF d] by blast
  from d show "ogs_gtp2_build_uli (uli_norm u) n = Some d" by (simp only: build_uli_norm)
qed

lemma build_node_octets:
  "ogs_gtp2_build_node_identifier x n = Some d \<Longrightarrow> length d \<le> n \<and> length d < 2 ^ 15
   \<and> unat (ni_name_len x) \<le> length (ni_name x) \<and> unat (ni_realm_len x) \<le> length (ni_realm x)
   \<and> d = ni_name_len x # take (unat (ni_name_len x)) (ni_name x) @
       ni_realm_len x # take (unat (ni_realm_len x)) (ni_realm x)"
  by (auto simp: ogs_gtp2_build_node_identifier_def build_eval split: if_splits)

interpretation ni: ie_codec_stable ogs_gtp2_build_node_identifier ogs_gtp2_parse_node_identifier ni_norm
proof
  fix x n d assume d: "ogs_gtp2_build_node_identifier x n = Some d"
  show "ogs_gtp2_parse_node_identifier d = Some (int (length d), ni_norm x)"
    using build_node_octets[OF d] unat_byte_lt[of "ni_name_len x"] unat_byte_lt[of "ni_realm_len x"]
    by (simp add: ogs_gtp2_parse_node_identifier_def block_eval ni_norm_def ni_zero_def)
  show "length d \<le> n" using build_node_octets[OF d] by blast
  from d show "ogs_gtp2_build_node_identifier (ni_norm x) n = Some d"
    by (auto simp: ogs_gtp2_build_node_identifier_def ni_norm_def build_eval split: if_splits)
qed

text \<open>C24. Bearer and flow QoS, user location and node identifier. With room, each is built and read
  back: the bit rates rounded down to kbit/s in 40 bits, the locations announced by the flags,
  names up to their lengths. Two values of one kind with the same octets have the same normal
  form.\<close>

theorem gtp2_ie_roundtrip:
  assumes "1024 \<le> n" "unat (ni_name_len x) \<le> length (ni_name x)" "unat (ni_realm_len x) \<le> length (ni_realm x)"
  shows "(\<exists>d. ogs_gtp2_build_bearer_qos q n = Some d \<and> ogs_gtp2_parse_bearer_qos d = Some (22, Some (bq_norm q)))
    \<and> (\<exists>d. ogs_gtp2_build_flow_qos f n = Some d \<and> ogs_gtp2_parse_flow_qos d = Some (21, Some (fq_norm f)))
    \<and> (\<exists>d. ogs_gtp2_build_uli u n = Some d \<and> ogs_gtp2_parse_uli d = Some (int (length d), uli_norm u)
         \<and> (\<forall>u' m. ogs_gtp2_build_uli u' m = Some d \<longrightarrow> uli_norm u' = uli_norm u))
    \<and> (\<exists>d. ogs_gtp2_build_node_identifier x n = Some d
         \<and> ogs_gtp2_parse_node_identifier d = Some (int (length d), ni_norm x))"
proof (intro conjI)
  obtain d where d: "ogs_gtp2_build_bearer_qos q n = Some d" "length d = 22"
    using assms(1) build_bearer_octets[of q n] by auto
  from bq.parse_build[OF d(1)] d show "\<exists>d. ogs_gtp2_build_bearer_qos q n = Some d
      \<and> ogs_gtp2_parse_bearer_qos d = Some (22, Some (bq_norm q))"
    by (auto simp: accepted_def bind_eq_Some_conv)
next
  obtain d where d: "ogs_gtp2_build_flow_qos f n = Some d" "length d = 21"
    using assms(1) build_flow_octets[of f n] by auto
  from fq.parse_build[OF d(1)] d show "\<exists>d. ogs_gtp2_build_flow_qos f n = Some d
      \<and> ogs_gtp2_parse_flow_qos d = Some (21, Some (fq_norm f))"
    by (auto simp: accepted_def bind_eq_Some_conv)
next
  obtain d where d: "ogs_gtp2_build_uli u n = Some d" using build_uli_room[of n u] assms(1) by auto
  with uli.parse_build[OF d] uli.same_octets[OF _ d] show "\<exists>d. ogs_gtp2_build_uli u n = Some d
      \<and> ogs_gtp2_parse_uli d = Some (int (length d), uli_norm u)
      \<and> (\<forall>u' m. ogs_gtp2_build_uli u' m = Some d \<longrightarrow> uli_norm u' = uli_norm u)" by blast
next
  have "1 + unat (ni_name_len x) + 1 + unat (ni_realm_len x) < 1024"
    using unat_byte_lt[of "ni_name_len x"] unat_byte_lt[of "ni_realm_len x"] by simp
  then obtain d where d: "ogs_gtp2_build_node_identifier x n = Some d"
    using assms by (simp add: ogs_gtp2_build_node_identifier_def build_eval)
  from ni.parse_build[OF d] d show "\<exists>d. ogs_gtp2_build_node_identifier x n = Some d
      \<and> ogs_gtp2_parse_node_identifier d = Some (int (length d), ni_norm x)" by blast
qed

theorem gtp2_ie_roundtrip_witness:
  "\<exists>d. ogs_gtp2_build_bearer_qos (bq_zero\<lparr> bq_arp := 0xFF, bq_qci := 9, bq_ul_mbr := 1999 \<rparr>) 1024 = Some d
     \<and> ogs_gtp2_parse_bearer_qos d = Some (22, Some (bq_zero\<lparr> bq_arp := 0x7D, bq_qci := 9, bq_ul_mbr := 1000 \<rparr>))"
proof -
  have "kbps_down 1999 = 1000" "kbps_down 0 = 0" "arp_fields 0xFF = 0x7D"
    by (simp_all add: kbps_down_def arp_fields_def)
  then have "bq_norm (bq_zero\<lparr> bq_arp := 0xFF, bq_qci := 9, bq_ul_mbr := 1999 \<rparr>)
      = bq_zero\<lparr> bq_arp := 0x7D, bq_qci := 9, bq_ul_mbr := 1000 \<rparr>"
    by (simp add: bq_norm_def bq_zero_def)
  then show ?thesis
    using gtp2_ie_roundtrip[of 1024 ni_zero "bq_zero\<lparr> bq_arp := 0xFF, bq_qci := 9, bq_ul_mbr := 1999 \<rparr>",
      THEN conjunct1] by (simp add: ni_zero_def)
qed

subsection \<open>Parsing untrusted elements\<close>

lemma guarded_members: "list_all (guarded start) (map (read_member start) ms)"
  by (induction ms) (auto simp: read_member_def intro!: guarded_intros)

lemma guarded_component: "guarded start (read_component start)"
proof -
  have "guarded start (\<lambda>d pos c. case parse_members (pc_type c) of None \<Rightarrow> Stop (- 1) c
      | Some ms \<Rightarrow> block (map (read_member start) ms) d pos c)"
  proof
    fix d pos c assume "start \<le> pos" "pos \<le> length (d :: bytes)"
    then show "case (case parse_members (pc_type c) of None \<Rightarrow> Stop (- 1) c
        | Some ms \<Rightarrow> block (map (read_member start) ms) d pos c) of Stop v _ \<Rightarrow> v \<le> int (length d)
      | Go sz' _ \<Rightarrow> pos \<le> sz' \<and> sz' \<le> length d | Overread \<Rightarrow> False"
      using guarded_block[OF guarded_members, of start]
      by (cases "parse_members (pc_type c)") (auto simp: guarded_def)
  qed
  then show ?thesis unfolding read_component_def by (intro guarded_intros) simp_all
qed

lemma components_guarded:
  "start + len \<le> length d \<Longrightarrow> case tft_components d start clen len j cs of Stop v _ \<Rightarrow> v \<le> int (length d)
     | Go sz' _ \<Rightarrow> start + len \<le> sz' \<and> sz' \<le> length d | Overread \<Rightarrow> False"
proof (induction d start clen len j cs rule: tft_components.induct)
  case (1 d start clen len j cs)
  show ?case
  proof (cases "len < clen \<and> j < OGS_MAX_NUM_OF_PACKET_FILTER_COMPONENT")
    case True
    show ?thesis
    proof (rule guarded_cases[OF guarded_component _ 1(2), where s = "cs ! j"])
      fix sz' c assume r: "read_component start d (start + len) (cs ! j) = Go sz' c" "start + len \<le> sz'" "sz' \<le> length d"
      then show ?thesis using 1(1)[of sz' c] True
        by (auto simp: tft_components.simps[of d start clen len] split: reading.splits)
    qed (use True in \<open>auto simp: tft_components.simps[of d start clen len]\<close>)
  qed (use 1(2) in \<open>auto simp: tft_components.simps[of d start clen len]\<close>)
qed

lemma guarded_content: "guarded 0 read_content"
proof -
  have "guarded 0 (\<lambda>d sz p. case tft_components d sz (unat (pf_length p)) 0 0 (pf_component p) of
        Stop v (cs, j) \<Rightarrow> Stop v (p\<lparr> pf_component := cs \<rparr>)
      | Go sz' (cs, j) \<Rightarrow> Go sz' (p\<lparr> pf_component := cs, pf_num := j \<rparr>)
      | Overread \<Rightarrow> Overread)"
  proof
    fix d sz p assume "sz \<le> length (d :: bytes)"
    then show "case (case tft_components d sz (unat (pf_length p)) 0 0 (pf_component p) of
        Stop v (cs, j) \<Rightarrow> Stop v (p\<lparr> pf_component := cs \<rparr>)
      | Go sz' (cs, j) \<Rightarrow> Go sz' (p\<lparr> pf_component := cs, pf_num := j \<rparr>)
      | Overread \<Rightarrow> Overread) of Stop v _ \<Rightarrow> v \<le> int (length d)
      | Go sz' _ \<Rightarrow> sz \<le> sz' \<and> sz' \<le> length d | Overread \<Rightarrow> False"
      using components_guarded[of sz 0 d "unat (pf_length p)" 0 "pf_component p"]
      by (auto split: reading.splits prod.splits)
  qed
  then show ?thesis unfolding read_content_def by (intro guarded_intros) simp_all
qed

lemma filters_guarded: "guarded 0 (tft_filters i)"
proof
  fix d sz and t :: ogs_gtp2_tft assume "sz \<le> length (d :: bytes)"
  then show "case tft_filters i d sz t of Stop v _ \<Rightarrow> v \<le> int (length d)
      | Go sz' _ \<Rightarrow> sz \<le> sz' \<and> sz' \<le> length d | Overread \<Rightarrow> False"
  proof (induction i d sz t rule: tft_filters.induct)
    case (1 i d sz t)
    have g: "guarded 0 (read_filter (tft_code t))"
      unfolding read_filter_def by (intro guarded_intros guarded_content) simp_all
    show ?case
    proof (cases "i < tft_num t \<and> i < OGS_MAX_NUM_OF_FLOW_IN_GTP")
      case True
      show ?thesis
      proof (rule guarded_cases[OF g _ 1(2), where s = "tft_pf t ! i"])
        fix sz' p assume "read_filter (tft_code t) d sz (tft_pf t ! i) = Go sz' p" "sz \<le> sz'" "sz' \<le> length d"
        then show ?thesis using 1(1)[of sz' p] True
          by (auto simp: tft_filters.simps[of i d sz] split: reading.splits)
      qed (use True in \<open>auto simp: tft_filters.simps[of i d sz]\<close>)
    qed (use 1(2) in \<open>auto simp: tft_filters.simps[of i d sz]\<close>)
  qed
qed

text \<open>C25. Parsing untrusted elements. On any octets the parsers end, never read beyond the element and
  never return more than its length; the QoS parsers accept exactly their length.\<close>

theorem gtp2_ie_parse_bounds:
  "(\<exists>v t. ogs_gtp2_parse_tft d = Some (v, t) \<and> v \<le> int (length d))
   \<and> (\<exists>v u. ogs_gtp2_parse_uli d = Some (v, u) \<and> v \<le> int (length d))
   \<and> (\<exists>v x. ogs_gtp2_parse_node_identifier d = Some (v, x) \<and> v \<le> int (length d))
   \<and> (\<exists>q. ogs_gtp2_parse_bearer_qos d = Some (if length d = 22 then 22 else 0, q))
   \<and> (\<exists>q. ogs_gtp2_parse_flow_qos d = Some (if length d = 21 then 21 else 0, q))"
proof (intro conjI)
  have "guarded 0 (\<lambda>d sz t. if tft_code t = 0 \<or> tft_code t = 6 \<or> tft_code t = 2 then Stop (int sz) t else Go sz t)"
    by (auto simp: guarded_def)
  then show "\<exists>v t. ogs_gtp2_parse_tft d = Some (v, t) \<and> v \<le> int (length d)"
    unfolding ogs_gtp2_parse_tft_def
    by (intro guarded_outcome guarded_intros filters_guarded) simp_all
  show "\<exists>v u. ogs_gtp2_parse_uli d = Some (v, u) \<and> v \<le> int (length d)"
    unfolding ogs_gtp2_parse_uli_def by (intro guarded_outcome guarded_intros) simp_all
  show "\<exists>v x. ogs_gtp2_parse_node_identifier d = Some (v, x) \<and> v \<le> int (length d)"
    unfolding ogs_gtp2_parse_node_identifier_def by (intro guarded_outcome guarded_intros) simp_all
qed (simp_all add: ogs_gtp2_parse_bearer_qos_def ogs_gtp2_parse_flow_qos_def GTP2_BEARER_QOS_LEN_def
      GTP2_FLOW_QOS_LEN_def block_eval)

end
