(* ===== verification/Ogs_List.thy ===== *)
theory Ogs_List
  imports Ogs_Prelude "HOL-Library.Multiset"
begin

text \<open>
  The intrusive doubly linked lists of \<open>lib/core/ogs-list.h\<close>, on an explicit memory: every
  node, named by its address, holds its two links, and a list head holds the links to the
  last (\<open>prev\<close>) and the first (\<open>next\<close>) node; \<open>None\<close> is NULL. The links of a node that is
  in no list are arbitrary.

  Shown here: each operation implements the operation on the sequence of nodes, and touches
  no node outside the list but the one it inserts or removes.
\<close>

type_synonym node = nat

record links =
  prev :: "node option"
  nxt :: "node option"

type_synonym memory = "node \<Rightarrow> links"

definition ogs_list_init :: links where "ogs_list_init = \<lparr> prev = None, nxt = None \<rparr>"

definition ogs_list_copy :: "links \<Rightarrow> links" where "ogs_list_copy src = \<lparr> prev = prev src, nxt = nxt src \<rparr>"

definition ogs_list_first :: "links \<Rightarrow> node option" where "ogs_list_first l = nxt l"

definition ogs_list_last :: "links \<Rightarrow> node option" where "ogs_list_last l = prev l"

definition ogs_list_next :: "memory \<Rightarrow> node \<Rightarrow> node option" where "ogs_list_next h n = nxt (h n)"

definition ogs_list_prev :: "memory \<Rightarrow> node \<Rightarrow> node option" where "ogs_list_prev h n = prev (h n)"

definition set_prev :: "memory \<Rightarrow> node \<Rightarrow> node option \<Rightarrow> memory" where
  "set_prev h n p = h(n := (h n)\<lparr> prev := p \<rparr>)"

definition set_nxt :: "memory \<Rightarrow> node \<Rightarrow> node option \<Rightarrow> memory" where
  "set_nxt h n p = h(n := (h n)\<lparr> nxt := p \<rparr>)"

subsection \<open>The operations\<close>

definition ogs_list_prepend :: "memory \<times> links \<Rightarrow> node \<Rightarrow> memory \<times> links" where
  "ogs_list_prepend hl n =
     (case hl of (h, l) \<Rightarrow>
       let h1 = set_nxt (set_prev h n None) n (nxt l)
       in case nxt l of
            Some f \<Rightarrow> (set_prev h1 f (Some n), l\<lparr> nxt := Some n \<rparr>)
          | None \<Rightarrow> (h1, l\<lparr> prev := Some n, nxt := Some n \<rparr>))"

definition ogs_list_add :: "memory \<times> links \<Rightarrow> node \<Rightarrow> memory \<times> links" where
  "ogs_list_add hl n =
     (case hl of (h, l) \<Rightarrow>
       let h1 = set_nxt (set_prev h n (prev l)) n None
       in case prev l of
            Some e \<Rightarrow> (set_nxt h1 e (Some n), l\<lparr> prev := Some n \<rparr>)
          | None \<Rightarrow> (h1, l\<lparr> nxt := Some n, prev := Some n \<rparr>))"

definition ogs_list_remove :: "memory \<times> links \<Rightarrow> node \<Rightarrow> memory \<times> links" where
  "ogs_list_remove hl n =
     (case hl of (h, l) \<Rightarrow>
       let p = prev (h n); q = nxt (h n);
           (h1, l1) = (case p of Some p' \<Rightarrow> (set_nxt h p' q, l) | None \<Rightarrow> (h, l\<lparr> nxt := q \<rparr>))
       in case q of Some q' \<Rightarrow> (set_prev h1 q' p, l1) | None \<Rightarrow> (h1, l1\<lparr> prev := p \<rparr>))"

definition ogs_list_insert_prev :: "memory \<times> links \<Rightarrow> node \<Rightarrow> node \<Rightarrow> memory \<times> links" where
  "ogs_list_insert_prev hl q n =
     (case hl of (h, l) \<Rightarrow>
       let h1 = set_nxt (set_prev h n (prev (h q))) n (Some q);
           (h2, l1) = (case prev (h1 q) of Some p \<Rightarrow> (set_nxt h1 p (Some n), l) | None \<Rightarrow> (h1, l\<lparr> nxt := Some n \<rparr>))
       in (set_prev h2 q (Some n), l1))"

definition ogs_list_insert_next :: "memory \<times> links \<Rightarrow> node \<Rightarrow> node \<Rightarrow> memory \<times> links" where
  "ogs_list_insert_next hl p n =
     (case hl of (h, l) \<Rightarrow>
       let h1 = set_nxt (set_prev h n (Some p)) n (nxt (h p));
           (h2, l1) = (case nxt (h1 p) of Some q \<Rightarrow> (set_prev h1 q (Some n), l) | None \<Rightarrow> (h1, l\<lparr> prev := Some n \<rparr>))
       in (set_nxt h2 p (Some n), l1))"

text \<open>\<open>ogs_list_for_each\<close> follows the links; a cyclic memory would never let it end.\<close>

partial_function (option) list_find :: "memory \<Rightarrow> (node \<Rightarrow> bool) \<Rightarrow> node option \<Rightarrow> node option option" where
  "list_find h P iter =
     (case iter of None \<Rightarrow> Some None
      | Some n \<Rightarrow> if P n then Some (Some n) else list_find h P (ogs_list_next h n))"

partial_function (option) list_count_from :: "memory \<Rightarrow> node option \<Rightarrow> nat \<Rightarrow> nat option" where
  "list_count_from h iter i =
     (case iter of None \<Rightarrow> Some i | Some n \<Rightarrow> list_count_from h (ogs_list_next h n) (i + 1))"

definition ogs_list_insert_sorted :: "(node \<Rightarrow> node \<Rightarrow> int) \<Rightarrow> memory \<times> links \<Rightarrow> node \<Rightarrow> (memory \<times> links) option" where
  "ogs_list_insert_sorted compare hl n =
     map_option (\<lambda>iter. case iter of
         Some q \<Rightarrow> ogs_list_insert_prev hl q n | None \<Rightarrow> ogs_list_add hl n)
       (list_find (fst hl) (\<lambda>q. compare n q < 0) (ogs_list_first (snd hl)))"

definition ogs_list_empty :: "links \<Rightarrow> bool" where "ogs_list_empty l \<longleftrightarrow> nxt l = None"

definition ogs_list_count :: "memory \<times> links \<Rightarrow> nat option" where
  "ogs_list_count hl = list_count_from (fst hl) (ogs_list_first (snd hl)) 0"

definition ogs_list_exists :: "memory \<times> links \<Rightarrow> node \<Rightarrow> bool option" where
  "ogs_list_exists hl n =
     map_option (\<lambda>iter. iter \<noteq> None) (list_find (fst hl) (\<lambda>q. n = q) (ogs_list_first (snd hl)))"

subsection \<open>The sequence in memory\<close>

fun chain :: "memory \<Rightarrow> node option \<Rightarrow> node list \<Rightarrow> node option \<Rightarrow> bool" where
  "chain h p [] n \<longleftrightarrow> True"
| "chain h p (x # xs) n \<longleftrightarrow> prev (h x) = p \<and> nxt (h x) = (case xs of [] \<Rightarrow> n | y # _ \<Rightarrow> Some y) \<and> chain h (Some x) xs n"

definition first_of :: "node list \<Rightarrow> node option \<Rightarrow> node option" where
  "first_of xs n = (case xs of [] \<Rightarrow> n | y # _ \<Rightarrow> Some y)"

definition last_of :: "node list \<Rightarrow> node option \<Rightarrow> node option" where
  "last_of xs p = (if xs = [] then p else Some (last xs))"

definition represents :: "memory \<times> links \<Rightarrow> node list \<Rightarrow> bool" where
  "represents hl xs \<longleftrightarrow> distinct xs \<and> nxt (snd hl) = first_of xs None \<and> prev (snd hl) = last_of xs None
     \<and> chain (fst hl) None xs None"

lemma first_of_simps [simp]: "first_of [] n = n" "first_of (x # xs) n = Some x"
  by (simp_all add: first_of_def)

lemma last_of_simps [simp]: "last_of [] p = p" "last_of (xs @ [x]) p = Some x" "last_of (x # xs) p = last_of xs (Some x)"
  by (auto simp: last_of_def)

lemma first_of_append [simp]: "first_of (xs @ ys) n = first_of xs (first_of ys n)"
  by (cases xs) auto

lemma last_of_append [simp]: "last_of (xs @ ys) p = last_of ys (last_of xs p)"
  by (auto simp: last_of_def)

lemma chain_Cons: "chain h p (x # xs) n \<longleftrightarrow> prev (h x) = p \<and> nxt (h x) = first_of xs n \<and> chain h (Some x) xs n"
  by (simp add: first_of_def)

declare chain.simps(2) [simp del]
declare chain_Cons [simp]

lemma chain_append: "chain h p (xs @ ys) n \<longleftrightarrow> chain h p xs (first_of ys n) \<and> chain h (last_of xs p) ys n"
  by (induction xs arbitrary: p) auto

lemma chain_frame: "(\<And>x. x \<in> set xs \<Longrightarrow> h' x = h x) \<Longrightarrow> chain h' p xs n = chain h p xs n"
  by (induction xs arbitrary: p) auto

lemma chain_upd [simp]: "x \<notin> set xs \<Longrightarrow> chain (h(x := v)) p xs n = chain h p xs n"
  by (rule chain_frame) auto

lemmas list_op_defs = represents_def chain_append set_prev_def set_nxt_def Let_def

lemma represents_init: "represents (h, ogs_list_init) []"
  by (simp add: represents_def ogs_list_init_def)

lemma represents_copy: "represents (h, l) xs \<Longrightarrow> represents (h, ogs_list_copy l) xs"
  by (simp add: represents_def ogs_list_copy_def)

lemma represents_prepend:
  assumes "represents hl xs" "x \<notin> set xs"
  shows "represents (ogs_list_prepend hl x) (x # xs)"
proof (cases hl)
  case (Pair h l)
  with assms show ?thesis
    by (cases xs) (auto simp: list_op_defs ogs_list_prepend_def)
qed

lemma represents_add:
  assumes "represents hl xs" "x \<notin> set xs"
  shows "represents (ogs_list_add hl x) (xs @ [x])"
proof (cases hl)
  case (Pair h l)
  with assms show ?thesis
    by (cases xs rule: rev_cases) (auto simp: list_op_defs ogs_list_add_def)
qed

lemma represents_remove:
  assumes "represents hl (as @ x # bs)"
  shows "represents (ogs_list_remove hl x) (as @ bs)"
proof (cases hl)
  case (Pair h l)
  with assms show ?thesis
    by (cases as rule: rev_cases; cases bs) (auto simp: list_op_defs ogs_list_remove_def)
qed

lemma represents_insert_prev:
  assumes "represents hl (as @ q # bs)" "x \<notin> set (as @ q # bs)"
  shows "represents (ogs_list_insert_prev hl q x) (as @ x # q # bs)"
proof (cases hl)
  case (Pair h l)
  with assms show ?thesis
    by (cases as rule: rev_cases) (auto simp: list_op_defs ogs_list_insert_prev_def)
qed

lemma represents_insert_next:
  assumes "represents hl (as @ p # bs)" "x \<notin> set (as @ p # bs)"
  shows "represents (ogs_list_insert_next hl p x) (as @ p # x # bs)"
proof (cases hl)
  case (Pair h l)
  with assms show ?thesis
    by (cases bs) (auto simp: list_op_defs ogs_list_insert_next_def)
qed

lemma list_find_chain:
  "chain h p xs None \<Longrightarrow> list_find h P (first_of xs None) = Some (find P xs)"
  by (induction xs arbitrary: p) (auto simp: list_find.simps[of h P] ogs_list_next_def)

lemma list_count_chain:
  "chain h p xs None \<Longrightarrow> list_count_from h (first_of xs None) i = Some (i + length xs)"
  by (induction xs arbitrary: p i) (auto simp: list_count_from.simps[of h] ogs_list_next_def)

lemma represents_find:
  "represents (h, l) xs \<Longrightarrow> list_find h P (ogs_list_first l) = Some (find P xs)"
  using list_find_chain[of h None xs P] by (simp add: represents_def ogs_list_first_def)

fun insert_sorted :: "(node \<Rightarrow> node \<Rightarrow> int) \<Rightarrow> node \<Rightarrow> node list \<Rightarrow> node list" where
  "insert_sorted cmp n [] = [n]"
| "insert_sorted cmp n (x # xs) = (if cmp n x < 0 then n # x # xs else x # insert_sorted cmp n xs)"

lemma insert_sorted_split:
  "(case find (\<lambda>q. cmp n q < 0) xs of
      None \<Rightarrow> insert_sorted cmp n xs = xs @ [n]
    | Some q \<Rightarrow> \<exists>as bs. xs = as @ q # bs \<and> insert_sorted cmp n xs = as @ n # q # bs)"
  by (induction xs) (auto split: option.splits, (metis append_Cons)+)

lemma represents_insert_sorted:
  assumes "represents hl xs" "n \<notin> set xs"
  shows "\<exists>hl'. ogs_list_insert_sorted cmp hl n = Some hl' \<and> represents hl' (insert_sorted cmp n xs)"
proof -
  obtain h l where hl: "hl = (h, l)" by (cases hl)
  have f: "list_find h (\<lambda>q. cmp n q < 0) (ogs_list_first l) = Some (find (\<lambda>q. cmp n q < 0) xs)"
    using assms hl by (simp add: represents_find)
  show ?thesis
  proof (cases "find (\<lambda>q. cmp n q < 0) xs")
    case None
    with insert_sorted_split[of cmp n xs] f hl represents_add[OF assms] show ?thesis
      by (simp add: ogs_list_insert_sorted_def)
  next
    case (Some q)
    with insert_sorted_split[of cmp n xs] obtain as bs where
      x: "xs = as @ q # bs" "insert_sorted cmp n xs = as @ n # q # bs" by auto
    with represents_insert_prev[of hl as q bs n] assms f hl Some show ?thesis
      by (simp add: ogs_list_insert_sorted_def)
  qed
qed

subsection \<open>The interface\<close>

text \<open>
  What the users of a list rely on: the operations are those of a sequence of distinct nodes.
  Taking from the front, moving to the end and emptying a list in a traversal that removes
  every node follow from the laws alone.
\<close>

locale intrusive_list =
  fixes rep :: "'s \<Rightarrow> 'n list \<Rightarrow> bool" and add remove :: "'s \<Rightarrow> 'n \<Rightarrow> 's" and first :: "'s \<Rightarrow> 'n option"
  assumes rep_distinct: "rep s xs \<Longrightarrow> distinct xs"
    and rep_add: "rep s xs \<Longrightarrow> x \<notin> set xs \<Longrightarrow> rep (add s x) (xs @ [x])"
    and rep_remove: "rep s xs \<Longrightarrow> x \<in> set xs \<Longrightarrow> rep (remove s x) (remove1 x xs)"
    and rep_first: "rep s xs \<Longrightarrow> first s = (case xs of [] \<Rightarrow> None | x # _ \<Rightarrow> Some x)"
begin

lemma take_first: "rep s (x # xs) \<Longrightarrow> first s = Some x \<and> rep (remove s x) xs"
  using rep_first[of s "x # xs"] rep_remove[of s "x # xs" x] by simp

lemma move_to_end: "rep s xs \<Longrightarrow> x \<in> set xs \<Longrightarrow> rep (add (remove s x) x) (remove1 x xs @ [x])"
  using rep_distinct by (intro rep_add rep_remove) auto

lemma remove_all: "rep s xs \<Longrightarrow> rep (foldl remove s xs) []"
proof (induction xs arbitrary: s)
  case (Cons x xs)
  then show ?case using take_first[of s x xs] by simp
qed simp

lemma rotate: "rep s (x # xs) \<Longrightarrow> rep (add (remove s x) x) (xs @ [x])"
  using move_to_end[of s "x # xs" x] by simp

end

lemma represents_remove1:
  assumes "represents hl xs" "x \<in> set xs"
  shows "represents (ogs_list_remove hl x) (remove1 x xs)"
proof -
  obtain as bs where "xs = as @ x # bs" "x \<notin> set as" using split_list_first[OF assms(2)] by blast
  with represents_remove[of hl as x bs] assms(1) show ?thesis by (simp add: remove1_append)
qed

interpretation ol: intrusive_list represents ogs_list_add ogs_list_remove "\<lambda>hl. ogs_list_first (snd hl)"
proof
  fix hl xs x
  assume r: "represents hl xs"
  then show "distinct xs" "ogs_list_first (snd hl) = (case xs of [] \<Rightarrow> None | x # _ \<Rightarrow> Some x)"
    by (simp_all add: represents_def ogs_list_first_def first_of_def)
  show "represents (ogs_list_add hl x) (xs @ [x])" if "x \<notin> set xs" by (rule represents_add[OF r that])
  show "represents (ogs_list_remove hl x) (remove1 x xs)" if "x \<in> set xs" by (rule represents_remove1[OF r that])
qed

subsection \<open>Properties\<close>

text \<open>C19. The pointer lists refine sequences. On a memory that holds the sequence \<open>xs\<close> each
  operation leaves the sequence it should: adding at either end, beside a node or in order,
  removing; traversals end and count or find the nodes; and a removed node leaves a list that
  can be traversed until it is empty.\<close>

theorem list_refinement:
  assumes "represents hl xs"
  shows "(x \<notin> set xs \<longrightarrow> represents (ogs_list_prepend hl x) (x # xs)
        \<and> represents (ogs_list_add hl x) (xs @ [x])
        \<and> (\<exists>hl'. ogs_list_insert_sorted cmp hl x = Some hl' \<and> represents hl' (insert_sorted cmp x xs))
        \<and> (\<forall>as q bs. xs = as @ q # bs \<longrightarrow> represents (ogs_list_insert_prev hl q x) (as @ x # q # bs)
             \<and> represents (ogs_list_insert_next hl q x) (as @ q # x # bs)))
    \<and> (x \<in> set xs \<longrightarrow> represents (ogs_list_remove hl x) (remove1 x xs))
    \<and> ogs_list_exists hl x = Some (x \<in> set xs) \<and> ogs_list_count hl = Some (length xs)
    \<and> (ogs_list_empty (snd hl) \<longleftrightarrow> xs = [])
    \<and> represents (foldl ogs_list_remove hl xs) []"
proof -
  obtain h l where hl: "hl = (h, l)" by (cases hl)
  have e: "ogs_list_exists hl x = Some (x \<in> set xs)"
    using assms represents_find[of h l xs "\<lambda>q. x = q"] hl
    by (auto simp: ogs_list_exists_def find_None_iff split: option.splits)
      (metis find_None_iff not_None_eq)+
  have c: "ogs_list_count hl = Some (length xs)" "ogs_list_empty (snd hl) \<longleftrightarrow> xs = []"
    using assms list_count_chain[of h None xs 0] hl
    by (auto simp: ogs_list_count_def represents_def ogs_list_first_def ogs_list_empty_def first_of_def
        split: list.splits)
  show ?thesis
    using assms e c represents_insert_sorted[OF assms] ol.remove_all[OF assms]
    by (auto intro: represents_prepend represents_add represents_remove1 represents_insert_prev
        represents_insert_next)
qed

text \<open>Three nodes, added in the order 1, 2 and then 5 in front.\<close>

definition demo_list :: "memory \<times> links" where
  "demo_list = ogs_list_prepend (ogs_list_add (ogs_list_add
     ((\<lambda>_. \<lparr> prev = Some 9, nxt = Some 9 \<rparr>), ogs_list_init) 1) 2) 5"

lemma demo_represents: "represents demo_list [5, 1, 2]"
  unfolding demo_list_def
  using represents_prepend[OF represents_add[OF represents_add[OF represents_init]], of 1 2 5] by simp

theorem list_refinement_witness:
  "represents (ogs_list_remove demo_list 1) [5, 2] \<and> ogs_list_count demo_list = Some 3
   \<and> ogs_list_exists demo_list 7 = Some False"
  using list_refinement[OF demo_represents, of 1] list_refinement[OF demo_represents, of 7] by simp

lemma insert_sorted_mset: "mset (insert_sorted cmp n xs) = add_mset n (mset xs)"
  by (induction xs) auto

lemma insert_sorted_sorted:
  assumes "\<And>a b. cmp a b < 0 \<longleftrightarrow> key a < (key b :: int)" "sorted (map key xs)"
  shows "sorted (map key (insert_sorted cmp n xs))"
  using assms(2)
proof (induction xs)
  case (Cons x xs)
  have "set (insert_sorted cmp n xs) = insert n (set xs)"
    using insert_sorted_mset[of cmp n xs] by (metis set_mset_add_mset_insert set_mset_mset)
  with Cons assms(1) show ?case by (auto simp: not_less)
qed simp

lemma insert_sorted_stable:
  assumes "\<And>a b. cmp a b < 0 \<longleftrightarrow> key a < (key b :: int)" "sorted (map key xs)"
  shows "filter (\<lambda>x. key x = key n) (insert_sorted cmp n xs) = filter (\<lambda>x. key x = key n) xs @ [n]"
  using assms(2)
proof (induction xs)
  case (Cons x xs)
  show ?case
  proof (cases "cmp n x < 0")
    case True
    then have "\<forall>y \<in> set (x # xs). key y \<noteq> key n" using Cons.prems assms(1) by fastforce
    with True show ?thesis by (auto simp: filter_empty_conv)
  qed (use Cons assms(1) in auto)
qed simp

lemma list_writes_only_own:
  assumes "represents hl xs" "y \<notin> set xs" "y \<noteq> x"
  shows "fst (ogs_list_add hl x) y = fst hl y" "q \<in> set xs \<Longrightarrow> fst (ogs_list_insert_prev hl q x) y = fst hl y"
proof -
  obtain h l where hl: "hl = (h, l)" by (cases hl)
  have "prev l = Some e \<Longrightarrow> e \<in> set xs" for e
    using assms(1) hl by (auto simp: represents_def last_of_def split: if_splits)
  then show "fst (ogs_list_add hl x) y = fst hl y"
    using assms(2,3) by (auto simp: hl ogs_list_add_def set_prev_def set_nxt_def Let_def split: option.splits)
  assume q: "q \<in> set xs"
  then obtain as bs where x: "xs = as @ q # bs" using split_list by fast
  have p: "prev (h q) = last_of as None" using assms(1) by (simp add: represents_def hl x chain_append)
  show "fst (ogs_list_insert_prev hl q x) y = fst hl y"
  proof (cases "q = x")
    case True
    then show ?thesis using assms p x
      by (cases as rule: rev_cases) (auto simp: hl ogs_list_insert_prev_def set_prev_def set_nxt_def Let_def split: option.splits)
  next
    case False
    then show ?thesis using assms p x q
      by (cases as rule: rev_cases) (auto simp: hl ogs_list_insert_prev_def set_prev_def set_nxt_def Let_def split: option.splits)
  qed
qed

text \<open>Sorted insertion. With a comparison that orders the nodes by a key, insertion into a
  list in ascending order keeps it so and adds exactly the node, behind the nodes with an equal
  key; no node outside the list and the inserted one is written.\<close>

theorem list_sorted_insert:
  assumes "represents hl xs" "n \<notin> set xs" "sorted (map key xs)"
    and "\<And>a b. cmp a b < 0 \<longleftrightarrow> key a < (key b :: int)"
  shows "\<exists>hl' ys. ogs_list_insert_sorted cmp hl n = Some hl' \<and> represents hl' ys
    \<and> sorted (map key ys) \<and> mset ys = add_mset n (mset xs)
    \<and> filter (\<lambda>x. key x = key n) ys = filter (\<lambda>x. key x = key n) xs @ [n]
    \<and> (\<forall>y. y \<notin> set ys \<longrightarrow> fst hl' y = fst hl y)"
proof -
  obtain hl' where hl': "ogs_list_insert_sorted cmp hl n = Some hl'" "represents hl' (insert_sorted cmp n xs)"
    using represents_insert_sorted[OF assms(1,2)] by blast
  have s: "set (insert_sorted cmp n xs) = insert n (set xs)"
    using insert_sorted_mset[of cmp n xs] by (metis set_mset_add_mset_insert set_mset_mset)
  have "fst hl' y = fst hl y" if "y \<notin> set (insert_sorted cmp n xs)" for y
  proof -
    have y: "y \<notin> set xs" "y \<noteq> n" using that s by auto
    obtain h l where hl: "hl = (h, l)" by (cases hl)
    show ?thesis
    proof (cases "find (\<lambda>q. cmp n q < 0) xs")
      case None
      then show ?thesis using hl'(1) assms(1) hl list_writes_only_own(1)[OF assms(1) y]
        by (simp add: ogs_list_insert_sorted_def represents_find)
    next
      case (Some q)
      then have "q \<in> set xs" by (auto simp: find_Some_iff)
      from list_writes_only_own(2)[OF assms(1) y this] Some show ?thesis
        using hl'(1) assms(1) hl by (auto simp: ogs_list_insert_sorted_def represents_find)
    qed
  qed
  then show ?thesis
    using hl' insert_sorted_mset insert_sorted_sorted[OF assms(4,3)] insert_sorted_stable[OF assms(4,3)]
    by blast
qed

theorem list_sorted_insert_witness:
  "\<exists>hl' ys. ogs_list_insert_sorted (\<lambda>a b. int a - int b) (ogs_list_add (fst demo_list, ogs_list_init) 4) 3 = Some hl'
    \<and> represents hl' ys \<and> sorted (map int ys) \<and> mset ys = {#3, 4#}
    \<and> (\<forall>y. y \<notin> set ys \<longrightarrow> fst hl' y = fst (ogs_list_add (fst demo_list, ogs_list_init) 4) y)"
proof -
  have "represents (ogs_list_add (fst demo_list, ogs_list_init) 4) [4]"
    using represents_add[OF represents_init, of 4] by simp
  from list_sorted_insert[OF this, of 3 int "\<lambda>a b. int a - int b"] show ?thesis by auto
qed

end
