(* ===== verification/Ogs_Hash.thy ===== *)
theory Ogs_Hash
  imports Ogs_Prelude "HOL-Library.Multiset"
begin

unbundle bit_operations_syntax

text \<open>
  The hash tables of \<open>lib/core/ogs-hash.c\<close>, the indexes of the contexts by identity: an array
  of chains that doubles when it holds more entries than slots, with a list of recycled
  entries. A key is its address and its octets, as the table keeps the pointer of the caller
  and compares contents; the octets are assumed to stay as they are while the entry is in the
  table. A value is never NULL: storing NULL deletes. The chain of a slot is the list of its
  entries, a pointer into it the position.

  Shown here: every operation implements a finite map, also across a growth of the array;
  an iteration meets each entry exactly once; and what the users of the table build on this
  (an index entry taken over by a newer context is left alone by the older one).
\<close>

type_synonym hkey = "nat \<times> bytes"

record 'v hentry =
  he_hash :: u32
  he_ptr :: nat
  he_key :: bytes
  he_val :: 'v

record 'v hash =
  ht_array :: "'v hentry list list"
  ht_count :: nat
  ht_max :: nat
  ht_seed :: u32
  ht_func :: "(bytes \<Rightarrow> u32) option"
  ht_free :: nat

definition INITIAL_MAX :: nat where "INITIAL_MAX = 15"

definition alloc_array :: "nat \<Rightarrow> 'v hentry list list" where
  "alloc_array n = replicate (n + 1) []"

definition ogs_hash_make :: "u32 \<Rightarrow> 'v hash" where
  "ogs_hash_make seed = \<lparr> ht_array = alloc_array INITIAL_MAX, ht_count = 0, ht_max = INITIAL_MAX,
     ht_seed = seed, ht_func = None, ht_free = 0 \<rparr>"

definition ogs_hash_make_custom :: "u32 \<Rightarrow> (bytes \<Rightarrow> u32) \<Rightarrow> 'v hash" where
  "ogs_hash_make_custom seed f = (ogs_hash_make seed)\<lparr> ht_func := Some f \<rparr>"

definition hashfunc_default :: "bytes \<Rightarrow> u32 \<Rightarrow> u32" where
  "hashfunc_default key hash = foldl (\<lambda>h p. h * 33 + ucast p) hash key"

definition ogs_hashfunc_default :: "bytes \<Rightarrow> u32" where
  "ogs_hashfunc_default key = hashfunc_default key 0"

definition key_hash :: "'v hash \<Rightarrow> bytes \<Rightarrow> u32" where
  "key_hash ht key = (case ht_func ht of Some f \<Rightarrow> f key | None \<Rightarrow> hashfunc_default key (ht_seed ht))"

definition slot :: "nat \<Rightarrow> u32 \<Rightarrow> nat" where
  "slot n h = unat (h AND of_nat n)"

subsection \<open>Iteration\<close>

text \<open>An iterator is the next slot to look at and the rest of the current chain, of which the
  first entry is \<open>this\<close> and the tail \<open>next\<close>.\<close>

function hash_next_loop :: "'v hash \<Rightarrow> nat \<Rightarrow> 'v hentry list \<Rightarrow> (nat \<times> 'v hentry list) option" where
  "hash_next_loop ht i this =
     (if this \<noteq> [] then Some (i, this)
      else if i > ht_max ht then None
      else hash_next_loop ht (i + 1) (ht_array ht ! i))"
  by pat_completeness auto
termination by (relation "measure (\<lambda>(ht, i, this). ht_max ht + 1 - i)") auto

declare hash_next_loop.simps [simp del]

definition ogs_hash_next :: "'v hash \<Rightarrow> nat \<times> 'v hentry list \<Rightarrow> (nat \<times> 'v hentry list) option" where
  "ogs_hash_next ht hi = hash_next_loop ht (fst hi) (tl (snd hi))"

definition ogs_hash_first :: "'v hash \<Rightarrow> (nat \<times> 'v hentry list) option" where
  "ogs_hash_first ht = hash_next_loop ht 0 []"

definition ogs_hash_this :: "nat \<times> 'v hentry list \<Rightarrow> 'v hentry" where
  "ogs_hash_this hi = hd (snd hi)"

text \<open>A loop over the table with an accumulator, left early when the body says so.\<close>

definition left_over :: "'v hash \<Rightarrow> (nat \<times> 'v hentry list) option \<Rightarrow> nat" where
  "left_over ht it = (case it of None \<Rightarrow> 0
     | Some (i, s) \<Rightarrow> length s + sum_list (map length (drop i (take (ht_max ht + 1) (ht_array ht)))))"

lemma hash_next_loop_left:
  "hash_next_loop ht i s = r \<Longrightarrow> length (ht_array ht) = ht_max ht + 1 \<Longrightarrow>
   left_over ht r = length s + sum_list (map length (drop i (take (ht_max ht + 1) (ht_array ht))))"
proof (induction ht i s arbitrary: r rule: hash_next_loop.induct)
  case (1 ht i this)
  show ?case
  proof (cases "this = [] \<and> i \<le> ht_max ht")
    case True
    then have "drop i (ht_array ht) = ht_array ht ! i # drop (i + 1) (ht_array ht)"
      using 1(3) by (simp add: Cons_nth_drop_Suc)
    with 1 True show ?thesis by (simp add: hash_next_loop.simps[of ht i])
  qed (use 1 in \<open>auto simp: hash_next_loop.simps[of ht i this] left_over_def\<close>)
qed

function hash_loop :: "('a \<Rightarrow> 'v hentry \<Rightarrow> 'a \<times> bool) \<Rightarrow> 'v hash \<Rightarrow> (nat \<times> 'v hentry list) option \<Rightarrow> 'a \<Rightarrow> 'a \<times> bool" where
  "hash_loop f ht it a =
     (case it of
        None \<Rightarrow> (a, True)
      | Some hi \<Rightarrow>
          if snd hi = [] \<or> length (ht_array ht) \<noteq> ht_max ht + 1 then (a, True)
          else let (a', go) = f a (ogs_hash_this hi)
               in if go then hash_loop f ht (ogs_hash_next ht hi) a' else (a', False))"
  by pat_completeness auto
termination
proof (relation "measure (\<lambda>(f, ht, it, a). left_over ht it)", goal_cases)
  case (2 f ht it a hi x a' go)
  then show ?case
    using hash_next_loop_left[of ht "fst hi" "tl (snd hi)"]
    by (cases hi; cases "snd hi") (auto simp: ogs_hash_next_def left_over_def[of ht "Some _"])
qed simp

declare hash_loop.simps [simp del]

text \<open>\<open>ogs_hash_do\<close>: the result says whether the whole table was scanned.\<close>

definition ogs_hash_do :: "('a \<Rightarrow> 'v hentry \<Rightarrow> 'a \<times> bool) \<Rightarrow> 'a \<Rightarrow> 'v hash \<Rightarrow> 'a \<times> bool" where
  "ogs_hash_do cb rec ht = hash_loop cb ht (ogs_hash_first ht) rec"

definition expand_array :: "'v hash \<Rightarrow> 'v hash" where
  "expand_array ht =
     (let new_max = ht_max ht * 2 + 1;
          new_array = fst (hash_loop
            (\<lambda>arr e. (arr[slot new_max (he_hash e) := e # arr ! slot new_max (he_hash e)], True))
            ht (ogs_hash_first ht) (alloc_array new_max))
      in ht\<lparr> ht_array := new_array, ht_max := new_max \<rparr>)"

subsection \<open>Lookup and update\<close>

fun find_pos :: "'v hentry list \<Rightarrow> u32 \<Rightarrow> bytes \<Rightarrow> nat" where
  "find_pos [] hash key = 0"
| "find_pos (he # es) hash key = (if he_hash he = hash \<and> he_key he = key then 0 else Suc (find_pos es hash key))"

definition find_entry :: "'v hash \<Rightarrow> hkey \<Rightarrow> 'v option \<Rightarrow> 'v hash \<times> nat \<times> nat" where
  "find_entry ht key val =
     (let hash = key_hash ht (snd key); i = slot (ht_max ht) hash;
          chain = ht_array ht ! i; pos = find_pos chain hash (snd key)
      in case val of
           None \<Rightarrow> (ht, i, pos)
         | Some v \<Rightarrow>
             if pos < length chain then (ht, i, pos)
             else (ht\<lparr> ht_array := (ht_array ht)[i := chain @
                      [\<lparr> he_hash = hash, he_ptr = fst key, he_key = snd key, he_val = v \<rparr>]],
                    ht_count := ht_count ht + 1, ht_free := ht_free ht - 1 \<rparr>, i, pos))"

definition hash_get :: "'v hash \<Rightarrow> hkey \<Rightarrow> 'v option" where
  "hash_get ht key = (case find_entry ht key None of (_, i, pos) \<Rightarrow>
     if pos < length (ht_array ht ! i) then Some (he_val (ht_array ht ! i ! pos)) else None)"

definition grow_if_full :: "'v hash \<Rightarrow> 'v hash" where
  "grow_if_full ht = (if ht_count ht > ht_max ht then expand_array ht else ht)"

definition hash_set :: "'v hash \<Rightarrow> hkey \<Rightarrow> 'v option \<Rightarrow> 'v hash" where
  "hash_set ht key val = (case find_entry ht key val of (ht1, i, pos) \<Rightarrow>
     let chain = ht_array ht1 ! i
     in if pos < length chain then
          (case val of
             None \<Rightarrow> ht1\<lparr> ht_array := (ht_array ht1)[i := take pos chain @ drop (pos + 1) chain],
                       ht_free := ht_free ht1 + 1, ht_count := ht_count ht1 - 1 \<rparr>
           | Some v \<Rightarrow> grow_if_full (ht1\<lparr> ht_array := (ht_array ht1)[i := chain[pos := (chain ! pos)\<lparr> he_val := v \<rparr>]] \<rparr>))
        else ht1)"

definition hash_get_or_set :: "'v hash \<Rightarrow> hkey \<Rightarrow> 'v option \<Rightarrow> 'v hash \<times> 'v option" where
  "hash_get_or_set ht key val = (case find_entry ht key val of (ht1, i, pos) \<Rightarrow>
     let chain = ht_array ht1 ! i
     in if pos < length chain then (grow_if_full ht1, Some (he_val (chain ! pos))) else (ht1, None))"

text \<open>The length of a key is not zero, unless it is given as a string.\<close>

definition klen_ok :: "bool \<Rightarrow> hkey \<Rightarrow> bool" where
  "klen_ok is_string key \<longleftrightarrow> is_string \<or> snd key \<noteq> []"

definition ogs_hash_get :: "'v hash \<Rightarrow> bool \<Rightarrow> hkey \<Rightarrow> 'v option option" where
  "ogs_hash_get ht str key = (if klen_ok str key then Some (hash_get ht key) else None)"

definition ogs_hash_set :: "'v hash \<Rightarrow> bool \<Rightarrow> hkey \<Rightarrow> 'v option \<Rightarrow> 'v hash option" where
  "ogs_hash_set ht str key val = (if klen_ok str key then Some (hash_set ht key val) else None)"

definition ogs_hash_get_or_set :: "'v hash \<Rightarrow> bool \<Rightarrow> hkey \<Rightarrow> 'v option \<Rightarrow> ('v hash \<times> 'v option) option" where
  "ogs_hash_get_or_set ht str key val = (if klen_ok str key then Some (hash_get_or_set ht key val) else None)"

definition ogs_hash_set_rekey :: "'v hash \<Rightarrow> bool \<Rightarrow> hkey \<Rightarrow> 'v \<Rightarrow> 'v hash option" where
  "ogs_hash_set_rekey ht str key val =
     Option.bind (ogs_hash_set ht str key None) (\<lambda>ht1. ogs_hash_set ht1 str key (Some val))"

definition ogs_hash_unset_if_owner :: "'v hash \<Rightarrow> bool \<Rightarrow> hkey \<Rightarrow> 'v \<Rightarrow> ('v hash \<times> bool) option" where
  "ogs_hash_unset_if_owner ht str key owner =
     Option.bind (ogs_hash_get ht str key) (\<lambda>indexed.
       if indexed = Some owner then map_option (\<lambda>ht'. (ht', True)) (ogs_hash_set ht str key None)
       else Some (ht, False))"

definition ogs_hash_count :: "'v hash \<Rightarrow> nat" where "ogs_hash_count ht = ht_count ht"

function clear_loop :: "nat \<Rightarrow> 'v hash \<Rightarrow> 'v hash" where
  "clear_loop i ht =
     (if i \<le> ht_max ht then
        clear_loop (i + 1) (ht\<lparr> ht_array := (ht_array ht)[i := []],
          ht_free := ht_free ht + length (ht_array ht ! i) \<rparr>)
      else ht)"
  by pat_completeness auto
termination by (relation "measure (\<lambda>(i, ht). ht_max ht + 1 - i)") auto

declare clear_loop.simps [simp del]

definition ogs_hash_clear :: "'v hash \<Rightarrow> 'v hash" where
  "ogs_hash_clear ht = (clear_loop 0 ht)\<lparr> ht_count := 0 \<rparr>"

subsection \<open>The iteration meets every entry once\<close>

lemma next_loop_cases:
  assumes "length (ht_array ht) = ht_max ht + 1"
  shows "case hash_next_loop ht i s of
      None \<Rightarrow> s @ concat (drop i (ht_array ht)) = []
    | Some (j, t) \<Rightarrow> t \<noteq> [] \<and> s @ concat (drop i (ht_array ht)) = t @ concat (drop j (ht_array ht))"
  using assms
proof (induction ht i s rule: hash_next_loop.induct)
  case (1 ht i s)
  show ?case
  proof (cases "s = [] \<and> i \<le> ht_max ht")
    case True
    then have d: "drop i (ht_array ht) = ht_array ht ! i # drop (i + 1) (ht_array ht)"
      using 1(2) by (simp add: Cons_nth_drop_Suc)
    have n: "hash_next_loop ht i s = hash_next_loop ht (i + 1) (ht_array ht ! i)"
      using True by (subst hash_next_loop.simps) simp
    have e: "s @ concat (drop i (ht_array ht)) = ht_array ht ! i @ concat (drop (i + 1) (ht_array ht))"
      using True d by simp
    show ?thesis unfolding n e using 1 True by simp
  qed (use 1(2) in \<open>auto simp: hash_next_loop.simps[of ht i s]\<close>)
qed

lemma hash_loop_entries:
  assumes "length (ht_array ht) = ht_max ht + 1" "\<And>a e. snd (f a e)"
  shows "hash_loop f ht (hash_next_loop ht i s) a
    = (foldl (\<lambda>a e. fst (f a e)) a (s @ concat (drop i (ht_array ht))), True)"
proof (induction "length (s @ concat (drop i (ht_array ht)))" arbitrary: i s a rule: less_induct)
  case less
  show ?case
  proof (cases "hash_next_loop ht i s")
    case None
    then have "s @ concat (drop i (ht_array ht)) = []"
      using next_loop_cases[OF assms(1), where i = i and s = s] by simp
    with None show ?thesis by (subst hash_loop.simps) (simp del: append_is_Nil_conv)
  next
    case (Some jt)
    then obtain j e t where jt: "jt = (j, e # t)"
      "s @ concat (drop i (ht_array ht)) = e # t @ concat (drop j (ht_array ht))"
      using next_loop_cases[OF assms(1), where i = i and s = s] by (cases jt; cases "snd jt") auto
    have "hash_loop f ht (Some jt) a = hash_loop f ht (hash_next_loop ht j t) (fst (f a e))"
      using jt assms by (subst hash_loop.simps)
        (simp add: ogs_hash_this_def ogs_hash_next_def split: prod.split, metis snd_conv)
    also have "\<dots> = (foldl (\<lambda>a e. fst (f a e)) (fst (f a e)) (t @ concat (drop j (ht_array ht))), True)"
      using jt(2) by (intro less) simp
    finally show ?thesis using Some jt(2) by simp
  qed
qed

definition entries :: "'v hash \<Rightarrow> 'v hentry list" where "entries ht = concat (ht_array ht)"

lemma hash_do_entries:
  assumes "length (ht_array ht) = ht_max ht + 1" "\<And>a e. snd (f a e)"
  shows "ogs_hash_do f a ht = (foldl (\<lambda>a e. fst (f a e)) a (entries ht), True)"
  using hash_loop_entries[OF assms, where i = 0 and s = "[]"] by (simp add: ogs_hash_do_def ogs_hash_first_def entries_def)

subsection \<open>The invariant\<close>

abbreviation bucket :: "'v hash \<Rightarrow> bytes \<Rightarrow> 'v hentry list" where
  "bucket ht k \<equiv> ht_array ht ! slot (ht_max ht) (key_hash ht k)"

abbreviation position :: "'v hash \<Rightarrow> bytes \<Rightarrow> nat" where
  "position ht k \<equiv> find_pos (bucket ht k) (key_hash ht k) k"

text \<open>A chain belongs to slot \<open>i\<close>: no key twice, every hash right and leading here.\<close>

definition chain_ok :: "(bytes \<Rightarrow> u32) \<Rightarrow> nat \<Rightarrow> nat \<Rightarrow> 'v hentry list \<Rightarrow> bool" where
  "chain_ok H n i c \<longleftrightarrow> distinct (map he_key c) \<and> (\<forall>e \<in> set c. he_hash e = H (he_key e) \<and> slot n (H (he_key e)) = i)"

definition hash_ok :: "'v hash \<Rightarrow> bool" where
  "hash_ok ht \<longleftrightarrow> length (ht_array ht) = ht_max ht + 1
     \<and> (\<forall>i \<le> ht_max ht. chain_ok (key_hash ht) (ht_max ht) i (ht_array ht ! i))
     \<and> ht_count ht = length (entries ht)"

definition hash_map :: "'v hash \<Rightarrow> bytes \<Rightarrow> 'v option" where
  "hash_map ht k = map_of (map (\<lambda>e. (he_key e, he_val e)) (bucket ht k)) k"

lemma slot_le: "slot n h \<le> n"
proof -
  have "h AND of_nat n \<le> of_nat n" by (rule word_and_le1)
  then have "unat (h AND of_nat n) \<le> unat (of_nat n :: u32)" by (simp add: word_le_nat_alt)
  also have "\<dots> \<le> n" by (simp add: unsigned_of_nat)
  finally show ?thesis by (simp add: slot_def)
qed

lemma slot_bound: "hash_ok ht \<Longrightarrow> slot (ht_max ht) h < length (ht_array ht)"
  using slot_le[of "ht_max ht" h] by (simp add: hash_ok_def)

lemma bucket_ok: "hash_ok ht \<Longrightarrow> chain_ok (key_hash ht) (ht_max ht) (slot (ht_max ht) h) (ht_array ht ! slot (ht_max ht) h)"
  using slot_le[of "ht_max ht" h] by (simp add: hash_ok_def)

lemma mset_concat_update:
  "i < length xs \<Longrightarrow> mset (concat (xs[i := ys])) + mset (xs ! i) = mset (concat xs) + mset ys"
proof (induction xs arbitrary: i)
  case (Cons x xs)
  then show ?case by (cases i) (auto simp: ac_simps)
qed simp

abbreviation kv :: "'v hentry list \<Rightarrow> (bytes \<times> 'v) list" where
  "kv c \<equiv> map (\<lambda>e. (he_key e, he_val e)) c"

lemma kv_None: "map_of (kv c) x = None \<longleftrightarrow> x \<notin> he_key ` set c"
  by (induction c) auto

lemma find_pos_found: "find_pos es h k < length es \<Longrightarrow> he_key (es ! find_pos es h k) = k \<and> he_hash (es ! find_pos es h k) = h"
  by (induction es) auto

lemma find_pos_missing: "\<not> find_pos es h k < length es \<Longrightarrow> find_pos es h k = length es
    \<and> (\<forall>e \<in> set es. \<not> (he_hash e = h \<and> he_key e = k))"
  by (induction es) (auto split: if_splits)

lemma position_found:
  assumes "hash_ok ht" "position ht k < length (bucket ht k)"
  shows "hash_map ht k = Some (he_val (bucket ht k ! position ht k)) \<and> he_key (bucket ht k ! position ht k) = k"
  using find_pos_found[OF assms(2)] assms(2) bucket_ok[OF assms(1), of "key_hash ht k"]
  by (auto simp: hash_map_def chain_ok_def comp_def intro!: map_of_is_SomeI image_eqI[OF _ nth_mem])

lemma position_missing:
  assumes "hash_ok ht" "\<not> position ht k < length (bucket ht k)"
  shows "position ht k = length (bucket ht k) \<and> hash_map ht k = None \<and> k \<notin> he_key ` set (bucket ht k)"
proof -
  have "\<forall>e \<in> set (bucket ht k). he_hash e = key_hash ht (he_key e)"
    using bucket_ok[OF assms(1), of "key_hash ht k"] unfolding chain_ok_def by blast
  then have "k \<notin> he_key ` set (bucket ht k)" using find_pos_missing[OF assms(2)] by blast
  then show ?thesis
    using find_pos_missing[OF assms(2)] unfolding hash_map_def kv_None by blast
qed

lemma hash_get_map: "hash_ok ht \<Longrightarrow> hash_get ht key = hash_map ht (snd key)"
  using position_found[of ht "snd key"] position_missing[of ht "snd key"]
  by (auto simp: hash_get_def find_entry_def Let_def)

lemma entry_slot:
  assumes "hash_ok ht" "i < length (ht_array ht)" "e \<in> set (ht_array ht ! i)"
  shows "slot (ht_max ht) (key_hash ht (he_key e)) = i"
proof -
  have "chain_ok (key_hash ht) (ht_max ht) i (ht_array ht ! i)" using assms by (simp add: hash_ok_def)
  with assms(3) show ?thesis by (auto simp: chain_ok_def)
qed

lemma entry_hash:
  assumes "hash_ok ht" "i < length (ht_array ht)" "e \<in> set (ht_array ht ! i)"
  shows "he_hash e = key_hash ht (he_key e)"
proof -
  have "chain_ok (key_hash ht) (ht_max ht) i (ht_array ht ! i)" using assms by (simp add: hash_ok_def)
  with assms(3) show ?thesis by (auto simp: chain_ok_def)
qed

text \<open>One chain changed.\<close>

lemma chain_change:
  assumes "hash_ok ht" "i = slot (ht_max ht) (key_hash ht k)"
    and "ht_array ht' = (ht_array ht)[i := c]" "ht_max ht' = ht_max ht" "ht_seed ht' = ht_seed ht"
      "ht_func ht' = ht_func ht"
    and "chain_ok (key_hash ht) (ht_max ht) i c"
    and "ht_count ht' + length (ht_array ht ! i) = ht_count ht + length c"
  shows "hash_ok ht' \<and> (\<forall>k'. hash_map ht' k' = (if slot (ht_max ht) (key_hash ht k') = i
      then map_of (map (\<lambda>e. (he_key e, he_val e)) c) k' else hash_map ht k'))"
proof -
  have i: "i < length (ht_array ht)" unfolding assms(2) by (rule slot_bound[OF assms(1)])
  have kh: "key_hash ht' = key_hash ht" using assms(5,6) by (auto simp: key_hash_def fun_eq_iff split: option.splits)
  have "length (entries ht') + length (ht_array ht ! i) = length (entries ht) + length c"
    using arg_cong[OF mset_concat_update[OF i, of c], of size] by (simp add: entries_def assms(3))
  then have cnt: "ht_count ht' = length (entries ht')" using assms(1,8) by (simp add: hash_ok_def)
  have "chain_ok (key_hash ht) (ht_max ht) j ((ht_array ht)[i := c] ! j)" if "j \<le> ht_max ht" for j
    using assms(1,7) that i by (cases "j = i") (auto simp: hash_ok_def)
  then have "hash_ok ht'" using assms(1) cnt kh by (simp add: hash_ok_def assms(3,4))
  moreover have "hash_map ht' k' = (if slot (ht_max ht) (key_hash ht k') = i
      then map_of (map (\<lambda>e. (he_key e, he_val e)) c) k' else hash_map ht k')" for k'
    using i by (auto simp: hash_map_def kh assms(3,4))
  ultimately show ?thesis by blast
qed

lemma map_in_bucket: "hash_ok ht \<Longrightarrow> slot (ht_max ht) (key_hash ht k') = slot (ht_max ht) (key_hash ht k) \<Longrightarrow>
   map_of (map (\<lambda>e. (he_key e, he_val e)) (bucket ht k)) k' = hash_map ht k'"
  by (simp add: hash_map_def)

subsection \<open>Growth\<close>

lemma hash_map_entries:
  assumes "hash_ok ht"
  shows "hash_map ht k = Some v \<longleftrightarrow> (\<exists>e \<in> set (entries ht). he_key e = k \<and> he_val e = v)"
proof -
  have "e \<in> set (bucket ht k) \<longleftrightarrow> e \<in> set (entries ht)" if "he_key e = k" for e
  proof
    show "e \<in> set (bucket ht k) \<Longrightarrow> e \<in> set (entries ht)"
      using nth_mem[OF slot_bound[OF assms, of "key_hash ht k"]] by (auto simp: entries_def)
    assume "e \<in> set (entries ht)"
    then obtain j where "j < length (ht_array ht)" "e \<in> set (ht_array ht ! j)"
      unfolding entries_def by (metis UN_E in_set_conv_nth set_concat)
    then show "e \<in> set (bucket ht k)" using entry_slot[OF assms] that by auto
  qed
  moreover have "distinct (map he_key (bucket ht k))"
    using bucket_ok[OF assms, of "key_hash ht k"] by (simp add: chain_ok_def)
  ultimately show ?thesis
    unfolding hash_map_def by (subst map_of_eq_Some_iff) (auto simp: comp_def)
qed

lemma distinct_concat_slots:
  "(\<And>i. i < length arr \<Longrightarrow> distinct (map f (arr ! i)) \<and> (\<forall>e \<in> set (arr ! i). g (f e) = (i :: nat) + k)) \<Longrightarrow>
   distinct (map f (concat arr))"
proof (induction arr arbitrary: k)
  case (Cons c arr)
  have "distinct (map f (concat arr))"
    using Cons.prems[of "Suc _"] by (intro Cons.IH[of "Suc k"]) force
  moreover have "f x \<noteq> f y" if "x \<in> set c" "d \<in> set arr" "y \<in> set d" for x y d
  proof -
    obtain i where "i < length arr" "d = arr ! i" using \<open>d \<in> set arr\<close> by (metis in_set_conv_nth)
    then show ?thesis using Cons.prems[of 0] Cons.prems[of "Suc i"] that by force
  qed
  ultimately show ?case using Cons.prems[of 0] by (auto simp: distinct_map inj_on_Un)
qed simp

lemma distinct_entries: "hash_ok ht \<Longrightarrow> distinct (map he_key (entries ht))"
  unfolding entries_def
  by (rule distinct_concat_slots[where g = "\<lambda>k. slot (ht_max ht) (key_hash ht k)" and k = 0])
    (auto simp: entry_slot, simp add: hash_ok_def chain_ok_def)

lemma push_entries:
  fixes n :: nat and es :: "'v hentry list"
  defines "push \<equiv> \<lambda>(arr :: 'v hentry list list) e. arr[slot n (he_hash e) := e # arr ! slot n (he_hash e)]"
  assumes "length arr = n + 1" "\<forall>i \<le> n. \<forall>e \<in> set (arr ! i). slot n (he_hash e) = i"
  shows "length (foldl push arr es) = n + 1
    \<and> (\<forall>i \<le> n. \<forall>e \<in> set (foldl push arr es ! i). slot n (he_hash e) = i)
    \<and> mset (concat (foldl push arr es)) = mset (concat arr) + mset es"
  using assms(2,3)
proof (induction es arbitrary: arr)
  case (Cons e es)
  let ?i = "slot n (he_hash e)"
  have i: "?i < length arr" using Cons.prems slot_le[of n "he_hash e"] by simp
  have "\<forall>j \<le> n. \<forall>x \<in> set (push arr e ! j). slot n (he_hash x) = j"
  proof (intro allI impI)
    fix j assume "j \<le> n"
    then show "\<forall>x \<in> set (push arr e ! j). slot n (he_hash x) = j"
      using Cons.prems i by (cases "j = ?i") (auto simp: push_def)
  qed
  moreover have "length (push arr e) = n + 1" using Cons.prems by (simp add: push_def)
  moreover have "mset (concat (push arr e)) = mset (concat arr) + {#e#}"
    using mset_concat_update[OF i, of "e # arr ! ?i"] by (simp add: push_def)
  ultimately show ?case using Cons.IH[of "push arr e"] by simp
qed simp

lemma expand_array_ok:
  assumes "hash_ok ht"
  shows "hash_ok (expand_array ht) \<and> hash_map (expand_array ht) = hash_map ht
    \<and> mset (entries (expand_array ht)) = mset (entries ht)"
proof -
  let ?n = "ht_max ht * 2 + 1" and ?ht = "expand_array ht"
  have len: "length (ht_array ht) = ht_max ht + 1" using assms by (simp add: hash_ok_def)
  let ?push = "\<lambda>(arr :: 'a hentry list list) e.
      arr[slot ?n (he_hash e) := e # arr ! slot ?n (he_hash e)]"
  have f: "hash_loop (\<lambda>arr e. (?push arr e, True)) ht (ogs_hash_first ht) a = (foldl ?push a (entries ht), True)" for a
    using hash_do_entries[OF len, of "\<lambda>arr e. (?push arr e, True)" a] by (simp add: ogs_hash_do_def)
  have a: "ht_array ?ht = foldl ?push (alloc_array ?n) (entries ht)" "ht_max ?ht = ?n"
      "ht_count ?ht = ht_count ht" "ht_seed ?ht = ht_seed ht" "ht_func ?ht = ht_func ht"
    unfolding expand_array_def Let_def f by simp_all
  have k: "key_hash ?ht = key_hash ht"
    using a(4,5) by (auto simp: key_hash_def fun_eq_iff split: option.splits)
  have "length (alloc_array ?n :: 'a hentry list list) = ?n + 1"
    "\<forall>i \<le> ?n. \<forall>e \<in> set ((alloc_array ?n :: 'a hentry list list) ! i). slot ?n (he_hash e) = i"
    by (simp_all add: alloc_array_def del: replicate_Suc)
  note pe = push_entries[OF this, of "entries ht"]
  have "concat (alloc_array ?n :: 'a hentry list list) = []" by (simp add: alloc_array_def del: replicate_Suc)
  with pe have "mset (concat (foldl ?push (alloc_array ?n) (entries ht))) = mset (entries ht)"
    by (simp only: mset.simps add_0)
  then have p: "length (ht_array ?ht) = ?n + 1" "\<forall>i \<le> ?n. \<forall>e \<in> set (ht_array ?ht ! i). slot ?n (he_hash e) = i"
      "mset (entries ?ht) = mset (entries ht)"
    using pe unfolding a(1) entries_def[of ?ht] by blast+
  have s: "set (entries ?ht) = set (entries ht)" using p(3) by (metis set_mset_mset)
  have d: "distinct (map he_key (concat (ht_array ?ht)))"
    using distinct_entries[OF assms] mset_eq_imp_distinct_iff[of "map he_key (entries ?ht)" "map he_key (entries ht)"] p(3)
    by (simp add: mset_map entries_def)
  have c: "chain_ok (key_hash ht) ?n i (ht_array ?ht ! i)" if "i \<le> ?n" for i
  proof -
    have m: "ht_array ?ht ! i \<in> set (ht_array ?ht)" using that p(1) by simp
    then obtain xs ys where "ht_array ?ht = xs @ ht_array ?ht ! i # ys" by (meson split_list)
    from d[unfolded arg_cong[OF this, of concat]] have "distinct (map he_key (ht_array ?ht ! i))" by simp
    moreover have "he_hash e = key_hash ht (he_key e)" if "e \<in> set (ht_array ?ht ! i)" for e
    proof -
      have "e \<in> set (entries ht)" using that m s by (auto simp: entries_def)
      then obtain j where "j < length (ht_array ht)" "e \<in> set (ht_array ht ! j)"
        unfolding entries_def by (metis UN_E in_set_conv_nth set_concat)
      then show ?thesis by (rule entry_hash[OF assms])
    qed
    ultimately show ?thesis using p(2) that by (auto simp: chain_ok_def)
  qed
  have ok: "hash_ok ?ht"
    using c p(1) mset_eq_length[OF p(3)] a(2,3) assms by (simp add: hash_ok_def k)
  have "hash_map ?ht x = hash_map ht x" for x
    using hash_map_entries[OF ok, of x] hash_map_entries[OF assms, of x] s by (metis not_Some_eq)
  with ok p(3) show ?thesis by auto
qed

lemma grow_ok:
  "hash_ok ht \<Longrightarrow> hash_ok (grow_if_full ht) \<and> hash_map (grow_if_full ht) = hash_map ht"
  using expand_array_ok[of ht] by (simp add: grow_if_full_def)

subsection \<open>Storing and deleting\<close>

lemma map_delete:
  "distinct (map he_key (xs @ e # ys)) \<Longrightarrow>
   map_of (kv (xs @ ys)) x = (if x = he_key e then None else map_of (kv (xs @ e # ys)) x)"
proof (induction xs)
  case Nil
  then show ?case by (auto simp: kv_None simp del: map_of_map)
qed auto

lemma map_exchange:
  "distinct (map he_key (xs @ e # ys)) \<Longrightarrow>
   map_of (kv (xs @ e\<lparr> he_val := v \<rparr> # ys)) x = (if x = he_key e then Some v else map_of (kv (xs @ e # ys)) x)"
  by (induction xs) auto

lemma map_append_entry:
  "he_key e \<notin> he_key ` set c \<Longrightarrow>
   map_of (kv (c @ [e])) x = (if x = he_key e then Some (he_val e) else map_of (kv c) x)"
  by (induction c) auto

lemma chain_delete:
  "chain_ok H n i (xs @ e # ys) \<Longrightarrow> chain_ok H n i (xs @ ys)
    \<and> map_of (kv (xs @ ys)) x = (if x = he_key e then None else map_of (kv (xs @ e # ys)) x)"
  using map_delete[of xs e ys x] by (simp add: chain_ok_def)

lemma chain_exchange:
  "chain_ok H n i (xs @ e # ys) \<Longrightarrow> chain_ok H n i (xs @ e\<lparr> he_val := v \<rparr> # ys)
    \<and> map_of (kv (xs @ e\<lparr> he_val := v \<rparr> # ys)) x = (if x = he_key e then Some v else map_of (kv (xs @ e # ys)) x)"
  using map_exchange[of xs e ys v x] by (simp add: chain_ok_def)

lemma chain_append_entry:
  "chain_ok H n i c \<Longrightarrow> he_key e \<notin> he_key ` set c \<Longrightarrow> he_hash e = H (he_key e) \<Longrightarrow> slot n (he_hash e) = i \<Longrightarrow>
   chain_ok H n i (c @ [e]) \<and> map_of (kv (c @ [e])) x = (if x = he_key e then Some (he_val e) else map_of (kv c) x)"
  using map_append_entry[of e c x] by (simp add: chain_ok_def)

lemma hash_delete_ok:
  assumes "hash_ok ht"
  shows "hash_ok (hash_set ht key None) \<and> hash_map (hash_set ht key None) = (hash_map ht)(snd key := None)"
proof (cases "position ht (snd key) < length (bucket ht (snd key))")
  case True
  let ?k = "snd key" let ?c = "bucket ht ?k" and ?p = "position ht ?k"
  let ?ht = "hash_set ht key None"
  have split: "?c = take ?p ?c @ ?c ! ?p # drop (?p + 1) ?c" using id_take_nth_drop[OF True] by simp
  have ht: "?ht = ht\<lparr> ht_array := (ht_array ht)[slot (ht_max ht) (key_hash ht ?k) := take ?p ?c @ drop (?p + 1) ?c],
      ht_free := ht_free ht + 1, ht_count := ht_count ht - 1 \<rparr>"
    using True by (simp add: hash_set_def find_entry_def Let_def)
  note ek = position_found[OF assms True, THEN conjunct2]
  note cd = chain_delete[OF bucket_ok[OF assms, of "key_hash ht ?k", unfolded arg_cong[OF split, of "chain_ok _ _ _"]]]
  have "?c ! ?p \<in> set (entries ht)"
    using nth_mem[OF True] nth_mem[OF slot_bound[OF assms, of "key_hash ht ?k"]] unfolding entries_def set_concat by blast
  then have pos: "0 < ht_count ht" using assms by (auto simp: hash_ok_def)
  have "hash_ok ?ht \<and> (\<forall>k'. hash_map ?ht k' = (if slot (ht_max ht) (key_hash ht k') = slot (ht_max ht) (key_hash ht ?k)
      then map_of (kv (take ?p ?c @ drop (?p + 1) ?c)) k' else hash_map ht k'))"
    using True cd pos by (intro chain_change[OF assms refl]) (simp_all add: ht)
  moreover have "map_of (kv (take ?p ?c @ drop (?p + 1) ?c)) k' = (if k' = ?k then None else hash_map ht k')"
    if "slot (ht_max ht) (key_hash ht k') = slot (ht_max ht) (key_hash ht ?k)" for k'
    using cd[of k'] map_in_bucket[OF assms that] ek split by simp
  ultimately show ?thesis by (auto simp: fun_eq_iff)
next
  case False
  then show ?thesis using position_missing[OF assms False] assms
    by (auto simp: hash_set_def find_entry_def Let_def fun_eq_iff)
qed

lemma chain_change_map:
  assumes "hash_ok ht" "ht_array ht' = (ht_array ht)[slot (ht_max ht) (key_hash ht k) := c]"
    and "ht_max ht' = ht_max ht" "ht_seed ht' = ht_seed ht" "ht_func ht' = ht_func ht"
    and "chain_ok (key_hash ht) (ht_max ht) (slot (ht_max ht) (key_hash ht k)) c"
    and "ht_count ht' + length (bucket ht k) = ht_count ht + length c"
    and "\<And>x. map_of (kv c) x = (if x = k then r else map_of (kv (bucket ht k)) x)"
  shows "hash_ok ht' \<and> hash_map ht' = (hash_map ht)(k := r)"
proof -
  note cc = chain_change[OF assms(1) refl assms(2-7)]
  have "hash_map ht' x = ((hash_map ht)(k := r)) x" for x
    using cc assms(8)[of x] map_in_bucket[OF assms(1), of x k] by (auto simp: hash_map_def)
  with cc show ?thesis by auto
qed

definition new_entry :: "'v hash \<Rightarrow> hkey \<Rightarrow> 'v \<Rightarrow> 'v hentry" where
  "new_entry ht key v = \<lparr> he_hash = key_hash ht (snd key), he_ptr = fst key, he_key = snd key, he_val = v \<rparr>"

lemma find_entry_new:
  assumes "\<not> position ht (snd key) < length (bucket ht (snd key))"
  shows "find_entry ht key (Some v) = (ht\<lparr> ht_array := (ht_array ht)[slot (ht_max ht) (key_hash ht (snd key)) :=
      bucket ht (snd key) @ [new_entry ht key v]], ht_count := ht_count ht + 1, ht_free := ht_free ht - 1 \<rparr>,
    slot (ht_max ht) (key_hash ht (snd key)), position ht (snd key))"
  using assms by (simp add: find_entry_def Let_def new_entry_def)

lemma new_entry_ok:
  assumes "hash_ok ht" "\<not> position ht (snd key) < length (bucket ht (snd key))"
  shows "hash_ok (fst (find_entry ht key (Some v)))
    \<and> hash_map (fst (find_entry ht key (Some v))) = (hash_map ht)(snd key \<mapsto> v)"
proof -
  note m = position_missing[OF assms]
  have ca: "chain_ok (key_hash ht) (ht_max ht) (slot (ht_max ht) (key_hash ht (snd key))) (bucket ht (snd key) @ [new_entry ht key v])
    \<and> map_of (kv (bucket ht (snd key) @ [new_entry ht key v])) x
      = (if x = snd key then Some v else map_of (kv (bucket ht (snd key))) x)" for x
    using chain_append_entry[OF bucket_ok[OF assms(1), of "key_hash ht (snd key)"], of "new_entry ht key v" x] m
    by (simp add: new_entry_def)
  show ?thesis
    unfolding find_entry_new[OF assms(2)] fst_conv
    using ca by (intro chain_change_map[OF assms(1), where k = "snd key" and c = "bucket ht (snd key) @ [new_entry ht key v]"]) simp_all
qed

lemma found_entry_ok:
  fixes v :: 'v and ht :: "'v hash"
  assumes "hash_ok ht" "position ht k < length (bucket ht k)"
  defines "e' \<equiv> (bucket ht k ! position ht k)\<lparr> he_val := v \<rparr>"
  shows "hash_ok (ht\<lparr> ht_array := (ht_array ht)[slot (ht_max ht) (key_hash ht k) := (bucket ht k)[position ht k := e']] \<rparr>)
    \<and> hash_map (ht\<lparr> ht_array := (ht_array ht)[slot (ht_max ht) (key_hash ht k) := (bucket ht k)[position ht k := e']] \<rparr>)
      = (hash_map ht)(k \<mapsto> v)"
proof -
  let ?c = "bucket ht k" and ?p = "position ht k"
  have split: "?c = take ?p ?c @ ?c ! ?p # drop (?p + 1) ?c" using id_take_nth_drop[OF assms(2)] by simp
  have upd: "?c[?p := e'] = take ?p ?c @ e' # drop (?p + 1) ?c" using upd_conv_take_nth_drop[OF assms(2)] by simp
  note ek = position_found[OF assms(1,2), THEN conjunct2]
  note ce = chain_exchange[OF bucket_ok[OF assms(1), of "key_hash ht k", unfolded arg_cong[OF split, of "chain_ok _ _ _"]],
      of v, folded e'_def]
  have m: "map_of (kv (?c[?p := e'])) x = (if x = k then Some v else map_of (kv ?c) x)" for x
    unfolding upd using ce[of x] ek split by simp
  have "chain_ok (key_hash ht) (ht_max ht) (slot (ht_max ht) (key_hash ht k)) (?c[?p := e'])"
    unfolding upd using ce by blast
  with m show ?thesis by (intro chain_change_map[OF assms(1), where k = k and c = "?c[?p := e']"]) simp_all
qed

lemma hash_store_ok:
  assumes "hash_ok ht"
  shows "hash_ok (hash_set ht key (Some v)) \<and> hash_map (hash_set ht key (Some v)) = (hash_map ht)(snd key \<mapsto> v)"
proof (cases "position ht (snd key) < length (bucket ht (snd key))")
  case True
  have "hash_set ht key (Some v) = grow_if_full (ht\<lparr> ht_array := (ht_array ht)[slot (ht_max ht) (key_hash ht (snd key)) :=
      (bucket ht (snd key))[position ht (snd key) := (bucket ht (snd key) ! position ht (snd key))\<lparr> he_val := v \<rparr>]] \<rparr>)"
    using True by (simp add: hash_set_def find_entry_def Let_def)
  with found_entry_ok[OF assms True, of v] grow_ok show ?thesis by auto
next
  case False
  note new = new_entry_ok[OF assms False, of v]
  have i: "slot (ht_max ht) (key_hash ht (snd key)) < length (ht_array ht)" by (rule slot_bound[OF assms])
  have "hash_set ht key (Some v) = grow_if_full (fst (find_entry ht key (Some v)))"
    using i position_missing[OF assms False]
    unfolding hash_set_def find_entry_new[OF False]
    by (simp add: Let_def nth_append new_entry_def list_update_append)
      (rule arg_cong[where f = grow_if_full], rule hash.equality, simp_all)
  with new grow_ok[of "fst (find_entry ht key (Some v))"] show ?thesis by simp
qed

lemma hash_set_ok:
  "hash_ok ht \<Longrightarrow> hash_ok (hash_set ht key v) \<and> hash_map (hash_set ht key v) = (hash_map ht)(snd key := v)"
  by (cases v) (simp_all add: hash_delete_ok hash_store_ok)

lemma hash_get_or_set_ok:
  assumes "hash_ok ht"
  shows "hash_ok (fst (hash_get_or_set ht key v))
    \<and> hash_map (fst (hash_get_or_set ht key v))
       = (if hash_map ht (snd key) = None then (hash_map ht)(snd key := v) else hash_map ht)
    \<and> snd (hash_get_or_set ht key v) = (case hash_map ht (snd key) of None \<Rightarrow> v | Some w \<Rightarrow> Some w)"
proof (cases "position ht (snd key) < length (bucket ht (snd key))")
  case True
  have "hash_get_or_set ht key v = (grow_if_full ht, Some (he_val (bucket ht (snd key) ! position ht (snd key))))"
    using True by (cases v) (simp_all add: hash_get_or_set_def find_entry_def Let_def)
  then show ?thesis using grow_ok[OF assms] position_found[OF assms True] by simp
next
  case False
  note n = position_missing[OF assms False]
  show ?thesis
  proof (cases v)
    case None
    then show ?thesis using n assms False by (auto simp: hash_get_or_set_def find_entry_def Let_def fun_eq_iff)
  next
    case (Some w)
    have i: "slot (ht_max ht) (key_hash ht (snd key)) < length (ht_array ht)" by (rule slot_bound[OF assms])
    have "hash_get_or_set ht key v = (grow_if_full (fst (find_entry ht key (Some w))), Some w)"
      using i n unfolding hash_get_or_set_def Some find_entry_new[OF False]
      by (simp add: Let_def nth_append new_entry_def)
    with new_entry_ok[OF assms False, of w] grow_ok[of "fst (find_entry ht key (Some w))"] n Some show ?thesis by simp
  qed
qed

lemma hash_make_ok: "hash_ok (ogs_hash_make seed)" "hash_map (ogs_hash_make seed) = Map.empty"
    "hash_ok (ogs_hash_make_custom seed f)" "hash_map (ogs_hash_make_custom seed f) = Map.empty"
proof -
  have e: "concat (alloc_array n) = []" "i \<le> n \<Longrightarrow> (alloc_array n :: 'v hentry list list) ! i = []" for n i
    by (simp_all add: alloc_array_def del: replicate_Suc)
  show "hash_ok (ogs_hash_make seed)" "hash_ok (ogs_hash_make_custom seed f)"
    by (simp_all add: hash_ok_def ogs_hash_make_def ogs_hash_make_custom_def entries_def e chain_ok_def)
      (simp_all add: alloc_array_def del: replicate_Suc)
  show "hash_map (ogs_hash_make seed) = Map.empty" "hash_map (ogs_hash_make_custom seed f) = Map.empty"
    by (simp_all add: fun_eq_iff hash_map_def ogs_hash_make_def ogs_hash_make_custom_def e slot_le)
qed

subsection \<open>Clearing\<close>

lemma clear_loop_result:
  "length (ht_array ht) = ht_max ht + 1 \<Longrightarrow> i \<le> ht_max ht + 1 \<Longrightarrow>
   clear_loop i ht = ht\<lparr> ht_array := take i (ht_array ht) @ replicate (ht_max ht + 1 - i) [],
     ht_free := ht_free ht + sum_list (map length (drop i (ht_array ht))) \<rparr>"
proof (induction i ht rule: clear_loop.induct)
  case (1 i ht)
  show ?case
  proof (cases "i \<le> ht_max ht")
    case True
    then have "i < length (ht_array ht)" using 1(2) by simp
    then have d: "drop i (ht_array ht) = ht_array ht ! i # drop (Suc i) (ht_array ht)"
      "take (Suc i) ((ht_array ht)[i := []]) = take i (ht_array ht) @ [[]]"
      "drop (Suc i) ((ht_array ht)[i := []]) = drop (Suc i) (ht_array ht)"
      by (simp_all add: Cons_nth_drop_Suc take_Suc_conv_app_nth)
    have r: "replicate (ht_max ht + 1 - i) [] = ([] :: 'a hentry list) # replicate (ht_max ht + 1 - Suc i) []"
      using True by (simp add: Suc_diff_le)
    show ?thesis using 1 True d r by (subst clear_loop.simps) simp
  next
    case False
    then show ?thesis using 1 by (subst clear_loop.simps) simp
  qed
qed

lemma hash_clear_ok:
  assumes "hash_ok ht"
  shows "hash_ok (ogs_hash_clear ht) \<and> hash_map (ogs_hash_clear ht) = Map.empty
    \<and> ht_free (ogs_hash_clear ht) = ht_free ht + ht_count ht"
proof -
  let ?ht = "ogs_hash_clear ht"
  have l: "length (ht_array ht) = ht_max ht + 1" using assms by (simp add: hash_ok_def)
  have a: "ht_array ?ht = replicate (ht_max ht + 1) []" "ht_max ?ht = ht_max ht" "ht_count ?ht = 0"
     "ht_free ?ht = ht_free ht + sum_list (map length (ht_array ht))"
    by (simp_all add: ogs_hash_clear_def clear_loop_result[OF l] del: replicate_Suc)
  have "ht_array ?ht ! j = []" if "j \<le> ht_max ht" for j using that by (simp add: a(1) del: replicate_Suc)
  moreover have "entries ?ht = []" by (simp add: entries_def a(1) del: replicate_Suc)
  ultimately show ?thesis
    using assms by (auto simp: hash_ok_def a(2-4) chain_ok_def hash_map_def slot_le fun_eq_iff entries_def length_concat)
      (simp add: a(1) del: replicate_Suc)
qed

subsection \<open>The interface\<close>

text \<open>
  What the users of a table rely on: a finite map from the contents of a key. The two idioms of
  the contexts follow: exchanging an entry together with its key, and giving up an entry only
  while it is one's own.
\<close>

locale keyed_index =
  fixes ok :: "'s \<Rightarrow> bool" and get :: "'s \<Rightarrow> 'k \<Rightarrow> 'v option" and put :: "'s \<Rightarrow> 'k \<Rightarrow> 'v option \<Rightarrow> 's"
    and name :: "'k \<Rightarrow> 'n"
  assumes get_put: "ok s \<Longrightarrow> get (put s k v) k' = (if name k' = name k then v else get s k')"
    and ok_put: "ok s \<Longrightarrow> ok (put s k v)"
begin

lemma put_put: "ok s \<Longrightarrow> get (put (put s k u) k v) k' = get (put s k v) k'"
  by (simp add: get_put ok_put)

lemma reclaimed: "ok s \<Longrightarrow> name k' = name k \<Longrightarrow> c \<noteq> d \<Longrightarrow>
   get (put (put s k (Some c)) k' (Some d)) k = Some d \<and> get (put (put s k (Some c)) k' (Some d)) k \<noteq> Some c"
  by (simp add: get_put ok_put)

lemma give_up: "ok s \<Longrightarrow> get (if get s k = Some c then put s k None else s) k \<noteq> Some c"
  by (simp add: get_put)

lemma give_up_others: "ok s \<Longrightarrow> get s k = Some d \<Longrightarrow> c \<noteq> d \<Longrightarrow>
   get (if get s k = Some c then put s k None else s) k' = get s k'"
  by simp

end

interpretation hx: keyed_index hash_ok hash_get hash_set snd
proof
  fix s :: "'v hash" and k k' v
  assume "hash_ok s"
  then show "hash_ok (hash_set s k v)" "hash_get (hash_set s k v) k' = (if snd k' = snd k then v else hash_get s k')"
    using hash_set_ok[of s k v] by (auto simp: hash_get_map)
qed

subsection \<open>Properties\<close>

datatype 'v hash_op = Set hkey "'v option" | Get_Or_Set hkey "'v option" | Rekey hkey 'v | Clear

fun hash_step :: "'v hash_op \<Rightarrow> 'v hash \<Rightarrow> 'v hash option" where
  "hash_step (Set k v) ht = ogs_hash_set ht False k v"
| "hash_step (Get_Or_Set k v) ht = map_option fst (ogs_hash_get_or_set ht False k v)"
| "hash_step (Rekey k v) ht = ogs_hash_set_rekey ht False k v"
| "hash_step Clear ht = Some (ogs_hash_clear ht)"

fun hash_run :: "'v hash_op list \<Rightarrow> 'v hash \<Rightarrow> 'v hash option" where
  "hash_run [] ht = Some ht"
| "hash_run (x # xs) ht = Option.bind (hash_step x ht) (hash_run xs)"

text \<open>The same on a map from the contents of the keys.\<close>

fun map_step :: "'v hash_op \<Rightarrow> (bytes \<Rightarrow> 'v option) \<Rightarrow> (bytes \<Rightarrow> 'v option)" where
  "map_step (Set k v) m = m(snd k := v)"
| "map_step (Get_Or_Set k v) m = (if m (snd k) = None then m(snd k := v) else m)"
| "map_step (Rekey k v) m = m(snd k \<mapsto> v)"
| "map_step Clear m = Map.empty"

fun op_ok :: "'v hash_op \<Rightarrow> bool" where
  "op_ok (Set k v) \<longleftrightarrow> snd k \<noteq> []"
| "op_ok (Get_Or_Set k v) \<longleftrightarrow> snd k \<noteq> []"
| "op_ok (Rekey k v) \<longleftrightarrow> snd k \<noteq> []"
| "op_ok Clear \<longleftrightarrow> True"

lemma hash_step_ok:
  assumes "hash_ok ht" "op_ok x"
  shows "\<exists>ht'. hash_step x ht = Some ht' \<and> hash_ok ht' \<and> hash_map ht' = map_step x (hash_map ht)"
proof (cases x)
  case (Set k v)
  with assms hash_set_ok[of ht k v] show ?thesis by (auto simp: ogs_hash_set_def klen_ok_def)
next
  case (Get_Or_Set k v)
  with assms hash_get_or_set_ok[of ht k v] show ?thesis by (auto simp: ogs_hash_get_or_set_def klen_ok_def)
next
  case (Rekey k v)
  with assms hash_set_ok[of ht k None] hash_set_ok[of "hash_set ht k None" k "Some v"] show ?thesis
    by (auto simp: ogs_hash_set_rekey_def ogs_hash_set_def klen_ok_def)
next
  case Clear
  with assms hash_clear_ok show ?thesis by auto
qed

lemma hash_run_ok:
  "hash_ok ht \<Longrightarrow> list_all op_ok xs \<Longrightarrow>
   \<exists>ht'. hash_run xs ht = Some ht' \<and> hash_ok ht' \<and> hash_map ht' = fold map_step xs (hash_map ht)"
proof (induction xs arbitrary: ht)
  case (Cons x xs)
  then obtain ht1 where "hash_step x ht = Some ht1" "hash_ok ht1" "hash_map ht1 = map_step x (hash_map ht)"
    using hash_step_ok[of ht x] by auto
  with Cons.IH[of ht1] Cons.prems(2) show ?case by simp
qed simp

lemma entries_map:
  assumes "hash_ok ht"
  shows "map_of (kv (entries ht)) = hash_map ht"
proof
  fix k
  have "map_of (kv (entries ht)) k = Some v \<longleftrightarrow> hash_map ht k = Some v" for v
    using distinct_entries[OF assms] hash_map_entries[OF assms, of k v]
    by (subst map_of_eq_Some_iff) (auto simp: comp_def)
  then show "map_of (kv (entries ht)) k = hash_map ht k" by (metis not_Some_eq)
qed

text \<open>C20. The table refines a map. After any sequence of storing, deleting, storing if absent,
  rekeying and clearing, through however many growths of the array, a lookup gives what a map
  treated the same way gives, the count is the size of the map, and \<open>ogs_hash_do\<close> meets
  every key exactly once, with its value.\<close>

theorem hash_refines_map:
  assumes "list_all op_ok ops"
  shows "\<exists>ht l. hash_run ops (ogs_hash_make seed) = Some ht
    \<and> (\<forall>key str. klen_ok str key \<longrightarrow> ogs_hash_get ht str key = Some (fold map_step ops Map.empty (snd key)))
    \<and> ogs_hash_do (\<lambda>l e. (l @ [(he_key e, he_val e)], True)) [] ht = (l, True)
    \<and> distinct (map fst l) \<and> map_of l = fold map_step ops Map.empty \<and> ogs_hash_count ht = length l"
proof -
  obtain ht where ht: "hash_run ops (ogs_hash_make seed) = Some ht" "hash_ok ht"
      "hash_map ht = fold map_step ops Map.empty"
    using hash_run_ok[OF hash_make_ok(1) assms, of seed] by (auto simp: hash_make_ok)
  have len: "length (ht_array ht) = ht_max ht + 1" using ht(2) by (simp add: hash_ok_def)
  have f: "foldl (\<lambda>l e. l @ [(he_key e, he_val e)]) a es = a @ kv es" for a and es :: "'a hentry list"
    by (induction es arbitrary: a) auto
  have "ogs_hash_do (\<lambda>l e. (l @ [(he_key e, he_val e)], True)) [] ht = (kv (entries ht), True)"
    using hash_do_entries[OF len, of "\<lambda>l e. (l @ [(he_key e, he_val e)], True)" "[]"] f[of "[]"] by simp
  moreover have "distinct (map fst (kv (entries ht)))"
    using distinct_entries[OF ht(2)] by (simp add: comp_def)
  moreover have "ogs_hash_count ht = length (kv (entries ht))"
    using ht(2) by (simp add: ogs_hash_count_def hash_ok_def)
  moreover have "ogs_hash_get ht str key = Some (fold map_step ops Map.empty (snd key))" if "klen_ok str key" for key str
    using that hash_get_map[OF ht(2)] ht(3) by (simp add: ogs_hash_get_def)
  moreover have "map_of (kv (entries ht)) = fold map_step ops Map.empty"
    using entries_map[OF ht(2)] ht(3) by simp
  ultimately show ?thesis using ht(1) by (intro exI[of _ ht] exI[of _ "kv (entries ht)"] conjI allI impI)
qed

theorem hash_refines_map_witness:
  "\<exists>ht l. hash_run [Set (1, [7]) (Some (5::nat)), Set (2, [8]) (Some 6), Set (3, [7]) None] (ogs_hash_make 99) = Some ht
    \<and> (\<forall>key str. klen_ok str key \<longrightarrow> ogs_hash_get ht str key = Some ([[8] \<mapsto> 6] (snd key)))
    \<and> ogs_hash_do (\<lambda>l e. (l @ [(he_key e, he_val e)], True)) [] ht = (l, True)
    \<and> distinct (map fst l) \<and> map_of l = [[8] \<mapsto> 6] \<and> ogs_hash_count ht = length l"
proof -
  have m: "fold map_step [Set (1, [7]) (Some (5::nat)), Set (2, [8]) (Some 6), Set (3, [7]) None] Map.empty = [[8] \<mapsto> 6]"
    by (simp add: fun_eq_iff)
  have "list_all op_ok [Set (1, [7]) (Some (5::nat)), Set (2, [8]) (Some 6), Set (3, [7]) None]" by simp
  from hash_refines_map[OF this, of 99] show ?thesis unfolding m .
qed

text \<open>Giving up an index entry. When a newer context has claimed the identity of an older one,
  \<open>ogs_hash_unset_if_owner\<close> for the older one reports so and leaves every lookup as it is; for
  the owner it removes exactly this entry.\<close>

theorem hash_unset_if_owner:
  assumes "hash_ok ht" "snd k = snd k'" "snd k \<noteq> []" "old \<noteq> new"
  defines "ht1 \<equiv> hash_set (hash_set ht k (Some old)) k' (Some new)"
  shows "ogs_hash_unset_if_owner ht1 False k old = Some (ht1, False)
    \<and> hash_get ht1 k = Some new
    \<and> (\<exists>ht2. ogs_hash_unset_if_owner ht1 False k' new = Some (ht2, True) \<and> hash_ok ht2
         \<and> (\<forall>x. hash_get ht2 x = (if snd x = snd k then None else hash_get ht x)))"
proof -
  have ok: "hash_ok ht1" unfolding ht1_def using assms(1) by (simp add: hx.ok_put)
  have g: "hash_get ht1 k = Some new" "hash_get ht1 k' = Some new"
    unfolding ht1_def using assms by (simp_all add: hx.get_put hx.ok_put)
  have "hash_get (hash_set ht1 k' None) x = (if snd x = snd k then None else hash_get ht x)" for x
    unfolding ht1_def using assms by (simp add: hx.get_put hx.ok_put)
  then show ?thesis
    using g ok assms(2-4) hx.ok_put[OF ok]
    by (simp add: ogs_hash_unset_if_owner_def ogs_hash_get_def ogs_hash_set_def klen_ok_def)
qed

theorem hash_unset_if_owner_witness:
  "ogs_hash_unset_if_owner (hash_set (hash_set (ogs_hash_make 7) (1, [3]) (Some (10::nat))) (2, [3]) (Some 11)) False (1, [3]) 10
    = Some (hash_set (hash_set (ogs_hash_make 7) (1, [3]) (Some 10)) (2, [3]) (Some 11), False)"
  using hash_unset_if_owner[OF hash_make_ok(1)[of 7], of "(1, [3])" "(2, [3])" "10::nat" 11] by simp

end
