(* ===== verification/Ogs_Queue.thy ===== *)
theory Ogs_Queue
  imports Ogs_Prelude
begin

text \<open>
  The event queue of \<open>lib/core/ogs-queue.c\<close>, by which the threads of a network function
  hand events to its main loop: a ring of pointers under one mutex with two condition
  variables. A function is cut at the points where the mutex is free: before the lock, where
  \<open>terminated\<close> is read unprotected, and inside a wait. What lies between is one step, so a
  run of several threads is a sequence of steps in any order. A wait may end by a signal, a
  broadcast, spuriously, or, with a timeout, by its expiry.

  Shown here: under every interleaving the values leave the queue in the order in which they
  entered it, none lost and none twice, within the capacity and with the waiter counts
  right, so that a signal is sent whenever somebody waits.
\<close>

datatype queue_rv = Q_OK | Q_DONE | Q_RETRY | Q_ERROR | Q_TIMEUP

record 'a queue =
  data :: "'a option list"
  nelts :: nat
  q_in :: nat
  q_out :: nat
  bounds :: nat
  full_waiters :: nat
  empty_waiters :: nat
  terminated :: bool

definition ogs_queue_full :: "'a queue \<Rightarrow> bool" where "ogs_queue_full q \<longleftrightarrow> nelts q = bounds q"

definition ogs_queue_empty :: "'a queue \<Rightarrow> bool" where "ogs_queue_empty q \<longleftrightarrow> nelts q = 0"

definition ogs_queue_create :: "nat \<Rightarrow> 'a queue" where
  "ogs_queue_create capacity = \<lparr> data = replicate capacity None, nelts = 0, q_in = 0, q_out = 0,
     bounds = capacity, full_waiters = 0, empty_waiters = 0, terminated = False \<rparr>"

definition ogs_queue_size :: "'a queue \<Rightarrow> nat" where "ogs_queue_size q = nelts q"

text \<open>How a critical section ends: the function returns, or waits and gives up the mutex.
  A returning section also says whether it signalled the other condition variable, and
  \<open>queue_pop\<close> what it stored in \<open>*data\<close>.\<close>

datatype 'a outcome = Return queue_rv "'a option" bool | Wait

text \<open>A timeout is zero (try), positive (timed) or negative (for ever).\<close>

definition ring_next :: "nat \<Rightarrow> nat \<Rightarrow> nat" where
  "ring_next n i = (if i + 1 \<ge> n then i + 1 - n else i + 1)"

definition queue_store :: "'a queue \<Rightarrow> 'a \<Rightarrow> 'a queue \<times> 'a outcome" where
  "queue_store q d =
     (q\<lparr> data := (data q)[q_in q := Some d], q_in := ring_next (bounds q) (q_in q),
         nelts := nelts q + 1 \<rparr>,
      Return Q_OK None (empty_waiters q \<noteq> 0))"

text \<open>A queue that is still full, or empty, after the wait: the code reads
  \<open>terminated\<close> right after it has unlocked, the model in the same step. As the flag is
  only ever set, a call can report an error here where the code may already report the end; the
  queue is not changed either way.\<close>

definition queue_push_full :: "'a queue \<Rightarrow> 'a \<Rightarrow> 'a queue \<times> 'a outcome" where
  "queue_push_full q d =
     (if ogs_queue_full q then (q, Return (if terminated q then Q_DONE else Q_ERROR) None False)
      else queue_store q d)"

definition queue_push :: "'a queue \<Rightarrow> 'a \<Rightarrow> int \<Rightarrow> 'a queue \<times> 'a outcome" where
  "queue_push q d timeout =
     (if ogs_queue_full q then
        if timeout = 0 then (q, Return Q_RETRY None False)
        else if \<not> terminated q then (q\<lparr> full_waiters := full_waiters q + 1 \<rparr>, Wait)
        else queue_push_full q d
      else queue_store q d)"

definition queue_push_woken :: "'a queue \<Rightarrow> 'a \<Rightarrow> queue_rv \<Rightarrow> 'a queue \<times> 'a outcome" where
  "queue_push_woken q d rv =
     (let q' = q\<lparr> full_waiters := full_waiters q - 1 \<rparr>
      in if rv \<noteq> Q_OK then (q', Return rv None False) else queue_push_full q' d)"

definition queue_fetch :: "'a queue \<Rightarrow> 'a queue \<times> 'a outcome" where
  "queue_fetch q =
     (q\<lparr> nelts := nelts q - 1, q_out := ring_next (bounds q) (q_out q) \<rparr>,
      Return Q_OK (data q ! q_out q) (full_waiters q \<noteq> 0))"

definition queue_pop_empty :: "'a queue \<Rightarrow> 'a queue \<times> 'a outcome" where
  "queue_pop_empty q =
     (if ogs_queue_empty q then (q, Return (if terminated q then Q_DONE else Q_ERROR) None False)
      else queue_fetch q)"

definition queue_pop :: "'a queue \<Rightarrow> int \<Rightarrow> 'a queue \<times> 'a outcome" where
  "queue_pop q timeout =
     (if ogs_queue_empty q then
        if timeout = 0 then (q, Return Q_RETRY None False)
        else if \<not> terminated q then (q\<lparr> empty_waiters := empty_waiters q + 1 \<rparr>, Wait)
        else queue_pop_empty q
      else queue_fetch q)"

definition queue_pop_woken :: "'a queue \<Rightarrow> queue_rv \<Rightarrow> 'a queue \<times> 'a outcome" where
  "queue_pop_woken q rv =
     (let q' = q\<lparr> empty_waiters := empty_waiters q - 1 \<rparr>
      in if rv \<noteq> Q_OK then (q', Return rv None False) else queue_pop_empty q')"

definition ogs_queue_term :: "'a queue \<Rightarrow> 'a queue" where
  "ogs_queue_term q = q\<lparr> terminated := True \<rparr>"

text \<open>
  A thread: outside the queue's functions with the result of its last call, called (before
  the unprotected test of \<open>terminated\<close>), past that test (waiting for the mutex), or in a wait.
\<close>

datatype 'a thread =
    Idle queue_rv "'a option"
  | PushCalled 'a int | PushLocking 'a int | PushWaiting 'a int
  | PopCalled int | PopLocking int | PopWaiting int

fun after_push :: "'a \<Rightarrow> int \<Rightarrow> 'a outcome \<Rightarrow> 'a thread" where
  "after_push d t Wait = PushWaiting d t"
| "after_push d t (Return rv v s) = Idle rv v"

fun after_pop :: "int \<Rightarrow> 'a outcome \<Rightarrow> 'a thread" where
  "after_pop t Wait = PopWaiting t"
| "after_pop t (Return rv v s) = Idle rv v"

text \<open>A run also records the values stored and the values fetched, in order.\<close>

record 'a system =
  que :: "'a queue"
  threads :: "'a thread list"
  pushed :: "'a list"
  popped :: "'a option list"

fun ok_section :: "'a outcome \<Rightarrow> bool" where
  "ok_section (Return rv v s) \<longleftrightarrow> rv = Q_OK"
| "ok_section Wait \<longleftrightarrow> False"

fun section_value :: "'a outcome \<Rightarrow> 'a option" where
  "section_value (Return rv v s) = v"
| "section_value Wait = None"

definition set_thread :: "'a system \<Rightarrow> nat \<Rightarrow> 'a thread \<Rightarrow> 'a system" where
  "set_thread s i th = s\<lparr> threads := (threads s)[i := th] \<rparr>"

definition push_section :: "'a system \<Rightarrow> nat \<Rightarrow> 'a \<Rightarrow> int \<Rightarrow> 'a queue \<times> 'a outcome \<Rightarrow> 'a system" where
  "push_section s i d t r = (set_thread s i (after_push d t (snd r)))
     \<lparr> que := fst r, pushed := (if ok_section (snd r) then pushed s @ [d] else pushed s) \<rparr>"

definition pop_section :: "'a system \<Rightarrow> nat \<Rightarrow> int \<Rightarrow> 'a queue \<times> 'a outcome \<Rightarrow> 'a system" where
  "pop_section s i t r = (set_thread s i (after_pop t (snd r)))
     \<lparr> que := fst r, popped := (if ok_section (snd r) then popped s @ [section_value (snd r)] else popped s) \<rparr>"

inductive qstep :: "'a system \<Rightarrow> 'a system \<Rightarrow> bool" where
  call_push: "i < length (threads s) \<Longrightarrow> threads s ! i = Idle rv v \<Longrightarrow>
     qstep s (set_thread s i (PushCalled d t))"
| call_pop: "i < length (threads s) \<Longrightarrow> threads s ! i = Idle rv v \<Longrightarrow>
     qstep s (set_thread s i (PopCalled t))"
| push_test: "i < length (threads s) \<Longrightarrow> threads s ! i = PushCalled d t \<Longrightarrow>
     qstep s (set_thread s i (if terminated (que s) then Idle Q_DONE None else PushLocking d t))"
| pop_test: "i < length (threads s) \<Longrightarrow> threads s ! i = PopCalled t \<Longrightarrow>
     qstep s (set_thread s i (if terminated (que s) then Idle Q_DONE None else PopLocking t))"
| push: "i < length (threads s) \<Longrightarrow> threads s ! i = PushLocking d t \<Longrightarrow>
     qstep s (push_section s i d t (queue_push (que s) d t))"
| pop: "i < length (threads s) \<Longrightarrow> threads s ! i = PopLocking t \<Longrightarrow>
     qstep s (pop_section s i t (queue_pop (que s) t))"
| push_wake: "i < length (threads s) \<Longrightarrow> threads s ! i = PushWaiting d t \<Longrightarrow>
     rv = Q_OK \<or> rv = Q_ERROR \<or> (rv = Q_TIMEUP \<and> t > 0) \<Longrightarrow>
     qstep s (push_section s i d t (queue_push_woken (que s) d rv))"
| pop_wake: "i < length (threads s) \<Longrightarrow> threads s ! i = PopWaiting t \<Longrightarrow>
     rv = Q_OK \<or> rv = Q_ERROR \<or> (rv = Q_TIMEUP \<and> t > 0) \<Longrightarrow>
     qstep s (pop_section s i t (queue_pop_woken (que s) rv))"
| terminate: "qstep s (s\<lparr> que := ogs_queue_term (que s) \<rparr>)"

definition system_init :: "nat \<Rightarrow> nat \<Rightarrow> 'a system" where
  "system_init capacity n = \<lparr> que = ogs_queue_create capacity, threads = replicate n (Idle Q_OK None),
     pushed = [], popped = [] \<rparr>"

subsection \<open>The ring\<close>

text \<open>The values in the queue, oldest first, and when the ring is consistent.\<close>

definition contents :: "'a queue \<Rightarrow> 'a option list" where
  "contents q = map (\<lambda>k. data q ! ((q_out q + k) mod bounds q)) [0..<nelts q]"

definition ring_ok :: "'a queue \<Rightarrow> bool" where
  "ring_ok q \<longleftrightarrow> length (data q) = bounds q \<and> nelts q \<le> bounds q \<and>
     (0 < bounds q \<longrightarrow> q_out q < bounds q \<and> q_in q = (q_out q + nelts q) mod bounds q)"

lemma ring_indices:
  assumes "j < k" "k < n"
  shows "(out + j) mod n \<noteq> (out + k) mod (n :: nat)"
proof
  assume "(out + j) mod n = (out + k) mod n"
  then have "n dvd k - j" using mod_eq_dvd_iff_nat[of "out + j" "out + k" n] assms(1) by simp
  then show False using assms by (auto dest: dvd_imp_le)
qed

lemma ring_next_mod: "i < n \<Longrightarrow> ring_next n i = (i + 1) mod n"
  by (cases "i + 1 = n") (auto simp: ring_next_def)

lemma length_contents [simp]: "length (contents q) = nelts q"
  by (simp add: contents_def)

lemma ring_ok_create [simp]: "ring_ok (ogs_queue_create c)"
  by (simp add: ring_ok_def ogs_queue_create_def)

lemma contents_create [simp]: "contents (ogs_queue_create c) = []"
  by (simp add: contents_def ogs_queue_create_def)

lemma ring_waiters [simp]:
  "ring_ok (q\<lparr> full_waiters := k \<rparr>) = ring_ok q" "ring_ok (q\<lparr> empty_waiters := k \<rparr>) = ring_ok q"
  "ring_ok (q\<lparr> terminated := b \<rparr>) = ring_ok q" "contents (q\<lparr> full_waiters := k \<rparr>) = contents q"
  "contents (q\<lparr> empty_waiters := k \<rparr>) = contents q" "contents (q\<lparr> terminated := b \<rparr>) = contents q"
  by (simp_all add: ring_ok_def contents_def)

lemma store_contents:
  assumes "ring_ok q" "\<not> ogs_queue_full q"
  shows "ring_ok (fst (queue_store q d)) \<and> contents (fst (queue_store q d)) = contents q @ [Some d]"
proof
  have b: "nelts q < bounds q" "0 < bounds q"
    using assms by (auto simp: ring_ok_def ogs_queue_full_def)
  have o: "q_out q < bounds q" "q_in q = (q_out q + nelts q) mod bounds q" "length (data q) = bounds q"
    using assms b by (auto simp: ring_ok_def)
  then have i: "q_in q < bounds q" using b by simp
  show "ring_ok (fst (queue_store q d))"
    using b o i by (simp add: queue_store_def ring_ok_def ring_next_mod mod_Suc_eq)
  have "(data q)[q_in q := Some d] ! ((q_out q + k) mod bounds q) = data q ! ((q_out q + k) mod bounds q)"
    if "k < nelts q" for k
    using ring_indices[of k "nelts q" "bounds q" "q_out q"] that b o by simp
  then show "contents (fst (queue_store q d)) = contents q @ [Some d]"
    using o i by (simp add: queue_store_def contents_def)
qed

lemma fetch_contents:
  assumes "ring_ok q" "\<not> ogs_queue_empty q"
  shows "ring_ok (fst (queue_fetch q))
    \<and> contents q = section_value (snd (queue_fetch q)) # contents (fst (queue_fetch q))"
proof
  have n: "0 < nelts q" using assms by (simp add: ogs_queue_empty_def)
  then have b: "0 < bounds q" using assms by (auto simp: ring_ok_def)
  have o: "q_out q < bounds q" "q_in q = (q_out q + nelts q) mod bounds q" "length (data q) = bounds q"
      "nelts q \<le> bounds q"
    using assms b by (auto simp: ring_ok_def)
  have s: "((q_out q + 1) mod bounds q + k) mod bounds q = (q_out q + Suc k) mod bounds q" for k
    by (simp add: mod_add_left_eq)
  from s[of "nelts q - 1"] n
  have "((q_out q + 1) mod bounds q + (nelts q - 1)) mod bounds q = (q_out q + nelts q) mod bounds q"
    by simp
  then show "ring_ok (fst (queue_fetch q))"
    using n b o unfolding queue_fetch_def ring_ok_def fst_conv queue.simps ring_next_mod[OF o(1)]
    by simp
  have "[0..<nelts q] = 0 # map Suc [0..<nelts q - 1]"
    using n by (simp add: upt_conv_Cons map_Suc_upt)
  then show "contents q = section_value (snd (queue_fetch q)) # contents (fst (queue_fetch q))"
    using o s by (simp add: queue_fetch_def contents_def ring_next_mod)
qed

subsection \<open>Every interleaving\<close>

fun push_waits :: "'a thread \<Rightarrow> bool" where
  "push_waits (PushWaiting d t) = True" | "push_waits _ = False"

fun pop_waits :: "'a thread \<Rightarrow> bool" where
  "pop_waits (PopWaiting t) = True" | "pop_waits _ = False"

definition waiting :: "('a thread \<Rightarrow> bool) \<Rightarrow> 'a thread list \<Rightarrow> nat" where
  "waiting P ts = length (filter P ts)"

lemma waiting_update:
  "i < length ts \<Longrightarrow> waiting P (ts[i := th]) + of_bool (P (ts ! i)) = waiting P ts + of_bool (P th)"
proof (induction ts arbitrary: i)
  case (Cons t ts)
  then show ?case by (cases i) (auto simp: waiting_def)
qed simp

lemma waiting_pos: "i < length ts \<Longrightarrow> P (ts ! i) \<Longrightarrow> 0 < waiting P ts"
  by (auto simp: waiting_def filter_empty_conv)

definition queue_inv :: "nat \<Rightarrow> 'a system \<Rightarrow> bool" where
  "queue_inv c s \<longleftrightarrow> ring_ok (que s) \<and> bounds (que s) = c
     \<and> map Some (pushed s) = popped s @ contents (que s)
     \<and> full_waiters (que s) = waiting push_waits (threads s)
     \<and> empty_waiters (que s) = waiting pop_waits (threads s)"

text \<open>What a section of a push does to the ring, and a section of a pop.\<close>

definition push_effect :: "'a queue \<Rightarrow> 'a \<Rightarrow> 'a queue \<times> 'a outcome \<Rightarrow> bool" where
  "push_effect q d r \<longleftrightarrow> ring_ok (fst r) \<and> bounds (fst r) = bounds q
     \<and> contents (fst r) = contents q @ (if ok_section (snd r) then [Some d] else [])
     \<and> empty_waiters (fst r) = empty_waiters q"

definition pop_effect :: "'a queue \<Rightarrow> 'a queue \<times> 'a outcome \<Rightarrow> bool" where
  "pop_effect q r \<longleftrightarrow> ring_ok (fst r) \<and> bounds (fst r) = bounds q
     \<and> contents q = (if ok_section (snd r) then [section_value (snd r)] else []) @ contents (fst r)
     \<and> full_waiters (fst r) = full_waiters q"

lemma store_effect: "ring_ok q \<Longrightarrow> \<not> ogs_queue_full q \<Longrightarrow> push_effect q d (queue_store q d)"
  using store_contents[of q d] by (simp add: push_effect_def queue_store_def)

lemma fetch_effect: "ring_ok q \<Longrightarrow> \<not> ogs_queue_empty q \<Longrightarrow> pop_effect q (queue_fetch q)"
  using fetch_contents[of q] by (simp add: pop_effect_def queue_fetch_def)

lemma push_full_effect: "ring_ok q \<Longrightarrow> push_effect q d (queue_push_full q d)"
  by (simp add: queue_push_full_def store_effect) (simp add: push_effect_def)

lemma pop_empty_effect: "ring_ok q \<Longrightarrow> pop_effect q (queue_pop_empty q)"
  by (simp add: queue_pop_empty_def fetch_effect) (simp add: pop_effect_def)

lemma push_effects:
  assumes "ring_ok q"
  shows "push_effect q d (queue_push q d t)" "push_effect q d (queue_push_woken q d rv)"
proof -
  show "push_effect q d (queue_push q d t)"
    using assms by (simp add: queue_push_def store_effect push_full_effect) (simp add: push_effect_def)
  have "push_effect (q\<lparr> full_waiters := k \<rparr>) d r \<longleftrightarrow> push_effect q d r" for k r
    by (simp add: push_effect_def)
  moreover have "push_effect (q\<lparr> full_waiters := k \<rparr>) d (queue_push_full (q\<lparr> full_waiters := k \<rparr>) d)" for k
    using assms by (simp add: push_full_effect)
  ultimately show "push_effect q d (queue_push_woken q d rv)"
    using assms by (simp add: queue_push_woken_def Let_def) (simp add: push_effect_def)
qed

lemma pop_effects:
  assumes "ring_ok q"
  shows "pop_effect q (queue_pop q t)" "pop_effect q (queue_pop_woken q rv)"
proof -
  show "pop_effect q (queue_pop q t)"
    using assms by (simp add: queue_pop_def fetch_effect pop_empty_effect) (simp add: pop_effect_def)
  have "pop_effect (q\<lparr> empty_waiters := k \<rparr>) r \<longleftrightarrow> pop_effect q r" for k r
    by (simp add: pop_effect_def)
  moreover have "pop_effect (q\<lparr> empty_waiters := k \<rparr>) (queue_pop_empty (q\<lparr> empty_waiters := k \<rparr>))" for k
    using assms by (simp add: pop_empty_effect)
  ultimately show "pop_effect q (queue_pop_woken q rv)"
    using assms by (simp add: queue_pop_woken_def Let_def) (simp add: pop_effect_def)
qed

text \<open>The waiter counts: a section counts its thread in when it starts to wait, and out when
  it is woken; a woken thread does not wait again.\<close>

lemma waiter_counts:
  "full_waiters (fst (queue_push q d t)) = full_waiters q + of_bool (snd (queue_push q d t) = Wait)"
  "empty_waiters (fst (queue_pop q t)) = empty_waiters q + of_bool (snd (queue_pop q t) = Wait)"
  "full_waiters (fst (queue_push_woken q d rv)) = full_waiters q - 1"
  "empty_waiters (fst (queue_pop_woken q rv)) = empty_waiters q - 1"
  "snd (queue_push_woken q d rv) \<noteq> Wait" "snd (queue_pop_woken q rv) \<noteq> Wait"
  by (auto simp: queue_push_def queue_push_full_def queue_push_woken_def queue_store_def
      queue_pop_def queue_pop_empty_def queue_pop_woken_def queue_fetch_def Let_def)

lemma after_waits [simp]:
  "push_waits (after_push d t r) \<longleftrightarrow> r = Wait" "\<not> pop_waits (after_push d t r)"
  "pop_waits (after_pop t r) \<longleftrightarrow> r = Wait" "\<not> push_waits (after_pop t r)"
  by (cases r; simp)+

lemma push_section_inv:
  assumes "queue_inv c s" "i < length (threads s)" "push_effect (que s) d r"
    and "\<not> pop_waits (threads s ! i)"
    and "full_waiters (fst r) + of_bool (push_waits (threads s ! i))
       = full_waiters (que s) + of_bool (snd r = Wait)"
  shows "queue_inv c (push_section s i d t r)"
  using assms waiting_update[OF assms(2), of push_waits "after_push d t (snd r)"]
    waiting_update[OF assms(2), of pop_waits "after_push d t (snd r)"]
  by (simp add: queue_inv_def push_section_def set_thread_def push_effect_def)

lemma pop_section_inv:
  assumes "queue_inv c s" "i < length (threads s)" "pop_effect (que s) r"
    and "\<not> push_waits (threads s ! i)"
    and "empty_waiters (fst r) + of_bool (pop_waits (threads s ! i))
       = empty_waiters (que s) + of_bool (snd r = Wait)"
  shows "queue_inv c (pop_section s i t r)"
  using assms waiting_update[OF assms(2), of push_waits "after_pop t (snd r)"]
    waiting_update[OF assms(2), of pop_waits "after_pop t (snd r)"]
  by (simp add: queue_inv_def pop_section_def set_thread_def pop_effect_def)

lemma set_thread_inv:
  assumes "queue_inv c s" "i < length (threads s)"
    and "\<not> push_waits (threads s ! i)" "\<not> pop_waits (threads s ! i)" "\<not> push_waits th" "\<not> pop_waits th"
  shows "queue_inv c (set_thread s i th)"
  using assms waiting_update[OF assms(2), of push_waits th] waiting_update[OF assms(2), of pop_waits th]
  by (simp add: queue_inv_def set_thread_def)

lemma queue_inv_step: "qstep s s' \<Longrightarrow> queue_inv c s \<Longrightarrow> queue_inv c s'"
proof (induction rule: qstep.induct)
  case (push i s d t)
  then show ?case
    by (intro push_section_inv push_effects) (auto simp: waiter_counts queue_inv_def)
next
  case (pop i s t)
  then show ?case
    by (intro pop_section_inv pop_effects) (auto simp: waiter_counts queue_inv_def)
next
  case (push_wake i s d t rv)
  then have "0 < full_waiters (que s)" using waiting_pos[of i "threads s" push_waits] by (simp add: queue_inv_def)
  with push_wake show ?case
    by (intro push_section_inv push_effects) (auto simp: waiter_counts queue_inv_def)
next
  case (pop_wake i s t rv)
  then have "0 < empty_waiters (que s)" using waiting_pos[of i "threads s" pop_waits] by (simp add: queue_inv_def)
  with pop_wake show ?case
    by (intro pop_section_inv pop_effects) (auto simp: waiter_counts queue_inv_def)
next
  case (terminate s)
  then show ?case by (simp add: queue_inv_def ogs_queue_term_def)
qed (auto intro!: set_thread_inv)

lemma queue_inv_init: "queue_inv c (system_init c n)"
  by (simp add: queue_inv_def system_init_def waiting_def ogs_queue_create_def[of c, THEN arg_cong[of _ _ bounds]]
      ogs_queue_create_def[of c, THEN arg_cong[of _ _ full_waiters]]
      ogs_queue_create_def[of c, THEN arg_cong[of _ _ empty_waiters]])

lemma queue_inv_run: "qstep\<^sup>*\<^sup>* (system_init c n) s \<Longrightarrow> queue_inv c s"
  by (induction rule: rtranclp_induct) (auto intro: queue_inv_init queue_inv_step)

text \<open>C16. First in, first out, under every interleaving. However the threads run, the values
  fetched so far, followed by those in the ring, are the values stored so far in the order
  of storing: none is lost, duplicated or overtaken, and the ring never holds more than its
  capacity.\<close>

theorem queue_fifo:
  assumes "qstep\<^sup>*\<^sup>* (system_init capacity n) s"
  shows "map Some (pushed s) = popped s @ contents (que s)
    \<and> length (contents (que s)) = ogs_queue_size (que s) \<and> ogs_queue_size (que s) \<le> capacity"
  using queue_inv_run[OF assms] by (simp add: queue_inv_def ring_ok_def ogs_queue_size_def)

text \<open>Waiting and signalling. In every reachable state a push starts to wait exactly when
  the ring is full, a timeout is given and the queue is not terminated; it stores exactly when
  there is room, and then signals if and only if some thread waits in a pop; and the same
  for a pop with the roles exchanged.\<close>

theorem queue_wait_signal:
  assumes "qstep\<^sup>*\<^sup>* (system_init capacity n) s"
  shows "(snd (queue_push (que s) d t) = Wait \<longleftrightarrow>
       length (contents (que s)) = capacity \<and> t \<noteq> 0 \<and> \<not> terminated (que s))
    \<and> (\<forall>b. snd (queue_push (que s) d t) = Return Q_OK None b \<longleftrightarrow>
       length (contents (que s)) < capacity \<and> b = (\<exists>th \<in> set (threads s). pop_waits th))
    \<and> (snd (queue_pop (que s) t) = Wait \<longleftrightarrow> contents (que s) = [] \<and> t \<noteq> 0 \<and> \<not> terminated (que s))
    \<and> (\<forall>v b. snd (queue_pop (que s) t) = Return Q_OK v b \<longleftrightarrow>
       contents (que s) \<noteq> [] \<and> v = hd (contents (que s)) \<and> b = (\<exists>th \<in> set (threads s). push_waits th))"
proof -
  have inv: "queue_inv capacity s" by (rule queue_inv_run[OF assms])
  then have len: "nelts (que s) \<le> capacity" "bounds (que s) = capacity"
    by (auto simp: queue_inv_def ring_ok_def)
  have w: "full_waiters (que s) \<noteq> 0 \<longleftrightarrow> (\<exists>th \<in> set (threads s). push_waits th)"
      "empty_waiters (que s) \<noteq> 0 \<longleftrightarrow> (\<exists>th \<in> set (threads s). pop_waits th)"
    using inv by (auto simp: queue_inv_def waiting_def filter_empty_conv)
  have e: "contents (que s) = [] \<longleftrightarrow> nelts (que s) = 0" by (metis length_0_conv length_contents)
  have h: "hd (contents (que s)) = data (que s) ! q_out (que s)" if "nelts (que s) \<noteq> 0"
  proof -
    have "q_out (que s) < bounds (que s)" using inv that by (auto simp: queue_inv_def ring_ok_def)
    then show ?thesis using that by (simp add: contents_def hd_map)
  qed
  show ?thesis
    using len e h unfolding w[symmetric]
    by (auto simp: queue_push_def queue_push_full_def queue_store_def ogs_queue_full_def
        queue_pop_def queue_pop_empty_def queue_fetch_def ogs_queue_empty_def)
qed

text \<open>
  A run of two threads on a queue of capacity 1: the first waits in a pop without time limit,
  the second pushes, which signals, and at once pops; when the first gets the mutex the ring
  is empty again.
\<close>

definition stolen_run :: "nat system list" where
  "stolen_run = [
     \<lparr> que = \<lparr> data = [None], nelts = 0, q_in = 0, q_out = 0, bounds = 1, full_waiters = 0, empty_waiters = 0, terminated = False \<rparr>,
      threads = [Idle Q_OK None, Idle Q_OK None], pushed = [], popped = [] \<rparr>,
     \<lparr> que = \<lparr> data = [None], nelts = 0, q_in = 0, q_out = 0, bounds = 1, full_waiters = 0, empty_waiters = 0, terminated = False \<rparr>,
      threads = [PopCalled (- 1), Idle Q_OK None], pushed = [], popped = [] \<rparr>,
     \<lparr> que = \<lparr> data = [None], nelts = 0, q_in = 0, q_out = 0, bounds = 1, full_waiters = 0, empty_waiters = 0, terminated = False \<rparr>,
      threads = [PopLocking (- 1), Idle Q_OK None], pushed = [], popped = [] \<rparr>,
     \<lparr> que = \<lparr> data = [None], nelts = 0, q_in = 0, q_out = 0, bounds = 1, full_waiters = 0, empty_waiters = 1, terminated = False \<rparr>,
      threads = [PopWaiting (- 1), Idle Q_OK None], pushed = [], popped = [] \<rparr>,
     \<lparr> que = \<lparr> data = [None], nelts = 0, q_in = 0, q_out = 0, bounds = 1, full_waiters = 0, empty_waiters = 1, terminated = False \<rparr>,
      threads = [PopWaiting (- 1), PushCalled 7 0], pushed = [], popped = [] \<rparr>,
     \<lparr> que = \<lparr> data = [None], nelts = 0, q_in = 0, q_out = 0, bounds = 1, full_waiters = 0, empty_waiters = 1, terminated = False \<rparr>,
      threads = [PopWaiting (- 1), PushLocking 7 0], pushed = [], popped = [] \<rparr>,
     \<lparr> que = \<lparr> data = [Some 7], nelts = 1, q_in = 0, q_out = 0, bounds = 1, full_waiters = 0, empty_waiters = 1, terminated = False \<rparr>,
      threads = [PopWaiting (- 1), Idle Q_OK None], pushed = [7], popped = [] \<rparr>,
     \<lparr> que = \<lparr> data = [Some 7], nelts = 1, q_in = 0, q_out = 0, bounds = 1, full_waiters = 0, empty_waiters = 1, terminated = False \<rparr>,
      threads = [PopWaiting (- 1), PopCalled 0], pushed = [7], popped = [] \<rparr>,
     \<lparr> que = \<lparr> data = [Some 7], nelts = 1, q_in = 0, q_out = 0, bounds = 1, full_waiters = 0, empty_waiters = 1, terminated = False \<rparr>,
      threads = [PopWaiting (- 1), PopLocking 0], pushed = [7], popped = [] \<rparr>,
     \<lparr> que = \<lparr> data = [Some 7], nelts = 0, q_in = 0, q_out = 0, bounds = 1, full_waiters = 0, empty_waiters = 1, terminated = False \<rparr>,
      threads = [PopWaiting (- 1), Idle Q_OK (Some 7)], pushed = [7], popped = [Some 7] \<rparr>,
     \<lparr> que = \<lparr> data = [Some 7], nelts = 0, q_in = 0, q_out = 0, bounds = 1, full_waiters = 0, empty_waiters = 0, terminated = False \<rparr>,
      threads = [Idle Q_ERROR None, Idle Q_OK (Some 7)], pushed = [7], popped = [Some 7] \<rparr>]"

lemma run_of_steps:
  assumes "\<And>k. Suc k < length ss \<Longrightarrow> R (ss ! k) (ss ! Suc k)" "ss \<noteq> []"
  shows "R\<^sup>*\<^sup>* (hd ss) (last ss)"
  using assms
proof (induction ss)
  case (Cons x xs)
  show ?case
  proof (cases "xs = []")
    case False
    have "R x (hd xs)" using Cons.prems(1)[of 0] False by (simp add: hd_conv_nth)
    moreover have "R\<^sup>*\<^sup>* (hd xs) (last xs)"
      using Cons.prems(1)[of "Suc k" for k] False by (intro Cons.IH) auto
    ultimately show ?thesis using False by (simp add: converse_rtranclp_into_rtranclp)
  qed simp
qed simp

lemmas queue_defs = queue_push_def queue_push_full_def queue_store_def queue_push_woken_def
  queue_pop_def queue_pop_empty_def queue_fetch_def queue_pop_woken_def ring_next_def
  ogs_queue_full_def ogs_queue_empty_def push_section_def pop_section_def set_thread_def

lemma stolen_run_steps:
  "qstep (stolen_run ! 0) (stolen_run ! 1)"
  "qstep (stolen_run ! 1) (stolen_run ! 2)"
  "qstep (stolen_run ! 2) (stolen_run ! 3)"
  "qstep (stolen_run ! 3) (stolen_run ! 4)"
  "qstep (stolen_run ! 4) (stolen_run ! 5)"
  "qstep (stolen_run ! 5) (stolen_run ! 6)"
  "qstep (stolen_run ! 6) (stolen_run ! 7)"
  "qstep (stolen_run ! 7) (stolen_run ! 8)"
  "qstep (stolen_run ! 8) (stolen_run ! 9)"
  "qstep (stolen_run ! 9) (stolen_run ! 10)"
proof -
  show "qstep (stolen_run ! 0) (stolen_run ! 1)"
    using call_pop[of 0 "stolen_run ! 0" Q_OK None "- 1"] by (simp add: stolen_run_def queue_defs)
  show "qstep (stolen_run ! 1) (stolen_run ! 2)"
    using pop_test[of 0 "stolen_run ! 1" "- 1"] by (simp add: stolen_run_def queue_defs)
  show "qstep (stolen_run ! 2) (stolen_run ! 3)"
    using pop[of 0 "stolen_run ! 2" "- 1"] by (simp add: stolen_run_def queue_defs)
  show "qstep (stolen_run ! 3) (stolen_run ! 4)"
    using call_push[of 1 "stolen_run ! 3" Q_OK None 7 0] by (simp add: stolen_run_def queue_defs)
  show "qstep (stolen_run ! 4) (stolen_run ! 5)"
    using push_test[of 1 "stolen_run ! 4" 7 0] by (simp add: stolen_run_def queue_defs)
  show "qstep (stolen_run ! 5) (stolen_run ! 6)"
    using push[of 1 "stolen_run ! 5" 7 0] by (simp add: stolen_run_def queue_defs)
  show "qstep (stolen_run ! 6) (stolen_run ! 7)"
    using call_pop[of 1 "stolen_run ! 6" Q_OK None 0] by (simp add: stolen_run_def queue_defs)
  show "qstep (stolen_run ! 7) (stolen_run ! 8)"
    using pop_test[of 1 "stolen_run ! 7" 0] by (simp add: stolen_run_def queue_defs)
  show "qstep (stolen_run ! 8) (stolen_run ! 9)"
    using pop[of 1 "stolen_run ! 8" 0] by (simp add: stolen_run_def queue_defs)
  show "qstep (stolen_run ! 9) (stolen_run ! 10)"
    using pop_wake[of 0 "stolen_run ! 9" "- 1" Q_OK] by (simp add: stolen_run_def queue_defs)
qed

lemma stolen_run_reachable: "qstep\<^sup>*\<^sup>* (system_init 1 2) (stolen_run ! 10)"
proof -
  have "qstep\<^sup>*\<^sup>* (hd stolen_run) (last stolen_run)"
  proof (rule run_of_steps)
    fix k assume "Suc k < length stolen_run"
    then have "k \<in> {0, 1, 2, 3, 4, 5, 6, 7, 8, 9}" by (simp add: stolen_run_def) arith
    then show "qstep (stolen_run ! k) (stolen_run ! Suc k)"
      using stolen_run_steps
      by (simp only: insert_iff empty_iff) (elim disjE; simp add: eval_nat_numeral)
  qed (simp add: stolen_run_def)
  moreover have "hd stolen_run = system_init 1 2"
    by (simp add: stolen_run_def system_init_def ogs_queue_create_def numeral_2_eq_2)
  moreover have "last stolen_run = stolen_run ! 10" by (simp add: stolen_run_def)
  ultimately show ?thesis by simp
qed

text \<open>A blocking pop may come back empty-handed. Although \<open>ogs_queue_pop\<close> is called
  without time limit, the queue is not terminated and the wait ended by the signal of a push,
  the function returns \<open>OGS_ERROR\<close> when another thread has fetched the value first: it
  waits at most once.\<close>

theorem queue_pop_gives_up:
  "\<exists>s :: nat system. qstep\<^sup>*\<^sup>* (system_init 1 2) s
    \<and> (\<exists>s0. qstep\<^sup>*\<^sup>* s0 s \<and> threads s0 ! 0 = PopWaiting (- 1))
    \<and> threads s ! 0 = Idle Q_ERROR None \<and> \<not> terminated (que s) \<and> pushed s = [7] \<and> popped s = [Some 7]"
proof (intro exI conjI)
  show "qstep\<^sup>*\<^sup>* (system_init 1 2) (stolen_run ! 10)" by (rule stolen_run_reachable)
  show "qstep\<^sup>*\<^sup>* (stolen_run ! 9) (stolen_run ! 10)"
    using stolen_run_steps(10) by (simp add: r_into_rtranclp)
qed (simp_all add: stolen_run_def)

theorem queue_fifo_witness:
  "map Some (pushed (stolen_run ! 10)) = popped (stolen_run ! 10) @ contents (que (stolen_run ! 10))
    \<and> length (contents (que (stolen_run ! 10))) = ogs_queue_size (que (stolen_run ! 10))
    \<and> ogs_queue_size (que (stolen_run ! 10)) \<le> 1"
  by (rule queue_fifo[OF stolen_run_reachable])

theorem queue_wait_signal_witness:
  "snd (queue_pop (que (stolen_run ! 10)) 5) = Wait"
  using queue_wait_signal[OF stolen_run_reachable, of 0 5]
  by (simp add: stolen_run_def contents_def)

end
