(* ===== verification/Ogs_Timer.thy ===== *)
theory Ogs_Timer
  imports Ogs_Pool
begin

text \<open>
  The timer manager of \<open>lib/core/ogs-timer.c\<close>. A timer is a slot of the manager's pool;
  the red-black tree of running timers is represented by its in-order sequence, which is
  all the manager reads of it (its first node, its successors) and which rebalancing does
  not change. The callback and its argument are one value \<open>tm_data\<close>; time is
  \<open>ogs_get_monotonic_time()\<close>, passed in as \<open>now\<close>.

  Shown here: the sequence is always sorted and holds exactly the running timers,
  \<open>ogs_timer_mgr_next\<close> is the time to the earliest of them, and the timers that expire
  are exactly the due ones, earliest first.
\<close>

record 'd timer =
  tm_data :: 'd
  tm_running :: bool
  tm_timeout :: int
  tm_lnext :: "nat option" \<comment> \<open>\<open>lnode.next\<close>: the list \<open>ogs_timer_mgr_expire\<close> builds\<close>

record 'd timer_mgr =
  tmr_pool :: ogs_pool
  tmr_node :: "nat \<Rightarrow> 'd timer"
  tmr_tree :: "nat list"

abbreviation timeout_of :: "'d timer_mgr \<Rightarrow> nat \<Rightarrow> int" where
  "timeout_of m t \<equiv> tm_timeout (tmr_node m t)"

definition OGS_INFINITE_TIME :: int where "OGS_INFINITE_TIME = -1"

definition OGS_NO_WAIT_TIME :: int where "OGS_NO_WAIT_TIME = 0"

definition ogs_timer_mgr_create :: "'d \<Rightarrow> nat \<Rightarrow> 'd timer_mgr" where
  "ogs_timer_mgr_create d capacity = \<lparr>tmr_pool = ogs_pool_init capacity,
     tmr_node = (\<lambda>_. \<lparr>tm_data = d, tm_running = False, tm_timeout = 0, tm_lnext = None\<rparr>),
     tmr_tree = []\<rparr>"

definition ogs_timer_add :: "'d timer_mgr \<Rightarrow> 'd \<Rightarrow> (nat option \<times> 'd timer_mgr) option" where
  "ogs_timer_add m d =
     (case ogs_pool_alloc (tmr_pool m) of
        None \<Rightarrow> None
      | Some (None, p) \<Rightarrow> Some (None, m\<lparr>tmr_pool := p\<rparr>)
      | Some (Some t, p) \<Rightarrow>
          Some (Some t, m\<lparr>tmr_pool := p, tmr_node := (tmr_node m)
            (t := \<lparr>tm_data = d, tm_running = False, tm_timeout = 0, tm_lnext = None\<rparr>)\<rparr>))"

text \<open>The descent of \<open>add_timer_node\<close>: left of the first timer that is due later.\<close>

fun add_timer_node :: "(nat \<Rightarrow> int) \<Rightarrow> nat list \<Rightarrow> nat \<Rightarrow> nat list" where
  "add_timer_node to [] t = [t]"
| "add_timer_node to (u # us) t = (if to t < to u then t # u # us else u # add_timer_node to us t)"

definition ogs_timer_start :: "'d timer_mgr \<Rightarrow> nat \<Rightarrow> int \<Rightarrow> int \<Rightarrow> 'd timer_mgr option" where
  "ogs_timer_start m t duration now =
     (if duration = 0 then None
      else
        let tree = (if tm_running (tmr_node m t) then remove1 t (tmr_tree m) else tmr_tree m);
            node = (tmr_node m)(t := (tmr_node m t)\<lparr>tm_running := True, tm_timeout := now + duration\<rparr>)
        in Some (m\<lparr>tmr_node := node, tmr_tree := add_timer_node (\<lambda>u. tm_timeout (node u)) tree t\<rparr>))"

definition ogs_timer_stop :: "'d timer_mgr \<Rightarrow> nat \<Rightarrow> 'd timer_mgr" where
  "ogs_timer_stop m t =
     (if \<not> tm_running (tmr_node m t) then m
      else m\<lparr>tmr_node := (tmr_node m)(t := (tmr_node m t)\<lparr>tm_running := False\<rparr>),
             tmr_tree := remove1 t (tmr_tree m)\<rparr>)"

definition ogs_timer_delete :: "'d timer_mgr \<Rightarrow> nat \<Rightarrow> 'd timer_mgr option" where
  "ogs_timer_delete m t =
     (let m' = ogs_timer_stop m t in
      map_option (\<lambda>p. m'\<lparr>tmr_pool := p\<rparr>) (ogs_pool_free (tmr_pool m') t))"

definition ogs_timer_mgr_next :: "'d timer_mgr \<Rightarrow> int \<Rightarrow> int" where
  "ogs_timer_mgr_next m now =
     (case tmr_tree m of
        [] \<Rightarrow> OGS_INFINITE_TIME
      | t # _ \<Rightarrow> if timeout_of m t > now then timeout_of m t - now else OGS_NO_WAIT_TIME)"

text \<open>
  \<open>ogs_timer_mgr_expire\<close>: first the due timers are linked into a list, then each is
  stopped and its callback runs. The link to the next one is read after the callback;
  \<open>ogs_timer_add\<close> clears it when it reuses the slot, which ends the loop early. The
  callback is a parameter that acts on a larger state holding the manager.
\<close>

definition timer_due :: "'d timer_mgr \<Rightarrow> int \<Rightarrow> nat list" where
  "timer_due m now = takeWhile (\<lambda>t. \<not> timeout_of m t > now) (tmr_tree m)"

fun timer_link :: "'d timer_mgr \<Rightarrow> nat list \<Rightarrow> 'd timer_mgr" where
  "timer_link m (t # u # us) =
     timer_link (m\<lparr>tmr_node := (tmr_node m)(t := (tmr_node m t)\<lparr>tm_lnext := Some u\<rparr>)\<rparr>) (u # us)"
| "timer_link m [t] = m\<lparr>tmr_node := (tmr_node m)(t := (tmr_node m t)\<lparr>tm_lnext := None\<rparr>)\<rparr>"
| "timer_link m [] = m"

fun timer_fire :: "('s \<Rightarrow> 'd timer_mgr) \<Rightarrow> ('d timer_mgr \<Rightarrow> 's \<Rightarrow> 's) \<Rightarrow> ('d \<Rightarrow> 's \<Rightarrow> 's option)
    \<Rightarrow> nat list \<Rightarrow> 's \<Rightarrow> 's option" where
  "timer_fire get put cb [] s = Some s"
| "timer_fire get put cb (t # ts) s =
     (let s1 = put (ogs_timer_stop (get s) t) s in
      Option.bind (cb (tm_data (tmr_node (get s1) t)) s1) (\<lambda>s2.
        if tm_lnext (tmr_node (get s2) t) = None then Some s2 else timer_fire get put cb ts s2))"

definition ogs_timer_mgr_expire :: "('s \<Rightarrow> 'd timer_mgr) \<Rightarrow> ('d timer_mgr \<Rightarrow> 's \<Rightarrow> 's)
    \<Rightarrow> ('d \<Rightarrow> 's \<Rightarrow> 's option) \<Rightarrow> int \<Rightarrow> 's \<Rightarrow> 's option" where
  "ogs_timer_mgr_expire get put cb now s =
     (let due = timer_due (get s) now in
      timer_fire get put cb due (put (timer_link (get s) due) s))"

subsection \<open>The invariant\<close>

definition timer_live :: "'d timer_mgr \<Rightarrow> nat set" where
  "timer_live m = {t. pool_in_use (tmr_pool m) t}"

definition timer_armed :: "'d timer_mgr \<Rightarrow> nat set" where
  "timer_armed m = {t \<in> timer_live m. tm_running (tmr_node m t)}"

definition timer_inv :: "'d timer_mgr \<Rightarrow> bool" where
  "timer_inv m \<longleftrightarrow> pool_inv (tmr_pool m) \<and> distinct (tmr_tree m) \<and>
     set (tmr_tree m) = {t. tm_running (tmr_node m t)} \<and>
     set (tmr_tree m) \<subseteq> timer_live m \<and> sorted (map (timeout_of m) (tmr_tree m))"

lemma timer_inv_create: "timer_inv (ogs_timer_mgr_create d n)"
  by (simp add: timer_inv_def ogs_timer_mgr_create_def pool_inv_init)

lemma set_add_timer_node [simp]: "set (add_timer_node to us t) = insert t (set us)"
  by (induction us) auto

lemma distinct_add_timer_node: "t \<notin> set us \<Longrightarrow> distinct us \<Longrightarrow> distinct (add_timer_node to us t)"
  by (induction us) auto

lemma sorted_add_timer_node: "sorted (map to us) \<Longrightarrow> sorted (map to (add_timer_node to us t))"
  by (induction us) auto

lemma sorted_map_remove1: "sorted (map f xs) \<Longrightarrow> sorted (map f (remove1 x xs))"
  by (induction xs) (auto dest: notin_set_remove1)

text \<open>Two managers whose timers in the tree have the same timeouts sort alike.\<close>

lemma timer_inv_cong:
  assumes "pool_inv p" "distinct ts" "set ts = {t. tm_running (node t)}"
    and "\<And>t. t \<in> set ts \<Longrightarrow> pool_in_use p t"
    and "\<And>t. t \<in> set ts \<Longrightarrow> tm_timeout (node t) = to t" "sorted (map to ts)"
  shows "timer_inv \<lparr>tmr_pool = p, tmr_node = node, tmr_tree = ts\<rparr>"
proof -
  have "map (\<lambda>t. tm_timeout (node t)) ts = map to ts" using assms(5) by (intro map_cong) auto
  with assms(6) have "sorted (map (\<lambda>t. tm_timeout (node t)) ts)" by (simp only:)
  with assms(1-4) show ?thesis by (auto simp: timer_inv_def timer_live_def)
qed

lemma timer_stop_inv:
  assumes "timer_inv m"
  shows "timer_inv (ogs_timer_stop m t)" and "timer_live (ogs_timer_stop m t) = timer_live m"
    and "timer_armed (ogs_timer_stop m t) = timer_armed m - {t}"
proof -
  show live: "timer_live (ogs_timer_stop m t) = timer_live m"
    by (simp add: ogs_timer_stop_def timer_live_def)
  show "timer_armed (ogs_timer_stop m t) = timer_armed m - {t}"
    unfolding timer_armed_def live by (auto simp: ogs_timer_stop_def)
  obtain p node ts where m: "m = \<lparr>tmr_pool = p, tmr_node = node, tmr_tree = ts\<rparr>"
    by (cases m) auto
  show "timer_inv (ogs_timer_stop m t)"
  proof (cases "tm_running (node t)")
    case True
    have "timer_inv \<lparr>tmr_pool = p, tmr_node = node(t := (node t)\<lparr>tm_running := False\<rparr>),
        tmr_tree = remove1 t ts\<rparr>"
      using assms by (intro timer_inv_cong[where to = "timeout_of m"])
        (auto simp: timer_inv_def timer_live_def m sorted_map_remove1)
    with True show ?thesis by (simp add: ogs_timer_stop_def m)
  qed (use assms in \<open>simp add: ogs_timer_stop_def m\<close>)
qed

lemma timer_start_inv:
  assumes inv: "timer_inv m" and t: "t \<in> timer_live m" and d: "duration \<noteq> 0"
  obtains m' where "ogs_timer_start m t duration now = Some m'" "timer_inv m'"
    "timer_live m' = timer_live m" "timer_armed m' = insert t (timer_armed m)"
    "timeout_of m' t = now + duration" "\<And>u. u \<noteq> t \<Longrightarrow> tmr_node m' u = tmr_node m u"
    "tm_data (tmr_node m' t) = tm_data (tmr_node m t)"
proof -
  obtain p node ts where m: "m = \<lparr>tmr_pool = p, tmr_node = node, tmr_tree = ts\<rparr>"
    by (cases m) auto
  define us where "us = (if tm_running (node t) then remove1 t ts else ts)"
  define node' where "node' = node(t := (node t)\<lparr>tm_running := True, tm_timeout := now + duration\<rparr>)"
  define ts' where "ts' = add_timer_node (\<lambda>u. tm_timeout (node' u)) us t"
  have us: "distinct us" "set us = {u. tm_running (node u)} - {t}"
      "sorted (map (\<lambda>u. tm_timeout (node u)) us)"
    using inv by (auto simp: timer_inv_def sorted_map_remove1 us_def m)
  moreover have "map (\<lambda>u. tm_timeout (node' u)) us = map (\<lambda>u. tm_timeout (node u)) us"
    using us(2) by (intro map_cong) (auto simp: node'_def)
  ultimately have "sorted (map (\<lambda>u. tm_timeout (node' u)) ts')"
    unfolding ts'_def by (intro sorted_add_timer_node) (simp only:)
  then have "timer_inv \<lparr>tmr_pool = p, tmr_node = node', tmr_tree = ts'\<rparr>"
    using inv t us by (intro timer_inv_cong[where to = "\<lambda>u. tm_timeout (node' u)"])
      (auto simp: timer_inv_def timer_live_def m ts'_def distinct_add_timer_node node'_def)
  moreover have "ogs_timer_start m t duration now
      = Some \<lparr>tmr_pool = p, tmr_node = node', tmr_tree = ts'\<rparr>"
    using d by (simp add: ogs_timer_start_def Let_def m ts'_def us_def node'_def)
  moreover have "timer_armed \<lparr>tmr_pool = p, tmr_node = node', tmr_tree = ts'\<rparr> = insert t (timer_armed m)"
    using t by (auto simp: timer_armed_def timer_live_def m node'_def)
  ultimately show ?thesis
    by (intro that) (auto simp: timer_live_def m node'_def)
qed

lemma timer_add_inv:
  assumes inv: "timer_inv m"
  obtains (none) "ogs_timer_add m d = Some (None, m)"
  | (some) t m' where "ogs_timer_add m d = Some (Some t, m')" "timer_inv m'" "t \<notin> timer_live m"
      "timer_live m' = insert t (timer_live m)" "timer_armed m' = timer_armed m"
      "tm_data (tmr_node m' t) = d" "\<And>u. u \<noteq> t \<Longrightarrow> tmr_node m' u = tmr_node m u"
proof -
  obtain p node ts where m: "m = \<lparr>tmr_pool = p, tmr_node = node, tmr_tree = ts\<rparr>"
    by (cases m) auto
  from inv have "pool_inv p" by (simp add: timer_inv_def m)
  then show ?thesis
  proof (cases rule: ring.alloc_cases)
    case exhausted
    then show ?thesis by (intro none) (simp add: ogs_timer_add_def m)
  next
    case (node t p')
    define node' where "node' = (tmr_node m)
        (t := \<lparr>tm_data = d, tm_running = False, tm_timeout = 0, tm_lnext = None\<rparr>)"
    let ?m' = "\<lparr>tmr_pool = p', tmr_node = node', tmr_tree = ts\<rparr>"
    have t: "t \<notin> timer_live m" and live: "timer_live ?m' = insert t (timer_live m)"
      using node by (auto simp: timer_live_def ring_in_use m)
    with inv have nt: "t \<notin> set ts" by (auto simp: timer_inv_def m)
    with inv live node have "timer_inv ?m'"
      by (intro timer_inv_cong[where to = "timeout_of m"])
        (auto simp: timer_inv_def m timer_live_def node'_def)
    moreover have "timer_armed ?m' = timer_armed m"
      unfolding timer_armed_def live using t by (auto simp: node'_def)
    moreover have "ogs_timer_add m d = Some (Some t, ?m')"
      using node(1) by (simp add: ogs_timer_add_def m node'_def)
    ultimately show ?thesis
      using t live by (intro some[of t ?m']) (simp_all add: node'_def)
  qed
qed

lemma timer_delete_inv:
  assumes inv: "timer_inv m" and t: "t \<in> timer_live m"
  obtains m' where "ogs_timer_delete m t = Some m'" "timer_inv m'"
    "timer_live m' = timer_live m - {t}" "timer_armed m' = timer_armed m - {t}"
    "\<And>u. tm_data (tmr_node m' u) = tm_data (tmr_node m u)"
proof -
  let ?m = "ogs_timer_stop m t"
  note stop = timer_stop_inv[OF inv, of t]
  have pinv: "pool_inv (tmr_pool ?m)" using stop(1) by (simp add: timer_inv_def)
  have "t \<in> ring.in_use (tmr_pool ?m)" using stop(2) t by (simp add: timer_live_def ring_in_use)
  then obtain p where p: "ogs_pool_free (tmr_pool ?m) t = Some p" "pool_inv p"
      "ring.in_use p = ring.in_use (tmr_pool ?m) - {t}"
    by (rule ring.release_cases[OF pinv]) blast
  let ?m' = "?m\<lparr>tmr_pool := p\<rparr>"
  have live: "timer_live ?m' = timer_live m - {t}"
    using p(3) stop(2) by (auto simp: timer_live_def ring_in_use)
  have armed: "timer_armed ?m' = timer_armed m - {t}"
    using stop(2,3) live by (auto simp: timer_armed_def)
  have "t \<notin> {u. tm_running (tmr_node ?m u)}"
    by (auto simp: ogs_timer_stop_def split: if_splits)
  then have "timer_inv ?m'"
    using stop(1,2) p(2) live by (auto simp: timer_inv_def)
  moreover have "tm_data (tmr_node ?m' u) = tm_data (tmr_node m u)" for u
    by (simp add: ogs_timer_stop_def)
  ultimately show ?thesis
    using p(1) live armed by (intro that[of ?m']) (simp_all add: ogs_timer_delete_def Let_def)
qed

subsection \<open>The timer service as its clients see it\<close>

text \<open>
  What the transaction layers and the session code rely on: slots that are live between
  \<open>ogs_timer_add\<close> and \<open>ogs_timer_delete\<close>, of which those between \<open>ogs_timer_start\<close>
  and \<open>ogs_timer_stop\<close> are armed, and the data a timer was created with.
\<close>

locale timer_service =
  fixes inv :: "'m \<Rightarrow> bool" and live :: "'m \<Rightarrow> nat set" and armed :: "'m \<Rightarrow> nat set"
    and data :: "'m \<Rightarrow> nat \<Rightarrow> 'd"
    and add :: "'m \<Rightarrow> 'd \<Rightarrow> (nat option \<times> 'm) option"
    and start :: "'m \<Rightarrow> nat \<Rightarrow> int \<Rightarrow> int \<Rightarrow> 'm option"
    and stop :: "'m \<Rightarrow> nat \<Rightarrow> 'm" and delete :: "'m \<Rightarrow> nat \<Rightarrow> 'm option"
  assumes armed_live: "inv m \<Longrightarrow> armed m \<subseteq> live m"
    and add_law: "inv m \<Longrightarrow> add m d = Some (None, m) \<or>
      (\<exists>t m'. add m d = Some (Some t, m') \<and> inv m' \<and> t \<notin> live m \<and>
         live m' = insert t (live m) \<and> armed m' = armed m \<and>
         data m' t = d \<and> (\<forall>u\<in>live m. data m' u = data m u))"
    and start_law: "inv m \<Longrightarrow> t \<in> live m \<Longrightarrow> k \<noteq> 0 \<Longrightarrow>
      \<exists>m'. start m t k now = Some m' \<and> inv m' \<and> live m' = live m \<and>
         armed m' = insert t (armed m) \<and> (\<forall>u. data m' u = data m u)"
    and stop_law: "inv m \<Longrightarrow> inv (stop m t) \<and> live (stop m t) = live m \<and>
      armed (stop m t) = armed m - {t} \<and> (\<forall>u. data (stop m t) u = data m u)"
    and delete_law: "inv m \<Longrightarrow> t \<in> live m \<Longrightarrow>
      \<exists>m'. delete m t = Some m' \<and> inv m' \<and> live m' = live m - {t} \<and>
         armed m' = armed m - {t} \<and> (\<forall>u. data m' u = data m u)"
begin

lemma delete_cases:
  assumes "inv m" "t \<in> live m"
  obtains m' where "delete m t = Some m'" "inv m'" "live m' = live m - {t}"
    "armed m' = armed m - {t}" "\<And>u. data m' u = data m u"
  using delete_law[OF assms] by blast

lemma start_cases:
  assumes "inv m" "t \<in> live m" "k \<noteq> 0"
  obtains m' where "start m t k now = Some m'" "inv m'" "live m' = live m"
    "armed m' = insert t (armed m)" "\<And>u. data m' u = data m u"
  using start_law[OF assms, of now] by blast

lemma add_cases:
  assumes "inv m"
  obtains (none) "add m d = Some (None, m)"
  | (some) t m' where "add m d = Some (Some t, m')" "inv m'" "t \<notin> live m"
      "live m' = insert t (live m)" "armed m' = armed m" "data m' t = d"
      "\<And>u. u \<in> live m \<Longrightarrow> data m' u = data m u"
  using add_law[OF assms, of d] by blast

primrec delete_seq :: "'m \<Rightarrow> nat list \<Rightarrow> 'm option" where
  "delete_seq m [] = Some m"
| "delete_seq m (t # ts) = Option.bind (delete m t) (\<lambda>m'. delete_seq m' ts)"

lemma delete_seq_cases:
  assumes "inv m" "distinct ts" "set ts \<subseteq> live m"
  obtains m' where "delete_seq m ts = Some m'" "inv m'" "live m' = live m - set ts"
    "armed m' = armed m - set ts" "\<And>u. data m' u = data m u"
  using assms
proof (induction ts arbitrary: m thesis)
  case (Cons t ts)
  from Cons.prems(4) have "t \<in> live m" by simp
  then obtain m1 where m1: "delete m t = Some m1" "inv m1"
      "live m1 = live m - {t}" "armed m1 = armed m - {t}" "\<And>u. data m1 u = data m u"
    using delete_law[OF Cons.prems(2)] by blast
  have "set ts \<subseteq> live m1" using Cons.prems(3,4) m1(3) by auto
  moreover have "distinct ts" using Cons.prems(3) by simp
  ultimately obtain m' where "delete_seq m1 ts = Some m'" "inv m'"
      "live m' = live m1 - set ts" "armed m' = armed m1 - set ts" "\<And>u. data m' u = data m1 u"
    using Cons.IH[OF _ m1(2)] by metis
  with m1 show ?case by (intro Cons.prems(1)[of m']) auto
qed (auto simp: that)

end

abbreviation timer_data :: "'d timer_mgr \<Rightarrow> nat \<Rightarrow> 'd" where
  "timer_data m t \<equiv> tm_data (tmr_node m t)"

lemma timer_stop_data [simp]: "timer_data (ogs_timer_stop m t) u = timer_data m u"
  by (simp add: ogs_timer_stop_def)

interpretation tmr: timer_service timer_inv timer_live timer_armed timer_data
  ogs_timer_add ogs_timer_start ogs_timer_stop ogs_timer_delete
proof unfold_locales
  fix m :: "'a timer_mgr" and d :: 'a
  assume inv: "timer_inv m"
  show "timer_armed m \<subseteq> timer_live m" by (auto simp: timer_armed_def)
  show "timer_inv (ogs_timer_stop m t) \<and> timer_live (ogs_timer_stop m t) = timer_live m \<and>
      timer_armed (ogs_timer_stop m t) = timer_armed m - {t} \<and>
      (\<forall>u. timer_data (ogs_timer_stop m t) u = timer_data m u)" for t
    using timer_stop_inv[OF inv] by simp
  show "ogs_timer_add m d = Some (None, m) \<or>
      (\<exists>t m'. ogs_timer_add m d = Some (Some t, m') \<and> timer_inv m' \<and> t \<notin> timer_live m \<and>
         timer_live m' = insert t (timer_live m) \<and> timer_armed m' = timer_armed m \<and>
         timer_data m' t = d \<and> (\<forall>u\<in>timer_live m. timer_data m' u = timer_data m u))"
    by (rule timer_add_inv[OF inv, of d]) (blast, metis)
  fix t assume t: "t \<in> timer_live m"
  show "\<exists>m'. ogs_timer_delete m t = Some m' \<and> timer_inv m' \<and> timer_live m' = timer_live m - {t} \<and>
      timer_armed m' = timer_armed m - {t} \<and> (\<forall>u. timer_data m' u = timer_data m u)"
    by (rule timer_delete_inv[OF inv t]) blast
  show "\<exists>m'. ogs_timer_start m t k now = Some m' \<and> timer_inv m' \<and> timer_live m' = timer_live m \<and>
      timer_armed m' = insert t (timer_armed m) \<and> (\<forall>u. timer_data m' u = timer_data m u)"
    if "k \<noteq> 0" for k now
    by (rule timer_start_inv[OF inv t that, of now]) metis
qed

subsection \<open>Expiry\<close>

fun timer_linked :: "'d timer_mgr \<Rightarrow> nat list \<Rightarrow> bool" where
  "timer_linked m (t # u # us) \<longleftrightarrow> tm_lnext (tmr_node m t) = Some u \<and> timer_linked m (u # us)"
| "timer_linked m [t] \<longleftrightarrow> tm_lnext (tmr_node m t) = None"
| "timer_linked m [] \<longleftrightarrow> True"

lemma timer_linked_cong:
  "(\<And>t. t \<in> set ts \<Longrightarrow> tm_lnext (tmr_node m t) = tm_lnext (tmr_node m' t)) \<Longrightarrow>
     timer_linked m ts = timer_linked m' ts"
  by (induction m ts rule: timer_linked.induct) auto

lemma timer_link_frame:
  "tmr_pool (timer_link m ts) = tmr_pool m" "tmr_tree (timer_link m ts) = tmr_tree m"
  "timer_data (timer_link m ts) u = timer_data m u"
  "tm_running (tmr_node (timer_link m ts) u) = tm_running (tmr_node m u)"
  "timeout_of (timer_link m ts) u = timeout_of m u"
  by (induction m ts rule: timer_link.induct) auto

lemma timer_link_lnext:
  "t \<notin> set ts \<Longrightarrow> tm_lnext (tmr_node (timer_link m ts) t) = tm_lnext (tmr_node m t)"
  by (induction m ts rule: timer_link.induct) auto

lemma timer_link_linked: "distinct ts \<Longrightarrow> timer_linked (timer_link m ts) ts"
  by (induction m ts rule: timer_link.induct) (auto simp: timer_link_lnext)

lemma timer_link_inv:
  "timer_inv (timer_link m ts) = timer_inv m"
  "timer_armed (timer_link m ts) = timer_armed m"
  "timer_live (timer_link m ts) = timer_live m"
  by (simp_all add: timer_inv_def timer_live_def timer_armed_def timer_link_frame)

lemma timer_stop_lnext [simp]: "tm_lnext (tmr_node (ogs_timer_stop m t) u) = tm_lnext (tmr_node m u)"
  by (simp add: ogs_timer_stop_def)

lemma timer_stop_linked [simp]: "timer_linked (ogs_timer_stop m t) ts = timer_linked m ts"
  by (rule timer_linked_cong) simp

lemma takeWhile_sorted:
  fixes f :: "'a \<Rightarrow> int"
  shows "sorted (map f xs) \<Longrightarrow> set (takeWhile (\<lambda>x. \<not> f x > k) xs) = {x \<in> set xs. f x \<le> k}"
  by (induction xs) (force simp: not_less)+

lemma timer_inv_tree: "timer_inv m \<Longrightarrow> set (tmr_tree m) = timer_armed m"
  by (auto simp: timer_inv_def timer_armed_def)

lemma set_timer_due:
  assumes "timer_inv m"
  shows "set (timer_due m now) = {t \<in> timer_armed m. timeout_of m t \<le> now}"
  unfolding timer_due_def timer_inv_tree[OF assms, symmetric]
  using assms by (intro takeWhile_sorted) (simp add: timer_inv_def)

lemma timer_due_sorted:
  assumes "timer_inv m"
  shows "sorted (map (timeout_of m) (timer_due m now))" "distinct (timer_due m now)"
proof -
  from assms have srt: "sorted (map (timeout_of m) (tmr_tree m))" and d: "distinct (tmr_tree m)"
    by (simp_all add: timer_inv_def)
  have "timer_due m now = take (length (timer_due m now)) (tmr_tree m)"
    unfolding timer_due_def by (rule takeWhile_eq_take)
  then show "sorted (map (timeout_of m) (timer_due m now))" "distinct (timer_due m now)"
    using srt d by (metis sorted_wrt_take take_map, metis distinct_take)
qed

text \<open>
  The callbacks act on a larger state that holds the manager: \<open>get\<close> and
  \<open>put\<close> are the manager in it and \<open>client\<close> is what the callbacks rely on
  in the rest of it while the clock shows \<open>now\<close>. They may stop, start and delete any
  timer, but add none (\<open>ogs_timer_add\<close> clears the link of a slot that it takes), and
  what they start is due later.
\<close>

fun timer_run :: "('s \<Rightarrow> 'd timer_mgr) \<Rightarrow> ('d timer_mgr \<Rightarrow> 's \<Rightarrow> 's) \<Rightarrow> ('d \<Rightarrow> 's \<Rightarrow> 's option)
    \<Rightarrow> 'd timer_mgr \<Rightarrow> nat list \<Rightarrow> 's \<Rightarrow> 's option" where
  "timer_run get put cb m [] s = Some s"
| "timer_run get put cb m (t # ts) s =
     Option.bind (cb (timer_data m t) (put (ogs_timer_stop (get s) t) s)) (timer_run get put cb m ts)"

locale timer_callbacks =
  fixes get :: "'s \<Rightarrow> 'd timer_mgr" and put :: "'d timer_mgr \<Rightarrow> 's \<Rightarrow> 's"
    and cb :: "'d \<Rightarrow> 's \<Rightarrow> 's option" and client :: "'s \<Rightarrow> bool" and now :: int
  assumes get_put: "get (put m s) = m"
    and put_client: "client s \<Longrightarrow> client (put m s)"
    and callback: "client s \<Longrightarrow> cb d s = Some s' \<Longrightarrow> client s' \<and>
      (\<forall>u. timer_data (get s') u = timer_data (get s) u \<and>
           tm_lnext (tmr_node (get s') u) = tm_lnext (tmr_node (get s) u) \<and>
           (tm_running (tmr_node (get s') u) \<longrightarrow> now < timeout_of (get s') u \<or>
              tm_running (tmr_node (get s) u) \<and> timeout_of (get s') u = timeout_of (get s) u))"
begin

definition same_timers :: "'s \<Rightarrow> 's \<Rightarrow> bool" where
  "same_timers s s' \<longleftrightarrow> (\<forall>u. timer_data (get s') u = timer_data (get s) u \<and>
     tm_lnext (tmr_node (get s') u) = tm_lnext (tmr_node (get s) u))"

text \<open>The running timers that are due are among those of \<open>ts\<close>.\<close>

definition due_within :: "'s \<Rightarrow> nat list \<Rightarrow> bool" where
  "due_within s ts \<longleftrightarrow>
     (\<forall>u. tm_running (tmr_node (get s) u) \<and> timeout_of (get s) u \<le> now \<longrightarrow> u \<in> set ts)"

lemma callback_step:
  assumes "client s" "due_within s (t # ts)" "cb d (put (ogs_timer_stop (get s) t) s) = Some s'"
  shows "client s'" "due_within s' ts" "same_timers s s'"
proof -
  let ?s1 = "put (ogs_timer_stop (get s) t) s"
  note law = callback [OF put_client [OF assms(1)] assms(3), unfolded get_put]
  have "due_within ?s1 ts"
    using assms(2) by (auto simp: due_within_def get_put ogs_timer_stop_def)
  then show "due_within s' ts"
    unfolding due_within_def get_put using law by (metis not_less)
  show "client s'" "same_timers s s'" using law by (simp_all add: same_timers_def)
qed

lemma same_timers_linked: "same_timers s s' \<Longrightarrow> timer_linked (get s') ts = timer_linked (get s) ts"
  by (rule timer_linked_cong) (simp add: same_timers_def)

lemma fire_run:
  assumes "client s" "timer_linked (get s) ts" "due_within s ts"
    and "\<And>u. timer_data (get s) u = timer_data m u"
  shows "timer_fire get put cb ts s = timer_run get put cb m ts s \<and>
    (\<forall>s'. timer_run get put cb m ts s = Some s' \<longrightarrow> due_within s' [])"
  using assms
proof (induction ts arbitrary: s)
  case (Cons t ts)
  let ?s1 = "put (ogs_timer_stop (get s) t) s"
  have data: "timer_data (get ?s1) t = timer_data m t"
    using Cons.prems(4) by (simp add: get_put)
  show ?case
  proof (cases "cb (timer_data m t) ?s1")
    case (Some s2)
    note step = callback_step [OF Cons.prems(1,3) Some]
    have linked: "timer_linked (get s2) (t # ts)"
      using same_timers_linked [OF step(3)] Cons.prems(2) by simp
    have "timer_fire get put cb (t # ts) s = timer_fire get put cb ts s2"
      using Some linked data by (cases ts) (simp_all add: Let_def)
    moreover have "timer_linked (get s2) ts" using linked by (cases ts) simp_all
    moreover have "timer_data (get s2) u = timer_data m u" for u
      using step(3) Cons.prems(4) by (simp add: same_timers_def)
    ultimately show ?thesis using Cons.IH [OF step(1) _ step(2)] Some by simp
  qed (simp add: data Let_def)
qed simp

lemma expire_run:
  assumes "client s" "timer_inv (get s)"
  shows "ogs_timer_mgr_expire get put cb now s =
      timer_run get put cb (get s) (timer_due (get s) now) (put (timer_link (get s) (timer_due (get s) now)) s)"
    and "ogs_timer_mgr_expire get put cb now s = Some s' \<Longrightarrow> tm_running (tmr_node (get s') u) \<Longrightarrow>
      now < timeout_of (get s') u"
proof -
  let ?due = "timer_due (get s) now"
  let ?s1 = "put (timer_link (get s) ?due) s"
  have "due_within ?s1 ?due"
    using set_timer_due [OF assms(2), of now] assms(2)
    by (auto simp: due_within_def get_put timer_link_frame timer_armed_def timer_inv_def)
  moreover have "timer_linked (get ?s1) ?due"
    by (simp add: get_put timer_link_linked timer_due_sorted [OF assms(2)])
  moreover have "client ?s1" by (rule put_client) (rule assms)
  ultimately have run: "timer_fire get put cb ?due ?s1 = timer_run get put cb (get s) ?due ?s1 \<and>
      (\<forall>s'. timer_run get put cb (get s) ?due ?s1 = Some s' \<longrightarrow> due_within s' [])"
    by (intro fire_run) (simp_all add: get_put timer_link_frame)
  then show eq: "ogs_timer_mgr_expire get put cb now s = timer_run get put cb (get s) ?due ?s1"
    by (simp add: ogs_timer_mgr_expire_def Let_def)
  show "now < timeout_of (get s') u"
    if "ogs_timer_mgr_expire get put cb now s = Some s'" "tm_running (tmr_node (get s') u)"
    using run that unfolding eq by (force simp: due_within_def)
qed

end

subsection \<open>Properties\<close>

text \<open>The sleep that \<open>ogs_timer_mgr_next\<close> tells the main loop: infinite exactly when no
  timer is armed, and otherwise the time to the earliest armed timer, zero when that
  timer is due, so that the loop never sleeps past a timeout.\<close>

theorem timer_next_earliest:
  assumes "timer_inv m"
  shows "ogs_timer_mgr_next m now =
    (if timer_armed m = {} then OGS_INFINITE_TIME
     else max OGS_NO_WAIT_TIME (Min (timeout_of m ` timer_armed m) - now))"
proof (cases "tmr_tree m")
  case Nil
  then show ?thesis
    using timer_inv_tree[OF assms] by (simp add: ogs_timer_mgr_next_def)
next
  case (Cons t ts)
  have armed: "timer_armed m = set (t # ts)" using timer_inv_tree[OF assms] Cons by simp
  have "Min (timeout_of m ` set (t # ts)) = timeout_of m t"
    using assms Cons by (intro Min_eqI) (simp, auto simp: timer_inv_def)
  then show ?thesis
    using Cons unfolding armed by (simp add: ogs_timer_mgr_next_def OGS_NO_WAIT_TIME_def)
qed

theorem timer_next_earliest_witness:
  "\<exists>m t. ogs_timer_add (ogs_timer_mgr_create () 2) () = Some (Some t, m) \<and>
     ogs_timer_mgr_next m 5 = OGS_INFINITE_TIME"
proof -
  let ?m0 = "ogs_timer_mgr_create () 2"
  obtain t m where a: "ogs_timer_add ?m0 () = Some (Some t, m)"
    by (simp add: ogs_timer_add_def ogs_timer_mgr_create_def ogs_pool_alloc_def ogs_pool_init_def Let_def)
  have arm0: "timer_armed ?m0 = {}" by (simp add: timer_armed_def ogs_timer_mgr_create_def)
  from a have "timer_inv m" "timer_armed m = {}"
    using arm0 by (auto intro: tmr.add_cases[OF timer_inv_create[of "()" 2], of "()"])
  with a timer_next_earliest[of m 5] show ?thesis by auto
qed

text \<open>C10. \<open>ogs_timer_mgr_expire\<close> is the run of the callbacks of the armed timers
  whose timeout has passed and of no other, each once, in the order of their timeouts, with the data
  the timer was added with and after the timer was stopped; a timer that an earlier callback of the
  run stops or deletes is run all the same. Afterwards no running timer is due. This holds for
  callbacks that stop, start and delete timers as they like, as long as they add no timer during the
  run and what they start is due later than now.\<close>

theorem timer_expire_fires_due:
  assumes "timer_inv (get s)" and "client s" and "\<And>m s. get (put m s) = m"
    and "\<And>m s. client s \<Longrightarrow> client (put m s)"
    and "\<And>d s s'. client s \<Longrightarrow> cb d s = Some s' \<Longrightarrow> client s' \<and>
      (\<forall>u. timer_data (get s') u = timer_data (get s) u \<and>
           tm_lnext (tmr_node (get s') u) = tm_lnext (tmr_node (get s) u) \<and>
           (tm_running (tmr_node (get s') u) \<longrightarrow> now < timeout_of (get s') u \<or>
              tm_running (tmr_node (get s) u) \<and> timeout_of (get s') u = timeout_of (get s) u))"
  shows "\<exists>due. set due = {t \<in> timer_armed (get s). timeout_of (get s) t \<le> now} \<and> distinct due \<and>
    sorted (map (timeout_of (get s)) due) \<and>
    ogs_timer_mgr_expire get put cb now s =
      timer_run get put cb (get s) due (put (timer_link (get s) due) s) \<and>
    (\<forall>s' u. ogs_timer_mgr_expire get put cb now s = Some s' \<and> tm_running (tmr_node (get s') u) \<longrightarrow>
       now < timeout_of (get s') u)"
proof -
  have "timer_callbacks get put cb client now" by (rule timer_callbacks.intro) (fact assms(3-5))+
  note run = timer_callbacks.expire_run [OF this assms(2,1)]
  show ?thesis
    using run set_timer_due [OF assms(1), of now] timer_due_sorted [OF assms(1), of now]
    by (intro exI [of _ "timer_due (get s) now"]) blast
qed

text \<open>Two timers are due; the callback of the first deletes the second and starts itself
  again.\<close>

definition demo_mgr :: "nat timer_mgr" where
  "demo_mgr = \<lparr>tmr_pool = (ogs_pool_init 2)\<lparr>p_avail := 0, p_index := [Some 0, Some 1]\<rparr>,
     tmr_node = (\<lambda>t. \<lparr>tm_data = t, tm_running = t < 2, tm_timeout = 7 + int t, tm_lnext = None\<rparr>),
     tmr_tree = [0, 1]\<rparr>"

definition demo_callback :: "nat \<Rightarrow> nat timer_mgr \<times> nat list \<Rightarrow> (nat timer_mgr \<times> nat list) option" where
  "demo_callback d s =
     (if d = 0 then Option.bind (ogs_timer_delete (fst s) 1) (\<lambda>m.
        map_option (\<lambda>m. (m, snd s @ [d])) (ogs_timer_start m 0 5 9))
      else Some (fst s, snd s @ [d]))"

lemma demo_mgr_inv: "timer_inv demo_mgr" "timer_armed demo_mgr = {0, 1}"
proof -
  have un: "pool_unused_nodes (tmr_pool demo_mgr) = []" "pool_unused (tmr_pool demo_mgr) = []"
    by (simp_all add: pool_unused_nodes_def pool_unused_def demo_mgr_def)
  have "pool_inv (tmr_pool demo_mgr)"
    unfolding pool_inv_def un by (auto simp: demo_mgr_def ogs_pool_init_def less_Suc_eq numeral_2_eq_2)
  moreover have live: "timer_live demo_mgr = {0, 1}"
    unfolding timer_live_def pool_in_use_def un by (auto simp: demo_mgr_def ogs_pool_init_def)
  ultimately show "timer_inv demo_mgr" unfolding timer_inv_def live by (auto simp: demo_mgr_def)
  show "timer_armed demo_mgr = {0, 1}" unfolding timer_armed_def live by (auto simp: demo_mgr_def)
qed

lemma demo_callback_law:
  assumes "demo_callback d s = Some s'"
  shows "timer_data (fst s') u = timer_data (fst s) u"
    "tm_lnext (tmr_node (fst s') u) = tm_lnext (tmr_node (fst s) u)"
    "tm_running (tmr_node (fst s') u) \<Longrightarrow> 9 < timeout_of (fst s') u \<or>
       tm_running (tmr_node (fst s) u) \<and> timeout_of (fst s') u = timeout_of (fst s) u"
  using assms by (auto simp: demo_callback_def ogs_timer_delete_def ogs_timer_start_def ogs_timer_stop_def
      Let_def bind_eq_Some_conv split: if_splits)

lemma demo_run:
  "\<exists>m'. timer_run fst (\<lambda>m s. (m, snd s)) demo_callback demo_mgr [0, 1] (timer_link demo_mgr [0, 1], []) =
     Some (m', [0, 1]) \<and> tmr_tree m' = [0] \<and> timeout_of m' 0 = 14"
  by (simp add: demo_callback_def demo_mgr_def ogs_timer_delete_def ogs_timer_start_def ogs_timer_stop_def
      ogs_pool_free_def ogs_pool_init_def Let_def)

theorem timer_expire_fires_due_witness:
  "\<exists>m'. ogs_timer_mgr_expire fst (\<lambda>m s. (m, snd s)) demo_callback 9 (demo_mgr, []) = Some (m', [0, 1]) \<and>
     tmr_tree m' = [0] \<and> 9 < timeout_of m' 0"
proof -
  obtain due where due: "set due = {t \<in> {0, 1}. timeout_of demo_mgr t \<le> 9}" "distinct due"
      "sorted (map (timeout_of demo_mgr) due)"
      "ogs_timer_mgr_expire fst (\<lambda>m s. (m, snd s)) demo_callback 9 (demo_mgr, []) =
        timer_run fst (\<lambda>m s. (m, snd s)) demo_callback demo_mgr due (timer_link demo_mgr due, [])"
    using timer_expire_fires_due [of fst "(demo_mgr, [])" "\<lambda>_. True" "\<lambda>m s. (m, snd s)" demo_callback 9]
      demo_mgr_inv demo_callback_law by (force simp: demo_mgr_inv(2))
  have set: "set due = {0, 1}" unfolding due(1) by (auto simp: demo_mgr_def)
  with due(2) have "length due = 2" by (metis distinct_card card_2_iff zero_neq_one)
  then obtain a b where "due = [a, b]" by (auto simp: numeral_2_eq_2 length_Suc_conv)
  with set due(3) have "due = [0, 1]" by (auto simp: demo_mgr_def doubleton_eq_iff)
  then show ?thesis using demo_run due(4) by fastforce
qed

end
