(* ===== verification/Ogs_Rbtree.thy ===== *)
theory Ogs_Rbtree
  imports Main "HOL-Library.Monad_Syntax"
begin

text \<open>
  The intrusive red-black tree of \<open>lib/core/ogs-rbtree.[hc]\<close>, on an explicit memory.
  A node is an address; \<open>rb_mem\<close> gives the \<open>ogs_rbnode_t\<close> stored there and \<open>rb_root\<close>
  is the field of \<open>ogs_rbtree_t\<close>. Every C function is translated statement by statement;
  \<open>None\<close> is a failed \<open>ogs_assert\<close>, a read or write through NULL, or a loop that does
  not end. The loops are \<open>partial_function\<close>s, so that ending is something to prove.

  This theory holds the operations. \<open>Ogs_Rbtree_Rep\<close> relates the memory to trees, with one
  lemma per pointer manipulation, and \<open>Ogs_Rbtree_Inv\<close> builds the correctness of insertion,
  deletion and iteration on it.
\<close>

subsection \<open>Nodes and their fields\<close>

datatype ogs_rbtree_color_e = OGS_RBTREE_BLACK | OGS_RBTREE_RED

record ogs_rbnode =
  rb_parent :: "nat option"
  rb_left :: "nat option"
  rb_right :: "nat option"
  rb_color :: ogs_rbtree_color_e

record ogs_rbtree =
  rb_mem :: "nat \<Rightarrow> ogs_rbnode"
  rb_root :: "nat option"

definition rb_set :: "nat \<Rightarrow> (ogs_rbnode \<Rightarrow> ogs_rbnode) \<Rightarrow> ogs_rbtree \<Rightarrow> ogs_rbtree" where
  "rb_set p f s = s\<lparr>rb_mem := (rb_mem s)(p := f (rb_mem s p))\<rparr>"

abbreviation set_parent :: "nat \<Rightarrow> nat option \<Rightarrow> ogs_rbtree \<Rightarrow> ogs_rbtree" where
  "set_parent p v \<equiv> rb_set p (rb_parent_update (\<lambda>_. v))"

abbreviation set_left :: "nat \<Rightarrow> nat option \<Rightarrow> ogs_rbtree \<Rightarrow> ogs_rbtree" where
  "set_left p v \<equiv> rb_set p (rb_left_update (\<lambda>_. v))"

abbreviation set_right :: "nat \<Rightarrow> nat option \<Rightarrow> ogs_rbtree \<Rightarrow> ogs_rbtree" where
  "set_right p v \<equiv> rb_set p (rb_right_update (\<lambda>_. v))"

abbreviation set_color :: "nat \<Rightarrow> ogs_rbtree_color_e \<Rightarrow> ogs_rbtree \<Rightarrow> ogs_rbtree" where
  "set_color p v \<equiv> rb_set p (rb_color_update (\<lambda>_. v))"

abbreviation left_of :: "ogs_rbtree \<Rightarrow> nat \<Rightarrow> nat option" where
  "left_of s p \<equiv> rb_left (rb_mem s p)"

abbreviation right_of :: "ogs_rbtree \<Rightarrow> nat \<Rightarrow> nat option" where
  "right_of s p \<equiv> rb_right (rb_mem s p)"

abbreviation parent_of :: "ogs_rbtree \<Rightarrow> nat \<Rightarrow> nat option" where
  "parent_of s p \<equiv> rb_parent (rb_mem s p)"

abbreviation color_of :: "ogs_rbtree \<Rightarrow> nat \<Rightarrow> ogs_rbtree_color_e" where
  "color_of s p \<equiv> rb_color (rb_mem s p)"

subsection \<open>Replacing a child and rotations\<close>

definition rb_change_child :: "nat \<Rightarrow> nat option \<Rightarrow> nat option \<Rightarrow> ogs_rbtree \<Rightarrow> ogs_rbtree" where
  "rb_change_child old new parent s =
     (case parent of
        Some p \<Rightarrow> if Some old = left_of s p then set_left p new s else set_right p new s
      | None \<Rightarrow> s\<lparr>rb_root := new\<rparr>)"

definition rb_replace_node :: "nat \<Rightarrow> nat option \<Rightarrow> nat option \<Rightarrow> ogs_rbtree \<Rightarrow> ogs_rbtree" where
  "rb_replace_node old new parent s =
     (let s = rb_change_child old new parent s in
      case new of Some n \<Rightarrow> set_parent n parent s | None \<Rightarrow> s)"

definition rb_rotate_left :: "nat \<Rightarrow> ogs_rbtree \<Rightarrow> ogs_rbtree option" where
  "rb_rotate_left node s =
     do { right \<leftarrow> right_of s node;
          let s = set_right node (left_of s right) s;
          let s = (case left_of s right of Some l \<Rightarrow> set_parent l (Some node) s | None \<Rightarrow> s);
          let s = rb_replace_node node (Some right) (parent_of s node) s;
          let s = set_left right (Some node) s;
          Some (set_parent node (Some right) s) }"

definition rb_rotate_right :: "nat \<Rightarrow> ogs_rbtree \<Rightarrow> ogs_rbtree option" where
  "rb_rotate_right node s =
     do { left \<leftarrow> left_of s node;
          let s = set_left node (right_of s left) s;
          let s = (case right_of s left of Some r \<Rightarrow> set_parent r (Some node) s | None \<Rightarrow> s);
          let s = rb_replace_node node (Some left) (parent_of s node) s;
          let s = set_right left (Some node) s;
          Some (set_parent node (Some left) s) }"

subsection \<open>Insertion\<close>

text \<open>The argument \<open>rb_link\<close> of \<open>ogs_rbtree_link_node\<close> is the address of a pointer field.\<close>

datatype rb_link = Link_root | Link_left nat | Link_right nat

fun rb_store :: "rb_link \<Rightarrow> nat option \<Rightarrow> ogs_rbtree \<Rightarrow> ogs_rbtree" where
  "rb_store Link_root v s = s\<lparr>rb_root := v\<rparr>"
| "rb_store (Link_left p) v s = set_left p v s"
| "rb_store (Link_right p) v s = set_right p v s"

fun rb_load :: "rb_link \<Rightarrow> ogs_rbtree \<Rightarrow> nat option" where
  "rb_load Link_root s = rb_root s"
| "rb_load (Link_left p) s = left_of s p"
| "rb_load (Link_right p) s = right_of s p"

definition ogs_rbtree_link_node :: "nat \<Rightarrow> nat option \<Rightarrow> rb_link \<Rightarrow> ogs_rbtree \<Rightarrow> ogs_rbtree" where
  "ogs_rbtree_link_node node parent link s =
     (let s = set_parent node parent s;
          s = set_right node None s;
          s = set_left node None s;
          s = set_color node OGS_RBTREE_RED s
      in rb_store link (Some node) s)"

definition rb_is_red :: "ogs_rbtree \<Rightarrow> nat option \<Rightarrow> bool" where
  "rb_is_red s p = (case p of Some n \<Rightarrow> color_of s n = OGS_RBTREE_RED | None \<Rightarrow> False)"

definition rb_insert_flip :: "nat \<Rightarrow> nat \<Rightarrow> nat \<Rightarrow> ogs_rbtree \<Rightarrow> ogs_rbtree" where
  "rb_insert_flip uncle parent gparent s =
     set_color gparent OGS_RBTREE_RED
       (set_color parent OGS_RBTREE_BLACK (set_color uncle OGS_RBTREE_BLACK s))"

definition rb_insert_left :: "nat \<Rightarrow> nat \<Rightarrow> nat \<Rightarrow> ogs_rbtree \<Rightarrow> (nat \<times> ogs_rbtree) option" where
  "rb_insert_left node parent gparent s =
     (let uncle = right_of s gparent in
      if rb_is_red s uncle then Some (gparent, rb_insert_flip (the uncle) parent gparent s)
      else
        do { (node, s) \<leftarrow>
               (if Some node = right_of s parent
                then do { n \<leftarrow> parent_of s node; s \<leftarrow> rb_rotate_left n s; Some (n, s) }
                else Some (node, s));
             p \<leftarrow> parent_of s node;
             let s = set_color p OGS_RBTREE_BLACK s;
             let s = set_color gparent OGS_RBTREE_RED s;
             s \<leftarrow> rb_rotate_right gparent s;
             Some (node, s) })"

definition rb_insert_right :: "nat \<Rightarrow> nat \<Rightarrow> nat \<Rightarrow> ogs_rbtree \<Rightarrow> (nat \<times> ogs_rbtree) option" where
  "rb_insert_right node parent gparent s =
     (let uncle = left_of s gparent in
      if rb_is_red s uncle then Some (gparent, rb_insert_flip (the uncle) parent gparent s)
      else
        do { (node, s) \<leftarrow>
               (if Some node = left_of s parent
                then do { n \<leftarrow> parent_of s node; s \<leftarrow> rb_rotate_right n s; Some (n, s) }
                else Some (node, s));
             p \<leftarrow> parent_of s node;
             let s = set_color p OGS_RBTREE_BLACK s;
             let s = set_color gparent OGS_RBTREE_RED s;
             s \<leftarrow> rb_rotate_left gparent s;
             Some (node, s) })"

partial_function (option) rb_insert_loop :: "nat \<Rightarrow> ogs_rbtree \<Rightarrow> ogs_rbtree option" where
  "rb_insert_loop node s =
     (case parent_of s node of
        None \<Rightarrow> Some s
      | Some parent \<Rightarrow>
          if color_of s parent \<noteq> OGS_RBTREE_RED then Some s
          else
            do { gparent \<leftarrow> parent_of s parent;
                 (node, s) \<leftarrow>
                   (if Some parent = left_of s gparent
                    then rb_insert_left node parent gparent s
                    else rb_insert_right node parent gparent s);
                 rb_insert_loop node s })"

definition ogs_rbtree_insert_color :: "nat \<Rightarrow> ogs_rbtree \<Rightarrow> ogs_rbtree option" where
  "ogs_rbtree_insert_color node s =
     do { s \<leftarrow> rb_insert_loop node s;
          r \<leftarrow> rb_root s;
          Some (set_color r OGS_RBTREE_BLACK s) }"

subsection \<open>The leftmost and rightmost node\<close>

partial_function (option) ogs_rbtree_min :: "ogs_rbtree \<Rightarrow> nat \<Rightarrow> nat option" where
  "ogs_rbtree_min s node =
     (case left_of s node of None \<Rightarrow> Some node | Some l \<Rightarrow> ogs_rbtree_min s l)"

partial_function (option) ogs_rbtree_max :: "ogs_rbtree \<Rightarrow> nat \<Rightarrow> nat option" where
  "ogs_rbtree_max s node =
     (case right_of s node of None \<Rightarrow> Some node | Some r \<Rightarrow> ogs_rbtree_max s r)"

subsection \<open>Deletion\<close>

definition rb_is_black :: "ogs_rbtree \<Rightarrow> nat option \<Rightarrow> bool" where
  "rb_is_black s p = (case p of Some n \<Rightarrow> color_of s n = OGS_RBTREE_BLACK | None \<Rightarrow> True)"

text \<open>
  One round of \<open>rb_delete_color\<close> with the node on the left of its parent: case 1 makes the
  sibling black, the rest of the round is case 2 or, after case 3 where it applies, case 4.
  A round returns the new values of \<open>node\<close> and \<open>parent\<close>.
\<close>

definition rb_delete_left1 :: "nat \<Rightarrow> ogs_rbtree \<Rightarrow> (nat \<times> ogs_rbtree) option" where
  "rb_delete_left1 parent s =
     do { sibling \<leftarrow> right_of s parent;
          if color_of s sibling = OGS_RBTREE_RED
          then do { let s = set_color sibling OGS_RBTREE_BLACK s;
                    let s = set_color parent OGS_RBTREE_RED s;
                    s \<leftarrow> rb_rotate_left parent s;
                    sibling \<leftarrow> right_of s parent;
                    Some (sibling, s) }
          else Some (sibling, s) }"

definition rb_delete_left4 :: "nat \<Rightarrow> nat \<Rightarrow> ogs_rbtree
    \<Rightarrow> (nat option \<times> nat option \<times> ogs_rbtree) option" where
  "rb_delete_left4 sibling parent s =
     do { let s = set_color sibling (color_of s parent) s;
          let s = set_color parent OGS_RBTREE_BLACK s;
          r \<leftarrow> right_of s sibling;
          let s = set_color r OGS_RBTREE_BLACK s;
          s \<leftarrow> rb_rotate_left parent s;
          Some (rb_root s, Some parent, s) }"

definition rb_delete_left2 :: "nat \<Rightarrow> nat \<Rightarrow> ogs_rbtree
    \<Rightarrow> (nat option \<times> nat option \<times> ogs_rbtree) option" where
  "rb_delete_left2 sibling parent s =
     (if rb_is_black s (left_of s sibling) \<and> rb_is_black s (right_of s sibling)
      then let s = set_color sibling OGS_RBTREE_RED s in
           Some (Some parent, parent_of s parent, s)
      else
        do { (sibling, s) \<leftarrow>
               (if rb_is_black s (right_of s sibling)
                then do { l \<leftarrow> left_of s sibling;
                          let s = set_color l OGS_RBTREE_BLACK s;
                          let s = set_color sibling OGS_RBTREE_RED s;
                          s \<leftarrow> rb_rotate_right sibling s;
                          sib \<leftarrow> right_of s parent;
                          Some (sib, s) }
                else Some (sibling, s));
             rb_delete_left4 sibling parent s })"

definition rb_delete_right1 :: "nat \<Rightarrow> ogs_rbtree \<Rightarrow> (nat \<times> ogs_rbtree) option" where
  "rb_delete_right1 parent s =
     do { sibling \<leftarrow> left_of s parent;
          if color_of s sibling = OGS_RBTREE_RED
          then do { let s = set_color sibling OGS_RBTREE_BLACK s;
                    let s = set_color parent OGS_RBTREE_RED s;
                    s \<leftarrow> rb_rotate_right parent s;
                    sibling \<leftarrow> left_of s parent;
                    Some (sibling, s) }
          else Some (sibling, s) }"

definition rb_delete_right4 :: "nat \<Rightarrow> nat \<Rightarrow> ogs_rbtree
    \<Rightarrow> (nat option \<times> nat option \<times> ogs_rbtree) option" where
  "rb_delete_right4 sibling parent s =
     do { let s = set_color sibling (color_of s parent) s;
          let s = set_color parent OGS_RBTREE_BLACK s;
          l \<leftarrow> left_of s sibling;
          let s = set_color l OGS_RBTREE_BLACK s;
          s \<leftarrow> rb_rotate_right parent s;
          Some (rb_root s, Some parent, s) }"

definition rb_delete_right2 :: "nat \<Rightarrow> nat \<Rightarrow> ogs_rbtree
    \<Rightarrow> (nat option \<times> nat option \<times> ogs_rbtree) option" where
  "rb_delete_right2 sibling parent s =
     (if rb_is_black s (left_of s sibling) \<and> rb_is_black s (right_of s sibling)
      then let s = set_color sibling OGS_RBTREE_RED s in
           Some (Some parent, parent_of s parent, s)
      else
        do { (sibling, s) \<leftarrow>
               (if rb_is_black s (left_of s sibling)
                then do { r \<leftarrow> right_of s sibling;
                          let s = set_color r OGS_RBTREE_BLACK s;
                          let s = set_color sibling OGS_RBTREE_RED s;
                          s \<leftarrow> rb_rotate_left sibling s;
                          sib \<leftarrow> left_of s parent;
                          Some (sib, s) }
                else Some (sibling, s));
             rb_delete_right4 sibling parent s })"

definition rb_delete_round :: "nat option \<Rightarrow> nat \<Rightarrow> ogs_rbtree
    \<Rightarrow> (nat option \<times> nat option \<times> ogs_rbtree) option" where
  "rb_delete_round node p s =
     (if node = left_of s p
      then do { (sibling, s) \<leftarrow> rb_delete_left1 p s; rb_delete_left2 sibling p s }
      else do { (sibling, s) \<leftarrow> rb_delete_right1 p s; rb_delete_right2 sibling p s })"

partial_function (option) rb_delete_color ::
    "nat option \<Rightarrow> nat option \<Rightarrow> ogs_rbtree \<Rightarrow> ogs_rbtree option" where
  "rb_delete_color node parent s =
     (if node \<noteq> rb_root s \<and> rb_is_black s node
      then
        do { p \<leftarrow> parent;
             (node, parent, s) \<leftarrow> rb_delete_round node p s;
             rb_delete_color node parent s }
      else Some (case node of Some n \<Rightarrow> set_color n OGS_RBTREE_BLACK s | None \<Rightarrow> s))"

text \<open>
  The first part of \<open>ogs_rbtree_delete\<close> takes the node out of the tree; it gives the values
  of \<open>child\<close>, \<open>parent\<close> and \<open>color\<close> for the second part. A node with two children is replaced
  by its successor.
\<close>

definition rb_unlink_two :: "nat \<Rightarrow> nat \<Rightarrow> ogs_rbtree
    \<Rightarrow> (nat option \<times> nat option \<times> ogs_rbtree_color_e \<times> ogs_rbtree) option" where
  "rb_unlink_two node nr s =
     do { new \<leftarrow> ogs_rbtree_min s nr;
          let child = right_of s new;
          parent \<leftarrow> parent_of s new;
          let color = color_of s new;
          let s = set_left new (left_of s node) s;
          nl \<leftarrow> left_of s node;
          let s = set_parent nl (Some new) s;
          (parent, s) \<leftarrow>
            (if parent = node then Some (new, s)
             else
               do { let s = (case child of Some ch \<Rightarrow> set_parent ch (Some parent) s | None \<Rightarrow> s);
                    let s = set_left parent child s;
                    let s = set_right new (right_of s node) s;
                    nr \<leftarrow> right_of s node;
                    Some (parent, set_parent nr (Some new) s) });
          let s = set_color new (color_of s node) s;
          let s = rb_replace_node node (Some new) (parent_of s node) s;
          Some (child, Some parent, color, s) }"

definition rb_unlink :: "nat \<Rightarrow> ogs_rbtree
    \<Rightarrow> (nat option \<times> nat option \<times> ogs_rbtree_color_e \<times> ogs_rbtree) option" where
  "rb_unlink node s =
     (case left_of s node of
        None \<Rightarrow>
          Some (right_of s node, parent_of s node, color_of s node,
                rb_replace_node node (right_of s node) (parent_of s node) s)
      | Some nl \<Rightarrow>
          (case right_of s node of
             None \<Rightarrow>
               Some (Some nl, parent_of s node, color_of s node,
                     rb_replace_node node (Some nl) (parent_of s node) s)
           | Some nr \<Rightarrow> rb_unlink_two node nr s))"

definition ogs_rbtree_delete :: "nat \<Rightarrow> ogs_rbtree \<Rightarrow> ogs_rbtree option" where
  "ogs_rbtree_delete node s =
     do { (child, parent, color, s) \<leftarrow> rb_unlink node s;
          if color = OGS_RBTREE_BLACK then rb_delete_color child parent s else Some s }"

subsection \<open>Iteration\<close>

text \<open>A NULL result is \<open>Some None\<close>.\<close>

definition ogs_rbtree_first :: "ogs_rbtree \<Rightarrow> nat option option" where
  "ogs_rbtree_first s =
     (case rb_root s of None \<Rightarrow> Some None | Some r \<Rightarrow> map_option Some (ogs_rbtree_min s r))"

definition ogs_rbtree_last :: "ogs_rbtree \<Rightarrow> nat option option" where
  "ogs_rbtree_last s =
     (case rb_root s of None \<Rightarrow> Some None | Some r \<Rightarrow> map_option Some (ogs_rbtree_max s r))"

definition rb_empty_node :: "ogs_rbtree \<Rightarrow> nat \<Rightarrow> bool" where
  "rb_empty_node s node = (parent_of s node = Some node)"

partial_function (option) rb_climb_right :: "ogs_rbtree \<Rightarrow> nat \<Rightarrow> nat option option" where
  "rb_climb_right s node =
     (case parent_of s node of
        None \<Rightarrow> Some None
      | Some p \<Rightarrow> if Some node = right_of s p then rb_climb_right s p else Some (Some p))"

partial_function (option) rb_climb_left :: "ogs_rbtree \<Rightarrow> nat \<Rightarrow> nat option option" where
  "rb_climb_left s node =
     (case parent_of s node of
        None \<Rightarrow> Some None
      | Some p \<Rightarrow> if Some node = left_of s p then rb_climb_left s p else Some (Some p))"

definition ogs_rbtree_next :: "ogs_rbtree \<Rightarrow> nat \<Rightarrow> nat option option" where
  "ogs_rbtree_next s node =
     (if rb_empty_node s node then Some None
      else case right_of s node of
             Some r \<Rightarrow> map_option Some (ogs_rbtree_min s r)
           | None \<Rightarrow> rb_climb_right s node)"

definition ogs_rbtree_prev :: "ogs_rbtree \<Rightarrow> nat \<Rightarrow> nat option option" where
  "ogs_rbtree_prev s node =
     (if rb_empty_node s node then Some None
      else case left_of s node of
             Some l \<Rightarrow> map_option Some (ogs_rbtree_max s l)
           | None \<Rightarrow> rb_climb_left s node)"

definition ogs_rbtree_empty :: "ogs_rbtree \<Rightarrow> bool" where
  "ogs_rbtree_empty s \<longleftrightarrow> rb_root s = None"

text \<open>
  The loops of the two iteration macros, with the statement they govern as the parameter
  \<open>body\<close>: it gets the node and the state of the caller and returns the new one, as \<open>Inr\<close>
  when the loop goes on and as \<open>Inl\<close> when it breaks.
\<close>

partial_function (option) rb_for_each_from ::
    "(ogs_rbtree \<Rightarrow> nat \<Rightarrow> nat option option) \<Rightarrow> ogs_rbtree \<Rightarrow> (nat \<Rightarrow> 'a \<Rightarrow> 'a + 'a)
      \<Rightarrow> nat option \<Rightarrow> 'a \<Rightarrow> 'a option" where
  "rb_for_each_from step s body node a =
     (case node of
        None \<Rightarrow> Some a
      | Some n \<Rightarrow>
          (case body n a of
             Inl a \<Rightarrow> Some a
           | Inr a \<Rightarrow> do { node \<leftarrow> step s n; rb_for_each_from step s body node a }))"

definition ogs_rbtree_for_each :: "ogs_rbtree \<Rightarrow> (nat \<Rightarrow> 'a \<Rightarrow> 'a + 'a) \<Rightarrow> 'a \<Rightarrow> 'a option" where
  "ogs_rbtree_for_each s body a =
     do { node \<leftarrow> ogs_rbtree_first s; rb_for_each_from ogs_rbtree_next s body node a }"

definition ogs_rbtree_reverse_for_each ::
    "ogs_rbtree \<Rightarrow> (nat \<Rightarrow> 'a \<Rightarrow> 'a + 'a) \<Rightarrow> 'a \<Rightarrow> 'a option" where
  "ogs_rbtree_reverse_for_each s body a =
     do { node \<leftarrow> ogs_rbtree_last s; rb_for_each_from ogs_rbtree_prev s body node a }"

definition ogs_rbtree_count :: "ogs_rbtree \<Rightarrow> nat option" where
  "ogs_rbtree_count s = ogs_rbtree_for_each s (\<lambda>_ i. Inr (i + 1)) 0"

declare rb_insert_loop.simps [code] ogs_rbtree_min.simps [code] ogs_rbtree_max.simps [code]
  rb_delete_color.simps [code] rb_climb_right.simps [code] rb_climb_left.simps [code]
  rb_for_each_from.simps [code]

end
