(* ===== verification/Ogs_Rbtree_Rep.thy ===== *)
theory Ogs_Rbtree_Rep
  imports Ogs_Rbtree
begin

text \<open>
  What the memory of a red-black tree represents. A tree is split into a focused subtree
  and its context, a list of frames from the focus up to the root; \<open>rb_rep\<close> says that the
  memory holds exactly that tree, that its nodes are pairwise distinct and within a set
  of addresses \<open>A\<close>, and that nothing outside \<open>A\<close> differs from a base memory. Each pointer
  manipulation of \<open>ogs-rbtree.c\<close> has one lemma here, stated on the focus.
\<close>

datatype rbt = E | N rbt nat ogs_rbtree_color_e rbt

datatype frame = FL nat ogs_rbtree_color_e rbt | FR rbt nat ogs_rbtree_color_e

fun rbt_inorder :: "rbt \<Rightarrow> nat list" where
  "rbt_inorder E = []"
| "rbt_inorder (N l x c r) = rbt_inorder l @ x # rbt_inorder r"

fun ptr :: "rbt \<Rightarrow> nat option" where
  "ptr E = None"
| "ptr (N l x c r) = Some x"

fun plug :: "rbt \<Rightarrow> frame list \<Rightarrow> rbt" where
  "plug t [] = t"
| "plug t (FL x c r # k) = plug (N t x c r) k"
| "plug t (FR l x c # k) = plug (N l x c t) k"

fun frame_node :: "frame \<Rightarrow> nat" where
  "frame_node (FL x c r) = x"
| "frame_node (FR l x c) = x"

fun before :: "frame list \<Rightarrow> nat list" where
  "before [] = []"
| "before (FL x c r # k) = before k"
| "before (FR l x c # k) = before k @ rbt_inorder l @ [x]"

fun after :: "frame list \<Rightarrow> nat list" where
  "after [] = []"
| "after (FL x c r # k) = x # rbt_inorder r @ after k"
| "after (FR l x c # k) = after k"

lemma inorder_plug: "rbt_inorder (plug t k) = before k @ rbt_inorder t @ after k"
  by (induction t k rule: plug.induct) auto

lemma plug_append: "plug t (k @ k') = plug (plug t k) k'"
  by (induction t k rule: plug.induct) auto

lemma before_append: "before (k @ k') = before k' @ before k"
  by (induction k rule: before.induct) auto

abbreviation nodes :: "rbt \<Rightarrow> nat set" where
  "nodes t \<equiv> set (rbt_inorder t)"

definition ctx_top :: "frame list \<Rightarrow> nat option" where
  "ctx_top k = (case k of [] \<Rightarrow> None | f # _ \<Rightarrow> Some (frame_node f))"

lemma ctx_top_simps [simp]: "ctx_top [] = None" "ctx_top (f # k) = Some (frame_node f)"
  by (auto simp: ctx_top_def)

fun tree_at :: "(nat \<Rightarrow> ogs_rbnode) \<Rightarrow> nat option \<Rightarrow> rbt \<Rightarrow> bool" where
  "tree_at m par E \<longleftrightarrow> True"
| "tree_at m par (N l x c r) \<longleftrightarrow>
     m x = \<lparr>rb_parent = par, rb_left = ptr l, rb_right = ptr r, rb_color = c\<rparr> \<and>
     tree_at m (Some x) l \<and> tree_at m (Some x) r"

fun ctx_at :: "(nat \<Rightarrow> ogs_rbnode) \<Rightarrow> nat option \<Rightarrow> frame list \<Rightarrow> bool" where
  "ctx_at m h [] \<longleftrightarrow> True"
| "ctx_at m h (FL x c r # k) \<longleftrightarrow>
     m x = \<lparr>rb_parent = ctx_top k, rb_left = h, rb_right = ptr r, rb_color = c\<rparr> \<and>
     tree_at m (Some x) r \<and> ctx_at m (Some x) k"
| "ctx_at m h (FR l x c # k) \<longleftrightarrow>
     m x = \<lparr>rb_parent = ctx_top k, rb_left = ptr l, rb_right = h, rb_color = c\<rparr> \<and>
     tree_at m (Some x) l \<and> ctx_at m (Some x) k"

fun ctx_root :: "nat option \<Rightarrow> frame list \<Rightarrow> nat option" where
  "ctx_root h [] = h"
| "ctx_root h (f # k) = ctx_root (Some (frame_node f)) k"

fun ctx_nodes :: "frame list \<Rightarrow> nat list" where
  "ctx_nodes [] = []"
| "ctx_nodes (FL x c r # k) = x # rbt_inorder r @ ctx_nodes k"
| "ctx_nodes (FR l x c # k) = x # rbt_inorder l @ ctx_nodes k"

definition rb_rep :: "(nat \<Rightarrow> ogs_rbnode) \<Rightarrow> nat set \<Rightarrow> ogs_rbtree \<Rightarrow> rbt \<Rightarrow> frame list \<Rightarrow> bool" where
  "rb_rep m0 A s t k \<longleftrightarrow>
     tree_at (rb_mem s) (ctx_top k) t \<and> ctx_at (rb_mem s) (ptr t) k \<and>
     rb_root s = ctx_root (ptr t) k \<and>
     distinct (rbt_inorder t @ ctx_nodes k) \<and> nodes t \<union> set (ctx_nodes k) \<subseteq> A \<and>
     (\<forall>y. y \<notin> A \<longrightarrow> rb_mem s y = m0 y)"

subsection \<open>Moving the focus\<close>

lemma rep_left: "rb_rep m0 A s (N l x c r) k \<longleftrightarrow> rb_rep m0 A s l (FL x c r # k)"
  by (auto simp: rb_rep_def)

lemma rep_right: "rb_rep m0 A s (N l x c r) k \<longleftrightarrow> rb_rep m0 A s r (FR l x c # k)"
  by (auto simp: rb_rep_def)

lemma rep_plug: "rb_rep m0 A s (plug t ks) k \<longleftrightarrow> rb_rep m0 A s t (ks @ k)"
  by (induction t ks rule: plug.induct) (simp_all add: rep_left [symmetric] rep_right [symmetric])

lemma rep_top: "rb_rep m0 A s t k \<longleftrightarrow> rb_rep m0 A s (plug t k) []"
  by (simp add: rep_plug)

lemma rep_node:
  assumes "rb_rep m0 A s (N l x c r) k"
  shows "rb_mem s x = \<lparr>rb_parent = ctx_top k, rb_left = ptr l, rb_right = ptr r, rb_color = c\<rparr>"
  using assms by (simp add: rb_rep_def)

lemma rep_root: "rb_rep m0 A s t k \<Longrightarrow> rb_root s = ptr (plug t k)"
  by (simp only: rep_top [of _ _ _ _ k]) (simp add: rb_rep_def)

subsection \<open>Updates outside the focus\<close>

lemma tree_at_cong: "(\<And>y. y \<in> nodes t \<Longrightarrow> m y = m' y) \<Longrightarrow> tree_at m par t = tree_at m' par t"
  by (induction t arbitrary: par) auto

lemma ctx_at_cong: "(\<And>y. y \<in> set (ctx_nodes k) \<Longrightarrow> m y = m' y) \<Longrightarrow> ctx_at m h k = ctx_at m' h k"
proof (induction m h k rule: ctx_at.induct)
  case (2 m h x c r k)
  then show ?case using tree_at_cong [of r m m' "Some x"] by auto
next
  case (3 m h l x c k)
  then show ?case using tree_at_cong [of l m m' "Some x"] by auto
qed simp

lemma tree_at_upd [simp]: "x \<notin> nodes t \<Longrightarrow> tree_at (m(x := v)) par t = tree_at m par t"
  by (rule tree_at_cong) auto

lemma ctx_at_upd [simp]: "x \<notin> set (ctx_nodes k) \<Longrightarrow> ctx_at (m(x := v)) h k = ctx_at m h k"
  by (rule ctx_at_cong) auto

lemma rb_set_simps [simp]:
  "rb_mem (rb_set p f s) = (rb_mem s)(p := f (rb_mem s p))"
  "rb_root (rb_set p f s) = rb_root s"
  by (simp_all add: rb_set_def)

definition set_parent_opt :: "nat option \<Rightarrow> nat option \<Rightarrow> ogs_rbtree \<Rightarrow> ogs_rbtree" where
  "set_parent_opt p v s = (case p of Some n \<Rightarrow> set_parent n v s | None \<Rightarrow> s)"

lemma set_parent_opt_Some: "set_parent_opt (Some n) v = set_parent n v"
  by (simp add: set_parent_opt_def fun_eq_iff)

lemma set_parent_opt_simps [simp]:
  "rb_root (set_parent_opt p v s) = rb_root s"
  "y \<notin> nodes t \<Longrightarrow> rb_mem (set_parent_opt (ptr t) v s) y = rb_mem s y"
  by (cases t; auto simp: set_parent_opt_def split: option.splits)+

lemma tree_at_reparent:
  assumes "tree_at (rb_mem s) par t" "distinct (rbt_inorder t)"
  shows "tree_at (rb_mem (set_parent_opt (ptr t) par' s)) par' t"
  using assms by (cases t) (auto simp: set_parent_opt_def)

lemma tree_at_reparent_other [simp]:
  "nodes t \<inter> nodes u = {} \<Longrightarrow>
   tree_at (rb_mem (set_parent_opt (ptr u) par' s)) par t = tree_at (rb_mem s) par t"
  by (rule tree_at_cong) (auto simp: disjoint_iff)

lemma ctx_at_reparent_other [simp]:
  "set (ctx_nodes k) \<inter> nodes u = {} \<Longrightarrow>
   ctx_at (rb_mem (set_parent_opt (ptr u) par' s)) h k = ctx_at (rb_mem s) h k"
  by (rule ctx_at_cong) (auto simp: disjoint_iff)

subsection \<open>Replacing the focus\<close>

lemma change_child_frame:
  assumes "ctx_at (rb_mem s) (Some x) k" "x \<notin> set (ctx_nodes k)" "distinct (ctx_nodes k)"
  shows "ctx_at (rb_mem (rb_change_child x h (ctx_top k) s)) h k"
proof (cases k)
  case (Cons f k')
  show ?thesis
  proof (cases f)
    case (FL y c r)
    then show ?thesis using assms Cons by (auto simp: rb_change_child_def)
  next
    case (FR l y c)
    then show ?thesis using assms Cons by (cases l) (auto simp: rb_change_child_def)
  qed
qed simp

lemma change_child_root:
  assumes "rb_root s = ctx_root (Some x) k"
  shows "rb_root (rb_change_child x h (ctx_top k) s) = ctx_root h k"
  using assms by (cases k) (auto simp: rb_change_child_def)

lemma change_child_other [simp]:
  "y \<notin> set (ctx_nodes k) \<Longrightarrow> rb_mem (rb_change_child x h (ctx_top k) s) y = rb_mem s y"
  by (cases k rule: ctx_nodes.cases) (auto simp: rb_change_child_def)

lemma tree_at_change_child [simp]:
  "nodes t \<inter> set (ctx_nodes k) = {} \<Longrightarrow>
   tree_at (rb_mem (rb_change_child x h (ctx_top k) s)) par t = tree_at (rb_mem s) par t"
  by (rule tree_at_cong) (auto simp: disjoint_iff)

lemma rb_replace_node_eq:
  "rb_replace_node x h par s = set_parent_opt h par (rb_change_child x h par s)"
  by (simp add: rb_replace_node_def set_parent_opt_def Let_def split: option.splits)

text \<open>
  The conditions of \<open>rb_rep\<close> on addresses, in the orientation the update lemmas ask for.
\<close>

lemma rep_addr:
  assumes "rb_rep m0 A s t k"
  shows "nodes t \<inter> set (ctx_nodes k) = {}" "set (ctx_nodes k) \<inter> nodes t = {}"
    "distinct (rbt_inorder t)" "distinct (ctx_nodes k)" "nodes t \<subseteq> A" "set (ctx_nodes k) \<subseteq> A"
    "y \<notin> A \<Longrightarrow> y \<notin> nodes t" "y \<notin> A \<Longrightarrow> y \<notin> set (ctx_nodes k)" "y \<notin> A \<Longrightarrow> rb_mem s y = m0 y"
  using assms by (auto simp: rb_rep_def)

text \<open>Splicing the focused node out: one of its subtrees takes its place.\<close>

lemma rep_subst:
  assumes "tree_at (rb_mem s) par u" "distinct (rbt_inorder u)" "distinct (ctx_nodes k)"
    and c: "ctx_at (rb_mem s) (Some x) k" "rb_root s = ctx_root (Some x) k" "x \<notin> set (ctx_nodes k)"
    and d: "nodes u \<inter> set (ctx_nodes k) = {}" "nodes u \<union> set (ctx_nodes k) \<subseteq> A"
    and o: "\<And>y. y \<notin> A \<Longrightarrow> rb_mem s y = m0 y"
  shows "rb_rep m0 A (rb_replace_node x (ptr u) (ctx_top k) s) u k"
proof -
  have "set (ctx_nodes k) \<inter> nodes u = {}" "\<And>y. y \<notin> A \<Longrightarrow> y \<notin> nodes u \<and> y \<notin> set (ctx_nodes k)"
    using d by auto
  then show ?thesis
    unfolding rb_rep_def rb_replace_node_eq using assms
    by (auto simp: change_child_frame change_child_root intro!: tree_at_reparent)
qed

lemma rep_splice_left:
  "rb_rep m0 A s (N l x c r) k \<Longrightarrow> rb_rep m0 A (rb_replace_node x (ptr l) (ctx_top k) s) l k"
  by (rule rep_subst [where par = "Some x"]) (auto simp: rb_rep_def)

lemma rep_splice_right:
  "rb_rep m0 A s (N l x c r) k \<Longrightarrow> rb_rep m0 A (rb_replace_node x (ptr r) (ctx_top k) s) r k"
  by (rule rep_subst [where par = "Some x"]) (auto simp: rb_rep_def)

text \<open>A field written after \<open>rb_replace_node\<close> may as well be written before it.\<close>

lemma replace_node_set:
  assumes "p \<notin> set (ctx_nodes k)"
    and "p = n \<Longrightarrow> (\<And>c v. f (rb_parent_update (\<lambda>_. v) c) = rb_parent_update (\<lambda>_. v) (f c))"
  shows "rb_set p f (rb_replace_node x (Some n) (ctx_top k) s) =
         rb_replace_node x (Some n) (ctx_top k) (rb_set p f s)"
proof (cases k rule: ctx_nodes.cases)
  case 1
  then show ?thesis
    using assms by (auto simp: rb_replace_node_def rb_change_child_def rb_set_def Let_def fun_eq_iff)
next
  case (2 y c r k')
  then show ?thesis
    using assms by (auto simp: rb_replace_node_def rb_change_child_def rb_set_def Let_def fun_eq_iff)
next
  case (3 l y c k')
  then show ?thesis
    using assms by (auto simp: rb_replace_node_def rb_change_child_def rb_set_def Let_def fun_eq_iff)
qed

subsection \<open>Colours\<close>

lemma rep_color:
  "rb_rep m0 A s (N l x c r) k \<Longrightarrow> rb_rep m0 A (set_color x c' s) (N l x c' r) k"
  by (auto simp: rb_rep_def)

lemma rep_color_left:
  "rb_rep m0 A s (N (N a y d b) x c r) k \<Longrightarrow>
   rb_rep m0 A (set_color y d' s) (N (N a y d' b) x c r) k"
  by (simp only: rep_left [of _ _ _ "N _ _ _ _"] rep_color)

lemma rep_color_right:
  "rb_rep m0 A s (N l x c (N a y d b)) k \<Longrightarrow>
   rb_rep m0 A (set_color y d' s) (N l x c (N a y d' b)) k"
  by (simp only: rep_right [of _ _ _ _ _ _ "N _ _ _ _"] rep_color)

subsection \<open>Rotations\<close>

lemma rep_rotate_left:
  assumes "rb_rep m0 A s (N a x c (N b y d e)) k"
  shows "\<exists>s'. rb_rotate_left x s = Some s' \<and> rb_rep m0 A s' (N (N a x c b) y d e) k"
proof -
  note addr = rep_addr [OF assms]
  have m: "rb_mem s x = \<lparr>rb_parent = ctx_top k, rb_left = ptr a, rb_right = Some y, rb_color = c\<rparr>"
    "rb_mem s y = \<lparr>rb_parent = Some x, rb_left = ptr b, rb_right = ptr e, rb_color = d\<rparr>"
    using assms by (auto simp: rb_rep_def)
  have ne: "x \<noteq> y" "x \<notin> nodes b" "y \<notin> nodes b" "x \<notin> set (ctx_nodes k)" "y \<notin> set (ctx_nodes k)"
    and d: "set (ctx_nodes k) \<inter> nodes b = {}" "nodes a \<inter> nodes b = {}" "nodes e \<inter> nodes b = {}"
    and o: "\<And>z. z \<notin> A \<Longrightarrow> z \<notin> nodes b \<and> z \<noteq> x \<and> z \<noteq> y"
    using addr by auto
  define s1 where "s1 = set_parent_opt (ptr b) (Some x) (set_right x (ptr b) s)"
  define s2 where "s2 = set_parent x (Some y) (set_left y (Some x) s1)"
  have "rb_rotate_left x s = Some (rb_replace_node x (ptr (N (N a x c b) y d e)) (ctx_top k) s2)"
    using m ne by (simp add: rb_rotate_left_def s2_def s1_def replace_node_set Let_def
        set_parent_opt_def [symmetric])
  moreover have "rb_rep m0 A (rb_replace_node x (ptr (N (N a x c b) y d e)) (ctx_top k) s2)
      (N (N a x c b) y d e) k"
    by (rule rep_subst [where par = "Some x"])
      (use assms addr m ne d o in \<open>auto simp: rb_rep_def s1_def s2_def intro!: tree_at_reparent\<close>)
  ultimately show ?thesis by blast
qed

lemma rep_rotate_right:
  assumes "rb_rep m0 A s (N (N a x c b) y d e) k"
  shows "\<exists>s'. rb_rotate_right y s = Some s' \<and> rb_rep m0 A s' (N a x c (N b y d e)) k"
proof -
  note addr = rep_addr [OF assms]
  have m: "rb_mem s x = \<lparr>rb_parent = Some y, rb_left = ptr a, rb_right = ptr b, rb_color = c\<rparr>"
    "rb_mem s y = \<lparr>rb_parent = ctx_top k, rb_left = Some x, rb_right = ptr e, rb_color = d\<rparr>"
    using assms by (auto simp: rb_rep_def)
  have ne: "y \<noteq> x" "x \<notin> nodes b" "y \<notin> nodes b" "x \<notin> set (ctx_nodes k)" "y \<notin> set (ctx_nodes k)"
    and d: "set (ctx_nodes k) \<inter> nodes b = {}" "nodes a \<inter> nodes b = {}" "nodes e \<inter> nodes b = {}"
    and o: "\<And>z. z \<notin> A \<Longrightarrow> z \<notin> nodes b \<and> z \<noteq> x \<and> z \<noteq> y"
    using addr by auto
  define s1 where "s1 = set_parent_opt (ptr b) (Some y) (set_left y (ptr b) s)"
  define s2 where "s2 = set_parent y (Some x) (set_right x (Some y) s1)"
  have "rb_rotate_right y s = Some (rb_replace_node y (ptr (N a x c (N b y d e))) (ctx_top k) s2)"
    using m ne by (simp add: rb_rotate_right_def s2_def s1_def replace_node_set Let_def
        set_parent_opt_def [symmetric])
  moreover have "rb_rep m0 A (rb_replace_node y (ptr (N a x c (N b y d e))) (ctx_top k) s2)
      (N a x c (N b y d e)) k"
    by (rule rep_subst [where par = "Some y"])
      (use assms addr m ne d o in \<open>auto simp: rb_rep_def s1_def s2_def intro!: tree_at_reparent\<close>)
  ultimately show ?thesis by blast
qed

text \<open>The same one level below the focus.\<close>

lemma rep_rotate_left_below:
  "rb_rep m0 A s (N (N a x c (N b y d e)) g h u) k \<Longrightarrow>
   \<exists>s'. rb_rotate_left x s = Some s' \<and> rb_rep m0 A s' (N (N (N a x c b) y d e) g h u) k"
  unfolding rep_left [of _ _ _ _ g] by (rule rep_rotate_left)

lemma rep_rotate_right_below:
  "rb_rep m0 A s (N u g h (N (N a x c b) y d e)) k \<Longrightarrow>
   \<exists>s'. rb_rotate_right y s = Some s' \<and> rb_rep m0 A s' (N u g h (N a x c (N b y d e))) k"
  unfolding rep_right [of _ _ _ _ g] by (rule rep_rotate_right)

lemma rep_node_left:
  "rb_rep m0 A s (N (N a y d b) x c r) k \<Longrightarrow>
   rb_mem s y = \<lparr>rb_parent = Some x, rb_left = ptr a, rb_right = ptr b, rb_color = d\<rparr>"
  by (simp add: rb_rep_def)

lemma rep_node_right:
  "rb_rep m0 A s (N l x c (N a y d b)) k \<Longrightarrow>
   rb_mem s y = \<lparr>rb_parent = Some x, rb_left = ptr a, rb_right = ptr b, rb_color = d\<rparr>"
  by (simp add: rb_rep_def)

lemma rep_ptr_neq:
  assumes "rb_rep m0 A s (N l x c r) k"
  shows "ptr l = ptr r \<longleftrightarrow> l = E \<and> r = E" "ptr l = Some y \<Longrightarrow> ptr r \<noteq> Some y" "x \<notin> nodes l" "x \<notin> nodes r"
  using assms by (cases l; cases r; auto simp: rb_rep_def)+

subsection \<open>Linking a new leaf\<close>

fun link_of :: "frame list \<Rightarrow> rb_link" where
  "link_of [] = Link_root"
| "link_of (FL x c r # k) = Link_left x"
| "link_of (FR l x c # k) = Link_right x"

lemma rep_link:
  assumes rep: "rb_rep m0 A s E k" and x: "x \<notin> set (ctx_nodes k)" "x \<in> A"
  shows "rb_rep m0 A (ogs_rbtree_link_node x (ctx_top k) (link_of k) s) (N E x OGS_RBTREE_RED E) k"
proof (cases k rule: ctx_nodes.cases)
  case 1
  then show ?thesis using assms by (auto simp: rb_rep_def ogs_rbtree_link_node_def Let_def)
next
  case (2 y c r k')
  then show ?thesis using assms by (auto simp: rb_rep_def ogs_rbtree_link_node_def Let_def)
next
  case (3 l y c k')
  then show ?thesis using assms by (auto simp: rb_rep_def ogs_rbtree_link_node_def Let_def)
qed

subsection \<open>The ends of a subtree\<close>

lemma min_tree_at:
  "tree_at (rb_mem s) par (N l x c r) \<Longrightarrow> ogs_rbtree_min s x = Some (hd (rbt_inorder (N l x c r)))"
proof (induction l arbitrary: par x c r)
  case E
  then show ?case by (subst ogs_rbtree_min.simps) simp
next
  case (N l1 y d l2)
  then have "ogs_rbtree_min s y = Some (hd (rbt_inorder (N l1 y d l2)))" by simp
  then show ?case using N.prems by (subst ogs_rbtree_min.simps) (simp add: hd_append)
qed

lemma max_tree_at:
  "tree_at (rb_mem s) par (N l x c r) \<Longrightarrow>
   ogs_rbtree_max s x = Some (List.last (rbt_inorder (N l x c r)))"
proof (induction r arbitrary: par x c l)
  case E
  then show ?case by (subst ogs_rbtree_max.simps) simp
next
  case (N r1 y d r2)
  have "ogs_rbtree_max s y = Some (List.last (rbt_inorder (N r1 y d r2)))"
    by (rule N.IH(2) [of "Some x"]) (use N.prems in simp)
  then show ?case using N.prems by (subst ogs_rbtree_max.simps) simp
qed

lemma leftmost_split: "\<exists>y d z ks. N l x c r = plug (N E y d z) ks \<and> before ks = []"
proof (induction l arbitrary: x c r)
  case E
  show ?case by (rule exI [of _ x], rule exI [of _ c], rule exI [of _ r], rule exI [of _ "[]"]) simp
next
  case (N l1 y d l2)
  obtain y' d' z ks where 1: "N l1 y d l2 = plug (N E y' d' z) ks" "before ks = []"
    using N.IH(1) by blast
  have "N (N l1 y d l2) x c r = plug (N E y' d' z) (ks @ [FL x c r])"
    unfolding 1(1) by (simp add: plug_append)
  moreover have "before (ks @ [FL x c r]) = []"
    using 1(2) by (simp add: before_append)
  ultimately show ?case by blast
qed

subsection \<open>Taking a node out\<close>

text \<open>The successor \<open>y\<close> of \<open>x\<close> is its right child.\<close>

lemma rep_unlink_near:
  assumes rep: "rb_rep m0 A s (N l x c (N E y d z)) k" and l: "ptr l = Some nl"
  shows "\<exists>s'. rb_unlink_two x y s = Some (ptr z, Some y, d, s') \<and> rb_rep m0 A s' z (FR l y c # k)"
proof -
  note addr = rep_addr [OF rep]
  have m: "rb_mem s x = \<lparr>rb_parent = ctx_top k, rb_left = Some nl, rb_right = Some y, rb_color = c\<rparr>"
    "rb_mem s y = \<lparr>rb_parent = Some x, rb_left = None, rb_right = ptr z, rb_color = d\<rparr>"
    using rep l by (auto simp: rb_rep_def)
  have ne: "x \<noteq> y" "x \<notin> nodes l" "y \<notin> nodes l" "nl \<in> nodes l" "x \<notin> set (ctx_nodes k)"
    "nl \<noteq> x" "nl \<noteq> y" "nl \<notin> set (ctx_nodes k)"
    and d: "set (ctx_nodes k) \<inter> nodes l = {}" "nodes z \<inter> nodes l = {}" 
    and o: "\<And>w. w \<notin> A \<Longrightarrow> w \<notin> nodes l \<and> w \<noteq> y"
    using addr l by (cases l; auto)+
  have min: "ogs_rbtree_min s y = Some y" using m by (subst ogs_rbtree_min.simps) simp
  define s2 where "s2 = set_color y c (set_parent_opt (ptr l) (Some y) (set_left y (ptr l) s))"
  have "rb_unlink_two x y s =
      Some (ptr z, Some y, d, rb_replace_node x (ptr (N l y c z)) (ctx_top k) s2)"
    using m ne l by (simp add: rb_unlink_two_def min Let_def s2_def set_parent_opt_Some)
  moreover have "rb_rep m0 A (rb_replace_node x (ptr (N l y c z)) (ctx_top k) s2) (N l y c z) k"
    by (rule rep_subst [where par = "Some x"])
      (use rep addr m ne d o in \<open>auto simp: rb_rep_def s2_def intro!: tree_at_reparent\<close>)
  ultimately show ?thesis by (auto simp: rep_right)
qed

text \<open>The successor \<open>y\<close> is deeper, the left child of \<open>q\<close>.\<close>

lemma plug_Cons_ptr: "ptr (plug t (f # ks)) = ptr (plug t' (f # ks))"
proof (induction ks arbitrary: f t t')
  case Nil
  show ?case by (cases f) simp_all
next
  case (Cons g ks)
  then show ?case by (cases f) (simp_all only: plug.simps)
qed

lemma nodes_plug: "nodes (plug t k) = nodes t \<union> set (ctx_nodes k)"
  by (induction t k rule: plug.induct) auto

lemma ptr_nodes: "ptr t = Some x \<Longrightarrow> x \<in> nodes t"
  by (cases t) auto

lemma ctx_nodes_append: "ctx_nodes (k @ k') = ctx_nodes k @ ctx_nodes k'"
  by (induction k rule: ctx_nodes.induct) auto

lemma unlink_far_commute:
  assumes "nl \<noteq> y" "nl \<noteq> q" "y \<noteq> q" "y \<notin> nodes z" "nl \<notin> nodes z" "q \<notin> nodes z"
  shows "set_left q h (set_parent_opt (ptr z) (Some q) (set_parent nl (Some y) (set_left y v s))) =
         set_parent nl (Some y) (set_left y v (set_parent_opt (ptr z) (Some q) (set_left q h s)))"
  using assms
  by (cases z) (auto simp: set_parent_opt_def fun_eq_iff intro!: ogs_rbtree.equality)

lemma unlink_far_state:
  assumes m: "rb_mem s x = \<lparr>rb_parent = par, rb_left = Some nl, rb_right = Some nr, rb_color = c\<rparr>"
    "rb_mem s y = \<lparr>rb_parent = Some q, rb_left = None, rb_right = ptr z, rb_color = d\<rparr>"
    "rb_left (rb_mem s q) = Some y" "ogs_rbtree_min s nr = Some y"
    and ne: "x \<noteq> y" "x \<noteq> nl" "x \<noteq> nr" "x \<noteq> q" "nl \<noteq> y" "nl \<noteq> q" "y \<noteq> q"
    "x \<notin> nodes z" "y \<notin> nodes z" "nl \<notin> nodes z" "q \<notin> nodes z"
  shows "rb_unlink_two x nr s = Some (ptr z, Some q, d,
    rb_replace_node x (Some y) par (set_color y c (set_parent nr (Some y) (set_right y (Some nr)
      (set_parent nl (Some y) (set_left y (Some nl) (rb_replace_node y (ptr z) (Some q) s)))))))"
proof -
  have "rb_replace_node y (ptr z) (Some q) s = set_parent_opt (ptr z) (Some q) (set_left q (ptr z) s)"
    using m by (simp add: rb_replace_node_eq rb_change_child_def)
  then show ?thesis
    using m ne
    by (simp add: rb_unlink_two_def Let_def set_parent_opt_def [symmetric]
        unlink_far_commute [symmetric])
qed

text \<open>A node that is not in the tree takes the place of the focused one.\<close>

lemma rep_adopt:
  assumes rep: "rb_rep m0 A s (N l x c r) k"
    and y: "y \<notin> nodes l" "y \<notin> nodes r" "y \<noteq> x" "y \<notin> set (ctx_nodes k)" "y \<in> A"
  shows "rb_rep m0 A (rb_replace_node x (Some y) (ctx_top k)
    (set_color y c (set_parent_opt (ptr r) (Some y) (set_right y (ptr r)
      (set_parent_opt (ptr l) (Some y) (set_left y (ptr l) s)))))) (N l y c r) k"
proof -
  let ?s = "set_color y c (set_parent_opt (ptr r) (Some y) (set_right y (ptr r)
      (set_parent_opt (ptr l) (Some y) (set_left y (ptr l) s))))"
  note addr = rep_addr [OF rep]
  have d: "set (ctx_nodes k) \<inter> nodes l = {}" "set (ctx_nodes k) \<inter> nodes r = {}"
    "nodes l \<inter> nodes r = {}" "nodes r \<inter> nodes l = {}"
    and o: "\<And>z. z \<notin> A \<Longrightarrow> z \<notin> nodes l \<and> z \<notin> nodes r \<and> z \<noteq> y"
    using addr y by auto
  have "rb_rep m0 A (rb_replace_node x (ptr (N l y c r)) (ctx_top k) ?s) (N l y c r) k"
    by (rule rep_subst [where par = "parent_of s y"])
      (use rep addr y d o in \<open>auto simp: rb_rep_def intro!: tree_at_reparent\<close>)
  then show ?thesis by simp
qed

lemma rep_unlink_far:
  assumes rep: "rb_rep m0 A s (N l x c r) k" and r: "r = plug (N E y d z) (FL q e w # ks)"
    and l: "ptr l = Some nl" and nr: "ptr r = Some nr" and min: "ogs_rbtree_min s nr = Some y"
  shows "\<exists>s'. rb_unlink_two x nr s = Some (ptr z, Some q, d, s') \<and>
              rb_rep m0 A s' z (FL q e w # ks @ FR l y c # k)"
proof -
  define r' where "r' = plug z (FL q e w # ks)"
  define s0 where "s0 = rb_replace_node y (ptr z) (Some q) s"
  have repy: "rb_rep m0 A s (N E y d z) (FL q e w # ks @ FR l x c # k)"
    using rep unfolding r rep_right rep_plug by simp
  have rep0: "rb_rep m0 A s0 (N l x c r') k"
    using rep_splice_right [OF repy] unfolding rep_right r'_def rep_plug by (simp add: s0_def)
  have nr': "ptr r' = Some nr" using nr plug_Cons_ptr unfolding r r'_def by metis
  have nodes_r: "nodes r = insert y (nodes r')" "nodes r' = insert q (nodes z \<union> nodes w \<union> set (ctx_nodes ks))"
    unfolding r r'_def nodes_plug by auto
  have m: "rb_mem s x = \<lparr>rb_parent = ctx_top k, rb_left = Some nl, rb_right = Some nr, rb_color = c\<rparr>"
    "rb_mem s y = \<lparr>rb_parent = Some q, rb_left = None, rb_right = ptr z, rb_color = d\<rparr>"
    "rb_left (rb_mem s q) = Some y"
    using rep repy l nr by (auto simp: rb_rep_def)
  have ne: "x \<notin> nodes l" "x \<notin> nodes r'" "y \<notin> nodes r'" "y \<notin> nodes l" "nodes l \<inter> nodes r' = {}"
    "y \<noteq> x" "x \<notin> set (ctx_nodes k)" "y \<notin> set (ctx_nodes k)" "y \<in> A"
    using rep_addr [OF rep0] rep_addr [OF repy] rep_addr [OF rep] nodes_r
    by (auto simp: ctx_nodes_append)
  have ne': "nl \<in> nodes l" "nr \<in> nodes r'" "q \<notin> nodes z"
    using ptr_nodes l nr' rep_addr [OF repy] by auto
  define s2 where "s2 = set_color y c (set_parent nr (Some y) (set_right y (Some nr)
      (set_parent nl (Some y) (set_left y (Some nl) s0))))"
  have "rb_unlink_two x nr s =
      Some (ptr z, Some q, d, rb_replace_node x (ptr (N l y c r')) (ctx_top k) s2)"
    unfolding s2_def s0_def ptr.simps
    by (rule unlink_far_state) (use m min ne ne' nodes_r in auto)
  moreover have "rb_rep m0 A (rb_replace_node x (ptr (N l y c r')) (ctx_top k) s2) (N l y c r') k"
    using rep_adopt [OF rep0, of y] ne l nr' by (simp add: s2_def set_parent_opt_Some)
  ultimately show ?thesis unfolding rep_right r'_def rep_plug by auto
qed

text \<open>
  What \<open>rb_unlink\<close> does to the tree: the subtree \<open>z\<close> of the node that leaves its place, of
  colour \<open>d\<close>, is the new focus.
\<close>

inductive unlinks :: "rbt \<Rightarrow> nat \<Rightarrow> ogs_rbtree_color_e \<Rightarrow> rbt \<Rightarrow> frame list
    \<Rightarrow> rbt \<Rightarrow> ogs_rbtree_color_e \<Rightarrow> frame list \<Rightarrow> bool" where
  unlinks_left: "unlinks E x c r k r c k"
| unlinks_right: "unlinks l x c E k l c k"
| unlinks_two: "before ks = [] \<Longrightarrow>
    unlinks l x c (plug (N E y d z) ks) k z d (ks @ FR l y c # k)"

lemma rep_unlink_two:
  assumes rep: "rb_rep m0 A s (N l x c r) k" and l: "ptr l = Some nl" and r: "ptr r = Some nr"
  shows "\<exists>z d k' s'. rb_unlink_two x nr s = Some (ptr z, ctx_top k', d, s') \<and>
    rb_rep m0 A s' z k' \<and> unlinks l x c r k z d k'"
proof -
  obtain r1 e r2 where r': "r = N r1 nr e r2" using r by (cases r) auto
  then obtain y d z ks where ks: "r = plug (N E y d z) ks" "before ks = []"
    using leftmost_split by metis
  have "ogs_rbtree_min s nr = Some (hd (rbt_inorder r))"
    using min_tree_at rep unfolding r' rb_rep_def by auto
  then have min: "ogs_rbtree_min s nr = Some y" using ks by (simp add: inorder_plug)
  have u: "unlinks l x c r k z d (ks @ FR l y c # k)"
    unfolding ks(1) by (rule unlinks_two) (rule ks(2))
  show ?thesis
  proof (cases ks)
    case Nil
    then have "r = N E y d z" "nr = y" using ks r by auto
    then obtain s' where "rb_unlink_two x nr s = Some (ptr z, ctx_top (FR l y c # k), d, s')"
      "rb_rep m0 A s' z (FR l y c # k)"
      using rep_unlink_near [of m0 A s l x c y d z k nl] rep l by auto
    then show ?thesis using u Nil by (metis append_Nil)
  next
    case (Cons f ks')
    then obtain q e w where f: "f = FL q e w" using ks(2) by (cases f) auto
    then obtain s' where "rb_unlink_two x nr s = Some (ptr z, Some q, d, s')"
      "rb_rep m0 A s' z (ks @ FR l y c # k)"
      using rep_unlink_far [OF rep _ l r min, of d z q e w ks'] ks Cons by auto
    then show ?thesis using u Cons f
      by (intro exI [of _ z] exI [of _ d] exI [of _ "ks @ FR l y c # k"] exI [of _ s']) simp
  qed
qed

lemma rep_unlink:
  assumes rep: "rb_rep m0 A s (N l x c r) k"
  shows "\<exists>z d k' s'. rb_unlink x s = Some (ptr z, ctx_top k', d, s') \<and>
    rb_rep m0 A s' z k' \<and> unlinks l x c r k z d k'"
proof (cases l)
  case E
  then show ?thesis
    using rep_splice_right [OF rep] rep_node [OF rep] unlinks_left [of x c r k]
    by (auto simp: rb_unlink_def)
next
  case l: (N a u e b)
  show ?thesis
  proof (cases r)
    case E
    then show ?thesis
      using rep_splice_left [OF rep] rep_node [OF rep] unlinks_right [of l x c k] l
      by (intro exI [of _ l] exI [of _ c] exI [of _ k]) (auto simp: rb_unlink_def)
  next
    case (N a' u' e' b')
    then show ?thesis
      using rep_unlink_two [OF rep, of u u'] rep_node [OF rep] l by (simp add: rb_unlink_def)
  qed
qed

lemma unlinks_inorder:
  "unlinks l x c r k z d k' \<Longrightarrow>
   rbt_inorder (plug z k') = before k @ rbt_inorder l @ rbt_inorder r @ after k"
proof (induction rule: unlinks.induct)
  case (unlinks_two ks l x c y d z k)
  have "after (ks @ k') = after ks @ after k'" for k'
    by (induction ks rule: after.induct) auto
  then show ?case using unlinks_two by (simp add: inorder_plug before_append)
qed (auto simp: inorder_plug)

end
