(* ===== verification/Ogs_Rbtree_Inv.thy ===== *)
theory Ogs_Rbtree_Inv
  imports Ogs_Rbtree_Rep
begin

text \<open>
  The red-black shape, and that insertion and deletion of \<open>ogs-rbtree.c\<close> keep it. The
  colour condition and the black height are stated for subtrees and for contexts, so that
  one round of a rebalancing loop only speaks of the nodes it touches.
\<close>

abbreviation "Black \<equiv> OGS_RBTREE_BLACK"
abbreviation "Red \<equiv> OGS_RBTREE_RED"

lemma not_Red [simp]: "c \<noteq> Red \<longleftrightarrow> c = Black" "c \<noteq> Black \<longleftrightarrow> c = Red"
  by (cases c; simp)+

subsection \<open>The shape\<close>

fun col :: "rbt \<Rightarrow> ogs_rbtree_color_e" where
  "col E = Black"
| "col (N l x c r) = c"

fun invc :: "rbt \<Rightarrow> bool" where
  "invc E \<longleftrightarrow> True"
| "invc (N l x c r) \<longleftrightarrow> invc l \<and> invc r \<and> (c = Red \<longrightarrow> col l = Black \<and> col r = Black)"

fun bal :: "rbt \<Rightarrow> nat \<Rightarrow> bool" where
  "bal E n \<longleftrightarrow> n = 0"
| "bal (N l x c r) n \<longleftrightarrow>
     (case c of OGS_RBTREE_RED \<Rightarrow> bal l n \<and> bal r n
      | OGS_RBTREE_BLACK \<Rightarrow> n \<noteq> 0 \<and> bal l (n - 1) \<and> bal r (n - 1))"

definition rbt_ok :: "rbt \<Rightarrow> bool" where
  "rbt_ok t \<longleftrightarrow> invc t \<and> col t = Black \<and> (\<exists>n. bal t n)"

fun paint :: "rbt \<Rightarrow> rbt" where
  "paint E = E"
| "paint (N l x c r) = N l x Black r"

definition ctx_col :: "frame list \<Rightarrow> ogs_rbtree_color_e" where
  "ctx_col k = (case k of FL x c r # _ \<Rightarrow> c | FR l x c # _ \<Rightarrow> c | [] \<Rightarrow> Black)"

lemma ctx_col_simps [simp]:
  "ctx_col [] = Black" "ctx_col (FL x c r # k) = c" "ctx_col (FR l x c # k) = c"
  by (simp_all add: ctx_col_def)

fun ctx_invc :: "frame list \<Rightarrow> bool" where
  "ctx_invc [] \<longleftrightarrow> True"
| "ctx_invc (FL x c r # k) \<longleftrightarrow> invc r \<and> (c = Red \<longrightarrow> col r = Black \<and> ctx_col k = Black \<and> k \<noteq> []) \<and> ctx_invc k"
| "ctx_invc (FR l x c # k) \<longleftrightarrow> invc l \<and> (c = Red \<longrightarrow> col l = Black \<and> ctx_col k = Black \<and> k \<noteq> []) \<and> ctx_invc k"

abbreviation up :: "ogs_rbtree_color_e \<Rightarrow> nat \<Rightarrow> nat" where
  "up c n \<equiv> (if c = Black then Suc n else n)"

fun ctx_bal :: "frame list \<Rightarrow> nat \<Rightarrow> bool" where
  "ctx_bal [] n \<longleftrightarrow> True"
| "ctx_bal (FL x c r # k) n \<longleftrightarrow> bal r n \<and> ctx_bal k (up c n)"
| "ctx_bal (FR l x c # k) n \<longleftrightarrow> bal l n \<and> ctx_bal k (up c n)"

lemma bal_Red [simp]: "bal (N l x Red r) n \<longleftrightarrow> bal l n \<and> bal r n"
  and bal_Black [simp]: "bal (N l x Black r) n \<longleftrightarrow> (\<exists>m. n = Suc m \<and> bal l m \<and> bal r m)"
  by (cases n; simp)+

lemma bal_up: "bal (N l x c r) (up c n) \<longleftrightarrow> bal l n \<and> bal r n"
  by (cases c) simp_all

declare bal.simps(2) [simp del]

lemma bal_plug: "bal t n \<Longrightarrow> ctx_bal k n \<Longrightarrow> \<exists>m. bal (plug t k) m"
proof (induction t k arbitrary: n rule: plug.induct)
  case (2 t x c r k)
  then show ?case using "2.IH" [of "up c n"] bal_up [of t x c r n] by auto
next
  case (3 t l x c k)
  then show ?case using "3.IH" [of "up c n"] bal_up [of l x c t n] by auto
qed auto

lemma bal_plugD: "bal (plug t k) m \<Longrightarrow> \<exists>n. bal t n \<and> ctx_bal k n"
proof (induction t k rule: plug.induct)
  case (2 t x c r k)
  then obtain n where "bal (N t x c r) n" "ctx_bal k n" by auto
  then show ?case by (cases c) auto
next
  case (3 t l x c k)
  then obtain n where "bal (N l x c t) n" "ctx_bal k n" by auto
  then show ?case by (cases c) auto
qed auto

lemma invc_plug: "invc t \<Longrightarrow> ctx_invc k \<Longrightarrow> col t = Red \<longrightarrow> ctx_col k = Black \<Longrightarrow> invc (plug t k)"
proof (induction t k rule: plug.induct)
  case (2 t x c r k)
  then show ?case by (cases c; cases "col t") auto
next
  case (3 t l x c k)
  then show ?case by (cases c; cases "col t") auto
qed simp

lemma invc_plugD:
  "invc (plug t k) \<Longrightarrow> col (plug t k) = Black \<Longrightarrow>
   invc t \<and> ctx_invc k \<and> (col t = Red \<longrightarrow> ctx_col k = Black \<and> k \<noteq> [])"
  by (induction t k rule: plug.induct) auto

lemma col_plug: "ctx_invc k \<Longrightarrow> k \<noteq> [] \<Longrightarrow> col (plug t k) = Black"
proof (induction t k rule: plug.induct)
  case (2 t x c r k)
  then show ?case by (cases k) auto
next
  case (3 t l x c k)
  then show ?case by (cases k) auto
qed simp

lemma rbt_ok_plug:
  "rbt_ok (plug t k) \<longleftrightarrow>
   invc t \<and> ctx_invc k \<and> (col t = Red \<longrightarrow> ctx_col k = Black \<and> k \<noteq> []) \<and> (\<exists>n. bal t n \<and> ctx_bal k n)"
  (is "?L \<longleftrightarrow> ?R")
proof
  assume ?L
  then show ?R using invc_plugD [of t k] bal_plugD [of t k] unfolding rbt_ok_def by auto
next
  assume R: ?R
  then have "col (plug t k) = Black" using col_plug [of k t] by (cases "k = []") auto
  then show ?L using R invc_plug [of t k] bal_plug [of t _ k] unfolding rbt_ok_def by blast
qed

lemma paint_simps [simp]:
  "col (paint t) = Black" "invc t \<Longrightarrow> invc (paint t)" "rbt_inorder (paint t) = rbt_inorder t"
  by (cases t; simp)+

lemma paint_black [simp]: "col t = Black \<Longrightarrow> paint t = t"
  by (cases t) auto

subsection \<open>Rebalancing after an insertion\<close>

lemma is_red_ptr:
  assumes "tree_at (rb_mem s) par t"
  shows "rb_is_red s (ptr t) \<longleftrightarrow> col t = Red" "rb_is_black s (ptr t) \<longleftrightarrow> col t = Black"
  using assms by (cases t; simp add: rb_is_red_def rb_is_black_def)+

lemma rep_red_right: "rb_rep m0 A s (N l x c r) k \<Longrightarrow> rb_is_red s (ptr r) \<longleftrightarrow> col r = Red"
  and rep_red_left: "rb_rep m0 A s (N l x c r) k \<Longrightarrow> rb_is_red s (ptr l) \<longleftrightarrow> col l = Red"
  using is_red_ptr(1) by (auto simp: rb_rep_def)

lemma insert_left_flip:
  assumes rep: "rb_rep m0 A s (N (N a p Red b) g Black (N u1 v Red u2)) k"
  shows "\<exists>s'. rb_insert_left x p g s = Some (g, s') \<and>
    rb_rep m0 A s' (N (N a p Black b) g Red (N u1 v Black u2)) k"
  using rep_color [OF rep_color_left [OF rep_color_right [OF rep, of Black], of Black], of Red]
    rep_node [OF rep] rep_red_right [OF rep]
  by (simp add: rb_insert_left_def rb_insert_flip_def)

lemma insert_right_flip:
  assumes rep: "rb_rep m0 A s (N (N u1 v Red u2) g Black (N a p Red b)) k"
  shows "\<exists>s'. rb_insert_right x p g s = Some (g, s') \<and>
    rb_rep m0 A s' (N (N u1 v Black u2) g Red (N a p Black b)) k"
  using rep_color [OF rep_color_right [OF rep_color_left [OF rep, of Black], of Black], of Red]
    rep_node [OF rep] rep_red_left [OF rep]
  by (simp add: rb_insert_right_def rb_insert_flip_def)

lemma insert_left_outer:
  assumes rep: "rb_rep m0 A s (N (N (N a x Red b) p Red c) g Black u) k" and u: "col u = Black"
  shows "\<exists>s'. rb_insert_left x p g s = Some (x, s') \<and>
    rb_rep m0 A s' (N (N a x Red b) p Black (N c g Red u)) k"
proof -
  have "rb_rep m0 A s (N (N a x Red b) p Red c) (FL g Black u # k)" using rep by (simp add: rep_left)
  note p = rep_node [OF this] rep_node_left [OF this] rep_ptr_neq [OF this]
  obtain s' where s': "rb_rotate_right g (set_color g Red (set_color p Black s)) = Some s'"
    "rb_rep m0 A s' (N (N a x Red b) p Black (N c g Red u)) k"
    using rep_rotate_right [OF rep_color [OF rep_color_left [OF rep, of Black], of Red]] by auto
  then show ?thesis
    using rep_node [OF rep] rep_red_right [OF rep] u p by (auto simp: rb_insert_left_def)
qed

lemma insert_left_inner:
  assumes rep: "rb_rep m0 A s (N (N c p Red (N a x Red b)) g Black u) k" and u: "col u = Black"
  shows "\<exists>s'. rb_insert_left x p g s = Some (p, s') \<and>
    rb_rep m0 A s' (N (N c p Red a) x Black (N b g Red u)) k"
proof -
  have "rb_rep m0 A s (N c p Red (N a x Red b)) (FL g Black u # k)" using rep by (simp add: rep_left)
  note p = rep_node [OF this] rep_node_right [OF this]
  obtain s1 where s1: "rb_rotate_left p s = Some s1"
    "rb_rep m0 A s1 (N (N (N c p Red a) x Red b) g Black u) k"
    using rep_rotate_left_below [OF rep] by blast
  then have "rb_rep m0 A s1 (N (N c p Red a) x Red b) (FL g Black u # k)" by (simp add: rep_left)
  note p1 = rep_node_left [OF this]
  obtain s' where s': "rb_rotate_right g (set_color g Red (set_color x Black s1)) = Some s'"
    "rb_rep m0 A s' (N (N c p Red a) x Black (N b g Red u)) k"
    using rep_rotate_right [OF rep_color [OF rep_color_left [OF s1(2), of Black], of Red]] by auto
  then show ?thesis
    using rep_node [OF rep] rep_red_right [OF rep] u p p1 s1 by (auto simp: rb_insert_left_def)
qed

lemma insert_right_outer:
  assumes rep: "rb_rep m0 A s (N u g Black (N c p Red (N a x Red b))) k" and u: "col u = Black"
  shows "\<exists>s'. rb_insert_right x p g s = Some (x, s') \<and>
    rb_rep m0 A s' (N (N u g Red c) p Black (N a x Red b)) k"
proof -
  have "rb_rep m0 A s (N c p Red (N a x Red b)) (FR u g Black # k)" using rep by (simp add: rep_right)
  note p = rep_node [OF this] rep_node_right [OF this] rep_ptr_neq [OF this]
  obtain s' where s': "rb_rotate_left g (set_color g Red (set_color p Black s)) = Some s'"
    "rb_rep m0 A s' (N (N u g Red c) p Black (N a x Red b)) k"
    using rep_rotate_left [OF rep_color [OF rep_color_right [OF rep, of Black], of Red]] by auto
  then show ?thesis
    using rep_node [OF rep] rep_red_left [OF rep] u p by (auto simp: rb_insert_right_def)
qed

lemma insert_right_inner:
  assumes rep: "rb_rep m0 A s (N u g Black (N (N a x Red b) p Red c)) k" and u: "col u = Black"
  shows "\<exists>s'. rb_insert_right x p g s = Some (p, s') \<and>
    rb_rep m0 A s' (N (N u g Red a) x Black (N b p Red c)) k"
proof -
  have "rb_rep m0 A s (N (N a x Red b) p Red c) (FR u g Black # k)" using rep by (simp add: rep_right)
  note p = rep_node [OF this] rep_node_left [OF this]
  obtain s1 where s1: "rb_rotate_right p s = Some s1"
    "rb_rep m0 A s1 (N u g Black (N a x Red (N b p Red c))) k"
    using rep_rotate_right_below [OF rep] by blast
  then have "rb_rep m0 A s1 (N a x Red (N b p Red c)) (FR u g Black # k)" by (simp add: rep_right)
  note p1 = rep_node_right [OF this]
  obtain s' where s': "rb_rotate_left g (set_color g Red (set_color x Black s1)) = Some s'"
    "rb_rep m0 A s' (N (N u g Red a) x Black (N b p Red c)) k"
    using rep_rotate_left [OF rep_color [OF rep_color_right [OF s1(2), of Black], of Red]] by auto
  then show ?thesis
    using rep_node [OF rep] rep_red_left [OF rep] u p p1 s1 by (auto simp: rb_insert_right_def)
qed

text \<open>
  One round, as a step on the tree: from the red node \<open>x\<close> below its red parent either to a
  red node two levels up or to a state in which the loop ends.
\<close>

inductive insert_round :: "rbt \<Rightarrow> frame list \<Rightarrow> rbt \<Rightarrow> frame list \<Rightarrow> bool" where
  "insert_round t (FL p Red c # FL g Black (N u1 v Red u2) # k)
     (N (N t p Black c) g Red (N u1 v Black u2)) k"
| "insert_round t (FR c p Red # FL g Black (N u1 v Red u2) # k)
     (N (N c p Black t) g Red (N u1 v Black u2)) k"
| "insert_round t (FL p Red c # FR (N u1 v Red u2) g Black # k)
     (N (N u1 v Black u2) g Red (N t p Black c)) k"
| "insert_round t (FR c p Red # FR (N u1 v Red u2) g Black # k)
     (N (N u1 v Black u2) g Red (N c p Black t)) k"
| "col u = Black \<Longrightarrow> insert_round t (FL p Red c # FL g Black u # k) t (FL p Black (N c g Red u) # k)"
| "col u = Black \<Longrightarrow> insert_round (N a x Red b) (FR c p Red # FL g Black u # k)
     (N c p Red a) (FL x Black (N b g Red u) # k)"
| "col u = Black \<Longrightarrow> insert_round t (FR c p Red # FR u g Black # k) t (FR (N u g Red c) p Black # k)"
| "col u = Black \<Longrightarrow> insert_round (N a x Red b) (FL p Red c # FR u g Black # k)
     (N b p Red c) (FR (N u g Red a) x Black # k)"

lemma red_or_black: "col u = Black \<or> (\<exists>u1 v u2. u = N u1 v Red u2)"
  by (cases u) (auto dest: not_Red(1) [THEN iffD1])

lemma insert_round_exists:
  assumes "ctx_col k = Red" "ctx_invc k"
  shows "\<exists>t' k'. insert_round (N a x Red b) k t' k'"
proof -
  obtain f g k' where k: "k = f # g # k'" "ctx_col (g # k') = Black" "ctx_col (f # g # k') = Red"
    using assms by (cases k rule: ctx_invc.cases; cases "tl k") auto
  have *: "\<exists>t' k''. insert_round (N a x Red b) (f # g # k') t' k''" if "g = FL q Black u \<or> g = FR u q Black"
    for q u
    using red_or_black [of u] k that
    by (cases f) (auto intro: insert_round.intros)
  show ?thesis using k * by (cases g) auto
qed

definition root_red :: "rbt \<Rightarrow> bool" where
  "root_red t \<longleftrightarrow> (\<exists>a x b. t = N a x Red b)"

text \<open>The loop invariant: everything is right but for the link from the focus to its parent.\<close>

definition insert_inv :: "rbt \<Rightarrow> frame list \<Rightarrow> bool" where
  "insert_inv t k \<longleftrightarrow> invc t \<and> root_red t \<and> ctx_invc k \<and> (\<exists>n. bal t n \<and> ctx_bal k n)"

lemma insert_round_inv:
  assumes "insert_round t k t' k'" "insert_inv t k"
  shows "insert_inv t' k'" "rbt_inorder (plug t' k') = rbt_inorder (plug t k)"
    "ctx_col k' = Red \<Longrightarrow> length k' < length k"
  using assms
  by (induction rule: insert_round.induct)
    (auto simp: insert_inv_def root_red_def inorder_plug split: if_splits)

lemma rep_frame:
  assumes "rb_rep m0 A s t (f # k)"
  shows "color_of s (frame_node f) = ctx_col (f # k)" "parent_of s (frame_node f) = ctx_top k"
    "ptr t = Some x \<Longrightarrow> parent_of s x = Some (frame_node f)"
  using assms by (cases f; cases t; auto simp: rb_rep_def)+

lemma rep_frame_side:
  assumes "rb_rep m0 A s t (f # g # k)"
  shows "Some (frame_node f) = left_of s (frame_node g) \<longleftrightarrow> (\<exists>x c r. g = FL x c r)"
  using assms by (cases f; cases g) (auto simp: rb_rep_def dest!: ptr_nodes [OF sym])

lemma insert_loop_step:
  assumes "rb_rep m0 A s t (f # g # k)" "ptr t = Some x" "ctx_col (f # g # k) = Red"
  shows "rb_insert_loop x s =
    (case g of FL q c u \<Rightarrow> rb_insert_left x (frame_node f) q s
             | FR u q c \<Rightarrow> rb_insert_right x (frame_node f) q s) \<bind> (\<lambda>(n, s). rb_insert_loop n s)"
proof -
  have "parent_of s (frame_node f) = Some (frame_node g)" using rep_frame(2) [OF assms(1)] by simp
  then show ?thesis
    using assms rep_frame [OF assms(1)] rep_frame_side [OF assms(1)]
    by (subst rb_insert_loop.simps) (auto split: frame.splits)
qed

lemma insert_loop_round:
  assumes "insert_round t k t' k'" "rb_rep m0 A s t k" "root_red t" "ptr t = Some x"
  shows "\<exists>s'. rb_insert_loop x s = rb_insert_loop (the (ptr t')) s' \<and> rb_rep m0 A s' t' k'"
  using assms
proof (induction rule: insert_round.induct)
  case (1 t p c g u1 v u2 k)
  then show ?case
    using insert_left_flip [of m0 A s t p c g u1 v u2 k x]
    by (auto simp: insert_loop_step rep_left)
next
  case (2 t c p g u1 v u2 k)
  then show ?case
    using insert_left_flip [of m0 A s c p t g u1 v u2 k x]
    by (auto simp: insert_loop_step rep_left [of _ _ _ _ g] rep_right [of _ _ _ _ p])
next
  case (3 t p c u1 v u2 g k)
  then show ?case
    using insert_right_flip [of m0 A s u1 v u2 g t p c k x]
    by (auto simp: insert_loop_step rep_right [of _ _ _ _ g] rep_left [of _ _ _ _ p])
next
  case (4 t c p u1 v u2 g k)
  then show ?case
    using insert_right_flip [of m0 A s u1 v u2 g c p t k x]
    by (auto simp: insert_loop_step rep_right [of _ _ _ _ g] rep_right [of _ _ _ _ p])
next
  case (5 u t p c g k)
  then obtain a b where "t = N a x Red b" by (auto simp: root_red_def)
  then show ?case
    using 5 insert_left_outer [of m0 A s a x b p c g u k]
    by (auto simp: insert_loop_step rep_left [of _ _ _ _ g] rep_left [of _ _ _ _ p])
next
  case (6 u a x' b c p g k)
  then show ?case
    using insert_left_inner [of m0 A s c p a x b g u k]
    by (auto simp: insert_loop_step rep_left [of _ _ _ _ g] rep_right [of _ _ _ _ p] rep_left [of _ _ _ _ x Black])
next
  case (7 u t c p g k)
  then obtain a b where "t = N a x Red b" by (auto simp: root_red_def)
  then show ?case
    using 7 insert_right_outer [of m0 A s u g c p a x b k]
    by (auto simp: insert_loop_step rep_right [of _ _ _ _ g] rep_right [of _ _ _ _ p])
next
  case (8 u a x' b p c g k)
  then show ?case
    using insert_right_inner [of m0 A s u g a x b p c k]
    by (auto simp: insert_loop_step rep_right [of _ _ _ _ g] rep_left [of _ _ _ _ p] rep_right [of _ _ _ _ x Black])
qed

lemma insert_loop_done:
  assumes "rb_rep m0 A s t k" "ptr t = Some x" "ctx_col k = Black"
  shows "rb_insert_loop x s = Some s"
proof (cases k)
  case Nil
  then show ?thesis using assms by (cases t; subst rb_insert_loop.simps) (auto simp: rb_rep_def)
next
  case (Cons f k')
  then show ?thesis using assms rep_frame [of m0 A s t f k'] by (subst rb_insert_loop.simps) auto
qed

lemma insert_loop:
  assumes "insert_inv t k" "rb_rep m0 A s t k" "ptr t = Some x"
  shows "\<exists>s' t' k'. rb_insert_loop x s = Some s' \<and> rb_rep m0 A s' t' k' \<and> insert_inv t' k' \<and>
    ctx_col k' = Black \<and> rbt_inorder (plug t' k') = rbt_inorder (plug t k)"
  using assms
proof (induction "length k" arbitrary: t k s x rule: less_induct)
  case less
  show ?case
  proof (cases "ctx_col k")
    case OGS_RBTREE_BLACK
    then show ?thesis using less.prems insert_loop_done by metis
  next
    case OGS_RBTREE_RED
    then obtain t' k' where r: "insert_round t k t' k'"
      using less.prems(1) insert_round_exists [OF OGS_RBTREE_RED]
      unfolding insert_inv_def root_red_def by blast
    note inv = insert_round_inv [OF r less.prems(1)]
    have rr: "root_red t" using less.prems by (simp add: insert_inv_def)
    obtain s' where s': "rb_insert_loop x s = rb_insert_loop (the (ptr t')) s'" "rb_rep m0 A s' t' k'"
      using insert_loop_round [OF r less.prems(2) rr less.prems(3)] by blast
    have x': "ptr t' = Some (the (ptr t'))" using inv(1) by (auto simp: insert_inv_def root_red_def)
    show ?thesis
    proof (cases "ctx_col k'")
      case OGS_RBTREE_BLACK
      then show ?thesis using insert_loop_done [OF s'(2) x'] s' inv by metis
    next
      case OGS_RBTREE_RED
      then show ?thesis using less.hyps [OF inv(3) inv(1) s'(2) x'] s'(1) inv(2) by simp
    qed
  qed
qed

lemma rep_paint:
  "rb_rep m0 A s t k \<Longrightarrow>
   rb_rep m0 A (case ptr t of Some n \<Rightarrow> set_color n Black s | None \<Rightarrow> s) (paint t) k"
  by (cases t) (auto intro: rep_color)

lemma bal_paint: "bal t n \<Longrightarrow> \<exists>m. bal (paint t) m"
  by (cases t rule: paint.cases) (auto simp: bal.simps(2) split: ogs_rbtree_color_e.splits)

lemma insert_color:
  assumes "insert_inv t k" "rb_rep m0 A s t k" "ptr t = Some x"
  shows "\<exists>s' T. ogs_rbtree_insert_color x s = Some s' \<and> rb_rep m0 A s' T [] \<and> rbt_ok T \<and>
    rbt_inorder T = rbt_inorder (plug t k)"
proof -
  obtain s1 t' k' where 1: "rb_insert_loop x s = Some s1" "rb_rep m0 A s1 t' k'" "insert_inv t' k'"
    "ctx_col k' = Black" "rbt_inorder (plug t' k') = rbt_inorder (plug t k)"
    using insert_loop [OF assms] by blast
  define T where "T = plug t' k'"
  have rep: "rb_rep m0 A s1 T []" using 1 by (simp add: T_def rep_plug)
  have "\<exists>n. bal T n" "invc T"
    using 1(3,4) bal_plug invc_plug [of t' k'] unfolding insert_inv_def T_def by blast+
  then have "rbt_ok (paint T)" using bal_paint [of T] by (auto simp: rbt_ok_def)
  moreover have "ptr T \<noteq> None" using 1 assms(3) unfolding T_def
    by (cases "plug t' k'"; cases t) (auto simp: inorder_plug)
  ultimately show ?thesis
    using rep_paint [OF rep] rep_root [OF rep] 1
    by (auto simp: ogs_rbtree_insert_color_def T_def intro!: exI [of _ "paint T"])
qed

subsection \<open>Rebalancing after a deletion\<close>

lemma rep_black_left: "rb_rep m0 A s (N l x c r) k \<Longrightarrow> rb_is_black s (ptr l) \<longleftrightarrow> col l = Black"
  and rep_black_right: "rb_rep m0 A s (N l x c r) k \<Longrightarrow> rb_is_black s (ptr r) \<longleftrightarrow> col r = Black"
  using is_red_ptr(2) by (auto simp: rb_rep_def)

lemma rep_black: "rb_rep m0 A s t k \<Longrightarrow> rb_is_black s (ptr t) \<longleftrightarrow> col t = Black"
  by (auto simp: rb_rep_def is_red_ptr)

lemma delete_left1_red:
  assumes rep: "rb_rep m0 A s (N t p Black (N (N a w d b) q Red sr)) k"
  shows "\<exists>s'. rb_delete_left1 p s = Some (w, s') \<and>
    rb_rep m0 A s' (N (N t p Red (N a w d b)) q Black sr) k"
proof -
  obtain s' where s': "rb_rotate_left p (set_color p Red (set_color q Black s)) = Some s'"
    "rb_rep m0 A s' (N (N t p Red (N a w d b)) q Black sr) k"
    using rep_rotate_left [OF rep_color [OF rep_color_right [OF rep, of Black], of Red]] by auto
  then show ?thesis
    using rep_node [OF rep] rep_node_right [OF rep] rep_node_left [OF s'(2)]
    by (simp add: rb_delete_left1_def)
qed

lemma delete_right1_red:
  assumes rep: "rb_rep m0 A s (N (N sl q Red (N a w d b)) p Black t) k"
  shows "\<exists>s'. rb_delete_right1 p s = Some (w, s') \<and>
    rb_rep m0 A s' (N sl q Black (N (N a w d b) p Red t)) k"
proof -
  obtain s' where s': "rb_rotate_right p (set_color p Red (set_color q Black s)) = Some s'"
    "rb_rep m0 A s' (N sl q Black (N (N a w d b) p Red t)) k"
    using rep_rotate_right [OF rep_color [OF rep_color_left [OF rep, of Black], of Red]] by auto
  then show ?thesis
    using rep_node [OF rep] rep_node_left [OF rep] rep_node_right [OF s'(2)]
    by (simp add: rb_delete_right1_def)
qed

lemma delete_left1_black:
  "rb_rep m0 A s (N t p c (N sl q Black sr)) k \<Longrightarrow> rb_delete_left1 p s = Some (q, s)"
  using rep_node [of m0 A s t p c] rep_node_right [of m0 A s t p c] by (auto simp: rb_delete_left1_def)

lemma delete_right1_black:
  "rb_rep m0 A s (N (N sl q Black sr) p c t) k \<Longrightarrow> rb_delete_right1 p s = Some (q, s)"
  using rep_node [of m0 A s _ p c t] rep_node_left [of m0 A s _ _ _ _ p c t]
  by (auto simp: rb_delete_right1_def)

lemma delete_left2_flip:
  assumes rep: "rb_rep m0 A s (N t p c (N sl q Black sr)) k" and "col sl = Black" "col sr = Black"
  shows "\<exists>s'. rb_delete_left2 q p s = Some (Some p, ctx_top k, s') \<and>
    rb_rep m0 A s' (N t p c (N sl q Red sr)) k"
proof -
  have "rb_rep m0 A s (N sl q Black sr) (FR t p c # k)" using rep by (simp add: rep_right)
  from rep_black_left [OF this] rep_black_right [OF this] show ?thesis
    using assms rep_node [OF rep] rep_node_right [OF rep] rep_color_right [OF rep, of Red]
      rep_node [OF rep_color_right [OF rep, of Red]]
    by (simp add: rb_delete_left2_def Let_def)
qed

lemma delete_right2_flip:
  assumes rep: "rb_rep m0 A s (N (N sl q Black sr) p c t) k" and "col sl = Black" "col sr = Black"
  shows "\<exists>s'. rb_delete_right2 q p s = Some (Some p, ctx_top k, s') \<and>
    rb_rep m0 A s' (N (N sl q Red sr) p c t) k"
proof -
  have "rb_rep m0 A s (N sl q Black sr) (FL p c t # k)" using rep by (simp add: rep_left)
  from rep_black_left [OF this] rep_black_right [OF this] show ?thesis
    using assms rep_node [OF rep] rep_node_left [OF rep] rep_color_left [OF rep, of Red]
      rep_node [OF rep_color_left [OF rep, of Red]]
    by (simp add: rb_delete_right2_def Let_def)
qed

lemma delete_left4_rep:
  assumes rep: "rb_rep m0 A s (N t p c (N sl q d (N a v e b))) k"
  shows "\<exists>s'. rb_delete_left4 q p s = Some (rb_root s', Some p, s') \<and>
    rb_rep m0 A s' (N (N t p Black sl) q c (N a v Black b)) k"
proof -
  let ?s2 = "set_color p Black (set_color q c s)"
  have 2: "rb_rep m0 A ?s2 (N t p Black (N sl q c (N a v e b))) k"
    by (rule rep_color [OF rep_color_right [OF rep]])
  then have "rb_rep m0 A (set_color v Black ?s2) (N t p Black (N sl q c (N a v Black b))) k"
    unfolding rep_right [of _ _ _ _ p] by (rule rep_color_right)
  from rep_rotate_left [OF this] show ?thesis
    using rep_node [OF rep] rep_node_right [OF rep] rep_ptr_neq(4) [OF rep]
    by (auto simp: rb_delete_left4_def Let_def)
qed

lemma delete_right4_rep:
  assumes rep: "rb_rep m0 A s (N (N (N a v e b) q d sr) p c t) k"
  shows "\<exists>s'. rb_delete_right4 q p s = Some (rb_root s', Some p, s') \<and>
    rb_rep m0 A s' (N (N a v Black b) q c (N sr p Black t)) k"
proof -
  let ?s2 = "set_color p Black (set_color q c s)"
  have 2: "rb_rep m0 A ?s2 (N (N (N a v e b) q c sr) p Black t) k"
    by (rule rep_color [OF rep_color_left [OF rep]])
  then have "rb_rep m0 A (set_color v Black ?s2) (N (N (N a v Black b) q c sr) p Black t) k"
    unfolding rep_left [of _ _ _ _ p] by (rule rep_color_left)
  from rep_rotate_right [OF this] show ?thesis
    using rep_node [OF rep] rep_node_left [OF rep] rep_ptr_neq(3) [OF rep]
    by (auto simp: rb_delete_right4_def Let_def)
qed

lemma delete_left2_outer:
  assumes rep: "rb_rep m0 A s (N t p c (N sl q Black (N a v Red b))) k"
  shows "\<exists>s'. rb_delete_left2 q p s = Some (rb_root s', Some p, s') \<and>
    rb_rep m0 A s' (N (N t p Black sl) q c (N a v Black b)) k"
proof -
  have "rb_rep m0 A s (N sl q Black (N a v Red b)) (FR t p c # k)" using rep by (simp add: rep_right)
  from rep_black_right [OF this] show ?thesis
    using delete_left4_rep [OF rep] rep_node_right [OF rep] by (auto simp: rb_delete_left2_def)
qed

lemma delete_right2_outer:
  assumes rep: "rb_rep m0 A s (N (N (N a v Red b) q Black sr) p c t) k"
  shows "\<exists>s'. rb_delete_right2 q p s = Some (rb_root s', Some p, s') \<and>
    rb_rep m0 A s' (N (N a v Black b) q c (N sr p Black t)) k"
proof -
  have "rb_rep m0 A s (N (N a v Red b) q Black sr) (FL p c t # k)" using rep by (simp add: rep_left)
  from rep_black_left [OF this] show ?thesis
    using delete_right4_rep [OF rep] rep_node_left [OF rep] by (auto simp: rb_delete_right2_def)
qed

lemma delete_left2_inner:
  assumes rep: "rb_rep m0 A s (N t p c (N (N a v Red b) q Black sr)) k" and sr: "col sr = Black"
  shows "\<exists>s'. rb_delete_left2 q p s = Some (rb_root s', Some p, s') \<and>
    rb_rep m0 A s' (N (N t p Black a) v c (N b q Black sr)) k"
proof -
  have q: "rb_rep m0 A s (N (N a v Red b) q Black sr) (FR t p c # k)" using rep by (simp add: rep_right)
  have "rb_rep m0 A (set_color q Red (set_color v Black s)) (N (N a v Black b) q Red sr) (FR t p c # k)"
    by (rule rep_color [OF rep_color_left [OF q]])
  then obtain s1 where s1: "rb_rotate_right q (set_color q Red (set_color v Black s)) = Some s1"
    "rb_rep m0 A s1 (N t p c (N a v Black (N b q Red sr))) k"
    using rep_rotate_right by (metis rep_right)
  show ?thesis
    using delete_left4_rep [OF s1(2)] rep_black_left [OF q] rep_black_right [OF q] sr
      rep_node_right [OF rep] rep_node [OF s1(2)] s1(1)
    by (auto simp: rb_delete_left2_def Let_def)
qed

lemma delete_right2_inner:
  assumes rep: "rb_rep m0 A s (N (N sl q Black (N a v Red b)) p c t) k" and sl: "col sl = Black"
  shows "\<exists>s'. rb_delete_right2 q p s = Some (rb_root s', Some p, s') \<and>
    rb_rep m0 A s' (N (N sl q Black a) v c (N b p Black t)) k"
proof -
  have q: "rb_rep m0 A s (N sl q Black (N a v Red b)) (FL p c t # k)" using rep by (simp add: rep_left)
  have "rb_rep m0 A (set_color q Red (set_color v Black s)) (N sl q Red (N a v Black b)) (FL p c t # k)"
    by (rule rep_color [OF rep_color_right [OF q]])
  then obtain s1 where s1: "rb_rotate_left q (set_color q Red (set_color v Black s)) = Some s1"
    "rb_rep m0 A s1 (N (N (N sl q Red a) v Black b) p c t) k"
    using rep_rotate_left by (metis rep_left)
  show ?thesis
    using delete_right4_rep [OF s1(2)] rep_black_left [OF q] rep_black_right [OF q] sl
      rep_node_left [OF rep] rep_node [OF s1(2)] s1(1)
    by (auto simp: rb_delete_right2_def Let_def)
qed

text \<open>The loop invariant: the focus is one black node short, and its root may be red.\<close>

definition delete_inv :: "rbt \<Rightarrow> frame list \<Rightarrow> bool" where
  "delete_inv t k \<longleftrightarrow> invc (paint t) \<and> ctx_invc k \<and> (\<exists>n. bal t n \<and> ctx_bal k (Suc n))"

text \<open>
  One round on the tree: \<open>delete_round\<close> is case 2, after which the parent is the focus;
  \<open>delete_last\<close> is case 4, which repairs the tree.
\<close>

inductive delete_round :: "rbt \<Rightarrow> frame list \<Rightarrow> rbt \<Rightarrow> frame list \<Rightarrow> bool" where
  "col a = Black \<Longrightarrow> col b = Black \<Longrightarrow>
   delete_round t (FL p c (N a q Black b) # k) (N t p c (N a q Red b)) k"
| "col a = Black \<Longrightarrow> col b = Black \<Longrightarrow>
   delete_round t (FR (N a q Black b) p c # k) (N (N a q Red b) p c t) k"

inductive delete_last :: "rbt \<Rightarrow> frame list \<Rightarrow> rbt \<Rightarrow> frame list \<Rightarrow> bool" where
  "delete_last t (FL p c (N sl q Black (N a v Red b)) # k) (N (N t p Black sl) q c (N a v Black b)) k"
| "col sr = Black \<Longrightarrow>
   delete_last t (FL p c (N (N a v Red b) q Black sr) # k) (N (N t p Black a) v c (N b q Black sr)) k"
| "delete_last t (FR (N (N a v Red b) q Black sr) p c # k) (N (N a v Black b) q c (N sr p Black t)) k"
| "col sl = Black \<Longrightarrow>
   delete_last t (FR (N sl q Black (N a v Red b)) p c # k) (N (N sl q Black a) v c (N b p Black t)) k"

text \<open>Case 1, which comes before either.\<close>

inductive delete_red :: "frame list \<Rightarrow> frame list \<Rightarrow> bool" where
  "delete_red (FL p Black (N (N a w Black b) q Red sr) # k) (FL p Red (N a w Black b) # FL q Black sr # k)"
| "delete_red (FR (N sl q Red (N a w Black b)) p Black # k) (FR (N a w Black b) p Red # FR sl q Black # k)"

definition sib_black :: "frame list \<Rightarrow> bool" where
  "sib_black k \<longleftrightarrow> (\<exists>p c a q b k'. k = FL p c (N a q Black b) # k' \<or> k = FR (N a q Black b) p c # k')"

lemma bal_Suc_node: "bal t (Suc n) \<Longrightarrow> \<exists>a q c b. t = N a q c b"
  by (cases t) auto

lemma delete_round_or_last:
  assumes "sib_black k" shows "(\<exists>t' k'. delete_round t k t' k') \<or> (\<exists>t' k'. delete_last t k t' k')"
proof -
  from assms obtain p c a q b k' where
    k: "k = FL p c (N a q Black b) # k' \<or> k = FR (N a q Black b) p c # k'" by (auto simp: sib_black_def)
  show ?thesis
    using red_or_black [of a] red_or_black [of b] k
    by (elim disjE exE; hypsubst) (blast intro: delete_round.intros delete_last.intros)+
qed

lemma delete_black_or_red:
  assumes inv: "delete_inv t k" and k: "k \<noteq> []"
  shows "sib_black k \<or> (\<exists>k'. delete_red k k')"
proof -
  obtain n where n: "ctx_bal k (Suc n)" "ctx_invc k" using inv k by (auto simp: delete_inv_def)
  have node: "\<exists>a q b. u = N a q Black b" if "bal u (Suc n)" "col u = Black" for u
    using that bal_Suc_node by fastforce
  have red: "\<exists>a1 w a2 q b1 v b2. u = N (N a1 w Black a2) q Red (N b1 v Black b2)"
    if "bal u (Suc n)" "col u = Red" "invc u" for u
  proof -
    from that(2) red_or_black [of u] obtain a q b where u: "u = N a q Red b" by auto
    then show ?thesis using that node [of a] node [of b] by auto
  qed
  show ?thesis
  proof (cases k rule: ctx_invc.cases)
    case (2 p c u k')
    then show ?thesis
      using n node [of u] red [of u]
      by (cases "col u") (fastforce simp: sib_black_def intro: delete_red.intros)+
  next
    case (3 u p c k')
    then show ?thesis
      using n node [of u] red [of u]
      by (cases "col u") (fastforce simp: sib_black_def intro: delete_red.intros)+
  qed (use k in simp)
qed

lemma delete_red_inv:
  assumes "delete_red k k'" "delete_inv t k"
  shows "delete_inv t k'" "rbt_inorder (plug t k') = rbt_inorder (plug t k)" "sib_black k'" "ctx_col k' = Red"
  using assms by (induction rule: delete_red.induct) (auto simp: delete_inv_def inorder_plug sib_black_def)

lemma delete_round_inv:
  assumes "delete_round t k t' k'" "delete_inv t k" "col t = Black"
  shows "delete_inv t' k'" "rbt_inorder (plug t' k') = rbt_inorder (plug t k)" "length k' < length k"
    "col t' = ctx_col k"
proof -
  show "delete_inv t' k'" using assms
  proof (cases rule: delete_round.cases)
    case (1 a b p c q)
    then show ?thesis using assms by (cases c) (auto simp: delete_inv_def)
  next
    case (2 a b q p c)
    then show ?thesis using assms by (cases c) (auto simp: delete_inv_def)
  qed
qed (use assms in \<open>auto simp: inorder_plug elim!: delete_round.cases\<close>)

lemma delete_last_inv:
  assumes "delete_last t k t' k'" "delete_inv t k" "col t = Black"
  shows "rbt_ok (plug t' k')" "rbt_inorder (plug t' k') = rbt_inorder (plug t k)"
proof -
  have "rbt_ok (plug (N a x c b) k')"
    if "bal a (Suc n)" "bal b (Suc n)" "ctx_bal k' (up c (Suc n))" "invc a" "invc b"
      "col a = Black" "col b = Black" "ctx_invc k'" "c = Red \<longrightarrow> ctx_col k' = Black \<and> k' \<noteq> []" for a x c b n
    using that bal_up [of a x c b "Suc n"] unfolding rbt_ok_plug by auto
  then show "rbt_ok (plug t' k')" using assms
    by (auto simp: delete_inv_def elim!: delete_last.cases)
qed (use assms in \<open>auto simp: inorder_plug elim!: delete_last.cases\<close>)

text \<open>The memory follows the three relations.\<close>

lemma delete_side:
  "rb_rep m0 A s t (FL p c u # k) \<Longrightarrow> ptr t = left_of s p"
  "rb_rep m0 A s t (FR (N a x d b) p c # k) \<Longrightarrow> ptr t \<noteq> left_of s p"
proof -
  assume "rb_rep m0 A s t (FR (N a x d b) p c # k)"
  then have r: "rb_rep m0 A s (N (N a x d b) p c t) k" by (simp add: rep_right)
  show "ptr t \<noteq> left_of s p" using rep_node [OF r] rep_ptr_neq(2) [OF r, of x] by auto
qed (simp add: rb_rep_def)

lemma rep_delete_round:
  assumes "delete_round t k t' k'" "rb_rep m0 A s t k"
  shows "\<exists>s'. rb_delete_round (ptr t) (the (ctx_top k)) s = Some (ptr t', ctx_top k', s') \<and>
    rb_rep m0 A s' t' k'"
  using assms
proof (cases rule: delete_round.cases)
  case (1 a b p c q)
  have "rb_rep m0 A s (N t p c (N a q Black b)) k'" using assms 1 by (simp add: rep_left)
  from delete_left1_black [OF this] delete_left2_flip [OF this] show ?thesis
    using 1 delete_side [of m0 A s t] assms(2) by (auto simp: rb_delete_round_def)
next
  case (2 a b q p c)
  have "rb_rep m0 A s (N (N a q Black b) p c t) k'" using assms 2 by (simp add: rep_right)
  from delete_right1_black [OF this] delete_right2_flip [OF this] show ?thesis
    using 2 delete_side [of m0 A s t] assms(2) by (auto simp: rb_delete_round_def)
qed

lemma rep_delete_last:
  assumes "delete_last t k t' k'" "rb_rep m0 A s t k"
  shows "\<exists>s' par. rb_delete_round (ptr t) (the (ctx_top k)) s = Some (rb_root s', par, s') \<and>
    rb_rep m0 A s' t' k'"
  using assms
proof (cases rule: delete_last.cases)
  case (1 p c sl q a v b)
  have "rb_rep m0 A s (N t p c (N sl q Black (N a v Red b))) k'" using assms 1 by (simp add: rep_left)
  from delete_left1_black [OF this] delete_left2_outer [OF this] show ?thesis
    using 1 delete_side [of m0 A s t] assms(2)
    by (auto simp: rb_delete_round_def)
next
  case (2 sr p c a v b q)
  have "rb_rep m0 A s (N t p c (N (N a v Red b) q Black sr)) k'" using assms 2 by (simp add: rep_left)
  from delete_left1_black [OF this] delete_left2_inner [OF this 2(3)] show ?thesis
    using 2 delete_side [of m0 A s t] assms(2)
    by (auto simp: rb_delete_round_def)
next
  case (3 a v b q sr p c)
  have "rb_rep m0 A s (N (N (N a v Red b) q Black sr) p c t) k'" using assms 3 by (simp add: rep_right)
  from delete_right1_black [OF this] delete_right2_outer [OF this] show ?thesis
    using 3 delete_side [of m0 A s t] assms(2)
    by (auto simp: rb_delete_round_def)
next
  case (4 sl q a v b p c)
  have "rb_rep m0 A s (N (N sl q Black (N a v Red b)) p c t) k'" using assms 4 by (simp add: rep_right)
  from delete_right1_black [OF this] delete_right2_inner [OF this 4(3)] show ?thesis
    using 4 delete_side [of m0 A s t] assms(2)
    by (auto simp: rb_delete_round_def)
qed

lemma rep_delete_red:
  assumes "delete_red k k'" "rb_rep m0 A s t k"
  shows "\<exists>s'. rb_delete_round (ptr t) (the (ctx_top k)) s =
      rb_delete_round (ptr t) (the (ctx_top k')) s' \<and> rb_rep m0 A s' t k'"
  using assms
proof (cases rule: delete_red.cases)
  case (1 p a w b q sr k0)
  have "rb_rep m0 A s (N t p Black (N (N a w Black b) q Red sr)) k0" using assms 1 by (simp add: rep_left)
  from delete_left1_red [OF this] obtain s' where s': "rb_delete_left1 p s = Some (w, s')"
    "rb_rep m0 A s' (N (N t p Red (N a w Black b)) q Black sr) k0" by blast
  then have r: "rb_rep m0 A s' (N t p Red (N a w Black b)) (FL q Black sr # k0)" "rb_rep m0 A s' t k'"
    using 1 by (simp_all add: rep_left)
  show ?thesis
    using s'(1) r(2) delete_left1_black [OF r(1)] 1
      delete_side [of m0 A s t] delete_side [of m0 A s' t] assms(2)
    by (intro exI [of _ s']) (auto simp: rb_delete_round_def)
next
  case (2 sl q a w b p k0)
  have "rb_rep m0 A s (N (N sl q Red (N a w Black b)) p Black t) k0" using assms 2 by (simp add: rep_right)
  from delete_right1_red [OF this] obtain s' where s': "rb_delete_right1 p s = Some (w, s')"
    "rb_rep m0 A s' (N sl q Black (N (N a w Black b) p Red t)) k0" by blast
  then have r: "rb_rep m0 A s' (N (N a w Black b) p Red t) (FR sl q Black # k0)" "rb_rep m0 A s' t k'"
    using 2 by (simp_all add: rep_right)
  show ?thesis
    using s'(1) r(2) delete_right1_black [OF r(1)] 2
      delete_side [of m0 A s t] delete_side [of m0 A s' t] assms(2)
    by (intro exI [of _ s']) (auto simp: rb_delete_round_def)
qed

lemma ctx_root_frame: "\<exists>y \<in> set (ctx_nodes (f # k)). ctx_root h (f # k) = Some y"
proof (induction k arbitrary: f h)
  case Nil
  show ?case by (cases f) auto
next
  case (Cons g k)
  then show ?case by (cases f) fastforce+
qed

lemma rep_at_root: "rb_rep m0 A s t k \<Longrightarrow> ptr t = rb_root s \<longleftrightarrow> k = []"
proof (cases k)
  case (Cons f k')
  assume rep: "rb_rep m0 A s t k"
  obtain y where "y \<in> set (ctx_nodes k)" "rb_root s = Some y"
    using rep ctx_root_frame [of f k' "ptr t"] Cons by (auto simp: rb_rep_def)
  then show ?thesis using rep_addr(1) [OF rep] ptr_nodes [of t y] Cons by auto
qed (simp add: rb_rep_def)

lemma delete_color_root:
  assumes "rb_rep m0 A s T []" "rbt_ok T"
  shows "\<exists>s'. rb_delete_color (rb_root s) par s = Some s' \<and> rb_rep m0 A s' T []"
  using assms rep_paint [OF assms(1)] rep_root [OF assms(1)]
  by (subst rb_delete_color.simps) (simp add: rbt_ok_def)

lemma delete_color_stop:
  assumes inv: "delete_inv t k" and rep: "rb_rep m0 A s t k" and stop: "k = [] \<or> col t = Red"
  shows "\<exists>s' T. rb_delete_color (ptr t) (ctx_top k) s = Some s' \<and> rb_rep m0 A s' T [] \<and> rbt_ok T \<and>
    rbt_inorder T = rbt_inorder (plug t k)"
proof -
  let ?s = "case ptr t of Some n \<Rightarrow> set_color n Black s | None \<Rightarrow> s"
  have "rb_delete_color (ptr t) (ctx_top k) s = Some ?s"
    using stop rep_at_root [OF rep] rep_black [OF rep] by (subst rb_delete_color.simps) auto
  moreover have "rb_rep m0 A ?s (plug (paint t) k) []" using rep_paint [OF rep] by (simp add: rep_plug)
  moreover have "rbt_ok (plug (paint t) k)"
  proof (cases "k = []")
    case True
    then show ?thesis using inv bal_paint [of t] by (auto simp: delete_inv_def rbt_ok_def)
  next
    case False
    then obtain a x b where t: "t = N a x Red b" using stop red_or_black [of t] by auto
    then show ?thesis using inv unfolding rbt_ok_plug by (auto simp: delete_inv_def)
  qed
  ultimately show ?thesis by (auto simp: inorder_plug)
qed

lemma delete_color_round:
  assumes rep: "rb_rep m0 A s t k" and "k \<noteq> []" "col t = Black"
  shows "rb_delete_color (ptr t) (ctx_top k) s =
    rb_delete_round (ptr t) (the (ctx_top k)) s \<bind> (\<lambda>(n, par, s). rb_delete_color n par s)"
  using assms rep_at_root [OF rep] rep_black [OF rep]
  by (cases k; subst rb_delete_color.simps) auto

lemma delete_color:
  assumes "delete_inv t k" "rb_rep m0 A s t k"
  shows "\<exists>s' T. rb_delete_color (ptr t) (ctx_top k) s = Some s' \<and> rb_rep m0 A s' T [] \<and> rbt_ok T \<and>
    rbt_inorder T = rbt_inorder (plug t k)"
  using assms
proof (induction "length k" arbitrary: t k s rule: less_induct)
  case less
  note inv = less.prems(1) and rep = less.prems(2)
  show ?case
  proof (cases "k = [] \<or> col t = Red")
    case True
    then show ?thesis using delete_color_stop [OF inv rep] by blast
  next
    case False
    then have k: "k \<noteq> []" "col t = Black" by auto
    let ?body = "\<lambda>k s. rb_delete_round (ptr t) (the (ctx_top k)) s"
    obtain k1 s1 where k1: "?body k s = ?body k1 s1" "rb_rep m0 A s1 t k1" "delete_inv t k1" "sib_black k1"
      "rbt_inorder (plug t k1) = rbt_inorder (plug t k)" "k1 = k \<or> ctx_col k1 = Red"
      using delete_black_or_red [OF inv k(1)] delete_red_inv [OF _ inv] rep_delete_red [OF _ rep] inv rep
      by metis
    from delete_round_or_last [OF k1(4), of t] show ?thesis
    proof (elim disjE exE)
      fix t' k' assume r: "delete_round t k1 t' k'"
      note inv' = delete_round_inv [OF r k1(3) k(2)]
      from rep_delete_round [OF r k1(2)] obtain s' where
        s': "?body k1 s1 = Some (ptr t', ctx_top k', s')" "rb_rep m0 A s' t' k'" by blast
      have "\<exists>s'' T. rb_delete_color (ptr t') (ctx_top k') s' = Some s'' \<and> rb_rep m0 A s'' T [] \<and>
          rbt_ok T \<and> rbt_inorder T = rbt_inorder (plug t' k')"
        using k1(6) inv' s'(2) less.hyps [of k' t' s'] delete_color_stop [of t' k' m0 A s'] by metis
      then show ?thesis using delete_color_round [OF rep k] k1 s' inv'(2) by auto
    next
      fix t' k' assume r: "delete_last t k1 t' k'"
      note inv' = delete_last_inv [OF r k1(3) k(2)]
      from rep_delete_last [OF r k1(2)] obtain s' par where
        s': "?body k1 s1 = Some (rb_root s', par, s')" "rb_rep m0 A s' (plug t' k') []"
        by (metis rep_plug append_Nil2)
      then show ?thesis
        using delete_color_round [OF rep k] k1 delete_color_root [OF s'(2) inv'(1)] inv'
        by (auto intro!: exI [of _ "plug t' k'"])
    qed
  qed
qed

subsection \<open>What the operations do to the sequence of nodes\<close>

text \<open>
  \<open>rb_holds s xs\<close>: the tree in \<open>s\<close> is a red-black tree with black root whose in-order
  sequence is \<open>xs\<close>.
\<close>

definition rb_holds :: "ogs_rbtree \<Rightarrow> nat list \<Rightarrow> bool" where
  "rb_holds s xs \<longleftrightarrow> (\<exists>T. rb_rep (rb_mem s) (set xs) s T [] \<and> rbt_ok T \<and> rbt_inorder T = xs)"

lemma rep_holds:
  assumes "rb_rep m0 A s T []" "rbt_ok T" shows "rb_holds s (rbt_inorder T)"
  using assms by (auto simp: rb_holds_def rb_rep_def)

lemma node_context: "x \<in> nodes T \<Longrightarrow> \<exists>l c r k. T = plug (N l x c r) k"
proof (induction T)
  case (N l y c r)
  consider "x = y" | "x \<in> nodes l" | "x \<in> nodes r" using N.prems by auto
  then show ?case
  proof cases
    case 1
    then show ?thesis by (metis plug.simps(1))
  next
    case 2
    then obtain l' c' r' k where "l = plug (N l' x c' r') k" using N.IH by blast
    then have "N l y c r = plug (N l' x c' r') (k @ [FL y c r])" by (simp add: plug_append)
    then show ?thesis by blast
  next
    case 3
    then obtain l' c' r' k where "r = plug (N l' x c' r') k" using N.IH by blast
    then have "N l y c r = plug (N l' x c' r') (k @ [FR l y c])" by (simp add: plug_append)
    then show ?thesis by blast
  qed
qed simp

lemma ctx_rename:
  "ctx_invc (ks @ FR l x c # k) = ctx_invc (ks @ FR l y c # k)"
  "ctx_col (ks @ FR l x c # k) = ctx_col (ks @ FR l y c # k)"
  "ctx_bal (ks @ FR l x c # k) n = ctx_bal (ks @ FR l y c # k) n"
proof -
  show col: "ctx_col (ks @ FR l x c # k) = ctx_col (ks @ FR l y c # k)" for ks
    by (cases ks) (auto simp: ctx_col_def)
  show "ctx_invc (ks @ FR l x c # k) = ctx_invc (ks @ FR l y c # k)"
    by (induction ks rule: ctx_invc.induct) (auto simp: col [symmetric])
  show "ctx_bal (ks @ FR l x c # k) n = ctx_bal (ks @ FR l y c # k) n"
    by (induction ks n rule: ctx_bal.induct) auto
qed

text \<open>Taking a red node out leaves a red-black tree, taking a black one out the loop invariant.\<close>

lemma unlink_leaf:
  assumes "rbt_ok (plug (N a x d b) k)" "a = E \<and> z = b \<or> b = E \<and> z = a"
  shows "d = Red \<Longrightarrow> rbt_ok (plug z k)" "d = Black \<Longrightarrow> delete_inv z k"
  using assms unfolding rbt_ok_plug delete_inv_def by (auto intro: paint_simps)

lemma unlinks_ok:
  assumes "unlinks l x c r k z d k'" "rbt_ok (plug (N l x c r) k)"
  shows "d = Red \<Longrightarrow> rbt_ok (plug z k')" "d = Black \<Longrightarrow> delete_inv z k'"
  using assms
proof (atomize (full), cases rule: unlinks.cases)
  case (unlinks_two ks y)
  have "plug (N l x c r) k = plug (N E y d z) (ks @ FR l x c # k)"
    using unlinks_two by (simp add: plug_append)
  then have "rbt_ok (plug (N E y d z) (ks @ FR l x c # k))" using assms(2) by simp
  then have "rbt_ok (plug (N E y d z) k')"
    unfolding rbt_ok_plug unlinks_two 
    using ctx_rename [where x = x and y = y and ks = ks and l = l and c = c and k = k] by auto
  then show "(d = Red \<longrightarrow> rbt_ok (plug z k')) \<and> (d = Black \<longrightarrow> delete_inv z k')"
    using unlink_leaf [of E y d z k' z] by auto
qed (use assms unlink_leaf in auto)

lemma rbtree_delete_rep:
  assumes rep: "rb_rep m0 A s T []" and ok: "rbt_ok T" and x: "x \<in> nodes T"
  shows "\<exists>s' T'. ogs_rbtree_delete x s = Some s' \<and> rb_rep m0 A s' T' [] \<and> rbt_ok T' \<and>
    rbt_inorder T' = remove1 x (rbt_inorder T)"
proof -
  obtain l c r k where T: "T = plug (N l x c r) k" using node_context [OF x] by blast
  then have rep': "rb_rep m0 A s (N l x c r) k" using rep by (simp add: rep_plug)
  from rep_unlink [OF this] obtain z d k' s1 where
    u: "rb_unlink x s = Some (ptr z, ctx_top k', d, s1)" "rb_rep m0 A s1 z k'" "unlinks l x c r k z d k'"
    by blast
  have "x \<notin> set (before k @ rbt_inorder l)"
    using rep_addr(3) [OF rep] unfolding T by (simp add: inorder_plug)
  then have seq: "rbt_inorder (plug z k') = remove1 x (rbt_inorder T)"
    using unlinks_inorder [OF u(3)] unfolding T by (simp add: inorder_plug remove1_append)
  show ?thesis
  proof (cases d)
    case OGS_RBTREE_RED
    then show ?thesis
      using u unlinks_ok(1) [OF u(3)] ok T seq
      by (auto simp: ogs_rbtree_delete_def rep_plug intro!: exI [of _ "plug z k'"])
  next
    case OGS_RBTREE_BLACK
    then show ?thesis
      using u(1) delete_color [OF unlinks_ok(2) [OF u(3)] u(2)] ok T seq
      by (auto simp: ogs_rbtree_delete_def)
  qed
qed

lemma rbtree_insert_rep:
  assumes rep: "rb_rep m0 A s T []" and ok: "rbt_ok T" and T: "T = plug E k"
    and x: "x \<notin> nodes T" "x \<in> A"
  shows "\<exists>s' T'. ogs_rbtree_insert_color x (ogs_rbtree_link_node x (ctx_top k) (link_of k) s) = Some s' \<and>
    rb_rep m0 A s' T' [] \<and> rbt_ok T' \<and> rbt_inorder T' = before k @ x # after k"
proof -
  have "rb_rep m0 A s E k" "x \<notin> set (ctx_nodes k)" using rep x by (auto simp: T rep_plug nodes_plug)
  note link = rep_link [OF this x(2)]
  have "insert_inv (N E x Red E) k" using ok unfolding T rbt_ok_plug insert_inv_def root_red_def by auto
  from insert_color [OF this link] show ?thesis by (auto simp: inorder_plug)
qed

end
