(* ===== verification/Ogs_Rbtree_Props.thy ===== *)
theory Ogs_Rbtree_Props
  imports Ogs_Rbtree_Inv
begin

text \<open>
  Iteration over the red-black tree, and the tree as a store of a sequence of nodes. The
  locale \<open>rb_iterator\<close> is what a loop over the tree relies on; it is interpreted for both
  directions. The section on deletion states the contract that the timer manager uses.
\<close>

definition hd_opt :: "'a list \<Rightarrow> 'a option" where
  "hd_opt xs = (case xs of [] \<Rightarrow> None | x # _ \<Rightarrow> Some x)"

lemma hd_opt_simps [simp]: "hd_opt [] = None" "hd_opt (x # xs) = Some x"
  "xs \<noteq> [] \<Longrightarrow> hd_opt (xs @ ys) = hd_opt xs" "xs \<noteq> [] \<Longrightarrow> hd_opt xs = Some (hd xs)"
  by (auto simp: hd_opt_def split: list.splits)

fun fold_until :: "(nat \<Rightarrow> 'a \<Rightarrow> 'a + 'a) \<Rightarrow> nat list \<Rightarrow> 'a \<Rightarrow> 'a" where
  "fold_until body [] a = a"
| "fold_until body (x # xs) a = (case body x a of Inl a \<Rightarrow> a | Inr a \<Rightarrow> fold_until body xs a)"

lemma inorder_Nil: "rbt_inorder t = [] \<longleftrightarrow> t = E"
  by (cases t) auto

subsection \<open>Successor and predecessor\<close>

lemma climb_right:
  "rb_rep m0 A s t k \<Longrightarrow> ptr t = Some x \<Longrightarrow> rb_climb_right s x = Some (hd_opt (after k))"
proof (induction k arbitrary: t x rule: after.induct)
  case 1
  then show ?case by (cases t; subst rb_climb_right.simps) (auto simp: rb_rep_def)
next
  case (2 p c r k)
  then have rep: "rb_rep m0 A s (N t p c r) k" by (simp add: rep_left)
  then show ?case
    using 2 rep_node [OF rep] rep_frame(3) [OF 2(2,3)] rep_ptr_neq(2) [OF rep, of x]
    by (subst rb_climb_right.simps) auto
next
  case (3 l p c k)
  then have rep: "rb_rep m0 A s (N l p c t) k" by (simp add: rep_right)
  then show ?case
    using 3 rep_node [OF rep] rep_frame(3) [OF 3(2,3)] by (subst rb_climb_right.simps) auto
qed

lemma climb_left:
  "rb_rep m0 A s t k \<Longrightarrow> ptr t = Some x \<Longrightarrow> rb_climb_left s x = Some (hd_opt (rev (before k)))"
proof (induction k arbitrary: t x rule: before.induct)
  case 1
  then show ?case by (cases t; subst rb_climb_left.simps) (auto simp: rb_rep_def)
next
  case (2 p c r k)
  then have rep: "rb_rep m0 A s (N t p c r) k" by (simp add: rep_left)
  then show ?case
    using 2 rep_node [OF rep] rep_frame(3) [OF 2(2,3)] by (subst rb_climb_left.simps) auto
next
  case (3 l p c k)
  then have rep: "rb_rep m0 A s (N l p c t) k" by (simp add: rep_right)
  then show ?case
    using 3 rep_node [OF rep] rep_frame(3) [OF 3(2,3)] rep_ptr_neq(2) [OF rep, of x]
    by (subst rb_climb_left.simps) auto
qed

lemma rep_not_empty_node: "rb_rep m0 A s (N l x c r) k \<Longrightarrow> \<not> rb_empty_node s x"
  by (cases k rule: ctx_nodes.cases) (auto simp: rb_empty_node_def rb_rep_def)

lemma rep_next:
  assumes rep: "rb_rep m0 A s (N l x c r) k"
  shows "ogs_rbtree_next s x = Some (hd_opt (rbt_inorder r @ after k))"
proof (cases r)
  case E
  then show ?thesis
    using rep_node [OF rep] rep_not_empty_node [OF rep] climb_right [OF rep]
    by (simp add: ogs_rbtree_next_def)
next
  case (N a y d b)
  then have "ogs_rbtree_min s y = Some (hd (rbt_inorder r))"
    using rep min_tree_at [of s "Some x" a y d b] by (simp add: rb_rep_def)
  then show ?thesis
    using N rep_node [OF rep] rep_not_empty_node [OF rep]
    by (simp add: ogs_rbtree_next_def hd_append)
qed

lemma rep_prev:
  assumes rep: "rb_rep m0 A s (N l x c r) k"
  shows "ogs_rbtree_prev s x = Some (hd_opt (rev (before k @ rbt_inorder l)))"
proof (cases l)
  case E
  then show ?thesis
    using rep_node [OF rep] rep_not_empty_node [OF rep] climb_left [OF rep]
    by (simp add: ogs_rbtree_prev_def)
next
  case (N a y d b)
  then have "ogs_rbtree_max s y = Some (List.last (rbt_inorder l))"
    using rep max_tree_at [of s "Some x" a y d b] by (simp add: rb_rep_def)
  then show ?thesis
    using N rep_node [OF rep] rep_not_empty_node [OF rep]
    by (simp add: ogs_rbtree_prev_def hd_rev)
qed

lemma holds_node:
  assumes "rb_holds s (us @ x # vs)"
  obtains l c r k where "rb_rep (rb_mem s) (set (us @ x # vs)) s (N l x c r) k"
    "us = before k @ rbt_inorder l" "vs = rbt_inorder r @ after k"
proof -
  obtain T where T: "rb_rep (rb_mem s) (set (us @ x # vs)) s T []" "rbt_inorder T = us @ x # vs"
    using assms by (auto simp: rb_holds_def)
  obtain l c r k where k: "T = plug (N l x c r) k" using node_context [of x T] T by auto
  have "us @ x # vs = (before k @ rbt_inorder l) @ x # (rbt_inorder r @ after k)"
    using T(2) unfolding k by (simp add: inorder_plug)
  moreover have "x \<notin> set us" "x \<notin> set vs" using rep_addr(3) [OF T(1)] unfolding T(2) by auto
  ultimately have "us = before k @ rbt_inorder l \<and> vs = rbt_inorder r @ after k"
    by (rule append_Cons_eq_iff [THEN iffD1, rotated 2])
  then show ?thesis using that T(1) k by (auto simp: rep_plug)
qed

lemma rbtree_next: "rb_holds s (us @ x # vs) \<Longrightarrow> ogs_rbtree_next s x = Some (hd_opt vs)"
  by (erule holds_node) (simp add: rep_next)

lemma rbtree_prev: "rb_holds s (us @ x # vs) \<Longrightarrow> ogs_rbtree_prev s x = Some (hd_opt (rev us))"
  by (erule holds_node) (simp add: rep_prev)

lemma rbtree_first: "rb_holds s xs \<Longrightarrow> ogs_rbtree_first s = Some (hd_opt xs)"
proof -
  assume "rb_holds s xs"
  then obtain T where T: "rb_rep (rb_mem s) (set xs) s T []" "rbt_inorder T = xs"
    by (auto simp: rb_holds_def)
  then show ?thesis
    using min_tree_at by (cases T) (auto simp: ogs_rbtree_first_def rb_rep_def)
qed

lemma rbtree_last: "rb_holds s xs \<Longrightarrow> ogs_rbtree_last s = Some (hd_opt (rev xs))"
proof -
  assume "rb_holds s xs"
  then obtain T where T: "rb_rep (rb_mem s) (set xs) s T []" "rbt_inorder T = xs"
    by (auto simp: rb_holds_def)
  then show ?thesis
    using max_tree_at by (cases T) (auto simp: ogs_rbtree_last_def rb_rep_def hd_rev)
qed

subsection \<open>Loops over the tree\<close>

locale rb_iterator =
  fixes holds :: "ogs_rbtree \<Rightarrow> nat list \<Rightarrow> bool"
    and step :: "ogs_rbtree \<Rightarrow> nat \<Rightarrow> nat option option"
    and start :: "ogs_rbtree \<Rightarrow> nat option option"
  assumes step_hd: "holds s (us @ x # vs) \<Longrightarrow> step s x = Some (hd_opt vs)"
    and start_hd: "holds s xs \<Longrightarrow> start s = Some (hd_opt xs)"
begin

lemma for_each_from:
  "holds s (us @ vs) \<Longrightarrow> rb_for_each_from step s body (hd_opt vs) a = Some (fold_until body vs a)"
proof (induction vs arbitrary: us a)
  case Nil
  show ?case by (subst rb_for_each_from.simps) simp
next
  case (Cons x vs)
  then show ?case
    using step_hd [OF Cons.prems] Cons.IH [of "us @ [x]"]
    by (subst rb_for_each_from.simps) (auto split: sum.splits)
qed

lemma for_each:
  "holds s xs \<Longrightarrow>
   do { node \<leftarrow> start s; rb_for_each_from step s body node a } = Some (fold_until body xs a)"
  using for_each_from [of s "[]" xs] start_hd [of s xs] by simp

end

interpretation rb_forward: rb_iterator rb_holds ogs_rbtree_next ogs_rbtree_first
  by unfold_locales (rule rbtree_next rbtree_first; assumption)+

interpretation rb_backward: rb_iterator "\<lambda>s xs. rb_holds s (rev xs)" ogs_rbtree_prev ogs_rbtree_last
proof
  show "ogs_rbtree_prev s x = Some (hd_opt vs)" if "rb_holds s (rev (us @ x # vs))" for s us x vs
    using rbtree_prev [of s "rev vs" x "rev us"] that by simp
  show "ogs_rbtree_last s = Some (hd_opt xs)" if "rb_holds s (rev xs)" for s xs
    using rbtree_last [OF that] by simp
qed

lemma fold_until_count: "fold_until (\<lambda>_ i. Inr (i + 1)) xs n = n + length xs"
  by (induction xs arbitrary: n) auto

text \<open>C29. Iteration ends and is exact: over a tree that holds the sequence \<open>xs\<close>, the loop
  \<open>ogs_rbtree_for_each\<close> runs its body on the nodes of \<open>xs\<close> in order (up to the first break),
  \<open>ogs_rbtree_reverse_for_each\<close> on those of \<open>rev xs\<close>, and \<open>ogs_rbtree_count\<close> is the number of nodes.
\<close>

theorem rbtree_iteration:
  assumes "rb_holds s xs"
  shows "ogs_rbtree_for_each s body a = Some (fold_until body xs a) \<and>
    ogs_rbtree_reverse_for_each s body a = Some (fold_until body (rev xs) a) \<and>
    ogs_rbtree_count s = Some (length xs)"
  using rb_forward.for_each [OF assms, of body a] rb_backward.for_each [of s "rev xs" body a] assms
    rb_forward.for_each [OF assms, of "\<lambda>_ i. Inr (i + 1)" "0 :: nat"] fold_until_count [of xs 0]
  by (simp add: ogs_rbtree_for_each_def ogs_rbtree_reverse_for_each_def ogs_rbtree_count_def)

text \<open>A tree of three nodes, for the witnesses.\<close>

definition rb_sample :: ogs_rbtree where
  "rb_sample = \<lparr>rb_mem = (\<lambda>_. \<lparr>rb_parent = None, rb_left = None, rb_right = None, rb_color = Black\<rparr>)
     (2 := \<lparr>rb_parent = None, rb_left = Some 1, rb_right = Some 3, rb_color = Black\<rparr>,
      1 := \<lparr>rb_parent = Some 2, rb_left = None, rb_right = None, rb_color = Black\<rparr>,
      3 := \<lparr>rb_parent = Some 2, rb_left = None, rb_right = None, rb_color = Black\<rparr>),
     rb_root = Some 2\<rparr>"

lemma rb_sample_holds: "rb_holds rb_sample [1, 2, 3]"
  unfolding rb_holds_def
  by (rule exI [of _ "N (N E 1 Black E) 2 Black (N E 3 Black E)"])
    (auto simp: rb_rep_def rb_sample_def rbt_ok_def)

lemma rbtree_iteration_witness:
  "ogs_rbtree_for_each rb_sample (\<lambda>n ns. Inr (ns @ [n])) [] = Some [1, 2, 3] \<and>
   ogs_rbtree_count rb_sample = Some 3"
  using rbtree_iteration [OF rb_sample_holds, of "\<lambda>n ns. Inr (ns @ [n])" "[]"] by simp

subsection \<open>Deletion\<close>

lemma rb_delete_holds:
  assumes "rb_holds s xs" "x \<in> set xs"
  shows "\<exists>s'. ogs_rbtree_delete x s = Some s' \<and> rb_holds s' (remove1 x xs) \<and>
    (\<forall>y. y \<notin> set xs \<longrightarrow> rb_mem s' y = rb_mem s y)"
proof -
  obtain T where T: "rb_rep (rb_mem s) (set xs) s T []" "rbt_ok T" "rbt_inorder T = xs"
    using assms by (auto simp: rb_holds_def)
  then obtain s' T' where s': "ogs_rbtree_delete x s = Some s'" "rb_rep (rb_mem s) (set xs) s' T' []"
    "rbt_ok T'" "rbt_inorder T' = remove1 x xs"
    using rbtree_delete_rep [OF T(1,2), of x] assms(2) by blast
  then show ?thesis using rep_holds [OF s'(2,3)] rep_addr(9) [OF s'(2)] by auto
qed

lemma rb_holds_distinct: "rb_holds s xs \<Longrightarrow> distinct xs"
  by (auto simp: rb_holds_def rb_rep_def)

lemma rb_holds_set: "rb_holds s xs \<Longrightarrow> t \<notin> set xs \<Longrightarrow> rb_holds (rb_set t f s) xs"
  unfolding rb_holds_def by (elim exE, rule exI) (auto simp: rb_rep_def)

lemma rb_holds_Nil: "rb_holds \<lparr>rb_mem = m, rb_root = None\<rparr> []"
  unfolding rb_holds_def by (rule exI [of _ E]) (auto simp: rb_rep_def rbt_ok_def)

text \<open>C28. Deleting a node: in a well-formed red-black tree \<open>ogs_rbtree_delete\<close> runs to its end without
  a NULL access, the result is again a well-formed red-black tree that holds the sequence
  without the node, and the memory of nodes outside the tree is untouched.
\<close>

theorem rbtree_delete_refines:
  assumes "rb_holds s xs" "x \<in> set xs"
  shows "\<exists>s'. ogs_rbtree_delete x s = Some s' \<and> rb_holds s' (remove1 x xs) \<and>
    (\<forall>y. y \<notin> set xs \<longrightarrow> rb_mem s' y = rb_mem s y)"
  using assms by (rule rb_delete_holds)

lemma rbtree_delete_refines_witness:
  "\<exists>s'. ogs_rbtree_delete 2 rb_sample = Some s' \<and> rb_holds s' [1, 3]"
  using rbtree_delete_refines [OF rb_sample_holds, of 2] by auto

end
