(* ===== verification/Ogs_Timer_Tree.thy ===== *)
theory Ogs_Timer_Tree
  imports Ogs_Timer Ogs_Rbtree_Props
begin

text \<open>
  The timer manager of \<open>lib/core/ogs-timer.c\<close> on the red-black tree it really uses. The
  functions \<open>rt_...\<close> are those of \<open>ogs-timer.c\<close> with the calls into \<open>ogs-rbtree.c\<close>
  (the descent of \<open>add_timer_node\<close>, \<open>ogs_rbtree_delete\<close>, \<open>ogs_rbtree_first\<close>,
  \<open>ogs_rbtree_for_each\<close>); \<open>timer_rel\<close> relates them to the manager of \<open>Ogs_Timer\<close>, whose tree
  is its in-order sequence. Every operation simulates its counterpart, so what is proved of
  the sequence holds of the pointer structure, and no operation fails in it.
\<close>

record 'd rt_mgr =
  rt_pool :: ogs_pool
  rt_node :: "nat \<Rightarrow> 'd timer"
  rt_tree :: ogs_rbtree

subsection \<open>The operations\<close>

text \<open>\<open>add_timer_node\<close>: the pointer \<open>new\<close> is a link, \<open>*new\<close> is \<open>rb_load\<close>.\<close>

partial_function (option) rt_descend ::
    "(nat \<Rightarrow> int) \<Rightarrow> nat \<Rightarrow> ogs_rbtree \<Rightarrow> rb_link \<Rightarrow> nat option \<Rightarrow> (rb_link \<times> nat option) option" where
  "rt_descend to t s new parent =
     (case rb_load new s of
        None \<Rightarrow> Some (new, parent)
      | Some u \<Rightarrow>
          if to t < to u then rt_descend to t s (Link_left u) (Some u)
          else rt_descend to t s (Link_right u) (Some u))"

declare rt_descend.simps [code]

definition rt_add_timer_node :: "(nat \<Rightarrow> int) \<Rightarrow> nat \<Rightarrow> ogs_rbtree \<Rightarrow> ogs_rbtree option" where
  "rt_add_timer_node to t s =
     do { (new, parent) \<leftarrow> rt_descend to t s Link_root None;
          ogs_rbtree_insert_color t (ogs_rbtree_link_node t parent new s) }"

definition rt_create :: "'d \<Rightarrow> (nat \<Rightarrow> ogs_rbnode) \<Rightarrow> nat \<Rightarrow> 'd rt_mgr" where
  "rt_create d mem capacity = \<lparr>rt_pool = ogs_pool_init capacity,
     rt_node = (\<lambda>_. \<lparr>tm_data = d, tm_running = False, tm_timeout = 0, tm_lnext = None\<rparr>),
     rt_tree = \<lparr>rb_mem = mem, rb_root = None\<rparr>\<rparr>"

text \<open>The \<open>memset\<close> of \<open>ogs_timer_add\<close> also clears the embedded tree node.\<close>

definition rt_add :: "'d rt_mgr \<Rightarrow> 'd \<Rightarrow> (nat option \<times> 'd rt_mgr) option" where
  "rt_add m d =
     (case ogs_pool_alloc (rt_pool m) of
        None \<Rightarrow> None
      | Some (None, p) \<Rightarrow> Some (None, m\<lparr>rt_pool := p\<rparr>)
      | Some (Some t, p) \<Rightarrow>
          Some (Some t, m\<lparr>rt_pool := p,
            rt_node := (rt_node m)(t := \<lparr>tm_data = d, tm_running = False, tm_timeout = 0, tm_lnext = None\<rparr>),
            rt_tree := rb_set t (\<lambda>_. \<lparr>rb_parent = None, rb_left = None, rb_right = None,
                                       rb_color = OGS_RBTREE_BLACK\<rparr>) (rt_tree m)\<rparr>))"

definition rt_start :: "'d rt_mgr \<Rightarrow> nat \<Rightarrow> int \<Rightarrow> int \<Rightarrow> 'd rt_mgr option" where
  "rt_start m t duration now =
     (if duration = 0 then None
      else
        do { tree \<leftarrow> (if tm_running (rt_node m t) then ogs_rbtree_delete t (rt_tree m) else Some (rt_tree m));
             let node = (rt_node m)(t := (rt_node m t)\<lparr>tm_running := True, tm_timeout := now + duration\<rparr>);
             tree \<leftarrow> rt_add_timer_node (\<lambda>u. tm_timeout (node u)) t tree;
             Some (m\<lparr>rt_node := node, rt_tree := tree\<rparr>) })"

definition rt_stop :: "'d rt_mgr \<Rightarrow> nat \<Rightarrow> 'd rt_mgr option" where
  "rt_stop m t =
     (if \<not> tm_running (rt_node m t) then Some m
      else
        do { let node = (rt_node m)(t := (rt_node m t)\<lparr>tm_running := False\<rparr>);
             tree \<leftarrow> ogs_rbtree_delete t (rt_tree m);
             Some (m\<lparr>rt_node := node, rt_tree := tree\<rparr>) })"

definition rt_delete :: "'d rt_mgr \<Rightarrow> nat \<Rightarrow> 'd rt_mgr option" where
  "rt_delete m t =
     do { m \<leftarrow> rt_stop m t;
          p \<leftarrow> ogs_pool_free (rt_pool m) t;
          Some (m\<lparr>rt_pool := p\<rparr>) }"

definition rt_mgr_next :: "'d rt_mgr \<Rightarrow> int \<Rightarrow> int option" where
  "rt_mgr_next m now =
     do { rbnode \<leftarrow> ogs_rbtree_first (rt_tree m);
          case rbnode of
            Some t \<Rightarrow> Some (if tm_timeout (rt_node m t) > now then tm_timeout (rt_node m t) - now
                            else OGS_NO_WAIT_TIME)
          | None \<Rightarrow> Some OGS_INFINITE_TIME }"

text \<open>The first loop of \<open>ogs_timer_mgr_expire\<close>: it breaks at the first timer that is not due.\<close>

definition rt_due :: "'d rt_mgr \<Rightarrow> int \<Rightarrow> nat list option" where
  "rt_due m now =
     ogs_rbtree_for_each (rt_tree m)
       (\<lambda>t due. if tm_timeout (rt_node m t) > now then Inl due else Inr (due @ [t])) []"

fun rt_link :: "'d rt_mgr \<Rightarrow> nat list \<Rightarrow> 'd rt_mgr" where
  "rt_link m (t # u # us) =
     rt_link (m\<lparr>rt_node := (rt_node m)(t := (rt_node m t)\<lparr>tm_lnext := Some u\<rparr>)\<rparr>) (u # us)"
| "rt_link m [t] = m\<lparr>rt_node := (rt_node m)(t := (rt_node m t)\<lparr>tm_lnext := None\<rparr>)\<rparr>"
| "rt_link m [] = m"

fun rt_fire :: "('s \<Rightarrow> 'd rt_mgr) \<Rightarrow> ('d rt_mgr \<Rightarrow> 's \<Rightarrow> 's) \<Rightarrow> ('d \<Rightarrow> 's \<Rightarrow> 's option)
    \<Rightarrow> nat list \<Rightarrow> 's \<Rightarrow> 's option" where
  "rt_fire get put cb [] s = Some s"
| "rt_fire get put cb (t # ts) s =
     do { m \<leftarrow> rt_stop (get s) t;
          let s = put m s;
          s \<leftarrow> cb (tm_data (rt_node (get s) t)) s;
          if tm_lnext (rt_node (get s) t) = None then Some s else rt_fire get put cb ts s }"

definition rt_mgr_expire :: "('s \<Rightarrow> 'd rt_mgr) \<Rightarrow> ('d rt_mgr \<Rightarrow> 's \<Rightarrow> 's)
    \<Rightarrow> ('d \<Rightarrow> 's \<Rightarrow> 's option) \<Rightarrow> int \<Rightarrow> 's \<Rightarrow> 's option" where
  "rt_mgr_expire get put cb now s =
     do { due \<leftarrow> rt_due (get s) now;
          rt_fire get put cb due (put (rt_link (get s) due) s) }"

subsection \<open>Insertion into the tree\<close>

lemma add_timer_node_before:
  "to t < to u \<Longrightarrow> add_timer_node to (xs @ u # ys) t = add_timer_node to xs t @ u # ys"
  by (induction xs) auto

lemma add_timer_node_after:
  "\<forall>v \<in> set xs. to v \<le> to t \<Longrightarrow> add_timer_node to (xs @ ys) t = xs @ add_timer_node to ys t"
  by (induction xs) auto

lemma load_link: "rb_rep m0 A s t k \<Longrightarrow> rb_load (link_of k) s = ptr t"
  by (cases k rule: link_of.cases) (auto simp: rb_rep_def)

lemma rt_descend_rep:
  assumes "rb_rep m0 A s t k" "sorted (map to (rbt_inorder t))"
  shows "\<exists>k'. rt_descend to x s (link_of k) (ctx_top k) = Some (link_of k', ctx_top k') \<and>
    plug E k' = plug t k \<and> before k' @ x # after k' = before k @ add_timer_node to (rbt_inorder t) x @ after k"
  using assms
proof (induction t arbitrary: k)
  case E
  then show ?case using load_link [OF E(1)] by (subst rt_descend.simps) auto
next
  case (N l u c r)
  note load = load_link [OF N.prems(1)]
  have s: "sorted (map to (rbt_inorder l))" "sorted (map to (rbt_inorder r))"
    "\<forall>v \<in> set (rbt_inorder l @ [u]). to v \<le> to u"
    using N.prems(2) by (auto simp: sorted_append)
  show ?case
  proof (cases "to x < to u")
    case True
    then show ?thesis
      using load N.IH(1) [of "FL u c r # k"] N.prems(1) s
      by (subst rt_descend.simps) (auto simp: rep_left add_timer_node_before)
  next
    case False
    then have "add_timer_node to (rbt_inorder (N l u c r)) x
        = rbt_inorder l @ u # add_timer_node to (rbt_inorder r) x"
      using s add_timer_node_after [of "rbt_inorder l @ [u]" to x "rbt_inorder r"] by fastforce
    then show ?thesis
      using False load N.IH(2) [of "FR l u c # k"] N.prems(1) s
      by (subst rt_descend.simps) (auto simp: rep_right)
  qed
qed

lemma rt_add_timer_node_rep:
  assumes rep: "rb_rep m0 A s T []" and ok: "rbt_ok T" and T: "sorted (map to (rbt_inorder T))"
    and x: "x \<notin> nodes T" "x \<in> A"
  shows "\<exists>s' T'. rt_add_timer_node to x s = Some s' \<and> rb_rep m0 A s' T' [] \<and> rbt_ok T' \<and>
    rbt_inorder T' = add_timer_node to (rbt_inorder T) x"
proof -
  obtain k where k: "rt_descend to x s Link_root None = Some (link_of k, ctx_top k)" "T = plug E k"
    "before k @ x # after k = add_timer_node to (rbt_inorder T) x"
    using rt_descend_rep [OF rep T, of x] by auto
  from rbtree_insert_rep [OF rep ok k(2) x] show ?thesis
    using k by (auto simp: rt_add_timer_node_def)
qed

lemma rt_insert_holds:
  assumes "rb_holds s xs" "sorted (map to xs)" "t \<notin> set xs"
  shows "\<exists>s'. rt_add_timer_node to t s = Some s' \<and> rb_holds s' (add_timer_node to xs t) \<and>
    (\<forall>y. y \<notin> insert t (set xs) \<longrightarrow> rb_mem s' y = rb_mem s y)"
proof -
  obtain T where T: "rb_rep (rb_mem s) (set xs) s T []" "rbt_ok T" "rbt_inorder T = xs"
    using assms by (auto simp: rb_holds_def)
  then have "rb_rep (rb_mem s) (insert t (set xs)) s T []" by (auto simp: rb_rep_def)
  from rt_add_timer_node_rep [OF this T(2), of to t] obtain s' T' where
    s': "rt_add_timer_node to t s = Some s'" "rb_rep (rb_mem s) (insert t (set xs)) s' T' []"
    "rbt_ok T'" "rbt_inorder T' = add_timer_node to xs t"
    using T assms by auto
  then show ?thesis using rep_holds [OF s'(2,3)] rep_addr(9) [OF s'(2)] by auto
qed

text \<open>C27. Inserting a timer: the descent of \<open>add_timer_node\<close> with \<open>ogs_rbtree_link_node\<close> and
  \<open>ogs_rbtree_insert_color\<close> runs to its end without a NULL access or a failed assertion. On a
  well-formed red-black tree sorted by timeout it gives a well-formed red-black tree whose
  sequence has the timer right before the first one that is due later, and it touches no
  memory but that of the tree's nodes and of the new one.
\<close>

theorem rt_insert_refines:
  assumes "rb_holds s xs" "sorted (map to xs)" "t \<notin> set xs"
  shows "\<exists>s'. rt_add_timer_node to t s = Some s' \<and> rb_holds s' (add_timer_node to xs t) \<and>
    (\<forall>y. y \<notin> insert t (set xs) \<longrightarrow> rb_mem s' y = rb_mem s y)"
  using assms by (rule rt_insert_holds)

lemma rt_insert_refines_witness:
  "\<exists>s'. rt_add_timer_node (\<lambda>u. if u = 7 then 2 else int u) 7 rb_sample = Some s' \<and>
     rb_holds s' [1, 2, 7, 3]"
  using rt_insert_refines [OF rb_sample_holds, of "\<lambda>u. if u = 7 then 2 else int u" 7] by auto

subsection \<open>The store of running timers\<close>

text \<open>What the manager relies on: a sequence sorted by timeout, with insertion and removal.\<close>

locale timer_store =
  fixes holds :: "'s \<Rightarrow> nat list \<Rightarrow> bool"
    and ins :: "(nat \<Rightarrow> int) \<Rightarrow> nat \<Rightarrow> 's \<Rightarrow> 's option"
    and del :: "nat \<Rightarrow> 's \<Rightarrow> 's option"
  assumes ins_law: "holds s xs \<Longrightarrow> sorted (map to xs) \<Longrightarrow> t \<notin> set xs \<Longrightarrow>
      \<exists>s'. ins to t s = Some s' \<and> holds s' (add_timer_node to xs t)"
    and del_law: "holds s xs \<Longrightarrow> t \<in> set xs \<Longrightarrow> \<exists>s'. del t s = Some s' \<and> holds s' (remove1 t xs)"
    and holds_distinct: "holds s xs \<Longrightarrow> distinct xs"
begin

text \<open>Arming a timer anew: it is taken out first where it is in, and its key may change.\<close>

lemma rearm:
  assumes h: "holds s xs" and r: "running \<longleftrightarrow> t \<in> set xs"
    and to: "sorted (map to xs)" "\<And>u. u \<noteq> t \<Longrightarrow> to' u = to u"
  shows "\<exists>s'. do { s \<leftarrow> (if running then del t s else Some s); ins to' t s } = Some s' \<and>
    holds s' (add_timer_node to' (if running then remove1 t xs else xs) t)"
proof -
  define ys where "ys = (if running then remove1 t xs else xs)"
  have ys: "t \<notin> set ys" "sorted (map to ys)"
    using r to holds_distinct [OF h] by (auto simp: ys_def sorted_map_remove1)
  have "map to' ys = map to ys" using ys(1) to(2) by (metis map_eq_conv)
  then have s: "sorted (map to' ys)" using ys(2) by (simp only:)
  obtain s1 where "(if running then del t s else Some s) = Some s1" "holds s1 ys"
    using del_law [OF h, of t] h r by (auto simp: ys_def)
  then show ?thesis using ins_law [OF _ s ys(1), of s1] unfolding ys_def by auto
qed

end

interpretation rbts: timer_store rb_holds rt_add_timer_node ogs_rbtree_delete
  by unfold_locales (use rt_insert_holds rb_delete_holds rb_holds_distinct in blast)+

subsection \<open>The manager simulates its abstraction\<close>

definition timer_rel :: "'d rt_mgr \<Rightarrow> 'd timer_mgr \<Rightarrow> bool" where
  "timer_rel c m \<longleftrightarrow> rt_pool c = tmr_pool m \<and> rt_node c = tmr_node m \<and>
     rb_holds (rt_tree c) (tmr_tree m) \<and> timer_inv m"

lemma create_sim: "timer_rel (rt_create d mem n) (ogs_timer_mgr_create d n)"
  using timer_inv_create [of d n]
  by (auto simp: timer_rel_def rt_create_def ogs_timer_mgr_create_def rb_holds_Nil)

lemma stop_sim:
  assumes "timer_rel c m"
  shows "\<exists>c'. rt_stop c t = Some c' \<and> timer_rel c' (ogs_timer_stop m t)"
proof (cases "tm_running (tmr_node m t)")
  case True
  then have "t \<in> set (tmr_tree m)" using assms by (auto simp: timer_rel_def timer_inv_def)
  then show ?thesis
    using True assms rbts.del_law [of "rt_tree c" "tmr_tree m" t] timer_stop_inv(1) [of m t]
    by (auto simp: timer_rel_def rt_stop_def ogs_timer_stop_def)
next
  case False
  then show ?thesis using assms by (auto simp: timer_rel_def rt_stop_def ogs_timer_stop_def)
qed

lemma start_sim:
  assumes rel: "timer_rel c m" and t: "t \<in> timer_live m"
  shows "rel_option timer_rel (rt_start c t duration now) (ogs_timer_start m t duration now)"
proof (cases "duration = 0")
  case False
  have inv: "timer_inv m" using rel by (simp add: timer_rel_def)
  define node where "node = (tmr_node m)(t := (tmr_node m t)\<lparr>tm_running := True, tm_timeout := now + duration\<rparr>)"
  have "\<exists>s'. do { s \<leftarrow> (if tm_running (tmr_node m t) then ogs_rbtree_delete t (rt_tree c) else Some (rt_tree c));
           rt_add_timer_node (\<lambda>u. tm_timeout (node u)) t s } = Some s' \<and>
      rb_holds s' (add_timer_node (\<lambda>u. tm_timeout (node u))
        (if tm_running (tmr_node m t) then remove1 t (tmr_tree m) else tmr_tree m) t)"
    by (rule rbts.rearm [where to = "timeout_of m"])
      (use rel in \<open>auto simp: timer_rel_def timer_inv_def node_def\<close>)
  then obtain s1 s' where s':
    "(if tm_running (tmr_node m t) then ogs_rbtree_delete t (rt_tree c) else Some (rt_tree c)) = Some s1"
    "rt_add_timer_node (\<lambda>u. tm_timeout (node u)) t s1 = Some s'"
    "rb_holds s' (add_timer_node (\<lambda>u. tm_timeout (node u))
        (if tm_running (tmr_node m t) then remove1 t (tmr_tree m) else tmr_tree m) t)"
    unfolding bind_eq_Some_conv by blast
  obtain m' where m': "ogs_timer_start m t duration now = Some m'" "timer_inv m'"
    by (rule timer_start_inv [OF inv t False])
  have c': "rt_start c t duration now = Some (c\<lparr>rt_node := node, rt_tree := s'\<rparr>)"
    using s'(1,2) rel False unfolding timer_rel_def by (simp add: rt_start_def node_def)
  have "m' = m\<lparr>tmr_node := node, tmr_tree := add_timer_node (\<lambda>u. tm_timeout (node u))
      (if tm_running (tmr_node m t) then remove1 t (tmr_tree m) else tmr_tree m) t\<rparr>"
    using m'(1) False unfolding ogs_timer_start_def Let_def node_def by simp
  then have "timer_rel (c\<lparr>rt_node := node, rt_tree := s'\<rparr>) m'"
    using m'(2) s'(3) rel unfolding timer_rel_def by simp
  then show ?thesis using c' m'(1) by simp
qed (simp add: rt_start_def ogs_timer_start_def)

lemma add_sim:
  assumes "timer_rel c m"
  shows "rel_option (rel_prod (=) timer_rel) (rt_add c d) (ogs_timer_add m d)"
proof -
  have inv: "timer_inv m" using assms by (simp add: timer_rel_def)
  then show ?thesis
  proof (cases rule: timer_add_inv [where d = d])
    case none
    then show ?thesis
      using assms
      by (auto simp: timer_rel_def rt_add_def ogs_timer_add_def split: option.splits prod.splits
          dest: arg_cong [where f = tmr_pool])
  next
    case (some t m')
    have "t \<notin> set (tmr_tree m)" using some(3) inv by (auto simp: timer_inv_def)
    then show ?thesis
      using some(1,2) assms rb_holds_set [of "rt_tree c" "tmr_tree m" t]
      by (auto simp: timer_rel_def rt_add_def ogs_timer_add_def split: option.splits prod.splits)
  qed
qed

lemma delete_sim:
  assumes rel: "timer_rel c m" and t: "t \<in> timer_live m"
  shows "rel_option timer_rel (rt_delete c t) (ogs_timer_delete m t)"
proof -
  have inv: "timer_inv m" using rel by (simp add: timer_rel_def)
  obtain c' where c': "rt_stop c t = Some c'" "timer_rel c' (ogs_timer_stop m t)"
    using stop_sim [OF rel] by blast
  obtain m' where m': "ogs_timer_delete m t = Some m'" "timer_inv m'"
    by (rule timer_delete_inv [OF inv t])
  then obtain p where p: "ogs_pool_free (tmr_pool (ogs_timer_stop m t)) t = Some p"
    "m' = (ogs_timer_stop m t)\<lparr>tmr_pool := p\<rparr>"
    unfolding ogs_timer_delete_def Let_def map_option_eq_Some by blast
  have "rt_delete c t = Some (c'\<lparr>rt_pool := p\<rparr>)"
    using c' p(1) unfolding timer_rel_def by (simp add: rt_delete_def)
  moreover have "timer_rel (c'\<lparr>rt_pool := p\<rparr>) m'"
    using c'(2) m'(2) unfolding timer_rel_def p(2) by simp
  ultimately show ?thesis using m'(1) by simp
qed

lemma next_sim: "timer_rel c m \<Longrightarrow> rt_mgr_next c now = Some (ogs_timer_mgr_next m now)"
  using rbtree_first [of "rt_tree c" "tmr_tree m"]
  by (auto simp: timer_rel_def rt_mgr_next_def ogs_timer_mgr_next_def split: list.splits)

lemma fold_until_takeWhile:
  "fold_until (\<lambda>t due. if P t then Inl due else Inr (due @ [t])) xs ys = ys @ takeWhile (\<lambda>t. \<not> P t) xs"
  by (induction xs arbitrary: ys) auto

lemma due_sim: "timer_rel c m \<Longrightarrow> rt_due c now = Some (timer_due m now)"
  using rb_forward.for_each [of "rt_tree c" "tmr_tree m"
      "\<lambda>t due. if timeout_of m t > now then Inl due else Inr (due @ [t])" "[]"]
    fold_until_takeWhile [of "\<lambda>t. timeout_of m t > now" "tmr_tree m" "[]"]
  by (simp add: timer_rel_def rt_due_def timer_due_def ogs_rbtree_for_each_def)

lemma rt_link_frame:
  "rt_pool (rt_link c ts) = rt_pool c" "rt_tree (rt_link c ts) = rt_tree c"
  by (induction c ts rule: rt_link.induct) auto

lemma rt_link_node: "rt_node c = tmr_node m \<Longrightarrow> rt_node (rt_link c ts) = tmr_node (timer_link m ts)"
proof (induction c ts arbitrary: m rule: rt_link.induct)
  case (1 c t u us)
  let ?m = "m\<lparr>tmr_node := (tmr_node m)(t := (tmr_node m t)\<lparr>tm_lnext := Some u\<rparr>)\<rparr>"
  show ?case using "1.prems" "1.IH" [of ?m] by simp
qed auto

lemma link_sim: "timer_rel c m \<Longrightarrow> timer_rel (rt_link c ts) (timer_link m ts)"
  by (simp add: timer_rel_def timer_link_inv timer_link_frame rt_link_frame rt_link_node)

lemma fire_sim:
  assumes get: "\<And>s s'. R s s' \<Longrightarrow> timer_rel (get s) (get' s')"
    and put: "\<And>s s' c m. R s s' \<Longrightarrow> timer_rel c m \<Longrightarrow> R (put c s) (put' m s')"
    and cb: "\<And>d s s'. R s s' \<Longrightarrow> rel_option R (cb d s) (cb' d s')"
  shows "R s s' \<Longrightarrow> rel_option R (rt_fire get put cb ts s) (timer_fire get' put' cb' ts s')"
proof (induction ts arbitrary: s s')
  case (Cons t ts)
  obtain c where c: "rt_stop (get s) t = Some c" "timer_rel c (ogs_timer_stop (get' s') t)"
    using stop_sim [OF get [OF Cons.prems]] by blast
  define s1 s1' where "s1 = put c s" and "s1' = put' (ogs_timer_stop (get' s') t) s'"
  have R: "R s1 s1'" unfolding s1_def s1'_def using put Cons.prems c(2) by blast
  have node: "rt_node (get a) = tmr_node (get' b)" if "R a b" for a b
    using get [OF that] by (simp add: timer_rel_def)
  have "rel_option R (cb (timer_data (get' s1') t) s1) (cb' (timer_data (get' s1') t) s1')"
    by (rule cb [OF R])
  then show ?case
    using c(1) Cons.IH node node [OF R]
    by (cases rule: option.rel_cases)
      (simp_all add: s1_def [symmetric] s1'_def [symmetric] Let_def)
qed simp

lemma expire_sim:
  assumes get: "\<And>s s'. R s s' \<Longrightarrow> timer_rel (get s) (get' s')"
    and put: "\<And>s s' c m. R s s' \<Longrightarrow> timer_rel c m \<Longrightarrow> R (put c s) (put' m s')"
    and cb: "\<And>d s s'. R s s' \<Longrightarrow> rel_option R (cb d s) (cb' d s')"
    and R: "R s s'"
  shows "rel_option R (rt_mgr_expire get put cb now s) (ogs_timer_mgr_expire get' put' cb' now s')"
proof -
  let ?due = "timer_due (get' s') now"
  have "R (put (rt_link (get s) ?due) s) (put' (timer_link (get' s') ?due) s')"
    by (rule put [OF R link_sim [OF get [OF R]]])
  then have "rel_option R (rt_fire get put cb ?due (put (rt_link (get s) ?due) s))
      (timer_fire get' put' cb' ?due (put' (timer_link (get' s') ?due) s'))"
    using fire_sim [where R = R and get = get and get' = get' and put = put and put' = put'
        and cb = cb and cb' = cb'] get put cb by blast
  then show ?thesis
    using due_sim [OF get [OF R], of now] by (simp add: rt_mgr_expire_def ogs_timer_mgr_expire_def Let_def)
qed

subsection \<open>Runs of the manager\<close>

text \<open>
  A run is a sequence of calls of clients. The abstract run also says which calls are
  legal: start and delete need a timer that was added and not deleted since.
\<close>

datatype 'd timer_cmd =
    Call_add 'd
  | Call_start nat int int
  | Call_stop nat
  | Call_delete nat
  | Call_expire int

text \<open>Expiry in a run has callbacks that log their data and start nothing.\<close>

fun timer_call :: "'d timer_mgr \<times> 'd list \<Rightarrow> 'd timer_cmd \<Rightarrow> ('d timer_mgr \<times> 'd list) option" where
  "timer_call (m, out) (Call_add d) = map_option (\<lambda>(_, m). (m, out)) (ogs_timer_add m d)"
| "timer_call (m, out) (Call_start t duration now) =
     map_option (\<lambda>m. (m, out)) (ogs_timer_start m t duration now)"
| "timer_call (m, out) (Call_stop t) = Some (ogs_timer_stop m t, out)"
| "timer_call (m, out) (Call_delete t) = map_option (\<lambda>m. (m, out)) (ogs_timer_delete m t)"
| "timer_call (m, out) (Call_expire now) =
     ogs_timer_mgr_expire fst (\<lambda>m s. (m, snd s)) (\<lambda>d s. Some (fst s, snd s @ [d])) now (m, out)"

fun rt_call :: "'d rt_mgr \<times> 'd list \<Rightarrow> 'd timer_cmd \<Rightarrow> ('d rt_mgr \<times> 'd list) option" where
  "rt_call (m, out) (Call_add d) = map_option (\<lambda>(_, m). (m, out)) (rt_add m d)"
| "rt_call (m, out) (Call_start t duration now) = map_option (\<lambda>m. (m, out)) (rt_start m t duration now)"
| "rt_call (m, out) (Call_stop t) = map_option (\<lambda>m. (m, out)) (rt_stop m t)"
| "rt_call (m, out) (Call_delete t) = map_option (\<lambda>m. (m, out)) (rt_delete m t)"
| "rt_call (m, out) (Call_expire now) =
     rt_mgr_expire fst (\<lambda>m s. (m, snd s)) (\<lambda>d s. Some (fst s, snd s @ [d])) now (m, out)"

fun legal_call :: "'d timer_mgr \<Rightarrow> 'd timer_cmd \<Rightarrow> bool" where
  "legal_call m (Call_start t duration now) \<longleftrightarrow> pool_in_use (tmr_pool m) t \<and> duration \<noteq> 0"
| "legal_call m (Call_delete t) \<longleftrightarrow> pool_in_use (tmr_pool m) t"
| "legal_call m _ \<longleftrightarrow> True"

fun rt_run :: "'d rt_mgr \<times> 'd list \<Rightarrow> 'd timer_cmd list \<Rightarrow> ('d rt_mgr \<times> 'd list) option" where
  "rt_run s [] = Some s"
| "rt_run s (c # cs) = do { s \<leftarrow> rt_call s c; rt_run s cs }"

fun timer_run :: "'d timer_mgr \<times> 'd list \<Rightarrow> 'd timer_cmd list \<Rightarrow> ('d timer_mgr \<times> 'd list) option" where
  "timer_run s [] = Some s"
| "timer_run s (c # cs) = (if legal_call (fst s) c then do { s \<leftarrow> timer_call s c; timer_run s cs } else None)"

abbreviation run_rel :: "'d rt_mgr \<times> 'd list \<Rightarrow> 'd timer_mgr \<times> 'd list \<Rightarrow> bool" where
  "run_rel \<equiv> rel_prod timer_rel (=)"

lemma call_sim:
  assumes "run_rel s s'" "legal_call (fst s') c"
  shows "rel_option run_rel (rt_call s c) (timer_call s' c)"
proof -
  obtain r m out where s: "s = (r, out)" "s' = (m, out)" and rel: "timer_rel r m"
    using assms(1) by (cases s; cases s') auto
  show ?thesis
  proof (cases c)
    case (Call_add d)
    show ?thesis using add_sim [OF rel, of d]
      by (cases rule: option.rel_cases) (auto simp: s Call_add)
  next
    case (Call_start t duration now)
    then have "t \<in> timer_live m" using assms(2) by (simp add: s timer_live_def)
    from start_sim [OF rel this, of duration now] show ?thesis
      by (cases rule: option.rel_cases) (auto simp: s Call_start)
  next
    case (Call_stop t)
    then show ?thesis using stop_sim [OF rel, of t] by (auto simp: s)
  next
    case (Call_delete t)
    then have "t \<in> timer_live m" using assms(2) by (simp add: s timer_live_def)
    from delete_sim [OF rel this] show ?thesis
      by (cases rule: option.rel_cases) (auto simp: s Call_delete)
  next
    case (Call_expire now)
    have "rel_option run_rel (rt_mgr_expire fst (\<lambda>m s. (m, snd s)) (\<lambda>d s. Some (fst s, snd s @ [d])) now s)
        (ogs_timer_mgr_expire fst (\<lambda>m s. (m, snd s)) (\<lambda>d s. Some (fst s, snd s @ [d])) now s')"
      by (rule expire_sim [where R = run_rel]) (use assms in \<open>auto simp: rel_prod_sel\<close>)
    then show ?thesis by (simp add: s Call_expire)
  qed
qed

lemma run_sim:
  "run_rel s s' \<Longrightarrow> timer_run s' cs = Some r' \<Longrightarrow> \<exists>r. rt_run s cs = Some r \<and> run_rel r r'"
proof (induction cs arbitrary: s s')
  case (Cons c cs)
  then obtain s1' where 1: "legal_call (fst s') c" "timer_call s' c = Some s1'" "timer_run s1' cs = Some r'"
    by (auto simp: bind_eq_Some_conv split: if_splits)
  then obtain s1 where "rt_call s c = Some s1" "run_rel s1 s1'"
    using call_sim [OF Cons.prems(1) 1(1)] by (auto simp: option_rel_Some2)
  then show ?case using Cons.IH 1(3) by auto
qed simp

text \<open>C26. The manager on its red-black tree refines the manager on a sorted sequence: from creation
  on, whatever the earlier contents of the node memory, every sequence of legal calls that
  the abstract manager performs is performed by the concrete one, without a NULL access, a
  failed assertion or an endless loop. It logs the same callbacks, and afterwards the tree
  is a red-black tree that holds exactly the running timers, sorted by timeout, and gives the
  same time to the next expiry.
\<close>

theorem rt_manager_refines:
  assumes "timer_run (ogs_timer_mgr_create d0 n, []) cs = Some (m, out)"
  shows "\<exists>c. rt_run (rt_create d0 mem n, []) cs = Some (c, out) \<and>
    rb_holds (rt_tree c) (tmr_tree m) \<and> rt_node c = tmr_node m \<and> rt_pool c = tmr_pool m \<and>
    set (tmr_tree m) = {t. tm_running (rt_node c t)} \<and>
    sorted (map (\<lambda>t. tm_timeout (rt_node c t)) (tmr_tree m)) \<and>
    rt_mgr_next c now = Some (ogs_timer_mgr_next m now)"
proof -
  have "run_rel (rt_create d0 mem n, []) (ogs_timer_mgr_create d0 n, [])" using create_sim by auto
  from run_sim [OF this assms] obtain c where c: "rt_run (rt_create d0 mem n, []) cs = Some (c, out)"
    "timer_rel c m" by auto
  then show ?thesis using next_sim [OF c(2), of now] by (auto simp: timer_rel_def timer_inv_def)
qed

text \<open>A run that arms three timers, moves one of them to the front and lets two expire.\<close>

definition sample_run :: "string timer_cmd list" where
  "sample_run = [Call_add ''a'', Call_add ''b'', Call_add ''c'', Call_start 0 30 0, Call_start 1 10 0,
     Call_start 2 20 0, Call_start 0 5 0, Call_expire 12]"

lemma sample_run_result:
  "map_option (\<lambda>(m, out). (tmr_tree m, out)) (timer_run (ogs_timer_mgr_create ''none'' 4, []) sample_run)
     = Some ([2], [''a'', ''b''])"
  by code_simp

lemma rt_manager_refines_witness:
  "\<exists>c. rt_run (rt_create ''none'' (rb_mem rb_sample) 4, []) sample_run = Some (c, [''a'', ''b'']) \<and> rb_holds (rt_tree c) [2]"
proof -
  obtain m where m: "timer_run (ogs_timer_mgr_create ''none'' 4, []) sample_run = Some (m, [''a'', ''b''])"
    "tmr_tree m = [2]"
    using sample_run_result by auto
  from rt_manager_refines [OF m(1)] m(2) show ?thesis by metis
qed

end
