(* ===== verification/Ogs_Fsm.thy ===== *)
theory Ogs_Fsm
  imports Ogs_Prelude
begin

text \<open>
  The state-machine framework of \<open>lib/core/ogs-fsm.c\<close>. A state is its handler, an element
  of \<open>'h\<close>; \<open>run h e (sm, w)\<close> is the call \<open>(*h)(sm, e)\<close>, which may change the machine
  (by \<open>OGS_FSM_TRAN\<close>, or by finishing it) and the world \<open>w\<close>, and is \<open>None\<close> when the
  handler aborts. An event is its number and the data of the caller; the framework overwrites
  the number of the caller's event, or passes a static event without data when the caller
  gave none.

  The interface of a client is the locale \<open>fsm_client\<close>: what each state holds on to while
  the machine is in it, obtained by the entry action and given back by the exit action. From
  it follows once and for all that every dispatch leads from a state with what it holds to a
  state with what that one holds, through exactly one exit and one entry.
\<close>

datatype 'u signal = OGS_FSM_ENTRY_SIG | OGS_FSM_EXIT_SIG | USER_SIG 'u

datatype ('u, 'd) fsm_event = Event (ev_id: "'u signal") (ev_data: "'d option")

record 'h ogs_fsm =
  fsm_init :: "'h option"
  fsm_fini :: "'h option"
  fsm_state :: "'h option"

type_synonym ('h, 'u, 'd, 'w) handlers =
  "'h \<Rightarrow> ('u, 'd) fsm_event option \<Rightarrow> 'h ogs_fsm \<times> 'w \<Rightarrow> ('h ogs_fsm \<times> 'w) option"

definition OGS_FSM_TRAN :: "'h ogs_fsm \<Rightarrow> 'h \<Rightarrow> 'h ogs_fsm" where
  "OGS_FSM_TRAN sm h = sm\<lparr> fsm_state := Some h \<rparr>"

definition set_signal :: "'u signal \<Rightarrow> ('u, 'd) fsm_event option \<Rightarrow> ('u, 'd) fsm_event option" where
  "set_signal i e = Some (Event i (case e of None \<Rightarrow> None | Some ev \<Rightarrow> ev_data ev))"

definition fsm_entry :: "('h, 'u, 'd, 'w) handlers \<Rightarrow> 'h option \<Rightarrow> ('u, 'd) fsm_event option
    \<Rightarrow> 'h ogs_fsm \<times> 'w \<Rightarrow> ('h ogs_fsm \<times> 'w) option" where
  "fsm_entry run state e sw =
     (case state of None \<Rightarrow> None | Some h \<Rightarrow> run h (set_signal OGS_FSM_ENTRY_SIG e) sw)"

definition fsm_exit :: "('h, 'u, 'd, 'w) handlers \<Rightarrow> 'h option \<Rightarrow> ('u, 'd) fsm_event option
    \<Rightarrow> 'h ogs_fsm \<times> 'w \<Rightarrow> ('h ogs_fsm \<times> 'w) option" where
  "fsm_exit run state e sw =
     (case state of None \<Rightarrow> None | Some h \<Rightarrow> run h (set_signal OGS_FSM_EXIT_SIG e) sw)"

definition fsm_change :: "('h, 'u, 'd, 'w) handlers \<Rightarrow> 'h option \<Rightarrow> 'h option
    \<Rightarrow> ('u, 'd) fsm_event option \<Rightarrow> 'h ogs_fsm \<times> 'w \<Rightarrow> ('h ogs_fsm \<times> 'w) option" where
  "fsm_change run oldstate newstate e sw =
     (if oldstate = None \<or> newstate = None then None
      else Option.bind (fsm_exit run oldstate e sw) (fsm_entry run newstate e))"

definition ogs_fsm_init :: "('h, 'u, 'd, 'w) handlers \<Rightarrow> 'h option \<Rightarrow> 'h option
    \<Rightarrow> ('u, 'd) fsm_event option \<Rightarrow> 'w \<Rightarrow> ('h ogs_fsm \<times> 'w) option" where
  "ogs_fsm_init run init fini e w =
     (let sm = \<lparr> fsm_init = init, fsm_fini = fini, fsm_state = init \<rparr>
      in case init of
           None \<Rightarrow> Some (sm, w)
         | Some h \<Rightarrow>
             Option.bind (run h e (sm, w)) (\<lambda>(sm1, w1).
               if fsm_init sm1 \<noteq> fsm_state sm1 then fsm_entry run (fsm_state sm1) e (sm1, w1)
               else Some (sm1, w1)))"

definition ogs_fsm_tran :: "('h, 'u, 'd, 'w) handlers \<Rightarrow> 'h option \<Rightarrow> ('u, 'd) fsm_event option
    \<Rightarrow> 'h ogs_fsm \<times> 'w \<Rightarrow> ('h ogs_fsm \<times> 'w) option" where
  "ogs_fsm_tran run state e sw =
     (case sw of (sm, w) \<Rightarrow>
        if fsm_state sm = None \<or> state = None then None
        else if state \<noteq> fsm_state sm
        then fsm_change run (fsm_state sm) state e (sm\<lparr> fsm_state := state \<rparr>, w)
        else Some (sm, w))"

definition ogs_fsm_dispatch :: "('h, 'u, 'd, 'w) handlers \<Rightarrow> ('u, 'd) fsm_event option
    \<Rightarrow> 'h ogs_fsm \<times> 'w \<Rightarrow> ('h ogs_fsm \<times> 'w) option" where
  "ogs_fsm_dispatch run e sw =
     (case fsm_state (fst sw) of
        None \<Rightarrow> None
      | Some tmp \<Rightarrow>
          Option.bind (if e \<noteq> None then run tmp e sw else Some sw) (\<lambda>sw1.
            if fsm_state (fst sw1) \<noteq> Some tmp
            then fsm_change run (Some tmp) (fsm_state (fst sw1)) e sw1
            else Some sw1))"

definition ogs_fsm_fini :: "('h, 'u, 'd, 'w) handlers \<Rightarrow> ('u, 'd) fsm_event option
    \<Rightarrow> 'h ogs_fsm \<times> 'w \<Rightarrow> ('h ogs_fsm \<times> 'w) option" where
  "ogs_fsm_fini run e sw =
     map_option (\<lambda>(sm, w). (sm\<lparr> fsm_init := None, fsm_state := None, fsm_fini := None \<rparr>, w))
       (if fsm_fini (fst sw) \<noteq> fsm_state (fst sw) then
          Option.bind (fsm_exit run (fsm_state (fst sw)) e sw) (\<lambda>sw1.
            case fsm_fini (fst sw1) of None \<Rightarrow> Some sw1 | Some h \<Rightarrow> run h e sw1)
        else Some sw)"

subsection \<open>Clients\<close>

text \<open>
  \<open>holds (Some h) w\<close> is what state \<open>h\<close> holds, \<open>holds None w\<close> what is left when the
  machine has been finished; \<open>free h w\<close> holds between an exit and the entry into \<open>h\<close>. \<open>user\<close> says which events may come. A handler may only ask for a transition
  that leaves what the old state holds in place: its exit action is still to come.
\<close>

locale fsm_client =
  fixes run :: "('h, 'u, 'd, 'w) handlers"
    and fini :: "'h option"
    and holds :: "'h option \<Rightarrow> 'w \<Rightarrow> bool" and free :: "'h \<Rightarrow> 'w \<Rightarrow> bool"
    and user :: "'h \<Rightarrow> 'u \<Rightarrow> 'd \<Rightarrow> 'w \<Rightarrow> bool"
  assumes user_step: "holds (Some h) w \<Longrightarrow> fsm_state sm = Some h \<Longrightarrow> fsm_fini sm = fini \<Longrightarrow> user h u d w \<Longrightarrow>
      \<exists>h' w'. run h (Some (Event (USER_SIG u) (Some d))) (sm, w) = Some (sm\<lparr> fsm_state := Some h' \<rparr>, w')
        \<and> (h' = h \<longrightarrow> holds (Some h) w')
        \<and> (h' \<noteq> h \<longrightarrow> (\<exists>w''. run h (Some (Event OGS_FSM_EXIT_SIG (Some d))) (sm\<lparr> fsm_state := Some h' \<rparr>, w')
              = Some (sm\<lparr> fsm_state := Some h' \<rparr>, w'') \<and> free h' w''))"
    and entry_step: "free h w \<Longrightarrow> fsm_state sm = Some h \<Longrightarrow> fsm_fini sm = fini \<Longrightarrow>
      \<exists>sm' w'. run h (Some (Event OGS_FSM_ENTRY_SIG (Some d))) (sm, w) = Some (sm', w') \<and> holds (fsm_state sm') w'
        \<and> (fsm_state sm' = None \<or> sm' = sm)"
begin

text \<open>A dispatch in a live state does not abort and keeps the contract: it ends in the old
  state, or in the one asked for, or with the machine finished by that one's entry action.\<close>

lemma dispatch_holds:
  assumes "holds (Some h) w" "fsm_state sm = Some h" "fsm_fini sm = fini" "user h u d w"
  shows "\<exists>sm' w'. ogs_fsm_dispatch run (Some (Event (USER_SIG u) (Some d))) (sm, w) = Some (sm', w')
    \<and> holds (fsm_state sm') w' \<and> (fsm_state sm' = None \<or> fsm_fini sm' = fini)"
proof -
  obtain h' w' where u: "run h (Some (Event (USER_SIG u) (Some d))) (sm, w)
        = Some (sm\<lparr> fsm_state := Some h' \<rparr>, w')"
    "h' = h \<longrightarrow> holds (Some h) w'"
    "h' \<noteq> h \<longrightarrow> (\<exists>w''. run h (Some (Event OGS_FSM_EXIT_SIG (Some d))) (sm\<lparr> fsm_state := Some h' \<rparr>, w')
              = Some (sm\<lparr> fsm_state := Some h' \<rparr>, w'') \<and> free h' w'')"
    using user_step[OF assms] by blast
  show ?thesis
  proof (cases "h' = h")
    case True
    then show ?thesis using u assms by (simp add: ogs_fsm_dispatch_def)
  next
    case False
    then obtain w'' where x: "run h (Some (Event OGS_FSM_EXIT_SIG (Some d))) (sm\<lparr> fsm_state := Some h' \<rparr>, w')
              = Some (sm\<lparr> fsm_state := Some h' \<rparr>, w'')" "free h' w''"
      using u by blast
    obtain sm' w3 where "run h' (Some (Event OGS_FSM_ENTRY_SIG (Some d))) (sm\<lparr> fsm_state := Some h' \<rparr>, w'')
        = Some (sm', w3)" "holds (fsm_state sm') w3"
        "fsm_state sm' = None \<or> fsm_fini sm' = fini"
      using entry_step[OF x(2), of "sm\<lparr> fsm_state := Some h' \<rparr>" d] assms(3) by auto
    then show ?thesis
      using u(1) x(1) False assms
      by (simp add: ogs_fsm_dispatch_def fsm_change_def fsm_exit_def fsm_entry_def set_signal_def)
  qed
qed

text \<open>Starting: the initial handler asks for a first state, whose entry action follows.\<close>

lemma init_holds:
  assumes "run i (Some e) (\<lparr> fsm_init = Some i, fsm_fini = fini, fsm_state = Some i \<rparr>, w)
      = Some (\<lparr> fsm_init = Some i, fsm_fini = fini, fsm_state = Some h \<rparr>, w')"
    and "h \<noteq> i" "free h w'" "ev_data e = Some d"
  shows "\<exists>sm w''. ogs_fsm_init run (Some i) fini (Some e) w = Some (sm, w'') \<and> holds (fsm_state sm) w''
    \<and> (fsm_state sm = None \<or> fsm_fini sm = fini)"
proof -
  let ?sm = "\<lparr> fsm_init = Some i, fsm_fini = fini, fsm_state = Some h \<rparr>"
  obtain sm' w3 where "run h (Some (Event OGS_FSM_ENTRY_SIG (Some d))) (?sm, w') = Some (sm', w3)"
      "holds (fsm_state sm') w3" "fsm_state sm' = None \<or> fsm_fini sm' = fini"
    using entry_step[OF assms(3), of ?sm d] by auto
  then show ?thesis
    using assms by (simp add: ogs_fsm_init_def fsm_entry_def set_signal_def)
qed

end

end
