(* ===== verification/Sbi_Nf_Sm.thy ===== *)
theory Sbi_Nf_Sm
  imports Ogs_Fsm
begin

text \<open>
  The state machine of an NF instance, \<open>lib/sbi/nf-sm.c\<close>: how a network function registers
  with the NRF, keeps the registration alive by heartbeats, starts over when it is lost, and
  how the entries for other network functions expire. It runs on the framework of
  \<open>Ogs_Fsm\<close>; its four timers post events on the queue of the main loop
  (\<open>lib/sbi/timer.c\<close>).

  Kept of an instance are its kind, the heartbeat interval and the timers: which exist and
  which are armed. What is sent, or done to other instances and to subscriptions, is recorded
  in \<open>actions\<close> in order. Durations and the PLMN list of a registration answer are left
  out. Requests to the NRF succeed or fail as \<open>send_ok\<close> says.

  Shown here: the machine keeps its contract in every reachable state (so no transition
  aborts and no timer is leaked), and while the instance of the NRF is alive, a timer that
  leads back to a registration is always armed or its event is on its way.
\<close>

datatype nf_state = NF_initial | NF_final | NF_will_register | NF_registered | NF_de_registered | NF_exception

datatype nf_timer = REGISTRATION_INTERVAL | HEARTBEAT_INTERVAL | NO_HEARTBEAT | VALIDITY

datatype nf_method = M_PATCH | M_GET | M_OTHER

text \<open>A response of the NRF as the handlers look at it: the service and the two resource
  components, method and status, whether links or an NFProfile came with it, and the
  heartbeat timer in the profile.\<close>

record nf_message =
  m_nnrf_nfm :: bool
  m_nf_instances :: bool
  m_component1 :: bool
  m_method :: nf_method
  m_status :: nat
  m_links :: bool
  m_profile :: "nat option option"

datatype nf_event = SBI_CLIENT nf_message | SBI_TIMER nf_timer | OTHER_EVENT

datatype nf_action = Send_Register | Send_Update | Send_De_Register | Subscribe_All | List_Retrieve
  | Handle_Links | Handle_Profile | Drop_Subscriptions | Removed

record nf_instance =
  type_is_nrf :: bool
  has_id :: bool
  heartbeat_interval :: nat
  timers :: "nf_timer set"
  armed :: "nf_timer set"
  send_ok :: bool
  actions :: "nf_action list"

type_synonym nf_fsm = "nf_state ogs_fsm"
type_synonym nf_run = "(nf_state, nf_event, unit, nf_instance) handlers"
type_synonym nf_conf = "nf_fsm \<times> nf_instance"

text \<open>Timers: starting one needs it to exist, deleting it disarms it.\<close>

definition t_start :: "nf_timer \<Rightarrow> nf_instance \<Rightarrow> nf_instance option" where
  "t_start t w = (if t \<in> timers w then Some (w\<lparr> armed := insert t (armed w) \<rparr>) else None)"

definition t_stop :: "nf_timer \<Rightarrow> nf_instance \<Rightarrow> nf_instance option" where
  "t_stop t w = (if t \<in> timers w then Some (w\<lparr> armed := armed w - {t} \<rparr>) else None)"

definition t_delete :: "nf_timer \<Rightarrow> nf_instance \<Rightarrow> nf_instance option" where
  "t_delete t w = (if t \<in> timers w
     then Some (w\<lparr> timers := timers w - {t}, armed := armed w - {t} \<rparr>) else None)"

definition act :: "nf_action \<Rightarrow> nf_instance \<Rightarrow> nf_instance" where
  "act a w = w\<lparr> actions := actions w @ [a] \<rparr>"

definition nf_tran :: "nf_state \<Rightarrow> nf_conf \<Rightarrow> nf_conf option" where
  "nf_tran h sw = Some (OGS_FSM_TRAN (fst sw) h, snd sw)"

text \<open>Running a part of a handler that leaves the machine alone.\<close>

definition on_inst :: "(nf_instance \<Rightarrow> nf_instance option) \<Rightarrow> nf_conf \<Rightarrow> nf_conf option" where
  "on_inst f sw = map_option (Pair (fst sw)) (f (snd sw))"

definition ogs_nnrf_nfm_handle_nf_register :: "nf_message \<Rightarrow> nf_instance \<Rightarrow> nf_instance" where
  "ogs_nnrf_nfm_handle_nf_register m w =
     (case m_profile m of Some (Some n) \<Rightarrow> w\<lparr> heartbeat_interval := n \<rparr> | _ \<Rightarrow> w)"

subsection \<open>The handlers\<close>

definition nf_state_initial :: "nf_conf \<Rightarrow> nf_conf option" where
  "nf_state_initial sw =
     Option.bind (on_inst (\<lambda>w. Some (w\<lparr> timers := {REGISTRATION_INTERVAL, HEARTBEAT_INTERVAL, NO_HEARTBEAT, VALIDITY} \<rparr>)) sw)
       (\<lambda>sw. if type_is_nrf (snd sw) then nf_tran NF_will_register sw
             else if \<not> has_id (snd sw) then None
             else nf_tran NF_registered sw)"

definition nf_state_final :: "nf_conf \<Rightarrow> nf_conf option" where
  "nf_state_final = on_inst (\<lambda>w.
     Option.bind (t_delete REGISTRATION_INTERVAL w) (\<lambda>w.
     Option.bind (t_delete HEARTBEAT_INTERVAL w) (\<lambda>w.
     Option.bind (t_delete NO_HEARTBEAT w) (t_delete VALIDITY))))"

definition nf_state_will_register :: "nf_event signal \<Rightarrow> nf_conf \<Rightarrow> nf_conf option" where
  "nf_state_will_register e sw =
     (if \<not> type_is_nrf (snd sw) then None
      else case e of
        OGS_FSM_ENTRY_SIG \<Rightarrow>
          on_inst (\<lambda>w. map_option (act Send_Register) (t_start REGISTRATION_INTERVAL w)) sw
      | OGS_FSM_EXIT_SIG \<Rightarrow> on_inst (t_stop REGISTRATION_INTERVAL) sw
      | USER_SIG (SBI_CLIENT m) \<Rightarrow>
          if m_nnrf_nfm m \<and> m_nf_instances m then
            if m_status m = 200 \<or> m_status m = 201
            then Option.bind (on_inst (\<lambda>w. Some (ogs_nnrf_nfm_handle_nf_register m w)) sw)
                   (nf_tran NF_registered)
            else nf_tran NF_exception sw
          else Some sw
      | USER_SIG (SBI_TIMER t) \<Rightarrow>
          if t = REGISTRATION_INTERVAL
          then on_inst (\<lambda>w. map_option (act Send_Register) (t_start REGISTRATION_INTERVAL w)) sw
          else Some sw
      | USER_SIG OTHER_EVENT \<Rightarrow> Some sw)"

definition start_heartbeats :: "nf_instance \<Rightarrow> nf_instance option" where
  "start_heartbeats w = (if heartbeat_interval w \<noteq> 0
     then Option.bind (t_start HEARTBEAT_INTERVAL w) (t_start NO_HEARTBEAT) else Some w)"

definition stop_heartbeats :: "nf_instance \<Rightarrow> nf_instance option" where
  "stop_heartbeats w = (if heartbeat_interval w \<noteq> 0
     then Option.bind (t_stop HEARTBEAT_INTERVAL w) (t_stop NO_HEARTBEAT) else Some w)"

definition registered_client :: "nf_message \<Rightarrow> nf_conf \<Rightarrow> nf_conf option" where
  "registered_client m sw =
     (if m_component1 m then
        (case m_method m of
           M_PATCH \<Rightarrow>
             if m_status m = 204 \<or> m_status m = 200
             then on_inst (\<lambda>w. if heartbeat_interval w \<noteq> 0 then t_start NO_HEARTBEAT w else Some w) sw
             else nf_tran NF_exception sw
         | M_GET \<Rightarrow>
             if m_status m = 200
             then on_inst (\<lambda>w. Some (if m_profile m = None then w else act Handle_Profile w)) sw
             else nf_tran NF_exception sw
         | M_OTHER \<Rightarrow> Some sw)
      else if \<not> m_links m then Some sw
      else if m_status m \<noteq> 200 then Some sw
      else on_inst (\<lambda>w. Some (act Handle_Links w)) sw)"

definition registered_timer :: "nf_timer \<Rightarrow> nf_conf \<Rightarrow> nf_conf option" where
  "registered_timer t sw =
     (case t of
        HEARTBEAT_INTERVAL \<Rightarrow>
          on_inst (\<lambda>w. map_option (act Send_Update)
            (if heartbeat_interval w \<noteq> 0 then t_start HEARTBEAT_INTERVAL w else Some w)) sw
      | NO_HEARTBEAT \<Rightarrow>
          Option.bind (on_inst (\<lambda>w. Some (act Drop_Subscriptions w)) sw) (nf_tran NF_will_register)
      | VALIDITY \<Rightarrow>
          if type_is_nrf (snd sw) \<or> \<not> has_id (snd sw) then None else nf_tran NF_de_registered sw
      | REGISTRATION_INTERVAL \<Rightarrow> Some sw)"

definition nf_state_registered :: "nf_event signal \<Rightarrow> nf_conf \<Rightarrow> nf_conf option" where
  "nf_state_registered e sw =
     (case e of
        OGS_FSM_ENTRY_SIG \<Rightarrow>
          on_inst (\<lambda>w. if type_is_nrf w
             then map_option (act List_Retrieve \<circ> act Subscribe_All) (start_heartbeats w) else Some w) sw
      | OGS_FSM_EXIT_SIG \<Rightarrow> on_inst (\<lambda>w. if type_is_nrf w then stop_heartbeats w else Some w) sw
      | USER_SIG (SBI_CLIENT m) \<Rightarrow>
          if m_nnrf_nfm m \<and> m_nf_instances m then registered_client m sw else Some sw
      | USER_SIG (SBI_TIMER t) \<Rightarrow> registered_timer t sw
      | USER_SIG OTHER_EVENT \<Rightarrow> Some sw)"

definition nf_state_exception :: "nf_event signal \<Rightarrow> nf_conf \<Rightarrow> nf_conf option" where
  "nf_state_exception e sw =
     (case e of
        OGS_FSM_ENTRY_SIG \<Rightarrow>
          on_inst (\<lambda>w. if type_is_nrf w then t_start REGISTRATION_INTERVAL w else Some w) sw
      | OGS_FSM_EXIT_SIG \<Rightarrow>
          on_inst (\<lambda>w. if type_is_nrf w then t_stop REGISTRATION_INTERVAL w else Some w) sw
      | USER_SIG (SBI_TIMER t) \<Rightarrow>
          if t = REGISTRATION_INTERVAL then nf_tran NF_will_register sw else Some sw
      | USER_SIG _ \<Rightarrow> Some sw)"

text \<open>Every handler asserts its event and the instance in it.\<close>

definition with_data :: "(nf_event signal \<Rightarrow> nf_conf \<Rightarrow> nf_conf option) \<Rightarrow>
    (nf_event, unit) fsm_event option \<Rightarrow> nf_conf \<Rightarrow> nf_conf option" where
  "with_data h e sw =
     (case e of None \<Rightarrow> None | Some ev \<Rightarrow> if ev_data ev = None then None else h (ev_id ev) sw)"

text \<open>
  \<open>ogs_sbi_nf_state_de_registered\<close> finishes the machine from its entry action. The
  finishing runs an exit and the final handler only, so the handlers are first put together
  with a \<open>de_registered\<close> that does nothing on any event, as it does on its exit.
\<close>

fun nf_leaf_handlers :: nf_run where
  "nf_leaf_handlers NF_initial = with_data (\<lambda>_. nf_state_initial)"
| "nf_leaf_handlers NF_final = with_data (\<lambda>_. nf_state_final)"
| "nf_leaf_handlers NF_will_register = with_data nf_state_will_register"
| "nf_leaf_handlers NF_registered = with_data nf_state_registered"
| "nf_leaf_handlers NF_exception = with_data nf_state_exception"
| "nf_leaf_handlers NF_de_registered = with_data (\<lambda>_. Some)"

definition nf_data_event :: "(nf_event, unit) fsm_event option" where
  "nf_data_event = Some (Event OGS_FSM_ENTRY_SIG (Some ()))"

text \<open>The event of \<open>ogs_sbi_nf_fsm_init\<close> and \<open>ogs_sbi_nf_fsm_fini\<close> is zeroed; zero is
  the number of the entry signal.\<close>

definition nf_fsm_fini_with :: "nf_run \<Rightarrow> nf_conf \<Rightarrow> nf_conf option" where
  "nf_fsm_fini_with run sw =
     (if type_is_nrf (snd sw) \<and> fsm_state (fst sw) = Some NF_registered then
        if send_ok (snd sw)
        then ogs_fsm_fini run nf_data_event (fst sw, act Send_De_Register (snd sw))
        else None
      else ogs_fsm_fini run nf_data_event sw)"

definition nf_state_de_registered :: "nf_event signal \<Rightarrow> nf_conf \<Rightarrow> nf_conf option" where
  "nf_state_de_registered e sw =
     (if e = OGS_FSM_ENTRY_SIG then
        map_option (\<lambda>(sm, w). (sm, act Removed w)) (nf_fsm_fini_with nf_leaf_handlers sw)
      else Some sw)"

definition nf_handlers :: nf_run where
  "nf_handlers h = (if h = NF_de_registered then with_data nf_state_de_registered else nf_leaf_handlers h)"

definition ogs_sbi_nf_fsm_init :: "nf_instance \<Rightarrow> nf_conf option" where
  "ogs_sbi_nf_fsm_init w = ogs_fsm_init nf_handlers (Some NF_initial) (Some NF_final) nf_data_event w"

definition ogs_sbi_nf_fsm_fini :: "nf_conf \<Rightarrow> nf_conf option" where
  "ogs_sbi_nf_fsm_fini sw = nf_fsm_fini_with nf_handlers sw"

subsection \<open>The contract of the states\<close>

abbreviation all_timers :: "nf_timer set" where
  "all_timers \<equiv> {REGISTRATION_INTERVAL, HEARTBEAT_INTERVAL, NO_HEARTBEAT, VALIDITY}"

definition may_arm :: "nf_state \<Rightarrow> nf_instance \<Rightarrow> nf_timer set" where
  "may_arm h w =
     (if \<not> type_is_nrf w then {VALIDITY}
      else if h = NF_registered then
        (if heartbeat_interval w \<noteq> 0 then {HEARTBEAT_INTERVAL, NO_HEARTBEAT} else {})
      else {REGISTRATION_INTERVAL})"

fun nf_holds :: "nf_state option \<Rightarrow> nf_instance \<Rightarrow> bool" where
  "nf_holds None w \<longleftrightarrow> timers w = {} \<and> armed w = {}"
| "nf_holds (Some h) w \<longleftrightarrow> timers w = all_timers \<and> armed w \<subseteq> may_arm h w \<and>
     (if type_is_nrf w then h \<in> {NF_will_register, NF_registered, NF_exception}
      else h = NF_registered \<and> has_id w)"

definition nf_free :: "nf_state \<Rightarrow> nf_instance \<Rightarrow> bool" where
  "nf_free h w \<longleftrightarrow> timers w = all_timers \<and>
     (if type_is_nrf w then armed w = {} \<and> h \<in> {NF_will_register, NF_registered, NF_exception}
      else armed w \<subseteq> {VALIDITY} \<and> has_id w \<and> h \<in> {NF_registered, NF_de_registered})"

fun nf_user :: "nf_state \<Rightarrow> nf_event \<Rightarrow> unit \<Rightarrow> nf_instance \<Rightarrow> bool" where
  "nf_user h (SBI_TIMER t) d w \<longleftrightarrow> (t = VALIDITY \<longleftrightarrow> \<not> type_is_nrf w)"
| "nf_user h (SBI_CLIENT m) d w \<longleftrightarrow> type_is_nrf w"
| "nf_user h OTHER_EVENT d w \<longleftrightarrow> True"

lemmas nf_defs = nf_handlers_def with_data_def nf_state_will_register_def nf_state_registered_def
  nf_state_exception_def nf_state_de_registered_def nf_state_final_def registered_client_def
  registered_timer_def start_heartbeats_def stop_heartbeats_def on_inst_def nf_tran_def
  OGS_FSM_TRAN_def t_start_def t_stop_def t_delete_def act_def
  ogs_nnrf_nfm_handle_nf_register_def

lemma entry_results:
  "timers w = all_timers \<Longrightarrow> type_is_nrf w \<Longrightarrow>
     nf_handlers NF_will_register (Some (Event OGS_FSM_ENTRY_SIG (Some d))) (sm, w)
       = Some (sm, w\<lparr> armed := insert REGISTRATION_INTERVAL (armed w), actions := actions w @ [Send_Register] \<rparr>)"
  "timers w = all_timers \<Longrightarrow> type_is_nrf w \<Longrightarrow>
     nf_handlers NF_exception (Some (Event OGS_FSM_ENTRY_SIG (Some d))) (sm, w)
       = Some (sm, w\<lparr> armed := insert REGISTRATION_INTERVAL (armed w) \<rparr>)"
  "timers w = all_timers \<Longrightarrow> type_is_nrf w \<Longrightarrow>
     nf_handlers NF_registered (Some (Event OGS_FSM_ENTRY_SIG (Some d))) (sm, w)
       = Some (sm, w\<lparr> armed := (if heartbeat_interval w \<noteq> 0
              then insert NO_HEARTBEAT (insert HEARTBEAT_INTERVAL (armed w)) else armed w),
            actions := actions w @ [Subscribe_All, List_Retrieve] \<rparr>)"
  "\<not> type_is_nrf w \<Longrightarrow>
     nf_handlers NF_registered (Some (Event OGS_FSM_ENTRY_SIG (Some d))) (sm, w) = Some (sm, w)"
  by (simp_all add: nf_defs)

lemma de_registered_entry:
  "timers w = all_timers \<Longrightarrow> \<not> type_is_nrf w \<Longrightarrow> fsm_state sm = Some NF_de_registered \<Longrightarrow>
   fsm_fini sm = Some NF_final \<Longrightarrow>
   nf_handlers NF_de_registered (Some (Event OGS_FSM_ENTRY_SIG (Some d))) (sm, w)
     = Some (sm\<lparr> fsm_init := None, fsm_state := None, fsm_fini := None \<rparr>,
         w\<lparr> timers := {}, actions := actions w @ [Removed],
           armed := armed w - {REGISTRATION_INTERVAL} - {HEARTBEAT_INTERVAL} - {NO_HEARTBEAT} - {VALIDITY} \<rparr>)"
  by (simp add: nf_defs nf_fsm_fini_with_def nf_data_event_def ogs_fsm_fini_def fsm_exit_def
      set_signal_def)

lemma exit_results:
  "timers w = all_timers \<Longrightarrow> type_is_nrf w \<Longrightarrow>
     nf_handlers NF_will_register (Some (Event OGS_FSM_EXIT_SIG (Some d))) (sm, w)
       = Some (sm, w\<lparr> armed := armed w - {REGISTRATION_INTERVAL} \<rparr>)"
  "timers w = all_timers \<Longrightarrow> type_is_nrf w \<Longrightarrow>
     nf_handlers NF_exception (Some (Event OGS_FSM_EXIT_SIG (Some d))) (sm, w)
       = Some (sm, w\<lparr> armed := armed w - {REGISTRATION_INTERVAL} \<rparr>)"
  "timers w = all_timers \<Longrightarrow> type_is_nrf w \<Longrightarrow>
     nf_handlers NF_registered (Some (Event OGS_FSM_EXIT_SIG (Some d))) (sm, w)
       = Some (sm, if heartbeat_interval w \<noteq> 0
            then w\<lparr> armed := armed w - {HEARTBEAT_INTERVAL} - {NO_HEARTBEAT} \<rparr> else w)"
  "\<not> type_is_nrf w \<Longrightarrow>
     nf_handlers NF_registered (Some (Event OGS_FSM_EXIT_SIG (Some d))) (sm, w) = Some (sm, w)"
  by (simp_all add: nf_defs)

lemma nf_entry:
  assumes "nf_free h w" "fsm_state sm = Some h" "fsm_fini sm = Some NF_final"
  shows "\<exists>sm' w'. nf_handlers h (Some (Event OGS_FSM_ENTRY_SIG (Some d))) (sm, w) = Some (sm', w')
    \<and> nf_holds (fsm_state sm') w' \<and> (fsm_state sm' = None \<or> sm' = sm)"
proof (cases "type_is_nrf w")
  case True
  then have "timers w = all_timers" "armed w = {}" "h \<in> {NF_will_register, NF_registered, NF_exception}"
    using assms(1) by (auto simp: nf_free_def)
  with True assms(2) show ?thesis
    by (auto simp: entry_results may_arm_def)
next
  case False
  then have *: "timers w = all_timers" "armed w \<subseteq> {VALIDITY}" "has_id w" "h \<in> {NF_registered, NF_de_registered}"
    using assms(1) by (auto simp: nf_free_def)
  show ?thesis
  proof (cases "h = NF_registered")
    case True
    with False * assms(2) show ?thesis by (simp add: entry_results may_arm_def)
  next
    case h: False
    with False * assms(2,3) show ?thesis by (auto simp: de_registered_entry)
  qed
qed

definition user_ok :: "nf_state \<Rightarrow> nf_event \<Rightarrow> nf_conf \<Rightarrow> bool" where
  "user_ok h u sw \<longleftrightarrow> (\<exists>h' w'. nf_handlers h (Some (Event (USER_SIG u) (Some ()))) sw
       = Some ((fst sw)\<lparr> fsm_state := Some h' \<rparr>, w')
    \<and> (h' = h \<longrightarrow> nf_holds (Some h) w')
    \<and> (h' \<noteq> h \<longrightarrow> (\<exists>w''. nf_handlers h (Some (Event OGS_FSM_EXIT_SIG (Some ()))) ((fst sw)\<lparr> fsm_state := Some h' \<rparr>, w')
              = Some ((fst sw)\<lparr> fsm_state := Some h' \<rparr>, w'') \<and> nf_free h' w'')))"

lemma user_stay:
  "nf_handlers h (Some (Event (USER_SIG u) (Some ()))) (sm, w) = Some (sm, w') \<Longrightarrow>
   fsm_state sm = Some h \<Longrightarrow> nf_holds (Some h) w' \<Longrightarrow> user_ok h u (sm, w)"
  unfolding user_ok_def by (intro exI[of _ h] exI[of _ w']) (simp del: nf_holds.simps)

lemma user_leave:
  "nf_handlers h (Some (Event (USER_SIG u) (Some ()))) (sm, w) = Some (sm\<lparr> fsm_state := Some h' \<rparr>, w') \<Longrightarrow>
   h' \<noteq> h \<Longrightarrow>
   nf_handlers h (Some (Event OGS_FSM_EXIT_SIG (Some ()))) (sm\<lparr> fsm_state := Some h' \<rparr>, w')
     = Some (sm\<lparr> fsm_state := Some h' \<rparr>, w'') \<Longrightarrow> nf_free h' w'' \<Longrightarrow> user_ok h u (sm, w)"
  unfolding user_ok_def by (intro exI[of _ h'] exI[of _ w']) simp

lemma will_register_ok:
  assumes "nf_holds (Some NF_will_register) w" "fsm_state sm = Some NF_will_register" "nf_user NF_will_register u () w"
  shows "user_ok NF_will_register u (sm, w)"
proof -
  have w: "type_is_nrf w" "timers w = all_timers" "armed w \<subseteq> {REGISTRATION_INTERVAL}"
    using assms(1) by (auto simp: may_arm_def split: if_splits)
  then have a: "armed w - {REGISTRATION_INTERVAL} = {}" by blast
  have r: "timers (ogs_nnrf_nfm_handle_nf_register m w) = timers w"
    "type_is_nrf (ogs_nnrf_nfm_handle_nf_register m w) = type_is_nrf w"
    "armed (ogs_nnrf_nfm_handle_nf_register m w) = armed w" for m
    by (auto simp: ogs_nnrf_nfm_handle_nf_register_def split: option.splits)
  have leave: "user_ok NF_will_register u (sm, w)"
    if "nf_handlers NF_will_register (Some (Event (USER_SIG u) (Some ()))) (sm, w)
         = Some (sm\<lparr> fsm_state := Some h' \<rparr>, w')" "h' \<in> {NF_will_register, NF_registered, NF_exception} - {NF_will_register}"
      "timers w' = timers w" "armed w' = armed w" "type_is_nrf w'"
    for h' w'
    by (rule user_leave[OF that(1) _ exit_results(1)]) (use w a that in \<open>auto simp: nf_free_def\<close>)
  show ?thesis
  proof (cases u)
    case (SBI_CLIENT m)
    consider (ok) "m_nnrf_nfm m \<and> m_nf_instances m" "m_status m = 200 \<or> m_status m = 201"
      | (err) "m_nnrf_nfm m \<and> m_nf_instances m" "\<not> (m_status m = 200 \<or> m_status m = 201)"
      | (no) "\<not> (m_nnrf_nfm m \<and> m_nf_instances m)" by blast
    then show ?thesis
    proof cases
      case ok
      show ?thesis
        using w r ok by (intro leave[of NF_registered "ogs_nnrf_nfm_handle_nf_register m w"])
          (simp_all add: SBI_CLIENT nf_defs(1-3) on_inst_def nf_tran_def OGS_FSM_TRAN_def)
    next
      case err
      show ?thesis
        using w err by (intro leave[of NF_exception w])
          (simp_all add: SBI_CLIENT nf_defs(1-3) on_inst_def nf_tran_def OGS_FSM_TRAN_def)
    next
      case no
      show ?thesis
        by (rule user_stay[OF _ assms(2,1)]) (use w no in \<open>auto simp: SBI_CLIENT nf_defs(1-3)\<close>)
    qed
  next
    case (SBI_TIMER t)
    show ?thesis
    proof (cases "t = REGISTRATION_INTERVAL")
      case True
      show ?thesis
        by (rule user_stay[where w' = "act Send_Register (w\<lparr> armed := insert REGISTRATION_INTERVAL (armed w) \<rparr>)"])
          (use w assms(2) in \<open>simp_all add: True SBI_TIMER nf_defs may_arm_def\<close>)
    next
      case False
      show ?thesis
        by (rule user_stay[OF _ assms(2,1)]) (use w False in \<open>simp add: SBI_TIMER nf_defs(1-3)\<close>)
    qed
  next
    case OTHER_EVENT
    show ?thesis
      by (rule user_stay[OF _ assms(2,1)]) (use w in \<open>simp add: OTHER_EVENT nf_defs(1-3)\<close>)
  qed
qed

lemma exception_ok:
  assumes "nf_holds (Some NF_exception) w" "fsm_state sm = Some NF_exception" "nf_user NF_exception u () w"
  shows "user_ok NF_exception u (sm, w)"
proof (cases "u = SBI_TIMER REGISTRATION_INTERVAL")
  case True
  have w: "type_is_nrf w" "timers w = all_timers" "armed w \<subseteq> {REGISTRATION_INTERVAL}"
    using assms(1) by (auto simp: may_arm_def split: if_splits)
  then have a: "armed w - {REGISTRATION_INTERVAL} = {}" by blast
  have leave: "user_ok NF_exception u (sm, w)"
    if "nf_handlers NF_exception (Some (Event (USER_SIG u) (Some ()))) (sm, w)
         = Some (sm\<lparr> fsm_state := Some h' \<rparr>, w')" "h' \<in> {NF_will_register, NF_registered, NF_exception} - {NF_exception}"
      "timers w' = timers w" "armed w' = armed w" "type_is_nrf w'"
    for h' w'
    by (rule user_leave[OF that(1) _ exit_results(2)]) (use w a that in \<open>auto simp: nf_free_def\<close>)
  show ?thesis
    using w by (intro leave[of NF_will_register w]) (simp_all add: True nf_defs)
next
  case False
  then show ?thesis
    by (intro user_stay[OF _ assms(2,1)]) (auto simp: nf_defs split: nf_event.splits)
qed

lemma registered_ok:
  assumes "nf_holds (Some NF_registered) w" "fsm_state sm = Some NF_registered" "nf_user NF_registered u () w"
    and "type_is_nrf w"
  shows "user_ok NF_registered u (sm, w)"
proof -
  let ?hb = "{HEARTBEAT_INTERVAL, NO_HEARTBEAT}"
  have w: "timers w = all_timers" "armed w \<subseteq> (if heartbeat_interval w \<noteq> 0 then ?hb else {})"
    using assms(1,4) by (auto simp: may_arm_def)
  have leave: "user_ok NF_registered u (sm, w)"
    if "nf_handlers NF_registered (Some (Event (USER_SIG u) (Some ()))) (sm, w)
         = Some (sm\<lparr> fsm_state := Some h' \<rparr>, w')" "h' \<in> {NF_will_register, NF_exception}"
      "timers w' = timers w" "armed w' = armed w" "heartbeat_interval w' = heartbeat_interval w" "type_is_nrf w'"
    for h' w'
    by (rule user_leave[OF that(1) _ exit_results(3)]) (use w that in \<open>auto simp: nf_free_def split: if_splits\<close>)
  have stay: "user_ok NF_registered u (sm, w)"
    if "nf_handlers NF_registered (Some (Event (USER_SIG u) (Some ()))) (sm, w) = Some (sm, w')"
      "timers w' = timers w" "armed w' \<subseteq> may_arm NF_registered w" "heartbeat_interval w' = heartbeat_interval w" "type_is_nrf w'"
    for w'
    by (rule user_stay[OF that(1) assms(2)]) (use w that assms(4) in \<open>simp add: may_arm_def\<close>)
  show ?thesis
  proof (cases u)
    case (SBI_CLIENT m)
    show ?thesis
    proof (cases "m_nnrf_nfm m \<and> m_nf_instances m \<and> m_component1 m")
      case True
      note m = True SBI_CLIENT
      show ?thesis
      proof (cases "m_method m")
        case M_PATCH
        consider "m_status m = 204 \<or> m_status m = 200" "heartbeat_interval w \<noteq> 0"
          | "m_status m = 204 \<or> m_status m = 200" "heartbeat_interval w = 0"
          | "\<not> (m_status m = 204 \<or> m_status m = 200)" by blast
        then show ?thesis
        proof cases
          case 1
          then show ?thesis
            using w assms(4) by (intro stay[of "w\<lparr> armed := insert NO_HEARTBEAT (armed w) \<rparr>"])
              (auto simp: m M_PATCH nf_defs may_arm_def)
        next
          case 2
          then show ?thesis
            using w assms(4) by (intro stay[of w]) (auto simp: m M_PATCH nf_defs may_arm_def)
        next
          case 3
          then show ?thesis
            using assms(4) by (intro leave[of NF_exception w]) (auto simp: m M_PATCH nf_defs)
        qed
      next
        case M_GET
        show ?thesis
        proof (cases "m_status m = 200")
          case True
          then show ?thesis
            using w assms(4) by (intro stay[of "if m_profile m = None then w else act Handle_Profile w"])
              (auto simp: m M_GET nf_defs may_arm_def)
        next
          case False
          then show ?thesis
            using assms(4) by (intro leave[of NF_exception w]) (auto simp: m M_GET nf_defs)
        qed
      next
        case M_OTHER
        then show ?thesis
          using w assms(4) by (intro stay[of w]) (auto simp: m nf_defs may_arm_def)
      qed
    next
      case False
      then show ?thesis
        using w assms(4)
        by (intro stay[of "if m_nnrf_nfm m \<and> m_nf_instances m \<and> m_links m \<and> m_status m = 200
              then act Handle_Links w else w"])
          (auto simp: SBI_CLIENT nf_defs may_arm_def)
    qed
  next
    case (SBI_TIMER t)
    show ?thesis
    proof (cases t)
      case REGISTRATION_INTERVAL
      then show ?thesis
        using w assms(4) by (intro stay[of w]) (auto simp: SBI_TIMER nf_defs may_arm_def)
    next
      case HEARTBEAT_INTERVAL
      then show ?thesis
        using w assms(4)
        by (intro stay[of "act Send_Update (if heartbeat_interval w \<noteq> 0
              then w\<lparr> armed := insert HEARTBEAT_INTERVAL (armed w) \<rparr> else w)"])
          (auto simp: SBI_TIMER nf_defs may_arm_def)
    next
      case NO_HEARTBEAT
      then show ?thesis
        using assms(4) by (intro leave[of NF_will_register "act Drop_Subscriptions w"])
          (auto simp: SBI_TIMER nf_defs)
    next
      case VALIDITY
      then show ?thesis using assms(3,4) SBI_TIMER by simp
    qed
  next
    case OTHER_EVENT
    then show ?thesis
      using w assms(4) by (intro stay[of w]) (auto simp: nf_defs may_arm_def)
  qed
qed

lemma other_registered_ok:
  assumes "nf_holds (Some NF_registered) w" "fsm_state sm = Some NF_registered" "nf_user NF_registered u () w"
    and "\<not> type_is_nrf w"
  shows "user_ok NF_registered u (sm, w)"
proof -
  have w: "timers w = all_timers" "armed w \<subseteq> {VALIDITY}" "has_id w"
    using assms(1,4) by (auto simp: may_arm_def)
  consider "u = SBI_TIMER VALIDITY" | "u = OTHER_EVENT" using assms(3,4) by (cases u) auto
  then show ?thesis
  proof cases
    case 1
    have "nf_handlers NF_registered (Some (Event (USER_SIG u) (Some ()))) (sm, w)
        = Some (sm\<lparr> fsm_state := Some NF_de_registered \<rparr>, w)"
      using w assms(4) by (simp add: 1 nf_defs)
    from user_leave[OF this _ exit_results(4)[OF assms(4)]] show ?thesis
      using w assms(4) by (simp add: nf_free_def)
  next
    case 2
    show ?thesis
      by (rule user_stay[OF _ assms(2,1)]) (simp add: 2 nf_defs)
  qed
qed

interpretation nf: fsm_client nf_handlers "Some NF_final" nf_holds nf_free nf_user
proof
  fix h w and sm :: nf_fsm and u and d :: unit
  assume a: "nf_holds (Some h) w" "fsm_state sm = Some h" "nf_user h u d w"
  then consider "h = NF_will_register" | "h = NF_exception" | "h = NF_registered" by (auto split: if_splits)
  then have "user_ok h u (sm, w)"
    using a will_register_ok[of w sm u] exception_ok[of w sm u] registered_ok[of w sm u]
      other_registered_ok[of w sm u] by cases (simp_all del: nf_holds.simps, blast)
  then show "\<exists>h' w'. nf_handlers h (Some (Event (USER_SIG u) (Some d))) (sm, w) = Some (sm\<lparr> fsm_state := Some h' \<rparr>, w')
    \<and> (h' = h \<longrightarrow> nf_holds (Some h) w')
    \<and> (h' \<noteq> h \<longrightarrow> (\<exists>w''. nf_handlers h (Some (Event OGS_FSM_EXIT_SIG (Some d))) (sm\<lparr> fsm_state := Some h' \<rparr>, w')
              = Some (sm\<lparr> fsm_state := Some h' \<rparr>, w'') \<and> nf_free h' w''))"
    by (simp add: user_ok_def)
qed (rule nf_entry)

subsection \<open>Runs\<close>

text \<open>
  The main loop around one instance: an armed timer expires and posts its event; the event at
  the head of the queue is dispatched (\<open>ogs_assert(OGS_FSM_STATE(&nf_instance->sm))\<close> and
  \<open>ogs_fsm_dispatch\<close> in the state machine of the network function); a response of the NRF
  is dispatched if the machine is alive; the shutdown, or the NRF's notification that the
  instance is gone, finishes the machine.

  A notification of the NRF or the result of a discovery hands the profile of an instance to
  \<open>ogs_nnrf_nfm_handle_nf_profile\<close>, which assigns the type of the instance and its heartbeat
  interval; a discovery also starts the validity timer. Both find the instance by its id
  (\<open>ogs_sbi_nf_instance_find\<close>). The entry a network function makes for its own NRF is
  configured without an id, so no profile reaches it. The parameter \<open>plain\<close> restricts the
  runs to those in which no profile is one of an NRF, and none is one of an instance that
  already is an NRF.
\<close>

definition nf_dispatch :: "nf_event \<Rightarrow> nf_conf \<Rightarrow> nf_conf option" where
  "nf_dispatch u sw = ogs_fsm_dispatch nf_handlers (Some (Event (USER_SIG u) (Some ()))) sw"

inductive nf_step :: "bool \<Rightarrow> nf_conf \<times> nf_timer list \<Rightarrow> nf_conf \<times> nf_timer list \<Rightarrow> bool"
  for plain where
  expire: "t \<in> armed w \<Longrightarrow> nf_step plain ((sm, w), q) ((sm, w\<lparr> armed := armed w - {t} \<rparr>), q @ [t])"
| timer_event: "nf_dispatch (SBI_TIMER t) sw = Some sw' \<Longrightarrow> nf_step plain (sw, t # q) (sw', q)"
| response: "type_is_nrf (snd sw) \<Longrightarrow> fsm_state (fst sw) \<noteq> None \<Longrightarrow>
     nf_dispatch (SBI_CLIENT m) sw = Some sw' \<Longrightarrow> nf_step plain (sw, q) (sw', q)"
| profile: "has_id w \<Longrightarrow> (plain \<Longrightarrow> \<not> type_is_nrf w \<and> \<not> is_nrf) \<Longrightarrow>
     nf_step plain ((sm, w), q) ((sm, w\<lparr> heartbeat_interval := n, type_is_nrf := is_nrf \<rparr>), q)"
| validity: "has_id w \<Longrightarrow> (plain \<Longrightarrow> \<not> type_is_nrf w) \<Longrightarrow> t_start VALIDITY w = Some w' \<Longrightarrow>
     nf_step plain ((sm, w), q) ((sm, w'), q)"
| finish: "fsm_state (fst sw) \<noteq> None \<Longrightarrow> ogs_sbi_nf_fsm_fini sw = Some (sm, w) \<Longrightarrow>
     nf_step plain (sw, q) ((sm, act Removed w), q)"

definition nf_fresh :: "nf_instance \<Rightarrow> bool" where
  "nf_fresh w \<longleftrightarrow> timers w = {} \<and> armed w = {} \<and> (type_is_nrf w \<or> has_id w)"

text \<open>The timers that lead back to the NRF: in the two states without a registration the retry,
  with one (and heartbeats agreed on) the heartbeat and its supervision.\<close>

definition needed :: "nf_state \<Rightarrow> nf_instance \<Rightarrow> nf_timer set" where
  "needed h w = (if h = NF_registered then
       (if heartbeat_interval w \<noteq> 0 then {HEARTBEAT_INTERVAL, NO_HEARTBEAT} else {})
     else {REGISTRATION_INTERVAL})"

definition nf_inv :: "nf_conf \<times> nf_timer list \<Rightarrow> bool" where
  "nf_inv s = (case s of ((sm, w), q) \<Rightarrow>
     nf_holds (fsm_state sm) w \<and> (fsm_state sm \<noteq> None \<longrightarrow> fsm_fini sm = Some NF_final)
     \<and> (if type_is_nrf w then VALIDITY \<notin> set q else set q \<subseteq> {VALIDITY})
     \<and> (\<forall>h. fsm_state sm = Some h \<and> type_is_nrf w \<longrightarrow> needed h w \<subseteq> armed w \<union> set q))"

declare nf_holds.simps(2) [simp del]

lemma holds_typed:
  "nf_holds (Some h) w \<Longrightarrow> timers w = all_timers \<and> armed w \<subseteq> may_arm h w \<and>
     (if type_is_nrf w then h \<in> {NF_will_register, NF_registered, NF_exception}
      else h = NF_registered \<and> has_id w)"
  by (rule nf_holds.simps(2)[THEN iffD1])

lemma user_keeps:
  assumes "nf_handlers h (Some (Event (USER_SIG u) (Some ()))) (sm, w) = Some (sm', w')"
    and "fsm_state sm' = Some h" "type_is_nrf w" "h \<in> {NF_will_register, NF_registered, NF_exception}"
  shows "armed w \<subseteq> armed w' \<and> heartbeat_interval w' = heartbeat_interval w
    \<and> (\<forall>t \<in> needed h w. u = SBI_TIMER t \<longrightarrow> t \<in> armed w')"
  using assms
  by (cases h; cases u)
    (auto simp: nf_defs needed_def split: if_splits nf_timer.splits nf_method.splits)

lemma entry_needed:
  assumes "nf_free h w" "type_is_nrf w"
    and "nf_handlers h (Some (Event OGS_FSM_ENTRY_SIG (Some ()))) (sm, w) = Some (sm', w')"
  shows "sm' = sm \<and> needed h w' \<subseteq> armed w' \<and> type_is_nrf w'"
proof -
  have "timers w = all_timers" "h \<in> {NF_will_register, NF_registered, NF_exception}"
    using assms by (auto simp: nf_free_def)
  with assms show ?thesis by (auto simp: entry_results needed_def)
qed

text \<open>One dispatch in a live state: it does not abort, keeps the contract and, for the NRF,
  leaves every needed timer armed that was not armed or on its way before.\<close>

lemma dispatch_live:
  assumes "nf_holds (Some h) w" "fsm_state sm = Some h" "fsm_fini sm = Some NF_final" "nf_user h u () w"
  shows "\<exists>sm' w'. nf_dispatch u (sm, w) = Some (sm', w') \<and> nf_holds (fsm_state sm') w'
    \<and> (fsm_state sm' \<noteq> None \<longrightarrow> fsm_fini sm' = Some NF_final)"
  using nf.dispatch_holds[OF assms] unfolding nf_dispatch_def by auto

text \<open>What no handler changes: whether the instance is one of the NRF, and whether it has an
  id.\<close>

definition nf_kind :: "nf_instance \<Rightarrow> bool \<times> bool" where
  "nf_kind w = (type_is_nrf w, has_id w)"

lemma nf_kindD:
  "nf_kind w' = nf_kind w \<Longrightarrow> type_is_nrf w' = type_is_nrf w"
  "nf_kind w' = nf_kind w \<Longrightarrow> has_id w' = has_id w"
  by (simp_all add: nf_kind_def)

definition keeps_type :: "(nf_conf \<Rightarrow> nf_conf option) \<Rightarrow> bool" where
  "keeps_type f \<longleftrightarrow> (\<forall>sw sw'. f sw = Some sw' \<longrightarrow> nf_kind (snd sw') = nf_kind (snd sw))"

lemma keeps_typeD: "keeps_type f \<Longrightarrow> f sw = Some sw' \<Longrightarrow> nf_kind (snd sw') = nf_kind (snd sw)"
  unfolding keeps_type_def by blast

lemma keeps_on_inst:
  "(\<And>w w'. f w = Some w' \<Longrightarrow> nf_kind w' = nf_kind w) \<Longrightarrow> keeps_type (on_inst f)"
  unfolding keeps_type_def on_inst_def by auto

lemma keeps_simple: "keeps_type Some" "keeps_type (nf_tran h)" "keeps_type (\<lambda>sw. None)"
  by (auto simp: keeps_type_def nf_tran_def)

lemma keeps_bind: "keeps_type f \<Longrightarrow> keeps_type g \<Longrightarrow> keeps_type (\<lambda>sw. Option.bind (f sw) g)"
  unfolding keeps_type_def bind_eq_Some_conv by metis

lemma keeps_if: "keeps_type f \<Longrightarrow> keeps_type g \<Longrightarrow> keeps_type (\<lambda>sw. if P sw then f sw else g sw)"
  by (auto simp del: split_paired_All simp: keeps_type_def)

lemma timers_keep_type:
  "t_start t w = Some w' \<Longrightarrow> nf_kind w' = nf_kind w"
  "t_stop t w = Some w' \<Longrightarrow> nf_kind w' = nf_kind w"
  "t_delete t w = Some w' \<Longrightarrow> nf_kind w' = nf_kind w"
  by (auto simp: t_start_def t_stop_def t_delete_def nf_kind_def split: if_splits)

lemma act_keep_type:
  "nf_kind (act a w) = nf_kind w"
  "nf_kind (ogs_nnrf_nfm_handle_nf_register m w) = nf_kind w"
  by (auto simp: act_def ogs_nnrf_nfm_handle_nf_register_def nf_kind_def split: option.splits)

lemma keeps_signal:
  "keeps_type f \<Longrightarrow> keeps_type g \<Longrightarrow> (\<And>u. keeps_type (h u)) \<Longrightarrow>
   keeps_type (\<lambda>sw. case e of OGS_FSM_ENTRY_SIG \<Rightarrow> f sw | OGS_FSM_EXIT_SIG \<Rightarrow> g sw | USER_SIG u \<Rightarrow> h u sw)"
  by (cases e) simp_all

lemma keeps_event:
  "(\<And>m. keeps_type (f m)) \<Longrightarrow> (\<And>t. keeps_type (g t)) \<Longrightarrow> keeps_type h \<Longrightarrow>
   keeps_type (\<lambda>sw. case u of SBI_CLIENT m \<Rightarrow> f m sw | SBI_TIMER t \<Rightarrow> g t sw | OTHER_EVENT \<Rightarrow> h sw)"
  by (cases u) simp_all

lemma keeps_method:
  "keeps_type f \<Longrightarrow> keeps_type g \<Longrightarrow> keeps_type h \<Longrightarrow>
   keeps_type (\<lambda>sw. case k of M_PATCH \<Rightarrow> f sw | M_GET \<Rightarrow> g sw | M_OTHER \<Rightarrow> h sw)"
  by (cases k) simp_all

lemma keeps_timer:
  "keeps_type f \<Longrightarrow> keeps_type g \<Longrightarrow> keeps_type h \<Longrightarrow> keeps_type k \<Longrightarrow>
   keeps_type (\<lambda>sw. case t of REGISTRATION_INTERVAL \<Rightarrow> f sw | HEARTBEAT_INTERVAL \<Rightarrow> g sw
     | NO_HEARTBEAT \<Rightarrow> h sw | VALIDITY \<Rightarrow> k sw)"
  by (cases t) simp_all

lemmas keeps_rules = keeps_signal keeps_event keeps_method keeps_timer keeps_on_inst keeps_simple keeps_bind keeps_if

lemma states_keep_type:
  "keeps_type nf_state_initial" "keeps_type nf_state_final" "keeps_type (nf_state_will_register e)"
  "keeps_type (nf_state_registered e)" "keeps_type (nf_state_exception e)"
proof -
  show "keeps_type nf_state_initial" "keeps_type nf_state_final"
    unfolding nf_state_initial_def nf_state_final_def
    by (intro keeps_rules; auto simp: bind_eq_Some_conv nf_kind_def dest: timers_keep_type[unfolded nf_kind_def])+
  show "keeps_type (nf_state_exception e)"
    unfolding nf_state_exception_def
    by (intro keeps_rules) (auto dest: timers_keep_type split: if_splits)
  show "keeps_type (nf_state_will_register e)"
    unfolding nf_state_will_register_def
    by (intro keeps_rules) (auto simp: act_keep_type dest: timers_keep_type split: if_splits)
  have "keeps_type (registered_client m)" for m
    unfolding registered_client_def
    by (intro keeps_rules) (auto simp: act_keep_type dest: timers_keep_type split: if_splits)
  moreover have "keeps_type (registered_timer t)" for t
    unfolding registered_timer_def
    by (intro keeps_rules) (auto simp: act_keep_type dest: timers_keep_type split: if_splits)
  ultimately show "keeps_type (nf_state_registered e)"
    unfolding nf_state_registered_def start_heartbeats_def stop_heartbeats_def
    by (intro keeps_rules) (auto simp: act_keep_type bind_eq_Some_conv dest!: timers_keep_type
        split: if_splits)
qed

lemma leaf_keeps_type: "keeps_type (nf_leaf_handlers h e)"
proof -
  have "keeps_type (with_data f e)" if "\<And>i. keeps_type (f i)" for f
    using that by (auto simp del: split_paired_All simp: with_data_def keeps_type_def split: option.splits)
  then show ?thesis by (cases h) (simp_all add: states_keep_type keeps_simple)
qed

lemma fini_keeps_type:
  assumes "\<And>h e. keeps_type (run h e)"
  shows "keeps_type (nf_fsm_fini_with run)"
proof -
  have "keeps_type (ogs_fsm_fini run e)" for e
    unfolding keeps_type_def ogs_fsm_fini_def fsm_exit_def
    by (auto simp: bind_eq_Some_conv dest!: keeps_typeD[OF assms] split: if_splits option.splits)
  from keeps_typeD[OF this] show ?thesis
    unfolding keeps_type_def nf_fsm_fini_with_def by (force simp: act_keep_type split: if_splits)
qed

lemma handlers_keep_type: "keeps_type (nf_handlers h e)"
proof (cases "h = NF_de_registered")
  case True
  have "keeps_type (nf_state_de_registered i)" for i
    unfolding keeps_type_def nf_state_de_registered_def
    by (auto simp: act_keep_type dest!: keeps_typeD[OF fini_keeps_type[OF leaf_keeps_type]])
  from keeps_typeD[OF this] True show ?thesis
    unfolding keeps_type_def nf_handlers_def with_data_def
    by (auto simp del: split_paired_All split: option.splits if_splits)
next
  case False
  then show ?thesis using leaf_keeps_type by (simp add: nf_handlers_def)
qed

lemma dispatch_keeps_type: "keeps_type (nf_dispatch u)"
  unfolding keeps_type_def nf_dispatch_def ogs_fsm_dispatch_def fsm_change_def fsm_exit_def fsm_entry_def
  by (auto simp del: split_paired_All simp: bind_eq_Some_conv
      dest!: keeps_typeD[OF handlers_keep_type] split: if_splits option.splits)

lemma dispatch_needed:
  assumes "nf_holds (Some h) w" "fsm_state sm = Some h" "nf_user h u () w" "type_is_nrf w"
    and "nf_dispatch u (sm, w) = Some (sm', w')" "fsm_state sm' = Some h'"
  shows "needed h' w' \<subseteq> armed w' \<or> (h' = h \<and> armed w \<subseteq> armed w' \<and> needed h w' = needed h w
    \<and> (\<forall>t \<in> needed h w. u = SBI_TIMER t \<longrightarrow> t \<in> armed w'))"
proof -
  have h: "h \<in> {NF_will_register, NF_registered, NF_exception}"
    using holds_typed[OF assms(1)] assms(4) by simp
  have "user_ok h u (sm, w)"
    using h assms will_register_ok[of w sm u] exception_ok[of w sm u] registered_ok[of w sm u] by blast
  then obtain h1 w1 where u: "nf_handlers h (Some (Event (USER_SIG u) (Some ()))) (sm, w)
       = Some (sm\<lparr> fsm_state := Some h1 \<rparr>, w1)"
    "h1 \<noteq> h \<longrightarrow> (\<exists>w2. nf_handlers h (Some (Event OGS_FSM_EXIT_SIG (Some ()))) (sm\<lparr> fsm_state := Some h1 \<rparr>, w1)
              = Some (sm\<lparr> fsm_state := Some h1 \<rparr>, w2) \<and> nf_free h1 w2)"
    by (auto simp: user_ok_def)
  show ?thesis
  proof (cases "h1 = h")
    case True
    with u assms(2,5) have "sm' = sm\<lparr> fsm_state := Some h \<rparr>" "w' = w1"
      by (auto simp: nf_dispatch_def ogs_fsm_dispatch_def)
    with user_keeps[OF _ _ assms(4) h] u True assms(6) show ?thesis
      by (auto simp: needed_def)
  next
    case False
    with u obtain w2 where x: "nf_handlers h (Some (Event OGS_FSM_EXIT_SIG (Some ()))) (sm\<lparr> fsm_state := Some h1 \<rparr>, w1)
              = Some (sm\<lparr> fsm_state := Some h1 \<rparr>, w2)" "nf_free h1 w2" by blast
    with u(1) False assms(2,5)
    have e: "nf_handlers h1 (Some (Event OGS_FSM_ENTRY_SIG (Some ()))) (sm\<lparr> fsm_state := Some h1 \<rparr>, w2) = Some (sm', w')"
      by (simp add: nf_dispatch_def ogs_fsm_dispatch_def fsm_change_def fsm_exit_def fsm_entry_def set_signal_def)
    have "type_is_nrf w2"
      using handlers_keep_type[of h] u(1) x(1) assms(4) unfolding keeps_type_def by (metis nf_kindD(1) snd_conv)
    from entry_needed[OF x(2) this e] assms(6) show ?thesis by auto
  qed
qed

lemma final_result:
  "timers w = all_timers \<Longrightarrow> nf_handlers NF_final (Some (Event i (Some d))) (sm, w)
     = Some (sm, w\<lparr> timers := {}, armed := armed w - {REGISTRATION_INTERVAL} - {HEARTBEAT_INTERVAL} - {NO_HEARTBEAT} - {VALIDITY} \<rparr>)"
  by (simp add: nf_defs)

lemma exit_live:
  assumes "nf_holds (Some h) w" "fsm_state sm = Some h"
  shows "\<exists>w'. nf_handlers h (Some (Event OGS_FSM_EXIT_SIG (Some d))) (sm, w) = Some (sm, w')
    \<and> timers w' = all_timers"
proof -
  from holds_typed[OF assms(1)] consider "type_is_nrf w" "h \<in> {NF_will_register, NF_registered, NF_exception}"
    | "\<not> type_is_nrf w" "h = NF_registered" by presburger
  then show ?thesis
    using holds_typed[OF assms(1)] by cases (auto simp: exit_results)
qed

lemma no_timers: "armed w - {REGISTRATION_INTERVAL} - {HEARTBEAT_INTERVAL} - {NO_HEARTBEAT} - {VALIDITY} = {}"
proof -
  have "t \<in> all_timers" for t by (cases t) auto
  then show ?thesis by blast
qed

lemma fini_live:
  assumes "nf_holds (Some h) w" "fsm_state sm = Some h" "fsm_fini sm = Some NF_final"
    and "\<not> (type_is_nrf w \<and> h = NF_registered) \<or> send_ok w"
  shows "\<exists>sm' w'. ogs_sbi_nf_fsm_fini (sm, w) = Some (sm', w') \<and> fsm_state sm' = None
    \<and> timers w' = {} \<and> armed w' = {}"
proof -
  define v where "v = (if type_is_nrf w \<and> h = NF_registered then act Send_De_Register w else w)"
  have "nf_holds (Some h) v"
    using assms(1) by (auto simp: v_def nf_holds.simps(2) act_def may_arm_def)
  from exit_live[OF this assms(2)] obtain w' where
    x: "nf_handlers h (Some (Event OGS_FSM_EXIT_SIG (Some ()))) (sm, v) = Some (sm, w')" "timers w' = all_timers"
    by blast
  have "h \<noteq> NF_final" using holds_typed[OF assms(1)] by (auto split: if_splits)
  moreover have "ogs_sbi_nf_fsm_fini (sm, w) = ogs_fsm_fini nf_handlers nf_data_event (sm, v)"
    using assms(2,4) by (auto simp: ogs_sbi_nf_fsm_fini_def nf_fsm_fini_with_def v_def)
  ultimately show ?thesis
    using x(1) final_result[OF x(2)] no_timers[of w'] assms(2,3)
    by (simp add: ogs_fsm_fini_def fsm_exit_def set_signal_def nf_data_event_def)
qed

lemma fini_result:
  assumes "nf_holds (Some h) w" "fsm_state sm = Some h" "fsm_fini sm = Some NF_final"
    and "ogs_sbi_nf_fsm_fini (sm, w) = Some (sm', w')"
  shows "fsm_state sm' = None \<and> timers w' = {} \<and> armed w' = {}"
proof -
  have "\<not> (type_is_nrf w \<and> h = NF_registered) \<or> send_ok w"
    using assms(2,4) by (auto simp: ogs_sbi_nf_fsm_fini_def nf_fsm_fini_with_def split: if_splits)
  from fini_live[OF assms(1-3) this] assms(4) show ?thesis by auto
qed

lemma nf_init:
  assumes "nf_fresh w"
  shows "\<exists>c. ogs_sbi_nf_fsm_init w = Some c \<and> nf_inv (c, []) \<and> fsm_state (fst c) \<noteq> None"
proof (cases "type_is_nrf w")
  case True
  with assms show ?thesis
    by (simp add: nf_fresh_def ogs_sbi_nf_fsm_init_def ogs_fsm_init_def nf_data_event_def
        nf_handlers_def with_data_def nf_state_initial_def on_inst_def nf_tran_def OGS_FSM_TRAN_def
        fsm_entry_def set_signal_def nf_state_will_register_def t_start_def act_def
        nf_inv_def nf_holds.simps(2) may_arm_def needed_def)
next
  case False
  with assms show ?thesis
    by (simp add: nf_fresh_def ogs_sbi_nf_fsm_init_def ogs_fsm_init_def nf_data_event_def
        nf_handlers_def with_data_def nf_state_initial_def on_inst_def nf_tran_def OGS_FSM_TRAN_def
        fsm_entry_def set_signal_def nf_state_registered_def
        nf_inv_def nf_holds.simps(2) may_arm_def)
qed

lemma dispatch_inv:
  assumes "nf_holds (fsm_state sm) w" "fsm_state sm \<noteq> None \<longrightarrow> fsm_fini sm = Some NF_final"
    and "if type_is_nrf w then VALIDITY \<notin> set q else set q \<subseteq> {VALIDITY}"
    and "\<forall>h. fsm_state sm = Some h \<and> type_is_nrf w \<longrightarrow> needed h w \<subseteq> armed w \<union> set q \<union> {t. u = SBI_TIMER t}"
    and "\<And>h. fsm_state sm = Some h \<Longrightarrow> nf_user h u () w"
    and "nf_dispatch u (sm, w) = Some c"
  shows "nf_inv (c, q)"
proof -
  obtain h where h: "fsm_state sm = Some h"
    using assms(6) by (auto simp: nf_dispatch_def ogs_fsm_dispatch_def split: option.splits)
  obtain sm' w' where c: "c = (sm', w')" by (cases c)
  have live: "nf_holds (fsm_state sm') w'" "fsm_state sm' \<noteq> None \<longrightarrow> fsm_fini sm' = Some NF_final"
    using dispatch_live[of h w sm u] assms(1,2,6) assms(5)[OF h] h c by auto
  have type: "type_is_nrf w' = type_is_nrf w"
    using nf_kindD(1)[OF keeps_typeD[OF dispatch_keeps_type assms(6)]] c by simp
  have "needed h' w' \<subseteq> armed w' \<union> set q" if "fsm_state sm' = Some h'" "type_is_nrf w'" for h'
  proof -
    have "nf_holds (Some h) w" "type_is_nrf w" using assms(1) h that(2) type by simp_all
    from dispatch_needed[OF this(1) h assms(5)[OF h] this(2) assms(6)[unfolded c] that(1)]
    show ?thesis using assms(4) h \<open>type_is_nrf w\<close> by (elim disjE conjE) blast+
  qed
  then show ?thesis using live type assms(3) c by (simp add: nf_inv_def)
qed

text \<open>An id stays; only the instances with an id are reached by profiles.\<close>

lemma nf_step_has_id: "nf_step plain s s' \<Longrightarrow> has_id (snd (fst s')) = has_id (snd (fst s))"
proof (induction rule: nf_step.induct)
  case (timer_event t sw sw' q)
  then show ?case using nf_kindD(2)[OF keeps_typeD[OF dispatch_keeps_type]] by simp
next
  case (response sw m sw' q)
  then show ?case using nf_kindD(2)[OF keeps_typeD[OF dispatch_keeps_type]] by simp
next
  case (finish sw sm w q)
  then show ?case
    using nf_kindD(2)[OF keeps_typeD[OF fini_keeps_type[OF handlers_keep_type], where sw = sw and sw' = "(sm, w)"]]
    by (simp add: ogs_sbi_nf_fsm_fini_def act_def)
qed (auto simp: t_start_def split: if_splits)

lemma nf_inv_step:
  "nf_step plain s s' \<Longrightarrow> plain \<or> \<not> has_id (snd (fst s)) \<Longrightarrow> nf_inv s \<Longrightarrow> nf_inv s'"
proof (induction rule: nf_step.induct)
  case (expire t w sm q)
  then obtain h where h: "fsm_state sm = Some h" by (cases "fsm_state sm") (auto simp: nf_inv_def)
  with expire have "t \<in> may_arm h w" using holds_typed[of h w] by (auto simp: nf_inv_def)
  then have "if type_is_nrf w then t \<noteq> VALIDITY else t = VALIDITY"
    by (auto simp: may_arm_def split: if_splits)
  with expire show ?case
    by (cases "fsm_state sm") (auto simp: nf_inv_def nf_holds.simps(2) may_arm_def needed_def split: if_splits)
next
  case (timer_event t sw sw' q)
  obtain sm w where "sw = (sm, w)" by (cases sw)
  with timer_event show ?case
    by (intro dispatch_inv[of sm w q "SBI_TIMER t" sw']) (auto simp: nf_inv_def split: if_splits)
next
  case (response sw m sw' q)
  obtain sm w where "sw = (sm, w)" by (cases sw)
  with response show ?case
    by (intro dispatch_inv[of sm w q "SBI_CLIENT m" sw']) (auto simp: nf_inv_def split: if_splits)
next
  case (profile w is_nrf sm q n)
  then show ?case
    by (cases "fsm_state sm") (auto simp: nf_inv_def nf_holds.simps(2) may_arm_def)
next
  case (validity w w' sm q)
  then show ?case
    by (cases "fsm_state sm") (auto simp: nf_inv_def nf_holds.simps(2) may_arm_def t_start_def split: if_splits)
next
  case (finish sw sm w q)
  obtain sm0 w0 h where sw: "sw = (sm0, w0)" "fsm_state sm0 = Some h" using finish(1) by (cases sw) auto
  have "type_is_nrf w = type_is_nrf w0"
    using keeps_typeD[OF fini_keeps_type[OF handlers_keep_type]] finish(2) sw
    by (intro nf_kindD(1)) (auto simp: ogs_sbi_nf_fsm_fini_def)
  with finish fini_result[of h w0 sm0 sm w] sw show ?case
    by (auto simp: nf_inv_def act_def)
qed

definition nf_reach :: "bool \<Rightarrow> nf_instance \<Rightarrow> nf_conf \<times> nf_timer list \<Rightarrow> bool" where
  "nf_reach plain w0 s \<longleftrightarrow>
     (\<exists>c. ogs_sbi_nf_fsm_init w0 = Some c \<and> (nf_step plain)\<^sup>*\<^sup>* (c, []) s)"

lemma init_keeps_type: "keeps_type (\<lambda>(sm, w). ogs_sbi_nf_fsm_init w)"
  unfolding keeps_type_def ogs_sbi_nf_fsm_init_def ogs_fsm_init_def fsm_entry_def
  by (auto simp del: split_paired_All simp: bind_eq_Some_conv
      dest!: keeps_typeD[OF handlers_keep_type] split: if_splits option.splits)

lemma nf_reach_inv:
  assumes "plain \<or> \<not> has_id w0" "nf_fresh w0" "nf_reach plain w0 s"
  shows "nf_inv s"
proof -
  obtain c where c: "ogs_sbi_nf_fsm_init w0 = Some c" "(nf_step plain)\<^sup>*\<^sup>* (c, []) s"
    using assms(3) by (auto simp: nf_reach_def)
  have i: "nf_inv (c, [])" using nf_init[OF assms(2)] c(1) by auto
  have "has_id (snd c) = has_id w0" using nf_kindD(2)[OF keeps_typeD[OF init_keeps_type, of "(_, w0)" c]] c(1) by simp
  with assms(1) have p: "plain \<or> \<not> has_id (snd (fst (c, [] :: nf_timer list)))" by simp
  from c(2) have "nf_inv s \<and> (plain \<or> \<not> has_id (snd (fst s)))"
    by (induction rule: rtranclp_induct) (use i p in \<open>auto dest: nf_inv_step nf_step_has_id\<close>)
  then show ?thesis by simp
qed

subsection \<open>Properties\<close>


text \<open>C18. The registration is always supervised, in every run for the client's own NRF, which
  has no id, and in every run in which no profile of an NRF is announced. As long as the machine for
  the NRF is live, the timer that leads back to a registration is armed or its event is in the
  queue: the retry timer before a registration and after a failure, and with a registration with
  heartbeats both the heartbeat and its supervision.\<close>

theorem nf_supervised:
  assumes "plain \<or> \<not> has_id w0" "nf_fresh w0" "nf_reach plain w0 ((sm, w), q)"
    and "fsm_state sm = Some h" "type_is_nrf w"
  shows "needed h w \<subseteq> armed w \<union> set q"
  using nf_reach_inv[OF assms(1-3)] assms(4,5) by (simp add: nf_inv_def)

text \<open>A timer event may outlive its instance. When the validity timer of another instance has
  expired and, before its event is handled, the NRF announces that the instance is gone, the
  instance is finished and removed with the event still in the queue; handling it aborts the
  network function.\<close>

lemma other_instance_inits:
  assumes "nf_fresh w0" "\<not> type_is_nrf w0"
  obtains sm w where "ogs_sbi_nf_fsm_init w0 = Some (sm, w)" "fsm_state sm = Some NF_registered"
    "fsm_fini sm = Some NF_final" "nf_holds (Some NF_registered) w" "\<not> type_is_nrf w" "has_id w"
    "t_start VALIDITY w = Some (w\<lparr> armed := insert VALIDITY (armed w) \<rparr>)"
proof -
  obtain sm w where c: "ogs_sbi_nf_fsm_init w0 = Some (sm, w)" "nf_inv ((sm, w), [])" "fsm_state sm \<noteq> None"
    using nf_init[OF assms(1)] by auto
  then obtain h where h: "fsm_state sm = Some h" "nf_holds (Some h) w" "fsm_fini sm = Some NF_final"
    by (auto simp: nf_inv_def)
  have t: "nf_kind w = nf_kind w0" using keeps_typeD[OF init_keeps_type, of "(_, w0)"] c(1) by force
  show thesis
    using holds_typed[OF h(2)] h t assms by (intro that[OF c(1)]) (auto simp: t_start_def nf_fresh_def nf_kind_def)
qed

theorem nf_stale_timer_event_aborts:
  assumes "nf_fresh w0" "\<not> type_is_nrf w0"
  shows "\<exists>sm w. nf_reach plain w0 ((sm, w), [VALIDITY]) \<and> fsm_state sm = None
    \<and> nf_dispatch (SBI_TIMER VALIDITY) (sm, w) = None"
proof -
  obtain sm w where c: "ogs_sbi_nf_fsm_init w0 = Some (sm, w)" "fsm_state sm = Some NF_registered"
    "fsm_fini sm = Some NF_final" "nf_holds (Some NF_registered) w" "\<not> type_is_nrf w" "has_id w"
    "t_start VALIDITY w = Some (w\<lparr> armed := insert VALIDITY (armed w) \<rparr>)"
    by (rule other_instance_inits[OF assms])
  let ?w1 = "w\<lparr> armed := insert VALIDITY (armed w) \<rparr>"
  let ?w2 = "?w1\<lparr> armed := armed ?w1 - {VALIDITY} \<rparr>"
  have s1: "nf_step plain ((sm, w), []) ((sm, ?w1), [])" using c(5-7) by (intro nf_step.validity) auto
  have s2: "nf_step plain ((sm, ?w1), []) ((sm, ?w2), [] @ [VALIDITY])" by (rule nf_step.expire) simp
  have "nf_holds (Some NF_registered) ?w2" using c(4,5) by (auto simp: nf_holds.simps(2) may_arm_def)
  from fini_live[OF this c(2,3)] c(5) obtain sm' w' where
    f: "ogs_sbi_nf_fsm_fini (sm, ?w2) = Some (sm', w')" "fsm_state sm' = None" by auto
  have s3: "nf_step plain ((sm, ?w2), [VALIDITY]) ((sm', act Removed w'), [VALIDITY])"
    using f c(2) by (intro nf_step.finish) simp_all
  have "(nf_step plain)\<^sup>*\<^sup>* ((sm, w), []) ((sm', act Removed w'), [VALIDITY])"
    using s1 s2[simplified append_Nil] s3 by (meson converse_rtranclp_into_rtranclp rtranclp.rtrancl_refl)
  moreover have "nf_dispatch (SBI_TIMER VALIDITY) (sm', act Removed w') = None"
    using f(2) by (simp add: nf_dispatch_def ogs_fsm_dispatch_def)
  ultimately show ?thesis using c(1) f(2) by (auto simp: nf_reach_def)
qed

text \<open>A profile of an NRF is not refused. When the result of a discovery contains an NRF, its
  profile turns the instance, which is registered and not an NRF so far, into an NRF one and the
  validity timer is started; once that has expired, the handler's assertion that the instance
  is not an NRF aborts the network function, with the machine live.\<close>

theorem nf_nrf_profile_aborts:
  assumes "nf_fresh w0" "\<not> type_is_nrf w0"
  shows "\<exists>sm w. nf_reach False w0 ((sm, w), [VALIDITY]) \<and> fsm_state sm = Some NF_registered
    \<and> nf_dispatch (SBI_TIMER VALIDITY) (sm, w) = None"
proof -
  obtain sm w where c: "ogs_sbi_nf_fsm_init w0 = Some (sm, w)" "fsm_state sm = Some NF_registered"
    "fsm_fini sm = Some NF_final" "nf_holds (Some NF_registered) w" "\<not> type_is_nrf w" "has_id w"
    "t_start VALIDITY w = Some (w\<lparr> armed := insert VALIDITY (armed w) \<rparr>)"
    by (rule other_instance_inits[OF assms])
  let ?w1 = "w\<lparr> heartbeat_interval := heartbeat_interval w, type_is_nrf := True \<rparr>"
  let ?w2 = "?w1\<lparr> armed := insert VALIDITY (armed ?w1) \<rparr>"
  let ?w3 = "?w2\<lparr> armed := armed ?w2 - {VALIDITY} \<rparr>"
  have s1: "nf_step False ((sm, w), []) ((sm, ?w1), [])" using c(6) by (intro nf_step.profile) simp_all
  have "t_start VALIDITY ?w1 = Some ?w2" using c(7) by (simp add: t_start_def split: if_splits)
  then have s2: "nf_step False ((sm, ?w1), []) ((sm, ?w2), [])" using c(6) by (intro nf_step.validity) simp_all
  have s3: "nf_step False ((sm, ?w2), []) ((sm, ?w3), [] @ [VALIDITY])" by (rule nf_step.expire) simp
  have "(nf_step False)\<^sup>*\<^sup>* ((sm, w), []) ((sm, ?w3), [VALIDITY])"
    using s1 s2 s3[simplified append_Nil] by (meson converse_rtranclp_into_rtranclp rtranclp.rtrancl_refl)
  moreover have "nf_dispatch (SBI_TIMER VALIDITY) (sm, ?w3) = None"
    using c(2) by (simp add: nf_dispatch_def ogs_fsm_dispatch_def nf_defs)
  ultimately show ?thesis using c(1,2) unfolding nf_reach_def by blast
qed

subsection \<open>A run\<close>

definition nrf_instance :: nf_instance where
  "nrf_instance = \<lparr> type_is_nrf = True, has_id = False, heartbeat_interval = 0, timers = {}, armed = {},
     send_ok = True, actions = [] \<rparr>"

definition nrf_registered :: nf_conf where
  "nrf_registered = (\<lparr> fsm_init = Some NF_initial, fsm_fini = Some NF_final, fsm_state = Some NF_registered \<rparr>,
     \<lparr> type_is_nrf = True, has_id = False, heartbeat_interval = 10, timers = all_timers,
       armed = {HEARTBEAT_INTERVAL, NO_HEARTBEAT}, send_ok = True,
       actions = [Send_Register, Subscribe_All, List_Retrieve] \<rparr>)"

lemma nrf_registered_reach: "nf_reach plain nrf_instance (nrf_registered, [])"
proof -
  let ?sm = "\<lparr> fsm_init = Some NF_initial, fsm_fini = Some NF_final, fsm_state = Some NF_will_register \<rparr>"
  let ?w = "\<lparr> type_is_nrf = True, has_id = False, heartbeat_interval = 0, timers = all_timers,
       armed = {REGISTRATION_INTERVAL}, send_ok = True, actions = [Send_Register] \<rparr>"
  let ?m = "\<lparr> m_nnrf_nfm = True, m_nf_instances = True, m_component1 = False, m_method = M_OTHER,
       m_status = 201, m_links = False, m_profile = Some (Some 10) \<rparr>"
  have i: "ogs_sbi_nf_fsm_init nrf_instance = Some (?sm, ?w)"
    by (simp add: nrf_instance_def ogs_sbi_nf_fsm_init_def ogs_fsm_init_def nf_data_event_def
        nf_handlers_def with_data_def nf_state_initial_def on_inst_def nf_tran_def OGS_FSM_TRAN_def
        fsm_entry_def set_signal_def nf_state_will_register_def t_start_def act_def)
  have "nf_dispatch (SBI_CLIENT ?m) (?sm, ?w) = Some nrf_registered"
    by (simp add: nf_dispatch_def ogs_fsm_dispatch_def fsm_change_def fsm_exit_def fsm_entry_def
        set_signal_def nf_defs nrf_registered_def insert_commute)
  then have "nf_step plain ((?sm, ?w), []) (nrf_registered, [])" by (intro nf_step.response[of _ ?m]) simp_all
  with i show ?thesis unfolding nf_reach_def by blast
qed

lemma nrf_instance_fresh: "nf_fresh nrf_instance"
  by (simp add: nf_fresh_def nrf_instance_def)

lemma nrf_instance_no_id: "False \<or> \<not> has_id nrf_instance"
  by (simp add: nrf_instance_def)


theorem nf_supervised_witness:
  "{HEARTBEAT_INTERVAL, NO_HEARTBEAT} \<subseteq> armed (snd nrf_registered)"
  using nf_supervised[OF nrf_instance_no_id nrf_instance_fresh, of "fst nrf_registered" "snd nrf_registered" "[]" NF_registered]
    nrf_registered_reach[of False]
  by (simp add: nrf_registered_def needed_def)

theorem nf_stale_timer_event_aborts_witness:
  "\<exists>sm w. nf_reach True \<lparr> type_is_nrf = False, has_id = True, heartbeat_interval = 0, timers = {}, armed = {},
       send_ok = True, actions = [] \<rparr> ((sm, w), [VALIDITY]) \<and> fsm_state sm = None
    \<and> nf_dispatch (SBI_TIMER VALIDITY) (sm, w) = None"
  by (rule nf_stale_timer_event_aborts) (simp_all add: nf_fresh_def)

theorem nf_nrf_profile_aborts_witness:
  "\<exists>sm w. nf_reach False \<lparr> type_is_nrf = False, has_id = True, heartbeat_interval = 0, timers = {}, armed = {},
       send_ok = True, actions = [] \<rparr> ((sm, w), [VALIDITY]) \<and> fsm_state sm = Some NF_registered
    \<and> nf_dispatch (SBI_TIMER VALIDITY) (sm, w) = None"
  by (rule nf_nrf_profile_aborts) (simp_all add: nf_fresh_def)

end
