(* ===== verification/Pfcp_Xact.thy ===== *)
theory Pfcp_Xact
  imports Ogs_Timer Ogs_Pkbuf
begin

text \<open>
  The PFCP transaction layer, \<open>lib/pfcp/xact.c\<close>: matching of requests and responses,
  retransmission, detection of duplicated requests, and the life of the transaction
  objects and their three timers.

  A transaction is a slot of the transaction pool; \<open>xs_xact\<close> holds its fields and the
  pool its identifier. Each peer node has its two transaction lists. The timer manager is
  the application's, so it may hold timers of other components (\<open>App_timer\<close>); the data
  of a transaction timer is its callback function and the identifier the callback is
  given. \<open>xs_sent\<close> records the calls of \<open>ogs_pfcp_sendto\<close>, \<open>xs_cb_log\<close> the
  calls of the user's \<open>xact->cb\<close>. \<open>None\<close> is an assertion failure or an access outside
  an array.
\<close>

datatype pfcp_org = OGS_PFCP_LOCAL_ORIGINATOR | OGS_PFCP_REMOTE_ORIGINATOR

datatype pfcp_stage = PFCP_XACT_UNKNOWN_STAGE | PFCP_XACT_INITIAL_STAGE
  | PFCP_XACT_INTERMEDIATE_STAGE | PFCP_XACT_FINAL_STAGE

datatype xact_role = R_response | R_holding | R_delayed_commit

datatype app_timer = Xact_timer xact_role int | App_timer nat

record 'c pfcp_xact =
  x_index :: nat
  x_org :: pfcp_org
  x_xid :: u32
  x_node :: nat
  x_cb :: "'c option"
  x_step :: nat
  x_seq :: "(u8 \<times> pkbuf option) list"
  x_tm_response :: "nat option"
  x_response_rcount :: u8
  x_tm_holding :: "nat option"
  x_holding_rcount :: u8
  x_tm_delayed_commit :: "nat option"

record pfcp_node =
  nd_local_list :: "nat list"
  nd_remote_list :: "nat list"

record pfcp_conf =
  n1_response_rcount :: u8
  t1_response_duration :: int
  n1_holding_rcount :: u8
  t1_holding_duration :: int

record 'c xact_state =
  xs_pool :: ogs_pool
  xs_xact :: "nat \<Rightarrow> 'c pfcp_xact"
  xs_node :: "nat \<Rightarrow> pfcp_node"
  xs_timer :: "app_timer timer_mgr"
  xs_g_xact_id :: u32
  xs_conf :: pfcp_conf
  xs_now :: int
  xs_sent :: "(nat \<times> pkbuf) list"
  xs_cb_log :: "(nat \<times> 'c) list"

definition PFCP_MIN_XACT_ID :: u32 where "PFCP_MIN_XACT_ID = 1"

definition PFCP_MAX_XACT_ID :: u32 where "PFCP_MAX_XACT_ID = 0x800000"

definition ogs_pfcp_xact_get_stage :: "u8 \<Rightarrow> pfcp_stage" where
  "ogs_pfcp_xact_get_stage type =
     (if type \<in> {1, 5, 7, 9, 50, 52, 54, 56} then PFCP_XACT_INITIAL_STAGE
      else if type \<in> {2, 6, 8, 10, 11, 51, 53, 55, 57} then PFCP_XACT_FINAL_STAGE
      else PFCP_XACT_UNKNOWN_STAGE)"

subsection \<open>Reading and writing the state\<close>

definition node_list :: "pfcp_org \<Rightarrow> pfcp_node \<Rightarrow> nat list" where
  "node_list org nd =
     (if org = OGS_PFCP_LOCAL_ORIGINATOR then nd_local_list nd else nd_remote_list nd)"

definition set_node_list :: "pfcp_org \<Rightarrow> nat list \<Rightarrow> pfcp_node \<Rightarrow> pfcp_node" where
  "set_node_list org l nd =
     (if org = OGS_PFCP_LOCAL_ORIGINATOR then nd\<lparr>nd_local_list := l\<rparr> else nd\<lparr>nd_remote_list := l\<rparr>)"

definition xact_upd :: "nat \<Rightarrow> ('c pfcp_xact \<Rightarrow> 'c pfcp_xact) \<Rightarrow> 'c xact_state \<Rightarrow> 'c xact_state" where
  "xact_upd x f s = s\<lparr>xs_xact := (xs_xact s)(x := f (xs_xact s x))\<rparr>"

definition xact_list_upd :: "nat \<Rightarrow> (nat list \<Rightarrow> nat list) \<Rightarrow> 'c xact_state \<Rightarrow> 'c xact_state" where
  "xact_list_upd x f s =
     (let org = x_org (xs_xact s x); n = x_node (xs_xact s x); nd = xs_node s n in
      s\<lparr>xs_node := (xs_node s)(n := set_node_list org (f (node_list org nd)) nd)\<rparr>)"

text \<open>\<open>if (tm) ogs_timer_start(tm, d)\<close>, \<open>if (tm) ogs_timer_stop(tm)\<close>,
  \<open>if (tm) ogs_timer_delete(tm)\<close> and \<open>ogs_pfcp_sendto\<close>, whose result is only logged.\<close>

definition xact_timer_start :: "nat option \<Rightarrow> int \<Rightarrow> 'c xact_state \<Rightarrow> 'c xact_state option" where
  "xact_timer_start tm d s =
     (case tm of None \<Rightarrow> Some s
      | Some t \<Rightarrow> map_option (\<lambda>m. s\<lparr>xs_timer := m\<rparr>) (ogs_timer_start (xs_timer s) t d (xs_now s)))"

definition xact_timer_stop :: "nat option \<Rightarrow> 'c xact_state \<Rightarrow> 'c xact_state" where
  "xact_timer_stop tm s =
     (case tm of None \<Rightarrow> s | Some t \<Rightarrow> s\<lparr>xs_timer := ogs_timer_stop (xs_timer s) t\<rparr>)"

definition xact_timer_delete :: "nat option \<Rightarrow> 'c xact_state \<Rightarrow> 'c xact_state option" where
  "xact_timer_delete tm s =
     (case tm of None \<Rightarrow> Some s
      | Some t \<Rightarrow> map_option (\<lambda>m. s\<lparr>xs_timer := m\<rparr>) (ogs_timer_delete (xs_timer s) t))"

definition ogs_pfcp_sendto :: "nat \<Rightarrow> pkbuf \<Rightarrow> 'c xact_state \<Rightarrow> 'c xact_state" where
  "ogs_pfcp_sendto n pk s = s\<lparr>xs_sent := xs_sent s @ [(n, pk)]\<rparr>"

subsection \<open>Creation and deletion\<close>

definition ogs_pfcp_xact_init :: "nat \<Rightarrow> app_timer timer_mgr \<Rightarrow> pfcp_conf \<Rightarrow> 'c xact_state" where
  "ogs_pfcp_xact_init n tm conf = \<lparr>xs_pool = ogs_pool_init n,
     xs_xact = (\<lambda>_. \<lparr>x_index = 0, x_org = OGS_PFCP_LOCAL_ORIGINATOR, x_xid = 0, x_node = 0,
       x_cb = None, x_step = 0, x_seq = replicate 3 (0, None), x_tm_response = None,
       x_response_rcount = 0, x_tm_holding = None, x_holding_rcount = 0,
       x_tm_delayed_commit = None\<rparr>),
     xs_node = (\<lambda>_. \<lparr>nd_local_list = [], nd_remote_list = []\<rparr>),
     xs_timer = tm, xs_g_xact_id = 0, xs_conf = conf, xs_now = 0, xs_sent = [], xs_cb_log = []\<rparr>"

definition ogs_pfcp_xact_delete :: "'c xact_state \<Rightarrow> nat \<Rightarrow> 'c xact_state option" where
  "ogs_pfcp_xact_delete s x =
     (let xa = xs_xact s x in
      Option.bind (xact_timer_delete (x_tm_response xa) s) (\<lambda>s1.
      Option.bind (xact_timer_delete (x_tm_holding xa) s1) (\<lambda>s2.
      Option.bind (xact_timer_delete (x_tm_delayed_commit xa) s2) (\<lambda>s3.
      (let s4 = xact_list_upd x (remove1 x) s3 in
       map_option (\<lambda>p. s4\<lparr>xs_pool := p\<rparr>) (ogs_pool_id_free (xs_pool s4) x))))))"

text \<open>One \<open>xact->tm_\<dots> = ogs_timer_add(\<dots>); if (!xact->tm_\<dots>) { delete; return NULL; }\<close>.
  The outer \<open>None\<close> is an abort; \<open>(False, s)\<close> is the return of NULL.\<close>

definition set_x_timer :: "xact_role \<Rightarrow> nat \<Rightarrow> 'c pfcp_xact \<Rightarrow> 'c pfcp_xact" where
  "set_x_timer r t xa =
     (case r of R_response \<Rightarrow> xa\<lparr>x_tm_response := Some t\<rparr>
      | R_holding \<Rightarrow> xa\<lparr>x_tm_holding := Some t\<rparr>
      | R_delayed_commit \<Rightarrow> xa\<lparr>x_tm_delayed_commit := Some t\<rparr>)"

definition xact_add_timer :: "nat \<Rightarrow> xact_role \<Rightarrow> 'c xact_state \<Rightarrow> (bool \<times> 'c xact_state) option" where
  "xact_add_timer x r s =
     Option.bind (ogs_timer_add (xs_timer s) (Xact_timer r (p_node_id (xs_pool s) x))) (\<lambda>(t, m).
       case t of
         None \<Rightarrow> map_option (\<lambda>s'. (False, s')) (ogs_pfcp_xact_delete (s\<lparr>xs_timer := m\<rparr>) x)
       | Some t \<Rightarrow> Some (True, xact_upd x (set_x_timer r t) (s\<lparr>xs_timer := m\<rparr>)))"

definition xact_add_timers :: "nat \<Rightarrow> 'c xact_state \<Rightarrow> (nat option \<times> 'c xact_state) option" where
  "xact_add_timers x s =
     Option.bind (xact_add_timer x R_response s) (\<lambda>(ok, s1).
       if \<not> ok then Some (None, s1) else
       let s1 = xact_upd x (\<lambda>xa. xa\<lparr>x_response_rcount := n1_response_rcount (xs_conf s1)\<rparr>) s1 in
     Option.bind (xact_add_timer x R_holding s1) (\<lambda>(ok, s2).
       if \<not> ok then Some (None, s2) else
       let s2 = xact_upd x (\<lambda>xa. xa\<lparr>x_holding_rcount := n1_holding_rcount (xs_conf s2)\<rparr>) s2 in
     Option.bind (xact_add_timer x R_delayed_commit s2) (\<lambda>(ok, s3).
       if \<not> ok then Some (None, s3) else Some (Some x, s3))))"

text \<open>The zeroed object of \<open>ogs_pool_id_calloc\<close> with the fields both creators set.\<close>

definition xact_blank :: "nat \<Rightarrow> pfcp_org \<Rightarrow> u32 \<Rightarrow> nat \<Rightarrow> 'c option \<Rightarrow> 'c pfcp_xact" where
  "xact_blank x org xid n cb = \<lparr>x_index = x + 1, x_org = org, x_xid = xid, x_node = n,
     x_cb = cb, x_step = 0, x_seq = replicate 3 (0, None), x_tm_response = None,
     x_response_rcount = 0, x_tm_holding = None, x_holding_rcount = 0, x_tm_delayed_commit = None\<rparr>"

definition ogs_pfcp_xact_local_create :: "'c xact_state \<Rightarrow> nat \<Rightarrow> 'c option \<Rightarrow>
    (nat option \<times> 'c xact_state) option" where
  "ogs_pfcp_xact_local_create s n cb =
     Option.bind (ogs_pool_id_calloc (xs_pool s)) (\<lambda>(xo, p).
       case xo of
         None \<Rightarrow> Some (None, s\<lparr>xs_pool := p\<rparr>)
       | Some x \<Rightarrow>
           let g = (if xs_g_xact_id s = PFCP_MAX_XACT_ID then PFCP_MIN_XACT_ID
                    else xs_g_xact_id s + 1);
               s1 = s\<lparr>xs_pool := p, xs_g_xact_id := g\<rparr>;
               s2 = xact_upd x (\<lambda>_. xact_blank x OGS_PFCP_LOCAL_ORIGINATOR g n cb) s1;
               s3 = xact_list_upd x (\<lambda>l. l @ [x]) s2
           in xact_add_timers x s3)"

definition OGS_PFCP_SQN_TO_XID :: "u32 \<Rightarrow> u32" where
  "OGS_PFCP_SQN_TO_XID sqn = drop_bit 8 sqn"

definition OGS_PFCP_XID_TO_SQN :: "u32 \<Rightarrow> u32" where
  "OGS_PFCP_XID_TO_SQN xid = push_bit 8 xid"

definition ogs_pfcp_xact_remote_create :: "'c xact_state \<Rightarrow> nat \<Rightarrow> u32 \<Rightarrow>
    (nat option \<times> 'c xact_state) option" where
  "ogs_pfcp_xact_remote_create s n sqn =
     Option.bind (ogs_pool_id_calloc (xs_pool s)) (\<lambda>(xo, p).
       case xo of
         None \<Rightarrow> Some (None, s\<lparr>xs_pool := p\<rparr>)
       | Some x \<Rightarrow>
           let s1 = s\<lparr>xs_pool := p\<rparr>;
               s2 = xact_upd x (\<lambda>_. xact_blank x OGS_PFCP_REMOTE_ORIGINATOR
                      (OGS_PFCP_SQN_TO_XID sqn) n None) s1;
               s3 = xact_list_upd x (\<lambda>l. l @ [x]) s2
           in xact_add_timers x s3)"

fun xact_delete_list :: "nat list \<Rightarrow> 'c xact_state \<Rightarrow> 'c xact_state option" where
  "xact_delete_list [] s = Some s"
| "xact_delete_list (x # xs) s = Option.bind (ogs_pfcp_xact_delete s x) (xact_delete_list xs)"

definition ogs_pfcp_xact_delete_all :: "'c xact_state \<Rightarrow> nat \<Rightarrow> 'c xact_state option" where
  "ogs_pfcp_xact_delete_all s n =
     Option.bind (xact_delete_list (nd_local_list (xs_node s n)) s)
       (\<lambda>s1. xact_delete_list (nd_remote_list (xs_node s1 n)) s1)"

definition ogs_pfcp_xact_find_by_id :: "'c xact_state \<Rightarrow> int \<Rightarrow> nat option" where
  "ogs_pfcp_xact_find_by_id s i = ogs_pool_find_by_id (xs_pool s) i"

subsection \<open>Sending\<close>

definition pfcp_header_bytes :: "u8 \<Rightarrow> u64 \<Rightarrow> u32 \<Rightarrow> u16 \<Rightarrow> bytes" where
  "pfcp_header_bytes type seid xid len =
     (if type \<ge> 50
      then [0x21, type] @ put16 len @ put64 seid @ put32 (OGS_PFCP_XID_TO_SQN xid)
      else [0x20, type] @ put16 len @ put32 (OGS_PFCP_XID_TO_SQN xid))"

definition pfcp_hlen :: "u8 \<Rightarrow> nat" where
  "pfcp_hlen type = (if type \<ge> 50 then 16 else 8)"

definition pfcp_push_header :: "u8 \<Rightarrow> u64 \<Rightarrow> u32 \<Rightarrow> pkbuf \<Rightarrow> pkbuf option" where
  "pfcp_push_header type seid xid pk =
     Option.bind (ogs_pkbuf_push pk (of_nat (pfcp_hlen type))) (\<lambda>pk1.
       pkbuf_write pk1 (pk_data pk1)
         (pfcp_header_bytes type seid xid (of_nat (pk_len pk1) - 4)))"

text \<open>The header part of \<open>ogs_pfcp_parse_msg\<close>: the header and the packet after it. The
  outer \<open>None\<close> is \<open>ogs_assert(pkbuf->len)\<close>, the inner one the return of NULL.\<close>

record pfcp_header =
  ph_flags :: u8
  ph_type :: u8
  ph_length :: u16
  ph_seid :: u64
  ph_sqn :: u32

definition ogs_pfcp_parse_header :: "pkbuf \<Rightarrow> (pfcp_header \<times> pkbuf) option option" where
  "ogs_pfcp_parse_header pk =
     (if pk_len pk = 0 then None else
      let b = pk_bytes pk; flags = hd b; size = (if bit flags 0 then 16 else 8) in
      case ogs_pkbuf_pull pk size of
        None \<Rightarrow> Some None
      | Some pk' \<Rightarrow>
          (if bit flags 0 then
             Some (Some (\<lparr>ph_flags = flags, ph_type = b ! 1, ph_length = get16 (b ! 2) (b ! 3),
               ph_seid = get64 (take 8 (drop 4 b)),
               ph_sqn = get32 (b ! 12) (b ! 13) (b ! 14) (b ! 15)\<rparr>, pk'))
           else
             Some (Some (\<lparr>ph_flags = flags, ph_type = b ! 1, ph_length = get16 (b ! 2) (b ! 3),
               ph_seid = ucast (get32 (b ! 7) (b ! 6) (b ! 5) (b ! 4)), ph_sqn = get32 (b ! 4) (b ! 5) (b ! 6) (b ! 7)\<rparr>, pk'))))"

definition ogs_pfcp_xact_update_tx :: "'c xact_state \<Rightarrow> nat \<Rightarrow> u8 \<Rightarrow> u64 \<Rightarrow> pkbuf \<Rightarrow>
    (ogs_rv \<times> 'c xact_state) option" where
  "ogs_pfcp_xact_update_tx s x type seid pk =
     (let xa = xs_xact s x; stage = ogs_pfcp_xact_get_stage type;
          store = Option.bind (pfcp_push_header type seid (x_xid xa) pk) (\<lambda>pk'.
            if x_step xa < length (x_seq xa) then
              Some (OGS_OK, xact_upd x (\<lambda>xa. xa\<lparr>x_seq := (x_seq xa)[x_step xa := (type, Some pk')],
                x_step := x_step xa + 1\<rparr>) s)
            else None)
      in case x_org xa of
        OGS_PFCP_LOCAL_ORIGINATOR \<Rightarrow>
          (case stage of
             PFCP_XACT_INITIAL_STAGE \<Rightarrow> if x_step xa \<noteq> 0 then Some (OGS_ERROR, s) else store
           | PFCP_XACT_INTERMEDIATE_STAGE \<Rightarrow> Some (OGS_ERROR, s)
           | PFCP_XACT_FINAL_STAGE \<Rightarrow> if x_step xa \<noteq> 2 then Some (OGS_ERROR, s) else store
           | PFCP_XACT_UNKNOWN_STAGE \<Rightarrow> None)
      | OGS_PFCP_REMOTE_ORIGINATOR \<Rightarrow>
          (case stage of
             PFCP_XACT_INITIAL_STAGE \<Rightarrow> Some (OGS_ERROR, s)
           | PFCP_XACT_INTERMEDIATE_STAGE \<Rightarrow> if x_step xa \<noteq> 1 then Some (OGS_ERROR, s) else store
           | PFCP_XACT_FINAL_STAGE \<Rightarrow> if x_step xa \<noteq> 1 then Some (OGS_ERROR, s) else store
           | PFCP_XACT_UNKNOWN_STAGE \<Rightarrow> Some (OGS_ERROR, s)))"

text \<open>\<open>xact->seq[xact->step-1]\<close>.\<close>

definition last_seq :: "'c pfcp_xact \<Rightarrow> (u8 \<times> pkbuf option) option" where
  "last_seq xa =
     (if 0 < x_step xa \<and> x_step xa \<le> length (x_seq xa) then Some (x_seq xa ! (x_step xa - 1))
      else None)"

definition xact_fail :: "'c xact_state \<Rightarrow> nat \<Rightarrow> (ogs_rv \<times> 'c xact_state) option" where
  "xact_fail s x = map_option (\<lambda>s'. (OGS_ERROR, s')) (ogs_pfcp_xact_delete s x)"

definition xact_done :: "'c xact_state \<Rightarrow> nat \<Rightarrow> (ogs_rv \<times> 'c xact_state) option" where
  "xact_done s x = map_option (\<lambda>s'. (OGS_OK, s')) (ogs_pfcp_xact_delete s x)"

text \<open>Sending the last packet of the history, which is asserted to exist.\<close>

definition xact_send_last :: "nat \<Rightarrow> 'c xact_state \<Rightarrow> 'c xact_state option" where
  "xact_send_last x s =
     (case last_seq (xs_xact s x) of
        Some (_, Some pk) \<Rightarrow> Some (ogs_pfcp_sendto (x_node (xs_xact s x)) pk s)
      | _ \<Rightarrow> None)"

definition ogs_pfcp_xact_commit :: "'c xact_state \<Rightarrow> nat \<Rightarrow> (ogs_rv \<times> 'c xact_state) option" where
  "ogs_pfcp_xact_commit s x =
     (let xa = xs_xact s x;
          send = (\<lambda>s. map_option (\<lambda>s'. (OGS_OK, s')) (xact_send_last x s));
          arm = xact_timer_start (x_tm_response xa) (t1_response_duration (xs_conf s)) s
      in Option.bind (last_seq xa) (\<lambda>(type, _).
      case x_org xa of
        OGS_PFCP_LOCAL_ORIGINATOR \<Rightarrow>
          (case ogs_pfcp_xact_get_stage type of
             PFCP_XACT_INITIAL_STAGE \<Rightarrow>
               if x_step xa \<noteq> 1 then xact_fail s x else Option.bind arm send
           | PFCP_XACT_INTERMEDIATE_STAGE \<Rightarrow> xact_fail s x
           | PFCP_XACT_FINAL_STAGE \<Rightarrow>
               if x_step xa \<noteq> 2 \<and> x_step xa \<noteq> 3 then xact_fail s x
               else if x_step xa = 2 then xact_done s x else send s
           | PFCP_XACT_UNKNOWN_STAGE \<Rightarrow> xact_fail s x)
      | OGS_PFCP_REMOTE_ORIGINATOR \<Rightarrow>
          (case ogs_pfcp_xact_get_stage type of
             PFCP_XACT_INITIAL_STAGE \<Rightarrow> xact_fail s x
           | PFCP_XACT_INTERMEDIATE_STAGE \<Rightarrow>
               if x_step xa \<noteq> 2 then xact_fail s x else Option.bind arm send
           | PFCP_XACT_FINAL_STAGE \<Rightarrow>
               if x_step xa \<noteq> 2 \<and> x_step xa \<noteq> 3 then xact_fail s x
               else if x_step xa = 3 then xact_done s x else send s
           | PFCP_XACT_UNKNOWN_STAGE \<Rightarrow> xact_fail s x)))"

definition ogs_pfcp_xact_delayed_commit :: "'c xact_state \<Rightarrow> nat \<Rightarrow> int \<Rightarrow> 'c xact_state option" where
  "ogs_pfcp_xact_delayed_commit s x duration =
     (if duration = 0 \<or> x_tm_delayed_commit (xs_xact s x) = None then None
      else xact_timer_start (x_tm_delayed_commit (xs_xact s x)) duration s)"

subsection \<open>Receiving\<close>

text \<open>A message that repeats one the transaction has already seen: the stored answer is
  sent again, if there is one.\<close>

definition xact_resend :: "'c xact_state \<Rightarrow> nat \<Rightarrow> pkbuf option \<Rightarrow> (ogs_rv \<times> 'c xact_state) option" where
  "xact_resend s x answer =
     (case answer of
        None \<Rightarrow> Some (OGS_RETRY, s)
      | Some pk \<Rightarrow>
          Option.bind (xact_timer_start (x_tm_holding (xs_xact s x))
              (t1_holding_duration (xs_conf s)) s)
            (\<lambda>s'. Some (OGS_RETRY, ogs_pfcp_sendto (x_node (xs_xact s x)) pk s')))"

definition ogs_pfcp_xact_update_rx :: "'c xact_state \<Rightarrow> nat \<Rightarrow> u8 \<Rightarrow> (ogs_rv \<times> 'c xact_state) option" where
  "ogs_pfcp_xact_update_rx s x type =
     (let xa = xs_xact s x; step = x_step xa;
          hold = xact_timer_start (x_tm_holding xa) (t1_holding_duration (xs_conf s)) s;
          store = (\<lambda>s. if step < length (x_seq xa) then
             Some (OGS_OK, xact_upd x (\<lambda>xa. xa\<lparr>x_seq := (x_seq xa)[step := (type, snd (x_seq xa ! step))],
               x_step := step + 1\<rparr>) (xact_timer_stop (x_tm_response xa) s)) else None)
      in case x_org xa of
        OGS_PFCP_LOCAL_ORIGINATOR \<Rightarrow>
          (case ogs_pfcp_xact_get_stage type of
             PFCP_XACT_INITIAL_STAGE \<Rightarrow> Some (OGS_ERROR, s)
           | PFCP_XACT_INTERMEDIATE_STAGE \<Rightarrow>
               if fst (x_seq xa ! 1) = type then
                 (if step \<noteq> 2 \<and> step \<noteq> 3 then Some (OGS_ERROR, s)
                  else xact_resend s x (snd (x_seq xa ! 2)))
               else if step \<noteq> 1 then Some (OGS_ERROR, s) else Option.bind hold store
           | PFCP_XACT_FINAL_STAGE \<Rightarrow> if step \<noteq> 1 then Some (OGS_ERROR, s) else store s
           | PFCP_XACT_UNKNOWN_STAGE \<Rightarrow> Some (OGS_ERROR, s))
      | OGS_PFCP_REMOTE_ORIGINATOR \<Rightarrow>
          (case ogs_pfcp_xact_get_stage type of
             PFCP_XACT_INITIAL_STAGE \<Rightarrow>
               if fst (x_seq xa ! 0) = type then
                 (if step \<noteq> 1 \<and> step \<noteq> 2 then Some (OGS_ERROR, s)
                  else xact_resend s x (snd (x_seq xa ! 1)))
               else if step \<noteq> 0 then Some (OGS_ERROR, s) else Option.bind hold store
           | PFCP_XACT_INTERMEDIATE_STAGE \<Rightarrow> Some (OGS_ERROR, s)
           | PFCP_XACT_FINAL_STAGE \<Rightarrow> if step \<noteq> 2 then Some (OGS_ERROR, s) else store s
           | PFCP_XACT_UNKNOWN_STAGE \<Rightarrow> Some (OGS_ERROR, s)))"

text \<open>\<open>ogs_pfcp_xact_receive\<close>: the return code, the transaction handed to the caller (only
  with \<open>OGS_OK\<close>) and the new state.\<close>

definition xact_receive_on :: "'c xact_state \<Rightarrow> nat \<Rightarrow> u8 \<Rightarrow>
    (ogs_rv \<times> nat option \<times> 'c xact_state) option" where
  "xact_receive_on s x type =
     Option.bind (ogs_pfcp_xact_update_rx s x type) (\<lambda>(rv, s1).
       case rv of
         OGS_ERROR \<Rightarrow> map_option (\<lambda>s2. (OGS_ERROR, None, s2)) (ogs_pfcp_xact_delete s1 x)
       | OGS_RETRY \<Rightarrow> Some (OGS_RETRY, None, s1)
       | OGS_OK \<Rightarrow> Some (OGS_OK, Some x, s1))"

definition ogs_pfcp_xact_receive :: "'c xact_state \<Rightarrow> nat \<Rightarrow> u8 \<Rightarrow> u32 \<Rightarrow>
    (ogs_rv \<times> nat option \<times> 'c xact_state) option" where
  "ogs_pfcp_xact_receive s n type sqn =
     (let xid = OGS_PFCP_SQN_TO_XID sqn;
          go = (\<lambda>l. case find (\<lambda>x. x_xid (xs_xact s x) = xid) l of
              Some x \<Rightarrow> xact_receive_on s x type
            | None \<Rightarrow> Option.bind (ogs_pfcp_xact_remote_create s n sqn) (\<lambda>(xo, s1).
                case xo of None \<Rightarrow> Some (OGS_ERROR, None, s1) | Some x \<Rightarrow> xact_receive_on s1 x type))
      in case ogs_pfcp_xact_get_stage type of
           PFCP_XACT_INITIAL_STAGE \<Rightarrow> go (nd_remote_list (xs_node s n))
         | PFCP_XACT_INTERMEDIATE_STAGE \<Rightarrow> go (nd_local_list (xs_node s n))
         | PFCP_XACT_FINAL_STAGE \<Rightarrow> go (nd_local_list (xs_node s n))
         | PFCP_XACT_UNKNOWN_STAGE \<Rightarrow> Some (OGS_ERROR, None, s))"

subsection \<open>Timeouts\<close>

text \<open>The three callbacks get the identifier of the transaction; the debug line reads
  \<open>seq[step-1]\<close>, hence the access to \<open>last_seq\<close>.\<close>

definition xact_timeout :: "(nat \<Rightarrow> 'c xact_state \<Rightarrow> 'c xact_state option) \<Rightarrow> int \<Rightarrow>
    'c xact_state \<Rightarrow> 'c xact_state option" where
  "xact_timeout act i s =
     (if OGS_MIN_POOL_ID \<le> i \<and> i \<le> OGS_MAX_POOL_ID then
        (case ogs_pfcp_xact_find_by_id s i of
           None \<Rightarrow> Some s
         | Some x \<Rightarrow> if last_seq (xs_xact s x) = None then None else act x s)
      else None)"

definition response_timeout :: "int \<Rightarrow> 'c xact_state \<Rightarrow> 'c xact_state option" where
  "response_timeout = xact_timeout (\<lambda>x s.
     let s1 = xact_upd x (\<lambda>xa. xa\<lparr>x_response_rcount := x_response_rcount xa - 1\<rparr>) s;
         xa = xs_xact s1 x
     in if x_response_rcount xa > 0 then
          Option.bind (xact_timer_start (x_tm_response xa) (t1_response_duration (xs_conf s1)) s1)
            (xact_send_last x)
        else
          (let s2 = (case x_cb xa of None \<Rightarrow> s1 | Some c \<Rightarrow> s1\<lparr>xs_cb_log := xs_cb_log s1 @ [(x, c)]\<rparr>)
           in ogs_pfcp_xact_delete s2 x))"

definition holding_timeout :: "int \<Rightarrow> 'c xact_state \<Rightarrow> 'c xact_state option" where
  "holding_timeout = xact_timeout (\<lambda>x s.
     let s1 = xact_upd x (\<lambda>xa. xa\<lparr>x_holding_rcount := x_holding_rcount xa - 1\<rparr>) s;
         xa = xs_xact s1 x
     in if x_holding_rcount xa > 0 then
          xact_timer_start (x_tm_holding xa) (t1_holding_duration (xs_conf s1)) s1
        else ogs_pfcp_xact_delete s1 x)"

definition delayed_commit_timeout :: "int \<Rightarrow> 'c xact_state \<Rightarrow> 'c xact_state option" where
  "delayed_commit_timeout = xact_timeout (\<lambda>x s. map_option snd (ogs_pfcp_xact_commit s x))"

text \<open>The dispatch that the function pointers of the timers make.\<close>

definition xact_timer_callback :: "app_timer \<Rightarrow> 'c xact_state \<Rightarrow> 'c xact_state option" where
  "xact_timer_callback d s =
     (case d of
        Xact_timer R_response i \<Rightarrow> response_timeout i s
      | Xact_timer R_holding i \<Rightarrow> holding_timeout i s
      | Xact_timer R_delayed_commit i \<Rightarrow> delayed_commit_timeout i s
      | App_timer _ \<Rightarrow> Some s)"

end
