(* ===== verification/Pfcp_Xact_Inv.thy ===== *)
theory Pfcp_Xact_Inv
  imports Pfcp_Xact
begin

text \<open>
  The invariant of the PFCP transaction layer and its preservation by every operation of
  \<open>lib/pfcp/xact.c\<close>.

  It says that the pool, the timer manager and the lists are consistent with each other:
  a node's lists hold exactly the transactions in use of that node and originator; a timer
  of the manager belongs to the transaction layer exactly when some transaction in use
  holds it, in the role its callback has, so that no timer is leaked and none outlives its
  transaction; the message history follows the PFCP exchange, and whenever the response
  timer runs there is a packet to retransmit.
\<close>

abbreviation in_use :: "'c xact_state \<Rightarrow> nat \<Rightarrow> bool" where
  "in_use s x \<equiv> pool_in_use (xs_pool s) x"

abbreviation xact_id :: "'c xact_state \<Rightarrow> nat \<Rightarrow> int" where
  "xact_id s x \<equiv> p_node_id (xs_pool s) x"

abbreviation live :: "'c xact_state \<Rightarrow> nat set" where
  "live s \<equiv> timer_live (xs_timer s)"

abbreviation armed :: "'c xact_state \<Rightarrow> nat set" where
  "armed s \<equiv> timer_armed (xs_timer s)"

abbreviation xlist :: "'c xact_state \<Rightarrow> pfcp_org \<Rightarrow> nat \<Rightarrow> nat list" where
  "xlist s org n \<equiv> node_list org (xs_node s n)"

definition x_timer :: "xact_role \<Rightarrow> 'c pfcp_xact \<Rightarrow> nat option" where
  "x_timer r xa = (case r of R_response \<Rightarrow> x_tm_response xa | R_holding \<Rightarrow> x_tm_holding xa
     | R_delayed_commit \<Rightarrow> x_tm_delayed_commit xa)"

abbreviation stage_of :: "(u8 \<times> pkbuf option) \<Rightarrow> pfcp_stage" where
  "stage_of e \<equiv> ogs_pfcp_xact_get_stage (fst e)"

definition xact_seq_ok :: "'c pfcp_xact \<Rightarrow> bool" where
  "xact_seq_ok xa \<longleftrightarrow> length (x_seq xa) = 3 \<and> x_step xa \<le> 3 \<and>
     (\<forall>k < 3. x_step xa \<le> k \<longrightarrow> x_seq xa ! k = (0, None)) \<and>
     (1 \<le> x_step xa \<longrightarrow> stage_of (x_seq xa ! 0) = PFCP_XACT_INITIAL_STAGE) \<and>
     (2 \<le> x_step xa \<longrightarrow> stage_of (x_seq xa ! 1) = PFCP_XACT_FINAL_STAGE) \<and>
     (3 \<le> x_step xa \<longrightarrow> stage_of (x_seq xa ! 2) = PFCP_XACT_FINAL_STAGE) \<and>
     (case x_org xa of
        OGS_PFCP_LOCAL_ORIGINATOR \<Rightarrow>
          (1 \<le> x_step xa \<longrightarrow> snd (x_seq xa ! 0) \<noteq> None) \<and>
          snd (x_seq xa ! 1) = None \<and> (3 \<le> x_step xa \<longrightarrow> snd (x_seq xa ! 2) \<noteq> None)
      | OGS_PFCP_REMOTE_ORIGINATOR \<Rightarrow>
          snd (x_seq xa ! 0) = None \<and> (2 \<le> x_step xa \<longrightarrow> snd (x_seq xa ! 1) \<noteq> None) \<and>
          snd (x_seq xa ! 2) = None)"

text \<open>The last step of the history was a message of ours.\<close>

definition xact_pending :: "'c pfcp_xact \<Rightarrow> bool" where
  "xact_pending xa \<longleftrightarrow> (\<exists>type pk. last_seq xa = Some (type, Some pk))"

text \<open>What lets the callback of a timer run: there is a last step, and for the response
  timer a packet to send again.\<close>

definition xact_arm_ok :: "xact_role \<Rightarrow> 'c pfcp_xact \<Rightarrow> bool" where
  "xact_arm_ok r xa \<longleftrightarrow> 0 < x_step xa \<and> (r = R_response \<longrightarrow> xact_pending xa)"

definition xact_lists_ok :: "'c xact_state \<Rightarrow> bool" where
  "xact_lists_ok s \<longleftrightarrow> (\<forall>org n. distinct (xlist s org n) \<and>
     set (xlist s org n) = {x. in_use s x \<and> x_org (xs_xact s x) = org \<and> x_node (xs_xact s x) = n})"

definition xact_timers_ok :: "'c xact_state \<Rightarrow> bool" where
  "xact_timers_ok s \<longleftrightarrow> (\<forall>t r i. t \<in> live s \<and> timer_data (xs_timer s) t = Xact_timer r i \<longleftrightarrow>
     (\<exists>x. in_use s x \<and> xact_id s x = i \<and> x_timer r (xs_xact s x) = Some t))"

definition xact_objects_ok :: "'c xact_state \<Rightarrow> bool" where
  "xact_objects_ok s \<longleftrightarrow> (\<forall>x. in_use s x \<longrightarrow> xact_seq_ok (xs_xact s x) \<and>
     (\<forall>r t. x_timer r (xs_xact s x) = Some t \<longrightarrow> t \<in> armed s \<longrightarrow> xact_arm_ok r (xs_xact s x)))"

definition xact_inv :: "'c xact_state \<Rightarrow> bool" where
  "xact_inv s \<longleftrightarrow> id_pool_inv (xs_pool s) \<and> timer_inv (xs_timer s) \<and> xact_lists_ok s \<and>
     xact_timers_ok s \<and> xact_objects_ok s \<and>
     t1_response_duration (xs_conf s) \<noteq> 0 \<and> t1_holding_duration (xs_conf s) \<noteq> 0"

lemmas xact_inv_defs = xact_inv_def xact_lists_ok_def xact_timers_ok_def xact_objects_ok_def

lemma xact_seq_ok_blank: "xact_seq_ok (xact_blank x org xid n cb)"
  by (auto simp: xact_seq_ok_def xact_blank_def nth_Cons' numeral_3_eq_3 split: pfcp_org.split)

lemma x_timer_blank [simp]: "x_timer r (xact_blank x org xid n cb) = None"
  by (cases r) (simp_all add: x_timer_def xact_blank_def)

subsection \<open>What the state updates leave alone\<close>

lemma xact_upd_simps [simp]:
  "xs_pool (xact_upd x f s) = xs_pool s" "xs_node (xact_upd x f s) = xs_node s"
  "xs_timer (xact_upd x f s) = xs_timer s" "xs_conf (xact_upd x f s) = xs_conf s"
  "xs_sent (xact_upd x f s) = xs_sent s" "xs_cb_log (xact_upd x f s) = xs_cb_log s"
  "xs_now (xact_upd x f s) = xs_now s" "xs_g_xact_id (xact_upd x f s) = xs_g_xact_id s"
  "xs_xact (xact_upd x f s) = (xs_xact s)(x := f (xs_xact s x))"
  by (simp_all add: xact_upd_def)

lemma xact_list_upd_simps [simp]:
  "xs_pool (xact_list_upd x f s) = xs_pool s" "xs_xact (xact_list_upd x f s) = xs_xact s"
  "xs_timer (xact_list_upd x f s) = xs_timer s" "xs_conf (xact_list_upd x f s) = xs_conf s"
  "xs_sent (xact_list_upd x f s) = xs_sent s" "xs_cb_log (xact_list_upd x f s) = xs_cb_log s"
  "xs_now (xact_list_upd x f s) = xs_now s" "xs_g_xact_id (xact_list_upd x f s) = xs_g_xact_id s"
  by (simp_all add: xact_list_upd_def Let_def)

lemma node_list_set [simp]:
  "node_list org (set_node_list org' l nd) = (if org = org' then l else node_list org nd)"
  by (cases org; cases org') (simp_all add: node_list_def set_node_list_def)

lemma xlist_list_upd:
  "xlist (xact_list_upd x f s) org n =
     (if org = x_org (xs_xact s x) \<and> n = x_node (xs_xact s x) then f (xlist s org n)
      else xlist s org n)"
  by (simp add: xact_list_upd_def Let_def)

lemma x_timer_set [simp]:
  "x_timer r (set_x_timer r' t xa) = (if r = r' then Some t else x_timer r xa)"
  by (cases r; cases r') (simp_all add: x_timer_def set_x_timer_def)

lemma set_x_timer_simps [simp]:
  "x_org (set_x_timer r t xa) = x_org xa" "x_node (set_x_timer r t xa) = x_node xa"
  "x_step (set_x_timer r t xa) = x_step xa" "x_seq (set_x_timer r t xa) = x_seq xa"
  "x_xid (set_x_timer r t xa) = x_xid xa" "x_cb (set_x_timer r t xa) = x_cb xa"
  "x_index (set_x_timer r t xa) = x_index xa"
  by (cases r; simp add: set_x_timer_def)+

lemma x_timer_upd [simp]:
  "x_timer r (xa\<lparr>x_step := k\<rparr>) = x_timer r xa" "x_timer r (xa\<lparr>x_seq := q\<rparr>) = x_timer r xa"
  "x_timer r (xa\<lparr>x_response_rcount := c\<rparr>) = x_timer r xa"
  "x_timer r (xa\<lparr>x_holding_rcount := c\<rparr>) = x_timer r xa"
  by (cases r; simp add: x_timer_def)+

lemma seq_arm_ok_cong:
  "x_org xa = x_org xb \<Longrightarrow> x_step xa = x_step xb \<Longrightarrow> x_seq xa = x_seq xb \<Longrightarrow>
     xact_seq_ok xa = xact_seq_ok xb \<and> xact_arm_ok r xa = xact_arm_ok r xb"
  by (simp add: xact_seq_ok_def xact_arm_ok_def xact_pending_def last_seq_def cong: pfcp_org.case_cong)

lemma xact_inv_log [simp]:
  "xact_inv (s\<lparr>xs_sent := l\<rparr>) = xact_inv s" "xact_inv (s\<lparr>xs_cb_log := c\<rparr>) = xact_inv s"
  "xact_inv (s\<lparr>xs_g_xact_id := g\<rparr>) = xact_inv s" "xact_inv (s\<lparr>xs_now := w\<rparr>) = xact_inv s"
  by (simp_all add: xact_inv_defs)

lemma xact_inv_upd:
  assumes "xact_inv s" "in_use s x" "\<And>r. x_timer r (f (xs_xact s x)) = x_timer r (xs_xact s x)"
    and "x_org (f (xs_xact s x)) = x_org (xs_xact s x)"
    and "x_node (f (xs_xact s x)) = x_node (xs_xact s x)"
    and "xact_seq_ok (f (xs_xact s x))"
    and "\<And>r t. x_timer r (xs_xact s x) = Some t \<Longrightarrow> t \<in> armed s \<Longrightarrow> xact_arm_ok r (f (xs_xact s x))"
  shows "xact_inv (xact_upd x f s)"
proof -
  have "xact_lists_ok (xact_upd x f s)"
    using assms(1,4,5) by (auto simp: xact_inv_defs)
  moreover have "xact_timers_ok (xact_upd x f s)"
  proof -
    have "x_timer r (((xs_xact s)(x := f (xs_xact s x))) y) = x_timer r (xs_xact s y)" for r y
      using assms(3) by simp
    then show ?thesis
      using assms(1) unfolding xact_inv_def xact_timers_ok_def xact_upd_simps by simp
  qed
  moreover have "xact_objects_ok (xact_upd x f s)"
    using assms(1,3,6,7) unfolding xact_inv_def xact_objects_ok_def xact_upd_simps by auto
  ultimately show ?thesis using assms(1) by (simp add: xact_inv_def)
qed

text \<open>Starting and stopping timers changes neither the live timers nor their data.\<close>

lemma xact_inv_timer:
  assumes "xact_inv s" "timer_inv m" "timer_live m = live s"
    and "\<And>u. timer_data m u = timer_data (xs_timer s) u"
    and "\<And>x r t. in_use s x \<Longrightarrow> x_timer r (xs_xact s x) = Some t \<Longrightarrow> t \<in> timer_armed m \<Longrightarrow>
           t \<notin> armed s \<Longrightarrow> xact_arm_ok r (xs_xact s x)"
  shows "xact_inv (s\<lparr>xs_timer := m\<rparr>)"
proof -
  have "xact_objects_ok (s\<lparr>xs_timer := m\<rparr>)"
    using assms(1,5) by (auto simp: xact_inv_def xact_objects_ok_def) metis
  moreover have "xact_timers_ok (s\<lparr>xs_timer := m\<rparr>)"
    using assms(1,3,4) by (simp add: xact_inv_def xact_timers_ok_def)
  ultimately show ?thesis using assms(1,2) by (simp add: xact_inv_def xact_lists_ok_def)
qed

lemma xact_timer_facts:
  assumes "xact_inv s" "in_use s x" "x_timer r (xs_xact s x) = Some t"
  shows "t \<in> live s" "timer_data (xs_timer s) t = Xact_timer r (xact_id s x)"
  using assms by (auto simp: xact_inv_def xact_timers_ok_def)

lemma xact_timer_holder:
  assumes "xact_inv s" "t \<in> live s" "timer_data (xs_timer s) t = Xact_timer r i"
  obtains x where "in_use s x" "xact_id s x = i" "x_timer r (xs_xact s x) = Some t"
proof -
  from assms(1) have "(t \<in> live s \<and> timer_data (xs_timer s) t = Xact_timer r i) \<longleftrightarrow>
      (\<exists>x. in_use s x \<and> xact_id s x = i \<and> x_timer r (xs_xact s x) = Some t)"
    unfolding xact_inv_def xact_timers_ok_def by blast
  with assms(2,3) that show ?thesis by blast
qed

lemma xact_id_inj:
  assumes "xact_inv s" "in_use s x" "in_use s y" "xact_id s x = xact_id s y"
  shows "x = y"
proof -
  have "p_id_hash (xs_pool s) i = Some m \<longleftrightarrow> in_use s m \<and> xact_id s m = i" for i m
    using assms(1) by (simp add: xact_inv_def id_pool_inv_def)
  from this[of "xact_id s x" x] this[of "xact_id s x" y] assms(2-4) show ?thesis by simp
qed

lemma xact_timer_owner:
  assumes "xact_inv s" "in_use s x" "in_use s y"
    and "x_timer r (xs_xact s x) = Some t" "x_timer q (xs_xact s y) = Some t"
  shows "x = y \<and> r = q"
  using xact_timer_facts[OF assms(1,2,4)] xact_timer_facts[OF assms(1,3,5)]
    xact_id_inj[OF assms(1-3)] by simp

lemma xact_timer_start_raw:
  assumes inv: "xact_inv s" and x: "in_use s x" and d: "d \<noteq> 0"
  obtains m where "xact_timer_start (x_timer r (xs_xact s x)) d s = Some (s\<lparr>xs_timer := m\<rparr>)"
    "timer_inv m" "timer_live m = live s"
    "timer_armed m = set_option (x_timer r (xs_xact s x)) \<union> armed s"
    "\<And>u. timer_data m u = timer_data (xs_timer s) u"
proof (cases "x_timer r (xs_xact s x)")
  case None
  then show ?thesis
    using inv by (intro that[of "xs_timer s"]) (simp_all add: xact_timer_start_def xact_inv_def)
next
  case (Some t)
  have ti: "timer_inv (xs_timer s)" using inv by (simp add: xact_inv_def)
  from tmr.start_cases[OF ti xact_timer_facts(1)[OF inv x Some] d, of "xs_now s"]
  obtain m where m: "ogs_timer_start (xs_timer s) t d (xs_now s) = Some m" "timer_inv m"
      "timer_live m = live s" "timer_armed m = insert t (armed s)"
      "\<And>u. timer_data m u = timer_data (xs_timer s) u"
    by metis
  with Some show ?thesis by (intro that[of m]) (simp_all add: xact_timer_start_def)
qed

lemma xact_timer_start_inv:
  assumes inv: "xact_inv s" and x: "in_use s x" and d: "d \<noteq> 0"
    and resp: "xact_arm_ok r (xs_xact s x)"
  obtains m where "xact_timer_start (x_timer r (xs_xact s x)) d s = Some (s\<lparr>xs_timer := m\<rparr>)"
    "xact_inv (s\<lparr>xs_timer := m\<rparr>)" "timer_live m = live s"
    "timer_armed m = set_option (x_timer r (xs_xact s x)) \<union> armed s"
    "\<And>u. timer_data m u = timer_data (xs_timer s) u"
proof (rule xact_timer_start_raw[OF inv x d, of r])
  fix m
  assume m: "xact_timer_start (x_timer r (xs_xact s x)) d s = Some (s\<lparr>xs_timer := m\<rparr>)"
    "timer_inv m" "timer_live m = live s"
    "timer_armed m = set_option (x_timer r (xs_xact s x)) \<union> armed s"
    "\<And>u. timer_data m u = timer_data (xs_timer s) u"
  have "xact_inv (s\<lparr>xs_timer := m\<rparr>)"
  proof (rule xact_inv_timer[OF inv m(2,3,5)])
    fix y q u
    assume "in_use s y" "x_timer q (xs_xact s y) = Some u" "u \<in> timer_armed m" "u \<notin> armed s"
    with m(4) have u: "x_timer r (xs_xact s x) = Some u" "x_timer q (xs_xact s y) = Some u"
      by (auto simp: elem_set)
    from xact_timer_owner[OF inv x \<open>in_use s y\<close> u] resp show "xact_arm_ok q (xs_xact s y)" by auto
  qed
  with m show ?thesis by (intro that[of m])
qed

lemma xact_timer_stop_inv:
  assumes "xact_inv s"
  obtains m where "xact_timer_stop tm s = s\<lparr>xs_timer := m\<rparr>" "xact_inv (s\<lparr>xs_timer := m\<rparr>)"
    "timer_live m = live s" "timer_armed m = armed s - set_option tm"
    "\<And>u. timer_data m u = timer_data (xs_timer s) u"
proof (cases tm)
  case None
  then show ?thesis
    using assms by (intro that[of "xs_timer s"]) (simp_all add: xact_timer_stop_def)
next
  case (Some t)
  let ?m = "ogs_timer_stop (xs_timer s) t"
  have "timer_inv (xs_timer s)" using assms by (simp add: xact_inv_def)
  from tmr.stop_law[OF this, of t]
  have m: "timer_inv ?m" "timer_live ?m = live s" "timer_armed ?m = armed s - {t}"
      "\<And>u. timer_data ?m u = timer_data (xs_timer s) u" by auto
  then have "xact_inv (s\<lparr>xs_timer := ?m\<rparr>)" by (intro xact_inv_timer[OF assms]) auto
  with m Some show ?thesis by (intro that[of ?m]) (auto simp: xact_timer_stop_def)
qed

text \<open>A change of one object together with its timers.\<close>

lemma xact_inv_change:
  assumes inv: "xact_inv s" and x: "in_use s x"
    and f: "\<And>r. x_timer r (f (xs_xact s x)) = x_timer r (xs_xact s x)"
      "x_org (f (xs_xact s x)) = x_org (xs_xact s x)"
      "x_node (f (xs_xact s x)) = x_node (xs_xact s x)" "xact_seq_ok (f (xs_xact s x))"
    and m: "timer_inv m" "timer_live m = live s" "\<And>u. timer_data m u = timer_data (xs_timer s) u"
      "timer_armed m \<subseteq> armed s \<union> {t. \<exists>r. x_timer r (xs_xact s x) = Some t}"
    and arm: "\<And>r t. x_timer r (xs_xact s x) = Some t \<Longrightarrow> t \<in> timer_armed m \<Longrightarrow>
      xact_arm_ok r (f (xs_xact s x))"
  shows "xact_inv (xact_upd x f (s\<lparr>xs_timer := m\<rparr>))" (is "xact_inv ?s'")
proof -
  have xt: "x_timer r (xs_xact ?s' y) = x_timer r (xs_xact s y)" for r y
    using f(1) by simp
  have "xact_lists_ok ?s'" using inv f(2,3) by (auto simp: xact_inv_defs)
  moreover have "xact_timers_ok ?s'"
    unfolding xact_timers_ok_def xt using inv m(2,3) by (simp add: xact_inv_def xact_timers_ok_def)
  moreover have "xact_objects_ok ?s'"
    unfolding xact_objects_ok_def xt
  proof (intro allI impI conjI)
    fix y assume "in_use ?s' y"
    then have y: "in_use s y" by simp
    show "xact_seq_ok (xs_xact ?s' y)"
      using inv y f(4) by (auto simp: xact_inv_def xact_objects_ok_def)
    fix r t assume t: "x_timer r (xs_xact s y) = Some t" "t \<in> armed ?s'"
    show "xact_arm_ok r (xs_xact ?s' y)"
    proof (cases "y = x")
      case True
      then show ?thesis using t arm by simp
    next
      case False
      then have "t \<in> armed s" using t m(4) xact_timer_owner[OF inv x y _ t(1)] by auto
      then show ?thesis using False t(1) inv y by (auto simp: xact_inv_def xact_objects_ok_def)
    qed
  qed
  ultimately show ?thesis using inv m(1) by (simp add: xact_inv_def)
qed

subsection \<open>Deletion\<close>

definition x_timer_list :: "'c pfcp_xact \<Rightarrow> nat list" where
  "x_timer_list xa = List.map_filter (\<lambda>r. x_timer r xa) [R_response, R_holding, R_delayed_commit]"

lemma ex_role: "(\<exists>r. P r) \<longleftrightarrow> P R_response \<or> P R_holding \<or> P R_delayed_commit"
  by (metis xact_role.exhaust)

lemma set_x_timer_list: "set (x_timer_list xa) = {t. \<exists>r. x_timer r xa = Some t}"
  unfolding ex_role
  by (auto simp: x_timer_list_def map_filter_simps split: option.splits)

lemma xact_timer_delete_seq:
  "Option.bind (xact_timer_delete (x_tm_response xa) s) (\<lambda>s1.
     Option.bind (xact_timer_delete (x_tm_holding xa) s1) (xact_timer_delete (x_tm_delayed_commit xa))) =
   map_option (\<lambda>m. s\<lparr>xs_timer := m\<rparr>) (tmr.delete_seq (xs_timer s) (x_timer_list xa))"
  by (cases "x_tm_response xa"; cases "x_tm_holding xa"; cases "x_tm_delayed_commit xa")
    (auto simp: x_timer_list_def x_timer_def map_filter_simps xact_timer_delete_def
      option.map_comp comp_def split: bind_splits option.splits)

lemma distinct_x_timer_list:
  assumes "xact_inv s" "in_use s x"
  shows "distinct (x_timer_list (xs_xact s x))"
proof -
  have ne: "t \<noteq> u" if "x_timer r (xs_xact s x) = Some t" "x_timer q (xs_xact s x) = Some u" "r \<noteq> q"
    for r q t u using xact_timer_owner[OF assms(1,2,2)] that by auto
  show ?thesis
    using ne[of R_response _ R_holding] ne[of R_response _ R_delayed_commit]
      ne[of R_holding _ R_delayed_commit]
    by (auto simp: x_timer_list_def map_filter_simps split: option.splits)
qed

lemma xact_delete_inv:
  assumes inv: "xact_inv s" and x: "in_use s x"
  obtains s' where "ogs_pfcp_xact_delete s x = Some s'" "xact_inv s'"
    "\<And>y. in_use s' y \<longleftrightarrow> y \<noteq> x \<and> in_use s y" "\<And>y. y \<noteq> x \<Longrightarrow> xact_id s' y = xact_id s y"
    "xs_xact s' = xs_xact s" "\<And>org n. xlist s' org n = remove1 x (xlist s org n)"
    "live s' = live s - set (x_timer_list (xs_xact s x))"
    "armed s' = armed s - set (x_timer_list (xs_xact s x))"
    "\<And>u. timer_data (xs_timer s') u = timer_data (xs_timer s) u"
    "xs_sent s' = xs_sent s" "xs_cb_log s' = xs_cb_log s" "xs_conf s' = xs_conf s"
    "xs_g_xact_id s' = xs_g_xact_id s" "p_id (xs_pool s') = p_id (xs_pool s)" "xs_now s' = xs_now s"
proof -
  let ?ts = "x_timer_list (xs_xact s x)"
  have ti: "timer_inv (xs_timer s)" and pi: "id_pool_inv (xs_pool s)" and lo: "xact_lists_ok s"
    using inv by (simp_all add: xact_inv_def)
  have "set ?ts \<subseteq> live s" using xact_timer_facts(1)[OF inv x] by (auto simp: set_x_timer_list)
  from tmr.delete_seq_cases[OF ti distinct_x_timer_list[OF inv x] this] obtain m
    where m: "tmr.delete_seq (xs_timer s) ?ts = Some m" "timer_inv m" "timer_live m = live s - set ?ts"
      "timer_armed m = armed s - set ?ts" "\<And>u. timer_data m u = timer_data (xs_timer s) u" by metis
  let ?s3 = "s\<lparr>xs_timer := m\<rparr>"
  let ?s4 = "xact_list_upd x (remove1 x) ?s3"
  from pi x obtain p where p: "ogs_pool_id_free (xs_pool s) x = Some p" "id_pool_inv p"
      "\<not> pool_in_use p x" "\<And>y. y \<noteq> x \<Longrightarrow> pool_in_use p y = in_use s y \<and> p_node_id p y = xact_id s y"
    by (rule id_pool_free) blast
  let ?s' = "?s4\<lparr>xs_pool := p\<rparr>"
  from xact_timer_delete_seq[of "xs_xact s x" s] m(1)
  obtain s1 s2 where "xact_timer_delete (x_tm_response (xs_xact s x)) s = Some s1"
    "xact_timer_delete (x_tm_holding (xs_xact s x)) s1 = Some s2"
    "xact_timer_delete (x_tm_delayed_commit (xs_xact s x)) s2 = Some ?s3"
    by (auto simp: bind_eq_Some_conv)
  then have eq: "ogs_pfcp_xact_delete s x = Some ?s'"
    using p(1) by (simp add: ogs_pfcp_xact_delete_def Let_def)
  have use: "in_use ?s' y \<longleftrightarrow> y \<noteq> x \<and> in_use s y" for y using p(3) p(4)[of y] by (cases "y = x") auto
  have notin: "x \<notin> set (xlist s org n)" if "org \<noteq> x_org (xs_xact s x) \<or> n \<noteq> x_node (xs_xact s x)" for org n
    using lo that by (auto simp: xact_lists_ok_def)
  have lists: "xlist ?s' org n = remove1 x (xlist s org n)" for org n
    using xlist_list_upd[of org x "remove1 x" ?s3 n] notin[of org n] by (auto simp: remove1_idem)
  have "xact_lists_ok ?s'"
    using lo unfolding xact_lists_ok_def lists use by (auto simp: set_remove1_eq)
  moreover have "xact_timers_ok ?s'"
    unfolding xact_timers_ok_def
  proof (intro allI)
    fix t r i
    show "(t \<in> live ?s' \<and> timer_data (xs_timer ?s') t = Xact_timer r i) =
        (\<exists>y. in_use ?s' y \<and> xact_id ?s' y = i \<and> x_timer r (xs_xact ?s' y) = Some t)" (is "?L = ?R")
    proof
      assume ?L
      then have tl: "t \<in> live s" "timer_data (xs_timer s) t = Xact_timer r i" "t \<notin> set ?ts"
        using m(3,5) by auto
      from tl(1,2) obtain y where y: "in_use s y" "xact_id s y = i" "x_timer r (xs_xact s y) = Some t"
        by (rule xact_timer_holder[OF inv])
      with tl(3) have "y \<noteq> x" by (auto simp: set_x_timer_list)
      with y show ?R using p(4)[of y] by (intro exI[of _ y]) simp
    next
      assume ?R
      then obtain y where y: "in_use ?s' y" "p_node_id p y = i" "x_timer r (xs_xact s y) = Some t"
        by auto
      with use[of y] p(4)[of y] have "y \<noteq> x" "in_use s y" "xact_id s y = i"
          "x_timer r (xs_xact s y) = Some t" by auto
      moreover from this have "t \<notin> set ?ts"
        using xact_timer_owner[OF inv x] by (fastforce simp: set_x_timer_list)
      ultimately show ?L using xact_timer_facts[OF inv] m(3,5) by simp
    qed
  qed
  moreover have "xact_objects_ok ?s'"
    using inv m(4) use unfolding xact_objects_ok_def by (auto simp: xact_inv_def xact_objects_ok_def)
  ultimately have "xact_inv ?s'" using inv p(2) m(2) by (simp add: xact_inv_def)
  moreover have "p_id p = p_id (xs_pool s)" using p(1) by (rule pool_free_keeps_p_id)
  ultimately show ?thesis
    using eq use lists m p(4) by (intro that[of ?s']) simp_all
qed

subsection \<open>Creation\<close>

text \<open>Nothing a user of the layer can see has changed.\<close>

definition xact_same :: "'c xact_state \<Rightarrow> 'c xact_state \<Rightarrow> bool" where
  "xact_same s s' \<longleftrightarrow> (\<forall>y. in_use s' y = in_use s y) \<and>
     (\<forall>y. in_use s y \<longrightarrow> xs_xact s' y = xs_xact s y \<and> xact_id s' y = xact_id s y) \<and>
     (\<forall>org n. xlist s' org n = xlist s org n) \<and> live s' = live s \<and> armed s' = armed s \<and>
     xs_sent s' = xs_sent s \<and> xs_cb_log s' = xs_cb_log s \<and> xs_conf s' = xs_conf s"

text \<open>\<open>s'\<close> is \<open>s\<close> with the transaction \<open>x\<close> added; its timers are the new ones.\<close>

definition xact_added :: "nat \<Rightarrow> 'c xact_state \<Rightarrow> 'c xact_state \<Rightarrow> bool" where
  "xact_added x s s' \<longleftrightarrow> \<not> in_use s x \<and> (\<forall>y. in_use s' y \<longleftrightarrow> y = x \<or> in_use s y) \<and>
     (\<forall>y. in_use s y \<longrightarrow> xs_xact s' y = xs_xact s y \<and> xact_id s' y = xact_id s y) \<and>
     (\<forall>org n. xlist s' org n = xlist s org n @
        (if x_org (xs_xact s' x) = org \<and> x_node (xs_xact s' x) = n then [x] else [])) \<and>
     live s' = live s \<union> set (x_timer_list (xs_xact s' x)) \<and>
     live s \<inter> set (x_timer_list (xs_xact s' x)) = {} \<and> armed s' = armed s \<and>
     xs_sent s' = xs_sent s \<and> xs_cb_log s' = xs_cb_log s \<and> xs_conf s' = xs_conf s"

lemma remove1_snoc_if: "x \<notin> set l \<Longrightarrow> remove1 x (l @ (if b then [x] else [])) = l"
  by (induction l) auto

lemma distinct_snoc_if: "x \<notin> set l \<Longrightarrow> distinct l \<Longrightarrow> distinct (l @ (if b then [x] else []))"
  by (cases b) simp_all

lemma set_snoc_if: "set (l @ (if b then [x] else [])) = set l \<union> (if b then {x} else {})"
  by (cases b) simp_all

lemma xact_added_delete:
  assumes inv: "xact_inv s" "xact_inv s'" and add: "xact_added x s s'"
  obtains s'' where "ogs_pfcp_xact_delete s' x = Some s''" "xact_inv s''" "xact_same s s''"
proof -
  from add have nx: "\<not> in_use s x" and x: "in_use s' x" by (auto simp: xact_added_def)
  from inv(2) x obtain s'' where d: "ogs_pfcp_xact_delete s' x = Some s''" "xact_inv s''"
    "\<And>y. in_use s'' y \<longleftrightarrow> y \<noteq> x \<and> in_use s' y" "\<And>y. y \<noteq> x \<Longrightarrow> xact_id s'' y = xact_id s' y"
    "xs_xact s'' = xs_xact s'" "\<And>org n. xlist s'' org n = remove1 x (xlist s' org n)"
    "live s'' = live s' - set (x_timer_list (xs_xact s' x))"
    "armed s'' = armed s' - set (x_timer_list (xs_xact s' x))"
    "xs_sent s'' = xs_sent s'" "xs_cb_log s'' = xs_cb_log s'" "xs_conf s'' = xs_conf s'"
    by (rule xact_delete_inv) blast
  have xl: "xlist s'' org n = xlist s org n" for org n
  proof -
    have "x \<notin> set (xlist s org n)" using inv(1) nx by (auto simp: xact_inv_def xact_lists_ok_def)
    moreover have "xlist s' org n = xlist s org n @
        (if x_org (xs_xact s' x) = org \<and> x_node (xs_xact s' x) = n then [x] else [])"
      using add unfolding xact_added_def by blast
    ultimately show ?thesis by (simp only: d(6) remove1_snoc_if not_False_eq_True)
  qed
  moreover have "armed s \<subseteq> live s"
    using inv(1) by (intro tmr.armed_live) (simp add: xact_inv_def)
  moreover have "xact_id s'' y = xact_id s y" if "in_use s y" for y
    using that nx add d(4)[of y] unfolding xact_added_def by (metis (no_types))
  ultimately have "xact_same s s''"
    using add nx d unfolding xact_same_def xact_added_def by auto
  with d(1,2) show ?thesis by (rule that)
qed

lemma xact_add_timer_inv:
  assumes inv: "xact_inv s0" "xact_inv s" and add: "xact_added x s0 s"
    and none: "x_timer r (xs_xact s x) = None"
  obtains (fail) s' where "xact_add_timer x r s = Some (False, s')" "xact_inv s'" "xact_same s0 s'"
  | (ok) t s' where "xact_add_timer x r s = Some (True, s')" "xact_inv s'" "xact_added x s0 s'"
      "xs_xact s' x = set_x_timer r t (xs_xact s x)"
proof -
  let ?d = "Xact_timer r (xact_id s x)"
  from inv(2) have ti: "timer_inv (xs_timer s)" by (simp add: xact_inv_def)
  from add have x: "in_use s x" by (simp add: xact_added_def)
  show ?thesis
  proof (rule tmr.add_cases[OF ti, of ?d])
    assume n: "ogs_timer_add (xs_timer s) ?d = Some (None, xs_timer s)"
    obtain s'' where "ogs_pfcp_xact_delete s x = Some s''" "xact_inv s''" "xact_same s0 s''"
      using xact_added_delete[OF inv add] .
    with n show ?thesis by (intro fail[of s'']) (simp_all add: xact_add_timer_def)
  next
    fix t m
    assume m: "ogs_timer_add (xs_timer s) ?d = Some (Some t, m)" "timer_inv m" "t \<notin> live s"
      "timer_live m = insert t (live s)" "timer_armed m = armed s" "timer_data m t = ?d"
      "\<And>u. u \<in> live s \<Longrightarrow> timer_data m u = timer_data (xs_timer s) u"
    let ?s' = "xact_upd x (set_x_timer r t) (s\<lparr>xs_timer := m\<rparr>)"
    have xt: "x_timer q (xs_xact ?s' y) = (if y = x \<and> q = r then Some t else x_timer q (xs_xact s y))"
      for q y by simp
    have "xact_timers_ok ?s'"
      unfolding xact_timers_ok_def xt
    proof (intro allI)
      fix u q i
      show "(u \<in> live ?s' \<and> timer_data (xs_timer ?s') u = Xact_timer q i) =
        (\<exists>y. in_use ?s' y \<and> xact_id ?s' y = i \<and>
           (if y = x \<and> q = r then Some t else x_timer q (xs_xact s y)) = Some u)" (is "?L = ?R")
      proof
        assume l: ?L
        show ?R
        proof (cases "u = t")
          case True
          with l m(6) x show ?thesis by (intro exI[of _ x]) auto
        next
          case False
          with l m(4,7) have "u \<in> live s" "timer_data (xs_timer s) u = Xact_timer q i" by auto
          then obtain y where "in_use s y" "xact_id s y = i" "x_timer q (xs_xact s y) = Some u"
            by (rule xact_timer_holder[OF inv(2)])
          with none show ?thesis by (intro exI[of _ y]) auto
        qed
      next
        assume ?R
        then obtain y where y: "in_use s y" "xact_id s y = i"
          "(if y = x \<and> q = r then Some t else x_timer q (xs_xact s y)) = Some u" by auto
        show ?L
        proof (cases "y = x \<and> q = r")
          case True
          with y m(4,6) show ?thesis by auto
        next
          case False
          with y(3) have "x_timer q (xs_xact s y) = Some u" by (simp split: if_splits)
          from xact_timer_facts[OF inv(2) y(1) this] m(4,7) y(2) show ?thesis by simp
        qed
      qed
    qed
    moreover have "xact_objects_ok ?s'"
    proof -
      have "t \<notin> armed s" using m(3) tmr.armed_live[OF ti] by blast
      moreover have "xact_seq_ok (xs_xact ?s' y) = xact_seq_ok (xs_xact s y)"
        "xact_arm_ok q (xs_xact ?s' y) = xact_arm_ok q (xs_xact s y)" for q y
        using seq_arm_ok_cong[of "xs_xact ?s' y" "xs_xact s y"] by simp_all
      ultimately show ?thesis
        using inv(2) m(5) xt unfolding xact_objects_ok_def xact_inv_def
        by (auto split: if_splits)
    qed
    moreover have "xact_lists_ok ?s'"
      using inv(2) by (auto simp: xact_inv_def xact_lists_ok_def)
    ultimately have "xact_inv ?s'" using inv(2) m(2) by (simp add: xact_inv_def)
    moreover have "set (x_timer_list (xs_xact ?s' x)) = insert t (set (x_timer_list (xs_xact s x)))"
      using none unfolding set_x_timer_list xt
      by (auto split: if_splits) (metis option.simps(3))
    then have "xact_added x s0 ?s'"
      using add m(3-5) unfolding xact_added_def by auto
    ultimately show ?thesis
      using m(1) by (intro ok[of ?s' t]) (simp_all add: xact_add_timer_def)
  qed
qed

lemma xact_added_upd:
  assumes "xact_added x s0 s" "\<And>r. x_timer r (f (xs_xact s x)) = x_timer r (xs_xact s x)"
    and "x_org (f (xs_xact s x)) = x_org (xs_xact s x)"
    and "x_node (f (xs_xact s x)) = x_node (xs_xact s x)"
  shows "xact_added x s0 (xact_upd x f s)"
proof -
  have "x_timer_list (f (xs_xact s x)) = x_timer_list (xs_xact s x)"
    by (simp add: x_timer_list_def assms(2))
  then show ?thesis using assms(1,3,4) unfolding xact_added_def by auto
qed

text \<open>The fields of a transaction that its creation leaves as they were set first.\<close>

definition x_core :: "'c pfcp_xact \<Rightarrow> _" where
  "x_core xa = (x_index xa, x_org xa, x_xid xa, x_node xa, x_cb xa, x_step xa, x_seq xa)"

lemma x_core_simps [simp]:
  "x_core (set_x_timer r t xa) = x_core xa" "x_core (xa\<lparr>x_response_rcount := c\<rparr>) = x_core xa"
  "x_core (xa\<lparr>x_holding_rcount := c\<rparr>) = x_core xa"
  by (simp_all add: x_core_def)

lemma xact_rcount_inv:
  assumes "xact_inv s" "in_use s x"
  shows "xact_inv (xact_upd x (\<lambda>xa. xa\<lparr>x_response_rcount := c xa\<rparr>) s)"
    and "xact_inv (xact_upd x (\<lambda>xa. xa\<lparr>x_holding_rcount := c xa\<rparr>) s)"
proof -
  note ok = seq_arm_ok_cong[of "(xs_xact s x)\<lparr>x_response_rcount := a\<rparr>" "xs_xact s x" for a]
    seq_arm_ok_cong[of "(xs_xact s x)\<lparr>x_holding_rcount := a\<rparr>" "xs_xact s x" for a]
  from assms have "xact_seq_ok (xs_xact s x)"
    "\<And>r t. x_timer r (xs_xact s x) = Some t \<Longrightarrow> t \<in> armed s \<Longrightarrow> xact_arm_ok r (xs_xact s x)"
    by (auto simp: xact_inv_def xact_objects_ok_def)
  then show "xact_inv (xact_upd x (\<lambda>xa. xa\<lparr>x_response_rcount := c xa\<rparr>) s)"
    and "xact_inv (xact_upd x (\<lambda>xa. xa\<lparr>x_holding_rcount := c xa\<rparr>) s)"
    using ok by (auto intro!: xact_inv_upd[OF assms])
qed

lemma xact_add_timers_inv:
  assumes inv: "xact_inv s0" "xact_inv s" and add: "xact_added x s0 s"
    and none: "\<And>r. x_timer r (xs_xact s x) = None"
  obtains (fail) s' where "xact_add_timers x s = Some (None, s')" "xact_inv s'" "xact_same s0 s'"
  | (ok) s' where "xact_add_timers x s = Some (Some x, s')" "xact_inv s'" "xact_added x s0 s'"
      "x_core (xs_xact s' x) = x_core (xs_xact s x)" "\<And>r. x_timer r (xs_xact s' x) \<noteq> None"
      "x_response_rcount (xs_xact s' x) = n1_response_rcount (xs_conf s0)"
      "x_holding_rcount (xs_xact s' x) = n1_holding_rcount (xs_conf s0)"
proof (cases rule: xact_add_timer_inv[OF inv add none[of R_response], case_names fail1 ok1])
  case (fail1 s1)
  then show ?thesis by (intro fail[of s1]) (simp_all add: xact_add_timers_def)
next
  case (ok1 t1 s1)
  let ?s1 = "xact_upd x (\<lambda>xa. xa\<lparr>x_response_rcount := n1_response_rcount (xs_conf s1)\<rparr>) s1"
  have x1: "in_use s1 x" using ok1(3) by (simp add: xact_added_def)
  have i1: "xact_inv ?s1" by (rule xact_rcount_inv(1)[OF ok1(2) x1])
  have a1: "xact_added x s0 ?s1" by (rule xact_added_upd[OF ok1(3)]) simp_all
  have n1: "x_timer R_holding (xs_xact ?s1 x) = None" using none ok1(4) by simp
  show ?thesis
  proof (cases rule: xact_add_timer_inv[OF inv(1) i1 a1 n1, case_names fail2 ok2])
    case (fail2 s2)
    with ok1 show ?thesis by (intro fail[of s2]) (simp_all add: xact_add_timers_def)
  next
    case (ok2 t2 s2)
    let ?s2 = "xact_upd x (\<lambda>xa. xa\<lparr>x_holding_rcount := n1_holding_rcount (xs_conf s2)\<rparr>) s2"
    have x2: "in_use s2 x" using ok2(3) by (simp add: xact_added_def)
    have i2: "xact_inv ?s2" by (rule xact_rcount_inv(2)[OF ok2(2) x2])
    have a2: "xact_added x s0 ?s2" by (rule xact_added_upd[OF ok2(3)]) simp_all
    have n2: "x_timer R_delayed_commit (xs_xact ?s2 x) = None" using none ok1(4) ok2(4) by simp
    show ?thesis
    proof (cases rule: xact_add_timer_inv[OF inv(1) i2 a2 n2, case_names fail3 ok3])
      case (fail3 s3)
      with ok1 ok2 show ?thesis by (intro fail[of s3]) (simp_all add: xact_add_timers_def)
    next
      case (ok3 t3 s3)
      have "x_timer r (xs_xact s3 x) \<noteq> None" for r
        using ok1(4) ok2(4) ok3(4) by (cases r) simp_all
      moreover have "xs_conf s1 = xs_conf s0" "xs_conf s2 = xs_conf s0"
        using ok1(3) ok2(3) by (simp_all add: xact_added_def)
      moreover have "xact_add_timers x s = Some (Some x, s3)"
        using ok1(1) ok2(1) ok3(1) by (simp add: xact_add_timers_def)
      ultimately show ?thesis
        using ok1(4) ok2(4) ok3(2-4)
        by (intro ok[of s3]) (auto simp: set_x_timer_def x_core_def)
    qed
  qed
qed

lemma xact_link_inv:
  fixes s :: "'c xact_state" and org xid n cb g
  assumes inv: "xact_inv s" and c: "ogs_pool_id_calloc (xs_pool s) = Some (Some x, p)"
    and fresh: "p_id_hash (xs_pool s) (next_pool_id (xs_pool s)) = None"
  defines "s3 \<equiv> xact_list_upd x (\<lambda>l. l @ [x])
     (xact_upd x (\<lambda>_. xact_blank x org xid n cb) (s\<lparr>xs_pool := p, xs_g_xact_id := g\<rparr>))"
  shows "xact_inv s3" "xact_added x s s3" "xs_xact s3 x = xact_blank x org xid n cb"
proof -
  from inv have pi: "id_pool_inv (xs_pool s)" by (simp add: xact_inv_def)
  have "0 < p_avail (xs_pool s)" using c id_pool_alloc_None[OF pi] by auto
  from id_pool_alloc[OF pi this fresh] c
  have p: "id_pool_inv p" "\<not> in_use s x" "pool_in_use p x" 
    "\<And>m. m \<noteq> x \<Longrightarrow> pool_in_use p m = in_use s m \<and> p_node_id p m = xact_id s m"
    by auto
  show sx: "xs_xact s3 x = xact_blank x org xid n cb" by (simp add: s3_def)
  have oth: "xs_xact s3 y = xs_xact s y" if "y \<noteq> x" for y using that by (simp add: s3_def)
  have use: "in_use s3 y \<longleftrightarrow> y = x \<or> in_use s y" for y
    using p(3) p(4)[of y] by (cases "y = x") (simp_all add: s3_def)
  have id: "xact_id s3 y = xact_id s y" if "y \<noteq> x" for y
    using p(4)[OF that] by (simp add: s3_def)
  have lists: "xlist s3 org' n' = xlist s org' n' @ (if org = org' \<and> n = n' then [x] else [])" for org' n'
    unfolding s3_def xlist_list_upd by (auto simp: xact_blank_def)
  have on: "x_org (xs_xact s3 x) = org" "x_node (xs_xact s3 x) = n"
    by (simp_all add: sx) (simp_all add: xact_blank_def)
  have old: "xs_xact s3 y = xs_xact s y \<and> xact_id s3 y = xact_id s y" if "in_use s y" for y
    using that p(2) oth[of y] id[of y] by (cases "y = x") simp_all
  have rest: "live s3 = live s" "armed s3 = armed s" "xs_sent s3 = xs_sent s"
    "xs_cb_log s3 = xs_cb_log s" "xs_conf s3 = xs_conf s" by (simp_all add: s3_def)
  show "xact_added x s s3"
    unfolding xact_added_def on
    by (intro conjI allI lists) (use p(2) use old rest in \<open>simp_all add: set_x_timer_list sx\<close>)
  have nx: "x \<notin> set (xlist s org' n')" for org' n'
    using inv p(2) by (auto simp: xact_inv_def xact_lists_ok_def)
  have lo: "distinct (xlist s org' n') \<and> set (xlist s org' n') =
      {y. in_use s y \<and> x_org (xs_xact s y) = org' \<and> x_node (xs_xact s y) = n'}" for org' n'
    using inv unfolding xact_inv_def xact_lists_ok_def by blast
  have "distinct (xlist s3 org' n')" for org' n'
    unfolding lists by (rule distinct_snoc_if[OF nx]) (rule lo[THEN conjunct1])
  moreover have "set (xlist s3 org' n') =
      {y. in_use s3 y \<and> x_org (xs_xact s3 y) = org' \<and> x_node (xs_xact s3 y) = n'}" for org' n'
  proof -
    have "set (xlist s3 org' n') = set (xlist s org' n') \<union> (if org = org' \<and> n = n' then {x} else {})"
      unfolding lists by (rule set_snoc_if)
    also have "\<dots> = {y. in_use s3 y \<and> x_org (xs_xact s3 y) = org' \<and> x_node (xs_xact s3 y) = n'}"
      using lo[of org' n'] old use on p(2) by (auto split: if_splits)
    finally show ?thesis .
  qed
  ultimately have "xact_lists_ok s3" unfolding xact_lists_ok_def by blast
  moreover have "xact_timers_ok s3"
  proof -
    have "(\<exists>y. in_use s3 y \<and> xact_id s3 y = i \<and> x_timer r (xs_xact s3 y) = Some t) \<longleftrightarrow>
        (\<exists>y. in_use s y \<and> xact_id s y = i \<and> x_timer r (xs_xact s y) = Some t)" for i r t
      using sx oth use id p(2) by (metis option.simps(3) x_timer_blank)
    moreover have "xs_timer s3 = xs_timer s" by (simp add: s3_def)
    ultimately show ?thesis using inv by (simp add: xact_inv_def xact_timers_ok_def)
  qed
  moreover have "xact_objects_ok s3"
    unfolding xact_objects_ok_def
  proof (intro allI impI)
    fix y assume y: "in_use s3 y"
    show "xact_seq_ok (xs_xact s3 y) \<and> (\<forall>r t. x_timer r (xs_xact s3 y) = Some t \<longrightarrow>
        t \<in> armed s3 \<longrightarrow> xact_arm_ok r (xs_xact s3 y))"
    proof (cases "y = x")
      case True
      then show ?thesis by (simp add: sx xact_seq_ok_blank)
    next
      case False
      moreover have "armed s3 = armed s" by (simp add: s3_def)
      ultimately show ?thesis using y inv oth use by (auto simp: xact_inv_def xact_objects_ok_def)
    qed
  qed
  ultimately show "xact_inv s3"
    using inv p(1) by (simp add: xact_inv_def) (simp add: s3_def)
qed

text \<open>The two creators differ in the originator, the transaction identifier and the
  counter; what they have in common is \<open>xact_create\<close>.\<close>

definition xact_create :: "'c xact_state \<Rightarrow> pfcp_org \<Rightarrow> u32 \<Rightarrow> nat \<Rightarrow> 'c option \<Rightarrow> u32 \<Rightarrow>
    (nat option \<times> 'c xact_state) option" where
  "xact_create s org xid n cb g =
     Option.bind (ogs_pool_id_calloc (xs_pool s)) (\<lambda>(xo, p).
       case xo of
         None \<Rightarrow> Some (None, s\<lparr>xs_pool := p\<rparr>)
       | Some x \<Rightarrow> xact_add_timers x (xact_list_upd x (\<lambda>l. l @ [x])
           (xact_upd x (\<lambda>_. xact_blank x org xid n cb) (s\<lparr>xs_pool := p, xs_g_xact_id := g\<rparr>))))"

abbreviation next_xid :: "'c xact_state \<Rightarrow> u32" where
  "next_xid s \<equiv>
     if xs_g_xact_id s = PFCP_MAX_XACT_ID then PFCP_MIN_XACT_ID else xs_g_xact_id s + 1"

lemma local_create_eq:
  "ogs_pfcp_xact_local_create s n cb =
     xact_create s OGS_PFCP_LOCAL_ORIGINATOR (next_xid s) n cb (next_xid s)"
  by (cases "ogs_pool_id_calloc (xs_pool s)")
    (auto simp: ogs_pfcp_xact_local_create_def xact_create_def Let_def split: option.split)

lemma remote_create_eq:
  "ogs_pfcp_xact_remote_create s n sqn =
     xact_create s OGS_PFCP_REMOTE_ORIGINATOR (OGS_PFCP_SQN_TO_XID sqn) n None (xs_g_xact_id s)"
  by (cases "ogs_pool_id_calloc (xs_pool s)")
    (auto simp: ogs_pfcp_xact_remote_create_def xact_create_def Let_def split: option.split)

abbreviation xact_fresh :: "'c xact_state \<Rightarrow> bool" where
  "xact_fresh s \<equiv> p_id_hash (xs_pool s) (next_pool_id (xs_pool s)) = None"

lemma xact_create_inv:
  assumes inv: "xact_inv s" and fresh: "xact_fresh s"
  obtains (fail) s' where "xact_create s org xid n cb g = Some (None, s')" "xact_inv s'"
      "xact_same s s'"
  | (ok) x s' where "xact_create s org xid n cb g = Some (Some x, s')" "xact_inv s'"
      "xact_added x s s'" "x_core (xs_xact s' x) = x_core (xact_blank x org xid n cb)"
      "\<And>r. x_timer r (xs_xact s' x) \<noteq> None"
      "x_response_rcount (xs_xact s' x) = n1_response_rcount (xs_conf s)"
      "x_holding_rcount (xs_xact s' x) = n1_holding_rcount (xs_conf s)"
proof -
  from inv have pi: "id_pool_inv (xs_pool s)" by (simp add: xact_inv_def)
  then obtain xo p where c: "ogs_pool_id_calloc (xs_pool s) = Some (xo, p)"
    using id_pool_alloc_None[OF pi] id_pool_alloc[OF pi _ fresh] by (metis gr0I)
  show ?thesis
  proof (cases xo)
    case None
    with c id_pool_alloc_None[OF pi] have "p = xs_pool s" by simp
    with c None inv show ?thesis
      by (intro fail[of s]) (simp_all add: xact_create_def xact_same_def)
  next
    case (Some x)
    note link = xact_link_inv[OF inv c[unfolded Some] fresh, of org xid n cb g]
    show ?thesis
      using Some c by (cases rule: xact_add_timers_inv[OF inv link(1,2)])
        (auto simp: link(3) xact_create_def intro: fail ok)
  qed
qed

subsection \<open>Sending and receiving\<close>

text \<open>An operation on \<open>x\<close> that neither creates nor deletes.\<close>

definition xact_touch :: "nat \<Rightarrow> 'c xact_state \<Rightarrow> 'c xact_state \<Rightarrow> bool" where
  "xact_touch x s s' \<longleftrightarrow> xs_pool s' = xs_pool s \<and> xs_node s' = xs_node s \<and>
     xs_conf s' = xs_conf s \<and> xs_cb_log s' = xs_cb_log s \<and> live s' = live s \<and>
     (\<forall>u. timer_data (xs_timer s') u = timer_data (xs_timer s) u) \<and>
     (\<forall>y. y \<noteq> x \<longrightarrow> xs_xact s' y = xs_xact s y) \<and>
     (\<forall>r. x_timer r (xs_xact s' x) = x_timer r (xs_xact s x)) \<and>
     x_xid (xs_xact s' x) = x_xid (xs_xact s x) \<and> x_org (xs_xact s' x) = x_org (xs_xact s x) \<and>
     x_node (xs_xact s' x) = x_node (xs_xact s x)"

lemma seq3: "length xs = 3 \<Longrightarrow> \<exists>a b c. xs = [a, b, c]"
  by (auto simp: numeral_3_eq_3 length_Suc_conv)

lemma all_less_3: "(\<forall>k<3. P k) \<longleftrightarrow> P 0 \<and> P 1 \<and> P (2::nat)"
  by (auto simp: numeral_3_eq_3 numeral_2_eq_2 less_Suc_eq)

lemma xact_seq_ok_3:
  "x_seq xa = [a, b, c] \<Longrightarrow> xact_seq_ok xa \<longleftrightarrow> x_step xa \<le> 3 \<and>
     (x_step xa \<le> 0 \<longrightarrow> a = (0, None)) \<and> (x_step xa \<le> 1 \<longrightarrow> b = (0, None)) \<and>
     (x_step xa \<le> 2 \<longrightarrow> c = (0, None)) \<and>
     (1 \<le> x_step xa \<longrightarrow> stage_of a = PFCP_XACT_INITIAL_STAGE) \<and>
     (2 \<le> x_step xa \<longrightarrow> stage_of b = PFCP_XACT_FINAL_STAGE) \<and>
     (3 \<le> x_step xa \<longrightarrow> stage_of c = PFCP_XACT_FINAL_STAGE) \<and>
     (case x_org xa of
        OGS_PFCP_LOCAL_ORIGINATOR \<Rightarrow>
          (1 \<le> x_step xa \<longrightarrow> snd a \<noteq> None) \<and> snd b = None \<and> (3 \<le> x_step xa \<longrightarrow> snd c \<noteq> None)
      | OGS_PFCP_REMOTE_ORIGINATOR \<Rightarrow>
          snd a = None \<and> (2 \<le> x_step xa \<longrightarrow> snd b \<noteq> None) \<and> snd c = None)"
  by (simp add: xact_seq_ok_def all_less_3 cong: pfcp_org.case_cong)

text \<open>The steps of the exchange: who sends what in which order.\<close>

lemma xact_seq_ok_step:
  assumes ok: "xact_seq_ok xa"
    and good: "(x_org xa, ogs_pfcp_xact_get_stage type, x_step xa, q \<noteq> None) \<in>
      {(OGS_PFCP_LOCAL_ORIGINATOR, PFCP_XACT_INITIAL_STAGE, 0, True),
       (OGS_PFCP_LOCAL_ORIGINATOR, PFCP_XACT_FINAL_STAGE, 1, False),
       (OGS_PFCP_LOCAL_ORIGINATOR, PFCP_XACT_FINAL_STAGE, 2, True),
       (OGS_PFCP_REMOTE_ORIGINATOR, PFCP_XACT_INITIAL_STAGE, 0, False),
       (OGS_PFCP_REMOTE_ORIGINATOR, PFCP_XACT_FINAL_STAGE, 1, True),
       (OGS_PFCP_REMOTE_ORIGINATOR, PFCP_XACT_FINAL_STAGE, 2, False)}"
  shows "xact_seq_ok (xa\<lparr>x_seq := (x_seq xa)[x_step xa := (type, q)], x_step := x_step xa + 1\<rparr>)"
    (is "xact_seq_ok ?xb")
proof -
  from ok have "length (x_seq xa) = 3" by (simp add: xact_seq_ok_def)
  then obtain a b c where abc: "x_seq xa = [a, b, c]" using seq3 by blast
  note old = ok[unfolded xact_seq_ok_3[OF abc]]
  consider "x_step xa = 0" | "x_step xa = 1" | "x_step xa = 2" using good by auto
  then show ?thesis
  proof cases
    case 1
    then have "x_seq ?xb = [(type, q), b, c]" by (simp add: abc)
    then show ?thesis using 1 good old by (auto simp: xact_seq_ok_3 split: pfcp_org.splits)
  next
    case 2
    then have "x_seq ?xb = [a, (type, q), c]" by (simp add: abc)
    then show ?thesis using 2 good old by (auto simp: xact_seq_ok_3 split: pfcp_org.splits)
  next
    case 3
    then have "x_seq ?xb = [a, b, (type, q)]" by (simp add: abc)
    then show ?thesis using 3 good old by (auto simp: xact_seq_ok_3 split: pfcp_org.splits)
  qed
qed

lemma no_intermediate: "ogs_pfcp_xact_get_stage type \<noteq> PFCP_XACT_INTERMEDIATE_STAGE"
  by (simp add: ogs_pfcp_xact_get_stage_def)

lemma stage_0: "ogs_pfcp_xact_get_stage 0 = PFCP_XACT_UNKNOWN_STAGE"
  by (simp add: ogs_pfcp_xact_get_stage_def)

lemma pfcp_push_header_Some:
  assumes "pk_inv pk" "pfcp_hlen type \<le> pk_data pk"
  obtains pk' where "pfcp_push_header type seid xid pk = Some pk'" "pk_inv pk'"
    "pk_bytes pk' = pfcp_header_bytes type seid xid (of_nat (pk_len pk + pfcp_hlen type) - 4) @ pk_bytes pk"
proof -
  let ?n = "pfcp_hlen type"
  let ?h = "pfcp_header_bytes type seid xid (of_nat (pk_len pk + ?n) - 4)"
  have n: "?n \<le> 16" by (simp add: pfcp_hlen_def)
  have len: "length ?h = ?n" by (simp add: pfcp_header_bytes_def pfcp_hlen_def)
  then have hb: "length ?h < 2 ^ 31" "length ?h \<le> pk_data pk" using assms(2) n by simp_all
  from pkbuf_prepend_Some[OF assms(1) hb] obtain pk' where pk': "pkbuf_prepend pk ?h = Some pk'"
      "pk_inv pk'" "pk_bytes pk' = ?h @ pk_bytes pk" by blast
  have "unat (of_nat ?n :: u32) = ?n" using n by (intro unat_of_nat_u32) simp
  then have "pk_len p1 = pk_len pk + ?n" if "ogs_pkbuf_push pk (of_nat ?n) = Some p1" for p1
    using that by (auto simp: ogs_pkbuf_push_def split: if_splits)
  then have "pfcp_push_header type seid xid pk = pkbuf_prepend pk ?h"
    unfolding pfcp_push_header_def pkbuf_prepend_def len
    by (cases "ogs_pkbuf_push pk (of_nat ?n)") simp_all
  with pk' show ?thesis by (intro that[of pk']) simp_all
qed

lemma xact_update_tx_inv:
  assumes inv: "xact_inv s" and x: "in_use s x"
    and st: "ogs_pfcp_xact_get_stage type \<noteq> PFCP_XACT_UNKNOWN_STAGE"
    and pk: "pk_inv pk" "pfcp_hlen type \<le> pk_data pk"
  obtains (error) "ogs_pfcp_xact_update_tx s x type seid pk = Some (OGS_ERROR, s)"
  | (ok) s' pk' where "ogs_pfcp_xact_update_tx s x type seid pk = Some (OGS_OK, s')" "xact_inv s'"
      "xact_touch x s s'" "last_seq (xs_xact s' x) = Some (type, Some pk')"
      "pfcp_push_header type seid (x_xid (xs_xact s x)) pk = Some pk'"
      "x_step (xs_xact s' x) = x_step (xs_xact s x) + 1" "xs_sent s' = xs_sent s"
      "x_seq (xs_xact s' x) = (x_seq (xs_xact s x))[x_step (xs_xact s x) := (type, Some pk')]"
proof -
  let ?xa = "xs_xact s x"
  obtain pk' where pk': "pfcp_push_header type seid (x_xid ?xa) pk = Some pk'"
    using pfcp_push_header_Some[OF pk] by blast
  let ?f = "\<lambda>xa. xa\<lparr>x_seq := (x_seq xa)[x_step xa := (type, Some pk')], x_step := x_step xa + 1\<rparr>"
  have sok: "xact_seq_ok ?xa" using inv x by (simp add: xact_inv_def xact_objects_ok_def)
  then have len: "length (x_seq ?xa) = 3" by (simp add: xact_seq_ok_def)
  then obtain a b c where abc: "x_seq ?xa = [a, b, c]" using seq3 by blast
  define good where "good \<longleftrightarrow> (case x_org ?xa of
      OGS_PFCP_LOCAL_ORIGINATOR \<Rightarrow> (ogs_pfcp_xact_get_stage type, x_step ?xa) \<in>
        {(PFCP_XACT_INITIAL_STAGE, 0), (PFCP_XACT_FINAL_STAGE, 2)}
    | OGS_PFCP_REMOTE_ORIGINATOR \<Rightarrow> (ogs_pfcp_xact_get_stage type, x_step ?xa) = (PFCP_XACT_FINAL_STAGE, 1))"
  show ?thesis
  proof (cases good)
    case False
    then have "ogs_pfcp_xact_update_tx s x type seid pk = Some (OGS_ERROR, s)"
      using st no_intermediate[of type]
      by (cases "ogs_pfcp_xact_get_stage type"; cases "x_org ?xa")
        (auto simp: good_def ogs_pfcp_xact_update_tx_def Let_def)
    then show ?thesis by (rule error)
  next
    case True
    then have step: "x_step ?xa < 3" by (auto simp: good_def split: pfcp_org.splits)
    have eq: "ogs_pfcp_xact_update_tx s x type seid pk = Some (OGS_OK, xact_upd x ?f s)"
      using True pk' abc
      by (auto simp: good_def ogs_pfcp_xact_update_tx_def Let_def split: pfcp_org.splits)
    have ls: "last_seq (?f ?xa) = Some (type, Some pk')"
      using step len by (simp add: last_seq_def)
    have "xact_seq_ok (?f ?xa)"
      using True by (intro xact_seq_ok_step[OF sok]) (auto simp: good_def split: pfcp_org.splits)
    moreover have "xact_arm_ok r (?f ?xa)" for r using ls by (simp add: xact_arm_ok_def xact_pending_def)
    ultimately have "xact_inv (xact_upd x ?f s)" by (intro xact_inv_upd[OF inv x]) simp_all
    with eq ls pk' show ?thesis
      by (intro ok[of "xact_upd x ?f s" pk']) (auto simp: xact_touch_def)
  qed
qed

lemma xact_touch_timer:
  "timer_live m = live s \<Longrightarrow> (\<And>u. timer_data m u = timer_data (xs_timer s) u) \<Longrightarrow>
     xact_touch x s (s\<lparr>xs_timer := m\<rparr>)"
  by (simp add: xact_touch_def)

lemma xact_touch_refl: "xact_touch x s s"
  by (simp add: xact_touch_def)

lemma xact_resend_inv:
  assumes inv: "xact_inv s" and x: "in_use s x" and step: "0 < x_step (xs_xact s x)"
  obtains s' where "xact_resend s x answer = Some (OGS_RETRY, s')" "xact_inv s'" "xact_touch x s s'"
    "xs_xact s' = xs_xact s"
    "xs_sent s' = xs_sent s @ (case answer of None \<Rightarrow> [] | Some pk \<Rightarrow> [(x_node (xs_xact s x), pk)])"
proof (cases answer)
  case None
  then show ?thesis using inv by (intro that[of s]) (simp_all add: xact_resend_def xact_touch_refl)
next
  case (Some pk)
  have "t1_holding_duration (xs_conf s) \<noteq> 0" using inv by (simp add: xact_inv_def)
  moreover have "xact_arm_ok R_holding (xs_xact s x)" using step by (simp add: xact_arm_ok_def)
  ultimately obtain m where m: "xact_timer_start (x_timer R_holding (xs_xact s x))
        (t1_holding_duration (xs_conf s)) s = Some (s\<lparr>xs_timer := m\<rparr>)"
      "xact_inv (s\<lparr>xs_timer := m\<rparr>)" "timer_live m = live s"
      "\<And>u. timer_data m u = timer_data (xs_timer s) u"
    by (rule xact_timer_start_inv[OF inv x]) blast
  then show ?thesis
    using Some by (intro that[of "ogs_pfcp_sendto (x_node (xs_xact s x)) pk (s\<lparr>xs_timer := m\<rparr>)"])
      (simp_all add: xact_resend_def ogs_pfcp_sendto_def x_timer_def xact_touch_def)
qed

text \<open>The common end of \<open>ogs_pfcp_xact_update_rx\<close>: stop the response timer, store the
  type, advance; possibly with the holding timer started before.\<close>

definition xact_rx_store :: "nat \<Rightarrow> u8 \<Rightarrow> 'c xact_state \<Rightarrow> 'c xact_state" where
  "xact_rx_store x type s = xact_upd x (\<lambda>xa. xa\<lparr>x_seq := (x_seq xa)[x_step xa := (type, snd (x_seq xa ! x_step xa))],
     x_step := x_step xa + 1\<rparr>) (xact_timer_stop (x_tm_response (xs_xact s x)) s)"

lemma xact_rx_store_inv:
  assumes inv: "xact_inv s" and x: "in_use s x"
    and good: "(x_org (xs_xact s x), ogs_pfcp_xact_get_stage type, x_step (xs_xact s x)) \<in>
      {(OGS_PFCP_LOCAL_ORIGINATOR, PFCP_XACT_FINAL_STAGE, 1),
       (OGS_PFCP_REMOTE_ORIGINATOR, PFCP_XACT_INITIAL_STAGE, 0),
       (OGS_PFCP_REMOTE_ORIGINATOR, PFCP_XACT_FINAL_STAGE, 2)}"
    and m0: "timer_inv m0" "timer_live m0 = live s" "\<And>u. timer_data m0 u = timer_data (xs_timer s) u"
      "timer_armed m0 \<subseteq> armed s \<union> set_option (x_tm_holding (xs_xact s x))"
  defines "s' \<equiv> xact_rx_store x type (s\<lparr>xs_timer := m0\<rparr>)"
  shows "xact_inv s'" "xact_touch x s s'" "x_step (xs_xact s' x) = x_step (xs_xact s x) + 1"
    "armed s' = timer_armed m0 - set_option (x_tm_response (xs_xact s x))"
    "xs_sent s' = xs_sent s" "last_seq (xs_xact s' x) = Some (type, None)"
proof -
  let ?xa = "xs_xact s x"
  let ?f = "\<lambda>xa. xa\<lparr>x_seq := (x_seq xa)[x_step xa := (type, snd (x_seq xa ! x_step xa))],
     x_step := x_step xa + 1\<rparr>"
  define m where "m = (case x_tm_response ?xa of None \<Rightarrow> m0 | Some t \<Rightarrow> ogs_timer_stop m0 t)"
  have m: "timer_inv m" "timer_live m = live s" "\<And>u. timer_data m u = timer_data (xs_timer s) u"
      "timer_armed m = timer_armed m0 - set_option (x_tm_response ?xa)"
    using tmr.stop_law[OF m0(1)] m0(1-3) by (auto simp: m_def split: option.splits)
  have s': "s' = xact_upd x ?f (s\<lparr>xs_timer := m\<rparr>)"
    by (simp add: s'_def xact_rx_store_def xact_timer_stop_def m_def split: option.split)
  have sok: "xact_seq_ok ?xa" using inv x by (simp add: xact_inv_def xact_objects_ok_def)
  then have len: "length (x_seq ?xa) = 3" by (simp add: xact_seq_ok_def)
  have none: "snd (x_seq ?xa ! x_step ?xa) = None" "x_step ?xa < 3"
    using good sok by (auto simp: xact_seq_ok_def)
  have "xact_seq_ok (?f ?xa)" using good none by (intro xact_seq_ok_step[OF sok]) auto
  moreover have "xact_arm_ok r (?f ?xa)" if "x_timer r ?xa = Some t" "t \<in> timer_armed m" for r t
    using that m(4) by (cases r) (auto simp: xact_arm_ok_def x_timer_def)
  moreover have "timer_armed m \<subseteq> armed s \<union> {t. \<exists>r. x_timer r ?xa = Some t}"
    using m(4) m0(4) unfolding ex_role by (auto simp: x_timer_def)
  ultimately show "xact_inv s'"
    unfolding s' using m(1-3) by (intro xact_inv_change[OF inv x]) simp_all
  show "xact_touch x s s'" using m by (simp add: s' xact_touch_def)
  show "x_step (xs_xact s' x) = x_step ?xa + 1" "xs_sent s' = xs_sent s"
    "armed s' = timer_armed m0 - set_option (x_tm_response ?xa)"
    using m by (simp_all add: s')
  show "last_seq (xs_xact s' x) = Some (type, None)"
    using len none by (simp add: s' last_seq_def)
qed

end
