(* ===== verification/Pfcp_Xact_Props.thy ===== *)
theory Pfcp_Xact_Props
  imports Pfcp_Xact_Inv
begin

text \<open>
  Receiving, committing and the timeouts of the PFCP transaction layer keep the invariant
  and reach no assertion; the properties of the layer.
\<close>

lemma xact_seq_ok_in_use: "xact_inv s \<Longrightarrow> in_use s x \<Longrightarrow> xact_seq_ok (xs_xact s x)"
  by (simp add: xact_inv_def xact_objects_ok_def)

lemma xact_last_seq:
  assumes "xact_inv s" "in_use s x" "0 < x_step (xs_xact s x)"
  obtains type q where "last_seq (xs_xact s x) = Some (type, q)"
  using xact_seq_ok_in_use[OF assms(1,2)] assms(3) that
  by (cases "x_seq (xs_xact s x) ! (x_step (xs_xact s x) - 1)")
    (auto simp: last_seq_def xact_seq_ok_def)

text \<open>The messages \<open>ogs_pfcp_xact_update_rx\<close> accepts, and the ones it recognises as
  repetitions.\<close>

definition rx_expected :: "'c pfcp_xact \<Rightarrow> u8 \<Rightarrow> bool" where
  "rx_expected xa type \<longleftrightarrow> (x_org xa, ogs_pfcp_xact_get_stage type, x_step xa) \<in>
      {(OGS_PFCP_LOCAL_ORIGINATOR, PFCP_XACT_FINAL_STAGE, 1),
       (OGS_PFCP_REMOTE_ORIGINATOR, PFCP_XACT_INITIAL_STAGE, 0),
       (OGS_PFCP_REMOTE_ORIGINATOR, PFCP_XACT_FINAL_STAGE, 2)}"

definition rx_duplicate :: "'c pfcp_xact \<Rightarrow> u8 \<Rightarrow> bool" where
  "rx_duplicate xa type \<longleftrightarrow> x_org xa = OGS_PFCP_REMOTE_ORIGINATOR \<and>
     ogs_pfcp_xact_get_stage type = PFCP_XACT_INITIAL_STAGE \<and> fst (x_seq xa ! 0) = type \<and>
     x_step xa \<in> {1, 2}"

lemma rx_initial_step0:
  assumes "xact_seq_ok xa" "ogs_pfcp_xact_get_stage type = PFCP_XACT_INITIAL_STAGE" "x_step xa = 0"
  shows "fst (x_seq xa ! 0) \<noteq> type"
proof -
  have "x_seq xa ! 0 = (0, None)" using assms(1,3) by (auto simp: xact_seq_ok_def)
  then show ?thesis using assms(2) by (auto simp: stage_0)
qed

lemma xact_update_rx_cases:
  assumes inv: "xact_inv s" and x: "in_use s x"
  obtains (error) "\<not> rx_expected (xs_xact s x) type" "\<not> rx_duplicate (xs_xact s x) type"
      "ogs_pfcp_xact_update_rx s x type = Some (OGS_ERROR, s)"
  | (dup) s' where "rx_duplicate (xs_xact s x) type"
      "ogs_pfcp_xact_update_rx s x type = Some (OGS_RETRY, s')" "xact_inv s'" "xact_touch x s s'"
      "xs_xact s' = xs_xact s"
      "xs_sent s' = xs_sent s @ (case snd (x_seq (xs_xact s x) ! 1) of None \<Rightarrow> []
         | Some pk \<Rightarrow> [(x_node (xs_xact s x), pk)])"
  | (ok) s' where "rx_expected (xs_xact s x) type"
      "ogs_pfcp_xact_update_rx s x type = Some (OGS_OK, s')" "xact_inv s'" "xact_touch x s s'"
      "x_step (xs_xact s' x) = x_step (xs_xact s x) + 1" "xs_sent s' = xs_sent s"
      "last_seq (xs_xact s' x) = Some (type, None)"
      "\<And>t. x_tm_response (xs_xact s x) = Some t \<Longrightarrow> t \<notin> armed s'"
proof -
  let ?xa = "xs_xact s x"
  note sok = xact_seq_ok_in_use[OF inv x]
  then have len: "length (x_seq ?xa) = 3" and step3: "x_step ?xa \<le> 3" by (simp_all add: xact_seq_ok_def)
  consider (e) "\<not> rx_expected ?xa type" "\<not> rx_duplicate ?xa type" | (d) "rx_duplicate ?xa type"
    | (o) "rx_expected ?xa type" by blast
  then show ?thesis
  proof cases
    case e
    have "fst (x_seq ?xa ! 0) \<noteq> type" if "ogs_pfcp_xact_get_stage type = PFCP_XACT_INITIAL_STAGE" "x_step ?xa = 0"
      by (rule rx_initial_step0[OF sok that])
    with e have "ogs_pfcp_xact_update_rx s x type = Some (OGS_ERROR, s)"
      using no_intermediate[of type]
      by (cases "ogs_pfcp_xact_get_stage type"; cases "x_org ?xa")
        (auto simp: rx_expected_def rx_duplicate_def ogs_pfcp_xact_update_rx_def Let_def)
    with e show ?thesis by (intro error)
  next
    case d
    then have "ogs_pfcp_xact_update_rx s x type = xact_resend s x (snd (x_seq ?xa ! 1))"
      by (auto simp: rx_duplicate_def ogs_pfcp_xact_update_rx_def Let_def)
    moreover have "0 < x_step ?xa" using d by (auto simp: rx_duplicate_def)
    ultimately show ?thesis
      using d by (metis dup xact_resend_inv[OF inv x])
  next
    case o
    note good = o[unfolded rx_expected_def]
    have ti: "timer_inv (xs_timer s)" using inv by (simp add: xact_inv_def)
    show ?thesis
    proof (cases "ogs_pfcp_xact_get_stage type = PFCP_XACT_INITIAL_STAGE")
      case False
      note st = xact_rx_store_inv[OF inv x good ti refl refl, simplified]
      have "ogs_pfcp_xact_update_rx s x type = Some (OGS_OK, xact_rx_store x type s)"
        using good False len by (auto simp: ogs_pfcp_xact_update_rx_def Let_def xact_rx_store_def
            xact_timer_stop_def xact_upd_def split: option.split)
      then show ?thesis using o st by (intro ok) auto
    next
      case True
      with good have x0: "x_org ?xa = OGS_PFCP_REMOTE_ORIGINATOR" "x_step ?xa = 0" by auto
      have d: "t1_holding_duration (xs_conf s) \<noteq> 0" using inv by (simp add: xact_inv_def)
      obtain m where m: "xact_timer_start (x_tm_holding ?xa) (t1_holding_duration (xs_conf s)) s
          = Some (s\<lparr>xs_timer := m\<rparr>)" "timer_inv m" "timer_live m = live s"
          "timer_armed m \<subseteq> armed s \<union> set_option (x_tm_holding ?xa)"
          "\<And>u. timer_data m u = timer_data (xs_timer s) u"
        by (rule xact_timer_start_raw[OF inv x d, of R_holding]) (auto simp: x_timer_def)
      note st = xact_rx_store_inv[OF inv x good m(2,3,5,4)]
      have "ogs_pfcp_xact_update_rx s x type = Some (OGS_OK, xact_rx_store x type (s\<lparr>xs_timer := m\<rparr>))"
        using True x0 len m(1) rx_initial_step0[OF sok True x0(2)]
        by (auto simp: ogs_pfcp_xact_update_rx_def Let_def xact_rx_store_def
            xact_timer_stop_def xact_upd_def split: option.split)
      then show ?thesis using o st by (intro ok) auto
    qed
  qed
qed

subsection \<open>Committing\<close>

lemma xact_delete_Some:
  assumes "xact_inv s" "in_use s x"
  shows "\<exists>s'. ogs_pfcp_xact_delete s x = Some s' \<and> xact_inv s'"
  by (rule xact_delete_inv[OF assms]) blast

lemma xact_pending_steps:
  assumes "xact_seq_ok xa" "0 < x_step xa"
  shows "xact_pending xa \<longleftrightarrow> (case x_org xa of OGS_PFCP_LOCAL_ORIGINATOR \<Rightarrow> x_step xa \<in> {1, 3}
      | OGS_PFCP_REMOTE_ORIGINATOR \<Rightarrow> x_step xa = 2)"
proof -
  from assms(1) have "length (x_seq xa) = 3" by (simp add: xact_seq_ok_def)
  then obtain a b c where abc: "x_seq xa = [a, b, c]" using seq3 by blast
  note ok = assms(1)[unfolded xact_seq_ok_3[OF abc]]
  then consider "x_step xa = 1" | "x_step xa = 2" | "x_step xa = 3" using assms(2) by linarith
  then show ?thesis
    by cases (use ok in \<open>auto simp: xact_pending_def last_seq_def abc prod_eq_iff
      split: pfcp_org.splits\<close>)
qed

lemma last_stage:
  assumes "xact_seq_ok xa" "last_seq xa = Some (type, q)"
  shows "ogs_pfcp_xact_get_stage type =
    (if x_step xa = 1 then PFCP_XACT_INITIAL_STAGE else PFCP_XACT_FINAL_STAGE)"
proof -
  from assms(1) have "length (x_seq xa) = 3" by (simp add: xact_seq_ok_def)
  then obtain a b c where abc: "x_seq xa = [a, b, c]" using seq3 by blast
  note ok = assms(1)[unfolded xact_seq_ok_3[OF abc]]
  then consider "x_step xa = 1" | "x_step xa = 2" | "x_step xa = 3"
    using assms(2) by (fastforce simp: last_seq_def split: if_splits)
  then show ?thesis
    by cases (use ok assms(2) in \<open>auto simp: last_seq_def abc\<close>)
qed

lemma xact_commit_cases:
  assumes inv: "xact_inv s" and x: "in_use s x" and step: "0 < x_step (xs_xact s x)"
  obtains (sent) s' type pk where "ogs_pfcp_xact_commit s x = Some (OGS_OK, s')" "xact_inv s'"
      "xact_touch x s s'" "xs_xact s' = xs_xact s" "last_seq (xs_xact s x) = Some (type, Some pk)"
      "xs_sent s' = xs_sent s @ [(x_node (xs_xact s x), pk)]"
  | (gone) rv s' where "ogs_pfcp_xact_commit s x = Some (rv, s')" "ogs_pfcp_xact_delete s x = Some s'"
      "xact_inv s'" "\<not> xact_pending (xs_xact s x)"
proof -
  let ?xa = "xs_xact s x"
  note sok = xact_seq_ok_in_use[OF inv x]
  have d: "t1_response_duration (xs_conf s) \<noteq> 0" using inv by (simp add: xact_inv_def)
  obtain type q where ls: "last_seq ?xa = Some (type, q)" by (rule xact_last_seq[OF inv x step])
  note stage = last_stage[OF sok ls]
  have step3: "x_step ?xa = 1 \<or> x_step ?xa = 2 \<or> x_step ?xa = 3"
    using sok step unfolding xact_seq_ok_def by linarith
  show ?thesis
  proof (cases "xact_pending ?xa")
    case True
    with ls obtain pk where q: "q = Some pk" by (auto simp: xact_pending_def)
    have send: "xact_send_last x (s\<lparr>xs_timer := m\<rparr>) =
        Some (ogs_pfcp_sendto (x_node ?xa) pk (s\<lparr>xs_timer := m\<rparr>))" for m
      using ls q by (simp add: xact_send_last_def)
    have arm: "xact_arm_ok R_response ?xa" using True step by (simp add: xact_arm_ok_def)
    obtain m where m: "xact_timer_start (x_tm_response ?xa) (t1_response_duration (xs_conf s)) s
          = Some (s\<lparr>xs_timer := m\<rparr>)"
        "xact_inv (s\<lparr>xs_timer := m\<rparr>)" "timer_live m = live s"
        "\<And>u. timer_data m u = timer_data (xs_timer s) u"
      by (rule xact_timer_start_inv[OF inv x d arm]) (auto simp: x_timer_def)
    define m' where "m' = (if x_step ?xa = 1 then m else xs_timer s)"
    have "ogs_pfcp_xact_commit s x = Some (OGS_OK, ogs_pfcp_sendto (x_node ?xa) pk (s\<lparr>xs_timer := m'\<rparr>))"
      using True xact_pending_steps[OF sok step] ls stage m(1) send[of m] send[of "xs_timer s"] step3
      by (auto simp: ogs_pfcp_xact_commit_def Let_def m'_def split: pfcp_org.splits)
    then show ?thesis
      using m inv ls q
      by (intro sent[of "ogs_pfcp_sendto (x_node ?xa) pk (s\<lparr>xs_timer := m'\<rparr>)" type pk])
        (auto simp: ogs_pfcp_sendto_def m'_def xact_touch_def)
  next
    case False
    obtain s' where s': "ogs_pfcp_xact_delete s x = Some s'" "xact_inv s'"
      using xact_delete_Some[OF inv x] by blast
    have "(x_org ?xa, x_step ?xa) \<in> {(OGS_PFCP_LOCAL_ORIGINATOR, 2), (OGS_PFCP_REMOTE_ORIGINATOR, 1),
        (OGS_PFCP_REMOTE_ORIGINATOR, 3)}"
      using False xact_pending_steps[OF sok step] step3 by (auto split: pfcp_org.splits)
    then have "\<exists>rv. ogs_pfcp_xact_commit s x = Some (rv, s')"
      using ls stage s'(1)
      by (elim insertE emptyE) (simp_all add: ogs_pfcp_xact_commit_def xact_fail_def xact_done_def)
    with s' False show ?thesis by (auto intro: gone)
  qed
qed

subsection \<open>Timeouts\<close>

text \<open>What no callback does: create transactions, change the exchange of one that stays, or
  change what a timer is for.\<close>

definition xact_shrink :: "'c xact_state \<Rightarrow> 'c xact_state \<Rightarrow> bool" where
  "xact_shrink s s' \<longleftrightarrow> (\<forall>y. in_use s' y \<longrightarrow> in_use s y \<and> xact_id s' y = xact_id s y \<and>
       x_core (xs_xact s' y) = x_core (xs_xact s y) \<and>
       (\<forall>r. x_timer r (xs_xact s' y) = x_timer r (xs_xact s y))) \<and>
     (\<forall>u. timer_data (xs_timer s') u = timer_data (xs_timer s) u)"

lemma xact_shrink_trans: "xact_shrink s s' \<Longrightarrow> xact_shrink s' s'' \<Longrightarrow> xact_shrink s s''"
  by (simp add: xact_shrink_def)

lemma xact_shrink_touch:
  "xact_touch x s s' \<Longrightarrow> x_core (xs_xact s' x) = x_core (xs_xact s x) \<Longrightarrow> xact_shrink s s'"
  by (auto simp: xact_touch_def xact_shrink_def)

lemma xact_shrink_delete:
  assumes "xact_inv s" "in_use s x" "ogs_pfcp_xact_delete s x = Some s'"
  shows "xact_shrink s s'"
  by (rule xact_delete_inv[OF assms(1,2)]) (use assms(3) in \<open>auto simp: xact_shrink_def\<close>)

lemma arm_ok_core: "x_core xa = x_core xb \<Longrightarrow> xact_arm_ok r xa = xact_arm_ok r xb"
  by (simp add: xact_arm_ok_def x_core_def xact_pending_def last_seq_def)

lemma last_seq_core: "x_core xa = x_core xb \<Longrightarrow> last_seq xa = last_seq xb"
  by (simp add: x_core_def last_seq_def)

lemma find_by_id_in_use:
  "xact_inv s \<Longrightarrow> ogs_pfcp_xact_find_by_id s i = Some x \<longleftrightarrow> in_use s x \<and> xact_id s x = i"
  by (simp add: ogs_pfcp_xact_find_by_id_def ogs_pool_find_by_id_def xact_inv_def id_pool_inv_def)

lemma xact_timeout_find:
  assumes "xact_inv s" "ogs_pfcp_xact_find_by_id s i = Some x" "0 < x_step (xs_xact s x)"
  shows "xact_timeout act i s = act x s"
proof -
  have x: "in_use s x" "xact_id s x = i" using assms(1,2) by (simp_all add: find_by_id_in_use)
  then have "OGS_MIN_POOL_ID \<le> i \<and> i \<le> OGS_MAX_POOL_ID"
    using assms(1) by (auto simp: xact_inv_def id_pool_inv_def)
  moreover obtain type q where "last_seq (xs_xact s x) = Some (type, q)"
    by (rule xact_last_seq[OF assms(1) x(1) assms(3)])
  ultimately show ?thesis using assms(2) by (simp add: xact_timeout_def)
qed

lemma response_timeout_cases:
  assumes inv: "xact_inv s" and fd: "ogs_pfcp_xact_find_by_id s i = Some x"
    and arm: "xact_arm_ok R_response (xs_xact s x)"
  defines "xb \<equiv> (xs_xact s x)\<lparr>x_response_rcount := x_response_rcount (xs_xact s x) - 1\<rparr>"
  obtains (again) s' type pk where "x_response_rcount xb > 0" "response_timeout i s = Some s'"
      "xact_inv s'" "xact_touch x s s'" "xs_xact s' = (xs_xact s)(x := xb)"
      "last_seq (xs_xact s x) = Some (type, Some pk)"
      "xs_sent s' = xs_sent s @ [(x_node (xs_xact s x), pk)]"
      "armed s' = armed s \<union> set_option (x_tm_response (xs_xact s x))"
  | (giveup) s1 s' where "x_response_rcount xb = 0" "response_timeout i s = Some s'" "xact_inv s'"
      "s1 = (xact_upd x (\<lambda>xa. xa\<lparr>x_response_rcount := x_response_rcount xa - 1\<rparr>) s)
         \<lparr>xs_cb_log := xs_cb_log s @ (case x_cb (xs_xact s x) of None \<Rightarrow> [] | Some c \<Rightarrow> [(x, c)])\<rparr>"
      "ogs_pfcp_xact_delete s1 x = Some s'" "xact_inv s1"
proof -
  let ?xa = "xs_xact s x"
  let ?f = "\<lambda>xa. xa\<lparr>x_response_rcount := x_response_rcount xa - 1\<rparr>"
  let ?s1 = "xact_upd x ?f s"
  have x: "in_use s x" using inv fd by (simp add: find_by_id_in_use)
  have step: "0 < x_step ?xa" and pend: "xact_pending ?xa" using arm by (auto simp: xact_arm_ok_def)
  have inv1: "xact_inv ?s1" by (rule xact_rcount_inv(1)[OF inv x])
  have x1: "in_use ?s1 x" using x by simp
  have d: "t1_response_duration (xs_conf s) \<noteq> 0" using inv by (simp add: xact_inv_def)
  show ?thesis
  proof (cases "x_response_rcount xb > 0")
    case True
    obtain type pk where ls: "last_seq ?xa = Some (type, Some pk)" using pend by (auto simp: xact_pending_def)
    have arm1: "xact_arm_ok R_response (xs_xact ?s1 x)"
      using arm by (subst arm_ok_core[of _ ?xa]) simp_all
    from d have d1: "t1_response_duration (xs_conf ?s1) \<noteq> 0" by simp
    obtain m where m: "xact_timer_start (x_tm_response ?xa) (t1_response_duration (xs_conf s)) ?s1
          = Some (?s1\<lparr>xs_timer := m\<rparr>)" "xact_inv (?s1\<lparr>xs_timer := m\<rparr>)" "timer_live m = live s"
        "timer_armed m = set_option (x_tm_response ?xa) \<union> armed s"
        "\<And>u. timer_data m u = timer_data (xs_timer s) u"
      by (rule xact_timer_start_inv[OF inv1 x1 d1 arm1]) (auto simp: x_timer_def)
    let ?s' = "ogs_pfcp_sendto (x_node ?xa) pk (?s1\<lparr>xs_timer := m\<rparr>)"
    have "last_seq (?f ?xa) = last_seq ?xa" by (rule last_seq_core) simp
    then have "last_seq (?f ?xa) = Some (type, Some pk)" using ls by simp
    then have "xact_send_last x (?s1\<lparr>xs_timer := m\<rparr>) = Some ?s'"
      by (simp add: xact_send_last_def)
    then have "response_timeout i s = Some ?s'"
      using True m(1) unfolding response_timeout_def xact_timeout_find[OF inv fd step]
      by (simp add: Let_def xb_def)
    with True m ls show ?thesis
      by (intro again[of ?s' type pk]) (auto simp: ogs_pfcp_sendto_def xact_touch_def xb_def)
  next
    case False
    then have z: "x_response_rcount xb = 0" by (simp add: word_gt_0)
    let ?s2 = "?s1\<lparr>xs_cb_log := xs_cb_log s @ (case x_cb ?xa of None \<Rightarrow> [] | Some c \<Rightarrow> [(x, c)])\<rparr>"
    have inv2: "xact_inv ?s2" using inv1 by simp
    have x2: "in_use ?s2 x" using x by simp
    obtain s' where s': "ogs_pfcp_xact_delete ?s2 x = Some s'" "xact_inv s'"
      using xact_delete_Some[OF inv2 x2] by blast
    have eq: "(case x_cb (?f ?xa) of None \<Rightarrow> ?s1 | Some c \<Rightarrow> ?s1\<lparr>xs_cb_log := xs_cb_log ?s1 @ [(x, c)]\<rparr>) = ?s2"
      by (simp add: xact_upd_def split: option.split)
    have "response_timeout i s = Some s'"
      using z s'(1) eq unfolding response_timeout_def xact_timeout_find[OF inv fd step]
      by (simp add: Let_def xb_def)
    with z s' inv2 show ?thesis by (intro giveup[of s' ?s2]) simp_all
  qed
qed

lemma holding_timeout_inv:
  assumes inv: "xact_inv s" and fd: "ogs_pfcp_xact_find_by_id s i = Some x"
    and arm: "xact_arm_ok R_holding (xs_xact s x)"
  shows "\<exists>s'. holding_timeout i s = Some s' \<and> xact_inv s' \<and> xact_shrink s s'"
proof -
  let ?f = "\<lambda>xa. xa\<lparr>x_holding_rcount := x_holding_rcount xa - 1\<rparr>"
  let ?s1 = "xact_upd x ?f s"
  have x: "in_use s x" and x1: "in_use ?s1 x" using inv fd by (simp_all add: find_by_id_in_use)
  have step: "0 < x_step (xs_xact s x)" using arm by (simp add: xact_arm_ok_def)
  have inv1: "xact_inv ?s1" by (rule xact_rcount_inv(2)[OF inv x])
  have sh1: "xact_shrink s ?s1" by (auto simp: xact_shrink_def)
  show ?thesis
  proof (cases "x_holding_rcount (?f (xs_xact s x)) > 0")
    case True
    have d: "t1_holding_duration (xs_conf ?s1) \<noteq> 0" using inv by (simp add: xact_inv_def)
    have arm1: "xact_arm_ok R_holding (xs_xact ?s1 x)"
      using arm by (subst arm_ok_core[of _ "xs_xact s x"]) simp_all
    obtain m where m: "xact_timer_start (x_timer R_holding (xs_xact ?s1 x))
          (t1_holding_duration (xs_conf ?s1)) ?s1 = Some (?s1\<lparr>xs_timer := m\<rparr>)"
        "xact_inv (?s1\<lparr>xs_timer := m\<rparr>)" "\<And>u. timer_data m u = timer_data (xs_timer ?s1) u"
      by (rule xact_timer_start_inv[OF inv1 x1 d arm1]) blast
    then have "holding_timeout i s = Some (?s1\<lparr>xs_timer := m\<rparr>)"
      using True unfolding holding_timeout_def xact_timeout_find[OF inv fd step]
      by (simp add: Let_def x_timer_def)
    moreover have "xact_shrink s (?s1\<lparr>xs_timer := m\<rparr>)" using m(3) by (auto simp: xact_shrink_def)
    ultimately show ?thesis using m(2) by blast
  next
    case False
    obtain s' where s': "ogs_pfcp_xact_delete ?s1 x = Some s'" "xact_inv s'"
      using xact_delete_Some[OF inv1 x1] by blast
    then have "holding_timeout i s = Some s'"
      using False unfolding holding_timeout_def xact_timeout_find[OF inv fd step]
      by (simp add: Let_def)
    with s' xact_shrink_trans[OF sh1 xact_shrink_delete[OF inv1 x1 s'(1)]] show ?thesis by blast
  qed
qed

lemma response_timeout_inv:
  assumes inv: "xact_inv s" and fd: "ogs_pfcp_xact_find_by_id s i = Some x"
    and arm: "xact_arm_ok R_response (xs_xact s x)"
  shows "\<exists>s'. response_timeout i s = Some s' \<and> xact_inv s' \<and> xact_shrink s s'"
proof (cases rule: response_timeout_cases[OF inv fd arm, case_names again giveup])
  case (again s' type pk)
  then have "xact_shrink s s'" by (intro xact_shrink_touch[of x]) simp_all
  with again show ?thesis by blast
next
  case (giveup s1 s')
  have "in_use s1 x" using inv fd by (simp add: giveup(4) find_by_id_in_use)
  moreover have "xact_shrink s s1" by (auto simp: xact_shrink_def giveup(4))
  ultimately have "xact_shrink s s'"
    using giveup(5,6) xact_shrink_delete xact_shrink_trans by blast
  with giveup show ?thesis by blast
qed

lemma delayed_commit_timeout_inv:
  assumes inv: "xact_inv s" and fd: "ogs_pfcp_xact_find_by_id s i = Some x"
    and arm: "xact_arm_ok R_delayed_commit (xs_xact s x)"
  shows "\<exists>s'. delayed_commit_timeout i s = Some s' \<and> xact_inv s' \<and> xact_shrink s s'"
proof -
  have x: "in_use s x" using inv fd by (simp add: find_by_id_in_use)
  have step: "0 < x_step (xs_xact s x)" using arm by (simp add: xact_arm_ok_def)
  have eq: "delayed_commit_timeout i s = map_option snd (ogs_pfcp_xact_commit s x)"
    unfolding delayed_commit_timeout_def xact_timeout_find[OF inv fd step] by simp
  show ?thesis
  proof (cases rule: xact_commit_cases[OF inv x step, case_names sent gone])
    case (sent s' type pk)
    then have "xact_shrink s s'" by (intro xact_shrink_touch[of x]) simp_all
    with sent eq show ?thesis by auto
  next
    case (gone rv s')
    then show ?thesis using eq xact_shrink_delete[OF inv x] by auto
  qed
qed

text \<open>The callbacks of all timers, also of those whose transaction is already gone.\<close>

definition callback_ready :: "'c xact_state \<Rightarrow> app_timer \<Rightarrow> bool" where
  "callback_ready s d \<longleftrightarrow> (case d of App_timer _ \<Rightarrow> True
     | Xact_timer r i \<Rightarrow> OGS_MIN_POOL_ID \<le> i \<and> i \<le> OGS_MAX_POOL_ID \<and>
         (\<forall>x. in_use s x \<and> xact_id s x = i \<longrightarrow> xact_arm_ok r (xs_xact s x)))"

lemma callback_ready_shrink: "xact_shrink s s' \<Longrightarrow> callback_ready s d \<Longrightarrow> callback_ready s' d"
  using arm_ok_core by (fastforce simp: callback_ready_def xact_shrink_def split: app_timer.splits)

lemma xact_callback_inv:
  assumes inv: "xact_inv s" and ready: "callback_ready s d"
  shows "\<exists>s'. xact_timer_callback d s = Some s' \<and> xact_inv s' \<and> xact_shrink s s'"
proof (cases d)
  case (App_timer n)
  then show ?thesis using inv by (simp add: xact_timer_callback_def xact_shrink_def)
next
  case (Xact_timer r i)
  show ?thesis
  proof (cases "ogs_pfcp_xact_find_by_id s i")
    case None
    then have "xact_timer_callback d s = Some s"
      using Xact_timer ready
      by (cases r) (simp_all add: xact_timer_callback_def response_timeout_def holding_timeout_def
          delayed_commit_timeout_def xact_timeout_def callback_ready_def)
    then show ?thesis using inv by (simp add: xact_shrink_def)
  next
    case (Some x)
    then have "xact_arm_ok r (xs_xact s x)"
      using ready inv Xact_timer by (simp add: callback_ready_def find_by_id_in_use)
    with Some Xact_timer show ?thesis
      using response_timeout_inv[OF inv Some] holding_timeout_inv[OF inv Some]
        delayed_commit_timeout_inv[OF inv Some]
      by (cases r) (simp_all add: xact_timer_callback_def)
  qed
qed

lemma armed_callback_ready:
  assumes inv: "xact_inv s" and t: "t \<in> armed s"
  shows "callback_ready s (timer_data (xs_timer s) t)"
proof (cases "timer_data (xs_timer s) t")
  case (Xact_timer r i)
  have "t \<in> live s" using t inv tmr.armed_live[of "xs_timer s"] by (auto simp: xact_inv_def)
  from inv this Xact_timer obtain x where x: "in_use s x" "xact_id s x = i"
      "x_timer r (xs_xact s x) = Some t" by (rule xact_timer_holder)
  then have "xact_arm_ok r (xs_xact s x)"
    using inv t by (auto simp: xact_inv_def xact_objects_ok_def)
  moreover have "OGS_MIN_POOL_ID \<le> i \<and> i \<le> OGS_MAX_POOL_ID"
    using inv x by (auto simp: xact_inv_def id_pool_inv_def)
  ultimately show ?thesis
    using xact_id_inj[OF inv x(1)] x(2) unfolding Xact_timer callback_ready_def
    by (simp, metis)
qed (simp add: callback_ready_def)

abbreviation xact_put_timer :: "app_timer timer_mgr \<Rightarrow> 'c xact_state \<Rightarrow> 'c xact_state" where
  "xact_put_timer m s \<equiv> s\<lparr>xs_timer := m\<rparr>"

lemma timer_fire_safe:
  assumes "xact_inv s" "\<forall>t \<in> set ts. callback_ready s (timer_data (xs_timer s) t)"
  shows "\<exists>s'. timer_fire xs_timer xact_put_timer xact_timer_callback ts s = Some s' \<and>
    xact_inv s' \<and> xact_shrink s s'"
  using assms
proof (induction ts arbitrary: s)
  case Nil
  then show ?case by (simp add: xact_shrink_def)
next
  case (Cons t ts)
  let ?s1 = "s\<lparr>xs_timer := ogs_timer_stop (xs_timer s) t\<rparr>"
  have inv1: "xact_inv ?s1"
    by (rule xact_timer_stop_inv[OF Cons.prems(1), of "Some t"]) (simp add: xact_timer_stop_def)
  have sh1: "xact_shrink s ?s1" by (simp add: xact_shrink_def)
  from inv1 have "callback_ready ?s1 (timer_data (xs_timer ?s1) t)"
    using Cons.prems(2) callback_ready_shrink[OF sh1] by simp
  from xact_callback_inv[OF inv1 this] obtain s2 where
    s2: "xact_timer_callback (timer_data (xs_timer ?s1) t) ?s1 = Some s2" "xact_inv s2" "xact_shrink ?s1 s2"
    by blast
  have sh2: "xact_shrink s s2" by (rule xact_shrink_trans[OF sh1 s2(3)])
  have "\<forall>u \<in> set ts. callback_ready s2 (timer_data (xs_timer s2) u)"
    using Cons.prems(2) callback_ready_shrink[OF sh2] sh2 by (simp add: xact_shrink_def)
  from Cons.IH[OF s2(2) this] obtain s3 where
    "timer_fire xs_timer xact_put_timer xact_timer_callback ts s2 = Some s3" "xact_inv s3" "xact_shrink s2 s3"
    by blast
  then show ?case
    using s2 sh2 xact_shrink_trans[OF sh2] by (auto simp: Let_def)
qed

lemma xact_expire_inv:
  assumes inv: "xact_inv s"
  shows "\<exists>s'. ogs_timer_mgr_expire xs_timer xact_put_timer xact_timer_callback now s = Some s' \<and>
    xact_inv s' \<and> xact_shrink s s'"
proof -
  let ?due = "timer_due (xs_timer s) now"
  let ?s1 = "s\<lparr>xs_timer := timer_link (xs_timer s) ?due\<rparr>"
  have ti: "timer_inv (xs_timer s)" using inv by (simp add: xact_inv_def)
  have inv1: "xact_inv ?s1"
    using inv ti by (intro xact_inv_timer) (simp_all add: timer_link_inv timer_link_frame)
  have sh: "xact_shrink s ?s1" by (simp add: xact_shrink_def timer_link_frame)
  have "\<forall>t \<in> set ?due. callback_ready ?s1 (timer_data (xs_timer ?s1) t)"
  proof
    fix t assume "t \<in> set ?due"
    then have "t \<in> armed s" unfolding set_timer_due[OF ti] by blast
    then have "callback_ready s (timer_data (xs_timer s) t)" by (rule armed_callback_ready[OF inv])
    from callback_ready_shrink[OF sh this] show "callback_ready ?s1 (timer_data (xs_timer ?s1) t)"
      by (simp add: timer_link_frame)
  qed
  from timer_fire_safe[OF inv1 this] obtain s' where
    "timer_fire xs_timer xact_put_timer xact_timer_callback ?due ?s1 = Some s'" "xact_inv s'"
    "xact_shrink ?s1 s'" by blast
  then show ?thesis
    using xact_shrink_trans[OF sh] by (auto simp: ogs_timer_mgr_expire_def Let_def)
qed

subsection \<open>Receiving\<close>

lemma xact_receive_on_cases:
  assumes inv: "xact_inv s" and x: "in_use s x"
  obtains (error) s' where "\<not> rx_expected (xs_xact s x) type" "\<not> rx_duplicate (xs_xact s x) type"
      "xact_receive_on s x type = Some (OGS_ERROR, None, s')" "xact_inv s'"
      "ogs_pfcp_xact_delete s x = Some s'"
  | (dup) s' where "rx_duplicate (xs_xact s x) type"
      "xact_receive_on s x type = Some (OGS_RETRY, None, s')" "xact_inv s'" "xact_touch x s s'"
      "xs_xact s' = xs_xact s"
      "xs_sent s' = xs_sent s @ (case snd (x_seq (xs_xact s x) ! 1) of None \<Rightarrow> []
         | Some pk \<Rightarrow> [(x_node (xs_xact s x), pk)])"
  | (ok) s' where "rx_expected (xs_xact s x) type"
      "xact_receive_on s x type = Some (OGS_OK, Some x, s')" "xact_inv s'" "xact_touch x s s'"
      "x_step (xs_xact s' x) = x_step (xs_xact s x) + 1" "xs_sent s' = xs_sent s"
      "last_seq (xs_xact s' x) = Some (type, None)"
      "\<And>t. x_tm_response (xs_xact s x) = Some t \<Longrightarrow> t \<notin> armed s'"
proof (cases rule: xact_update_rx_cases[OF inv x, of type, case_names e d o])
  case e
  obtain s' where "ogs_pfcp_xact_delete s x = Some s'" "xact_inv s'"
    using xact_delete_Some[OF inv x] by blast
  with e show ?thesis by (intro error[of s']) (simp_all add: xact_receive_on_def)
next
  case (d s')
  then show ?thesis by (intro dup[of s']) (simp_all add: xact_receive_on_def)
next
  case (o s')
  then show ?thesis by (intro ok[of s']) (simp_all add: xact_receive_on_def)
qed

definition receive_list :: "'c xact_state \<Rightarrow> nat \<Rightarrow> u8 \<Rightarrow> nat list" where
  "receive_list s n type = (if ogs_pfcp_xact_get_stage type = PFCP_XACT_INITIAL_STAGE
     then xlist s OGS_PFCP_REMOTE_ORIGINATOR n else xlist s OGS_PFCP_LOCAL_ORIGINATOR n)"

abbreviation receive_match :: "'c xact_state \<Rightarrow> nat \<Rightarrow> u8 \<Rightarrow> u32 \<Rightarrow> nat option" where
  "receive_match s n type sqn \<equiv>
     find (\<lambda>x. x_xid (xs_xact s x) = OGS_PFCP_SQN_TO_XID sqn) (receive_list s n type)"

lemma receive_eq:
  assumes "ogs_pfcp_xact_get_stage type \<noteq> PFCP_XACT_UNKNOWN_STAGE"
  shows "ogs_pfcp_xact_receive s n type sqn =
    (case receive_match s n type sqn of
       Some x \<Rightarrow> xact_receive_on s x type
     | None \<Rightarrow> Option.bind (ogs_pfcp_xact_remote_create s n sqn) (\<lambda>(xo, s1).
         case xo of None \<Rightarrow> Some (OGS_ERROR, None, s1) | Some x \<Rightarrow> xact_receive_on s1 x type))"
  using assms no_intermediate[of type]
  by (cases "ogs_pfcp_xact_get_stage type")
    (simp_all add: ogs_pfcp_xact_receive_def Let_def receive_list_def node_list_def)

lemma receive_match_in_use:
  assumes "xact_inv s" "receive_match s n type sqn = Some x"
  shows "in_use s x" "x_node (xs_xact s x) = n" "x_xid (xs_xact s x) = OGS_PFCP_SQN_TO_XID sqn"
    "x_org (xs_xact s x) = (if ogs_pfcp_xact_get_stage type = PFCP_XACT_INITIAL_STAGE
       then OGS_PFCP_REMOTE_ORIGINATOR else OGS_PFCP_LOCAL_ORIGINATOR)"
proof -
  from assms(2) have "x \<in> set (receive_list s n type)"
    and xid: "x_xid (xs_xact s x) = OGS_PFCP_SQN_TO_XID sqn"
    by (auto simp: find_Some_iff)
  then show "in_use s x" "x_node (xs_xact s x) = n"
    "x_org (xs_xact s x) = (if ogs_pfcp_xact_get_stage type = PFCP_XACT_INITIAL_STAGE
       then OGS_PFCP_REMOTE_ORIGINATOR else OGS_PFCP_LOCAL_ORIGINATOR)"
    using assms(1) by (auto simp: receive_list_def xact_inv_def xact_lists_ok_def split: if_splits)
  show "x_xid (xs_xact s x) = OGS_PFCP_SQN_TO_XID sqn" by (rule xid)
qed

text \<open>Outside the creators every transaction has its three timers.\<close>

definition xact_full :: "'c xact_state \<Rightarrow> bool" where
  "xact_full s \<longleftrightarrow> (\<forall>x r. in_use s x \<longrightarrow> x_timer r (xs_xact s x) \<noteq> None)"

lemma xact_full_touch:
  assumes "xact_touch x s s'" "xact_full s"
  shows "xact_full s'"
  unfolding xact_full_def
proof (intro allI impI)
  fix y r assume "in_use s' y"
  with assms show "x_timer r (xs_xact s' y) \<noteq> None"
    by (cases "y = x") (auto simp: xact_touch_def xact_full_def)
qed

lemma xact_full_shrink: "xact_shrink s s' \<Longrightarrow> xact_full s \<Longrightarrow> xact_full s'"
  by (simp add: xact_shrink_def xact_full_def)

lemma xact_full_same: "xact_same s s' \<Longrightarrow> xact_full s \<Longrightarrow> xact_full s'"
  by (simp add: xact_same_def xact_full_def)

lemma xact_receive_inv:
  assumes inv: "xact_inv s" and fresh: "xact_fresh s"
  shows "\<exists>rv xo s'. ogs_pfcp_xact_receive s n type sqn = Some (rv, xo, s') \<and> xact_inv s' \<and>
    (xact_full s \<longrightarrow> xact_full s')"
proof (cases "ogs_pfcp_xact_get_stage type = PFCP_XACT_UNKNOWN_STAGE")
  case True
  then show ?thesis using inv by (simp add: ogs_pfcp_xact_receive_def Let_def)
next
  case False
  have on: "\<exists>rv xo s'. xact_receive_on s1 x type = Some (rv, xo, s') \<and> xact_inv s' \<and>
      (xact_full s1 \<longrightarrow> xact_full s')" if "xact_inv s1" "in_use s1 x" for s1 x
    by (rule xact_receive_on_cases[OF that, of type])
      (blast intro: xact_full_touch xact_full_shrink xact_shrink_delete[OF that])+
  show ?thesis
  proof (cases "receive_match s n type sqn")
    case (Some x)
    then show ?thesis using on[OF inv receive_match_in_use(1)[OF inv Some]] by (simp add: receive_eq[OF False])
  next
    case None
    show ?thesis
    proof (cases rule: xact_create_inv[OF inv fresh, of OGS_PFCP_REMOTE_ORIGINATOR
          "OGS_PFCP_SQN_TO_XID sqn" n None "xs_g_xact_id s", case_names fail ok])
      case (fail s')
      then have "xact_full s \<longrightarrow> xact_full s'" by (simp add: xact_full_same)
      with None fail show ?thesis by (simp add: receive_eq[OF False] remote_create_eq)
    next
      case (ok x s')
      then have "in_use s' x" by (simp add: xact_added_def)
      moreover have "xact_full s \<longrightarrow> xact_full s'"
        using ok by (auto simp: xact_full_def xact_added_def)
      ultimately show ?thesis
        using None ok on[of s' x] by (auto simp: receive_eq[OF False] remote_create_eq)
    qed
  qed
qed

lemma xact_delete_list_inv:
  assumes "xact_inv s" "distinct xs" "\<forall>x \<in> set xs. in_use s x"
  shows "\<exists>s'. xact_delete_list xs s = Some s' \<and> xact_inv s' \<and>
    (\<forall>y. in_use s' y \<longleftrightarrow> in_use s y \<and> y \<notin> set xs) \<and> xs_xact s' = xs_xact s"
  using assms
proof (induction xs arbitrary: s)
  case (Cons x xs)
  have x: "in_use s x" using Cons.prems(3) by simp
  obtain s1 where s1: "ogs_pfcp_xact_delete s x = Some s1" "xact_inv s1"
      "\<And>y. in_use s1 y \<longleftrightarrow> y \<noteq> x \<and> in_use s y" "xs_xact s1 = xs_xact s"
    by (rule xact_delete_inv[OF Cons.prems(1) x]) blast
  have "distinct xs" "\<forall>x \<in> set xs. in_use s1 x" using Cons.prems s1(3) by auto
  from Cons.IH[OF s1(2) this] obtain s' where s': "xact_delete_list xs s1 = Some s'" "xact_inv s'"
      "\<forall>y. in_use s' y \<longleftrightarrow> in_use s1 y \<and> y \<notin> set xs" "xs_xact s' = xs_xact s1" by blast
  have "xact_delete_list (x # xs) s = Some s'" using s1(1) s'(1) by simp
  moreover have "\<forall>y. in_use s' y \<longleftrightarrow> in_use s y \<and> y \<notin> set (x # xs)" using s'(3) s1(3) by auto
  ultimately show ?case using s'(2,4) s1(4) by auto
qed simp

lemma xact_delete_all_inv:
  assumes inv: "xact_inv s"
  shows "\<exists>s'. ogs_pfcp_xact_delete_all s n = Some s' \<and> xact_inv s' \<and>
    (\<forall>y. in_use s' y \<longleftrightarrow> in_use s y \<and> x_node (xs_xact s y) \<noteq> n) \<and> xs_xact s' = xs_xact s"
proof -
  have l: "distinct (xlist s org n)" "set (xlist s org n) =
      {y. in_use s y \<and> x_org (xs_xact s y) = org \<and> x_node (xs_xact s y) = n}" if "xact_inv s" for s :: "'a xact_state" and org
    using that unfolding xact_inv_def xact_lists_ok_def by blast+
  let ?L = OGS_PFCP_LOCAL_ORIGINATOR and ?R = OGS_PFCP_REMOTE_ORIGINATOR
  have "\<forall>x \<in> set (xlist s ?L n). in_use s x" using l(2)[OF inv, of ?L] by blast
  from xact_delete_list_inv[OF inv l(1)[OF inv] this] obtain s1 where
    s1: "xact_delete_list (xlist s ?L n) s = Some s1" "xact_inv s1"
      "\<forall>y. in_use s1 y \<longleftrightarrow> in_use s y \<and> y \<notin> set (xlist s ?L n)" "xs_xact s1 = xs_xact s" by blast
  have "\<forall>x \<in> set (xlist s1 ?R n). in_use s1 x" using l(2)[OF s1(2), of ?R] by blast
  from xact_delete_list_inv[OF s1(2) l(1)[OF s1(2)] this] obtain s' where
    s': "xact_delete_list (xlist s1 ?R n) s1 = Some s'" "xact_inv s'"
      "\<forall>y. in_use s' y \<longleftrightarrow> in_use s1 y \<and> y \<notin> set (xlist s1 ?R n)" "xs_xact s' = xs_xact s1" by blast
  have "ogs_pfcp_xact_delete_all s n = Some s'"
    using s1(1) s'(1) by (simp add: ogs_pfcp_xact_delete_all_def node_list_def)
  moreover have "in_use s' y \<longleftrightarrow> in_use s y \<and> x_node (xs_xact s y) \<noteq> n" for y
    using s'(3) s1(3,4) l(2)[OF inv, of ?L] l(2)[OF s1(2), of ?R]
    by (cases "x_org (xs_xact s y)") auto
  ultimately show ?thesis using s' s1 by auto
qed

subsection \<open>Runs of the layer\<close>

text \<open>
  The calls the rest of a network function makes, a run of the timer manager, and the
  passing of time. \<open>xact_enabled\<close> is what the callers guarantee: they pass transactions
  that exist, commit after a message has been stored, give a packet with room for the
  header and a message type the layer knows, and no identifier of the pool is in use for
  a second time.
\<close>

datatype 'c xact_op = Op_create nat "'c option" | Op_update_tx nat u8 u64 pkbuf | Op_commit nat
  | Op_delayed_commit nat int | Op_receive nat u8 u32 | Op_delete nat | Op_delete_all nat
  | Op_expire | Op_clock int

fun xact_enabled :: "'c xact_op \<Rightarrow> 'c xact_state \<Rightarrow> bool" where
  "xact_enabled (Op_create n cb) s = xact_fresh s"
| "xact_enabled (Op_update_tx x type seid pk) s = (in_use s x \<and> pk_inv pk \<and>
     pfcp_hlen type \<le> pk_data pk \<and> ogs_pfcp_xact_get_stage type \<noteq> PFCP_XACT_UNKNOWN_STAGE)"
| "xact_enabled (Op_commit x) s = (in_use s x \<and> 0 < x_step (xs_xact s x))"
| "xact_enabled (Op_delayed_commit x d) s = (in_use s x \<and> 0 < x_step (xs_xact s x) \<and> d \<noteq> 0)"
| "xact_enabled (Op_receive n type sqn) s = xact_fresh s"
| "xact_enabled (Op_delete x) s = in_use s x"
| "xact_enabled (Op_delete_all n) s = True"
| "xact_enabled Op_expire s = True"
| "xact_enabled (Op_clock w) s = True"

fun xact_exec :: "'c xact_op \<Rightarrow> 'c xact_state \<Rightarrow> 'c xact_state option" where
  "xact_exec (Op_create n cb) s = map_option snd (ogs_pfcp_xact_local_create s n cb)"
| "xact_exec (Op_update_tx x type seid pk) s = map_option snd (ogs_pfcp_xact_update_tx s x type seid pk)"
| "xact_exec (Op_commit x) s = map_option snd (ogs_pfcp_xact_commit s x)"
| "xact_exec (Op_delayed_commit x d) s = ogs_pfcp_xact_delayed_commit s x d"
| "xact_exec (Op_receive n type sqn) s = map_option (\<lambda>r. snd (snd r)) (ogs_pfcp_xact_receive s n type sqn)"
| "xact_exec (Op_delete x) s = ogs_pfcp_xact_delete s x"
| "xact_exec (Op_delete_all n) s = ogs_pfcp_xact_delete_all s n"
| "xact_exec Op_expire s = ogs_timer_mgr_expire xs_timer xact_put_timer xact_timer_callback (xs_now s) s"
| "xact_exec (Op_clock w) s = Some (s\<lparr>xs_now := w\<rparr>)"

inductive xact_reach :: "'c xact_state \<Rightarrow> bool" where
  reach_start: "timer_inv tm \<Longrightarrow> (\<forall>t r i. t \<in> timer_live tm \<longrightarrow> timer_data tm t \<noteq> Xact_timer r i) \<Longrightarrow>
     t1_response_duration conf \<noteq> 0 \<Longrightarrow> t1_holding_duration conf \<noteq> 0 \<Longrightarrow>
     xact_reach (ogs_pfcp_xact_init n tm conf)"
| reach_op: "xact_reach s \<Longrightarrow> xact_enabled op s \<Longrightarrow> xact_exec op s = Some s' \<Longrightarrow> xact_reach s'"

lemma xact_init_inv:
  assumes "timer_inv tm" "\<forall>t r i. t \<in> timer_live tm \<longrightarrow> timer_data tm t \<noteq> Xact_timer r i"
    and "t1_response_duration conf \<noteq> 0" "t1_holding_duration conf \<noteq> 0"
  shows "xact_inv (ogs_pfcp_xact_init n tm conf)" "xact_full (ogs_pfcp_xact_init n tm conf)"
proof -
  have nu: "\<not> pool_in_use (ogs_pool_init n) y" for y
    unfolding pool_in_use_def pool_unused_init by (simp add: ogs_pool_init_def)
  show "xact_inv (ogs_pfcp_xact_init n tm conf)"
    using assms nu id_pool_inv_init
    by (auto simp: xact_inv_defs ogs_pfcp_xact_init_def node_list_def)
  show "xact_full (ogs_pfcp_xact_init n tm conf)" using nu by (simp add: xact_full_def ogs_pfcp_xact_init_def)
qed

lemma xact_exec_inv:
  assumes inv: "xact_inv s" and full: "xact_full s" and en: "xact_enabled op s"
  shows "\<exists>s'. xact_exec op s = Some s' \<and> xact_inv s' \<and> xact_full s'"
proof (cases op)
  case (Op_create n cb)
  with en have fresh: "xact_fresh s" by simp
  show ?thesis
  proof (cases rule: xact_create_inv[OF inv fresh, of OGS_PFCP_LOCAL_ORIGINATOR "next_xid s" n cb
        "next_xid s", case_names fail ok])
    case (fail s')
    then show ?thesis using Op_create xact_full_same[OF _ full] by (simp add: local_create_eq)
  next
    case (ok x s')
    then have "xact_full s'" using full by (auto simp: xact_full_def xact_added_def)
    then show ?thesis using Op_create ok by (simp add: local_create_eq)
  qed
next
  case (Op_update_tx x type seid pk)
  with en have "in_use s x" "ogs_pfcp_xact_get_stage type \<noteq> PFCP_XACT_UNKNOWN_STAGE" "pk_inv pk"
    "pfcp_hlen type \<le> pk_data pk" by simp_all
  from xact_update_tx_inv[OF inv this, of seid] show ?thesis
    using Op_update_tx inv full xact_full_touch[OF _ full] by cases auto
next
  case (Op_commit x)
  with en have "in_use s x" "0 < x_step (xs_xact s x)" by simp_all
  from xact_commit_cases[OF inv this] show ?thesis
    using Op_commit xact_full_touch[OF _ full] xact_full_shrink[OF xact_shrink_delete[OF inv \<open>in_use s x\<close>] full]
    by cases auto
next
  case (Op_delayed_commit x d)
  with en have x: "in_use s x" and d: "d \<noteq> 0" and arm: "xact_arm_ok R_delayed_commit (xs_xact s x)"
    by (simp_all add: xact_arm_ok_def)
  from full x have tm: "x_timer R_delayed_commit (xs_xact s x) \<noteq> None" by (simp add: xact_full_def)
  have eq: "x_tm_delayed_commit (xs_xact s x) = x_timer R_delayed_commit (xs_xact s x)"
    by (simp add: x_timer_def)
  show ?thesis
    by (rule xact_timer_start_inv[OF inv x d arm])
      (use Op_delayed_commit d tm full in \<open>auto simp: ogs_pfcp_xact_delayed_commit_def eq xact_full_def\<close>)
next
  case (Op_receive n type sqn)
  with en have "xact_fresh s" by simp
  from xact_receive_inv[OF inv this, of n type sqn] show ?thesis using Op_receive full by auto
next
  case (Op_delete x)
  with en have x: "in_use s x" by simp
  from xact_delete_Some[OF inv x] show ?thesis
    using Op_delete xact_full_shrink[OF xact_shrink_delete[OF inv x] full] by auto
next
  case (Op_delete_all n)
  from xact_delete_all_inv[OF inv, of n] show ?thesis
    using Op_delete_all full by (auto simp: xact_full_def)
next
  case Op_expire
  from xact_expire_inv[OF inv, of "xs_now s"] show ?thesis
    using Op_expire full xact_full_shrink by auto
next
  case (Op_clock w)
  then show ?thesis using inv full by (simp add: xact_full_def)
qed

lemma xact_reach_inv: "xact_reach s \<Longrightarrow> xact_inv s \<and> xact_full s"
proof (induction rule: xact_reach.induct)
  case (reach_op s op s')
  then show ?case using xact_exec_inv[of s op] by auto
qed (auto intro: xact_init_inv)

subsection \<open>Answering a request\<close>

lemma receive_match_touch:
  assumes "xact_touch x s s'"
  shows "receive_match s' n type sqn = receive_match s n type sqn"
proof -
  have "x_xid (xs_xact s' y) = x_xid (xs_xact s y)" for y
    using assms by (cases "y = x") (auto simp: xact_touch_def)
  moreover have "receive_list s' n type = receive_list s n type"
    using assms by (simp add: xact_touch_def receive_list_def)
  ultimately show ?thesis by simp
qed

lemma find_snoc: "find P xs = None \<Longrightarrow> P x \<Longrightarrow> find P (xs @ [x]) = Some x"
  by (induction xs) (auto split: if_splits)

text \<open>The first arrival of a request.\<close>

lemma receive_request:
  assumes inv: "xact_inv s" and fresh: "xact_fresh s"
    and st: "ogs_pfcp_xact_get_stage type = PFCP_XACT_INITIAL_STAGE"
    and r: "ogs_pfcp_xact_receive s n type sqn = Some (OGS_OK, Some x, s1)"
  shows "xact_inv s1 \<and> in_use s1 x \<and> x_node (xs_xact s1 x) = n \<and>
    x_org (xs_xact s1 x) = OGS_PFCP_REMOTE_ORIGINATOR \<and> x_step (xs_xact s1 x) = 1 \<and>
    x_seq (xs_xact s1 x) ! 0 = (type, None) \<and> receive_match s1 n type sqn = Some x \<and>
    xs_sent s1 = xs_sent s"
proof -
  have on: ?thesis if m0: "xact_inv s0" "receive_match s0 n type sqn = Some y" "xs_sent s0 = xs_sent s"
    and ro: "xact_receive_on s0 y type = Some (OGS_OK, Some x, s1)" for s0 y
  proof -
    note f = receive_match_in_use[OF m0(1,2)]
    show ?thesis
    proof (cases rule: xact_receive_on_cases[OF m0(1) f(1), of type, case_names error dup ok])
      case (ok s')
      then have s': "s' = s1" "y = x" using ro by simp_all
      have "x_step (xs_xact s0 x) = 0" using ok(1) f(4) st s' by (simp add: rx_expected_def)
      with ok(5,7) s' have step: "x_step (xs_xact s1 x) = 1" "x_seq (xs_xact s1 x) ! 0 = (type, None)"
        by (auto simp: last_seq_def split: if_splits)
      have "in_use s1 x" "x_node (xs_xact s1 x) = n" "x_org (xs_xact s1 x) = OGS_PFCP_REMOTE_ORIGINATOR"
        using ok(4) f s' st by (simp_all add: xact_touch_def)
      with step ok(3,6) receive_match_touch[OF ok(4), of sqn n type] m0(2,3) s' show ?thesis by simp
    qed (use ro in simp_all)
  qed
  show ?thesis
  proof (cases "receive_match s n type sqn")
    case (Some y)
    with r st inv show ?thesis by (intro on[of s y]) (simp_all add: receive_eq)
  next
    case None
    show ?thesis
    proof (cases rule: xact_create_inv[OF inv fresh, of OGS_PFCP_REMOTE_ORIGINATOR
          "OGS_PFCP_SQN_TO_XID sqn" n None "xs_g_xact_id s", case_names fail ok])
      case (fail s')
      then show ?thesis using r None st by (simp add: receive_eq remote_create_eq)
    next
      case (ok y s0)
      let ?P = "\<lambda>s x. x_xid (xs_xact s x) = OGS_PFCP_SQN_TO_XID sqn"
      have core: "x_org (xs_xact s0 y) = OGS_PFCP_REMOTE_ORIGINATOR" "x_node (xs_xact s0 y) = n" "?P s0 y"
        using ok(4) by (simp_all add: x_core_def xact_blank_def)
      have l: "receive_list s0 n type = receive_list s n type @ [y]"
        using ok(3) core st by (auto simp: xact_added_def receive_list_def)
      have "?P s0 z = ?P s z" if "z \<in> set (receive_list s n type)" for z
      proof -
        have "in_use s z" using that inv by (auto simp: receive_list_def xact_inv_def xact_lists_ok_def split: if_splits)
        then show ?thesis using ok(3) by (simp add: xact_added_def)
      qed
      then have "find (?P s0) (receive_list s n type) = None" using None by (auto simp: find_None_iff)
      then have "receive_match s0 n type sqn = Some y" unfolding l using core(3) by (rule find_snoc)
      moreover have "xs_sent s0 = xs_sent s" using ok(3) by (simp add: xact_added_def)
      moreover have "xact_receive_on s0 y type = Some (OGS_OK, Some x, s1)"
        using r None st ok(1) by (simp add: receive_eq remote_create_eq)
      ultimately show ?thesis using ok(2) by (intro on)
    qed
  qed
qed

subsection \<open>Retransmission\<close>

lemma rcount_step:
  assumes "unat (c::u8) = Suc k"
  shows "unat (c - 1) = k" "c - 1 > 0 \<longleftrightarrow> k > 0"
proof -
  have "c \<noteq> 0" using assms by auto
  then show u: "unat (c - 1) = k" using assms by (simp add: unat_minus_one)
  show "c - 1 > 0 \<longleftrightarrow> k > 0" using u by (metis unat_gt_0 word_gt_0)
qed

text \<open>States for the examples below: an idle layer with room for two transactions and six
  timers, and a layer whose only transaction is given.\<close>

definition demo_conf :: pfcp_conf where
  "demo_conf = \<lparr>n1_response_rcount = 3, t1_response_duration = 2, n1_holding_rcount = 1,
     t1_holding_duration = 6\<rparr>"

definition idle_layer :: "unit xact_state" where
  "idle_layer = ogs_pfcp_xact_init 2 (ogs_timer_mgr_create (App_timer 0) 6) demo_conf"

definition one_xact :: "unit pfcp_xact \<Rightarrow> unit xact_state" where
  "one_xact xa = \<lparr>xs_pool = \<lparr>p_head = 0, p_tail = 0, p_size = 1, p_avail = 0, p_free = [None],
       p_index = [Some 0], p_node_id = (\<lambda>_. 1), p_id_hash = [1 \<mapsto> 0], p_id = 1\<rparr>,
     xs_xact = (\<lambda>_. xa), xs_node = (\<lambda>_. \<lparr>nd_local_list = [], nd_remote_list = []\<rparr>)
       (x_node xa := set_node_list (x_org xa) [0] \<lparr>nd_local_list = [], nd_remote_list = []\<rparr>),
     xs_timer = ogs_timer_mgr_create (App_timer 0) 0, xs_g_xact_id = 5, xs_conf = demo_conf,
     xs_now = 0, xs_sent = [], xs_cb_log = []\<rparr>"

lemma node_list_empty [simp]: "node_list org \<lparr>nd_local_list = [], nd_remote_list = []\<rparr> = []"
  by (simp add: node_list_def)

lemma timer_create_live: "timer_live (ogs_timer_mgr_create d n) = {}"
  unfolding timer_live_def ogs_timer_mgr_create_def pool_in_use_def
  by (simp add: pool_unused_init) (simp add: ogs_pool_init_def)

lemma idle_layer_reach: "xact_reach idle_layer"
  unfolding idle_layer_def
  by (rule reach_start) (simp_all add: timer_inv_create timer_create_live demo_conf_def)

lemma idle_layer_fresh: "xact_fresh idle_layer"
  by (simp add: idle_layer_def ogs_pfcp_xact_init_def ogs_pool_init_def)

lemma one_xact_inv:
  assumes "xact_seq_ok xa" "\<And>r. x_timer r xa = None"
  shows "xact_inv (one_xact xa)" "in_use (one_xact xa) 0"
proof -
  let ?p = "xs_pool (one_xact xa)"
  have un: "pool_unused ?p = []" "pool_unused_nodes ?p = []"
    by (simp_all add: one_xact_def pool_unused_def pool_unused_nodes_def)
  have use: "pool_in_use ?p y \<longleftrightarrow> y = 0" for y
    unfolding pool_in_use_def un by (simp add: one_xact_def)
  then show "in_use (one_xact xa) 0" by simp
  have "pool_inv ?p" unfolding pool_inv_def un by (simp add: one_xact_def)
  then have "id_pool_inv ?p"
    unfolding id_pool_inv_def use by (auto simp: one_xact_def OGS_MAX_POOL_ID_def OGS_MIN_POOL_ID_def)
  moreover have "xact_lists_ok (one_xact xa)"
    unfolding xact_lists_ok_def use by (auto simp: one_xact_def)
  moreover have "xact_timers_ok (one_xact xa)"
    unfolding xact_timers_ok_def use using assms(2)
    by (auto simp: one_xact_def timer_create_live)
  moreover have "xact_objects_ok (one_xact xa)"
    unfolding xact_objects_ok_def use using assms by (auto simp: one_xact_def)
  ultimately show "xact_inv (one_xact xa)"
    by (simp add: xact_inv_def) (simp add: one_xact_def timer_inv_create demo_conf_def)
qed

definition demo_pk :: pkbuf where
  "demo_pk = \<lparr>pk_buf = replicate 16 0 @ [0, 1], pk_data = 16, pk_tail = 18, pk_len = 2\<rparr>"

text \<open>A request of ours to node 3 that has been committed and waits for its response.\<close>

definition demo_request :: "unit pfcp_xact" where
  "demo_request = (xact_blank 0 OGS_PFCP_LOCAL_ORIGINATOR 5 3 (Some ()))
     \<lparr>x_step := 1, x_seq := [(50, Some demo_pk), (0, None), (0, None)], x_response_rcount := 3\<rparr>"

lemma demo_request_inv: "xact_inv (one_xact demo_request)" "in_use (one_xact demo_request) 0"
proof -
  have "x_seq demo_request = [(50, Some demo_pk), (0, None), (0, None)]" "x_step demo_request = 1"
    "x_org demo_request = OGS_PFCP_LOCAL_ORIGINATOR"
    by (simp_all add: demo_request_def xact_blank_def)
  then have "xact_seq_ok demo_request"
    by (simp add: xact_seq_ok_3 ogs_pfcp_xact_get_stage_def)
  moreover have "x_timer r demo_request = None" for r by (simp add: demo_request_def)
  ultimately show "xact_inv (one_xact demo_request)" "in_use (one_xact demo_request) 0"
    using one_xact_inv by blast+
qed

subsection \<open>Properties\<close>

text \<open>C4. The layer never aborts and never leaks: in every state reached by calls whose callers
  keep their side, the invariant holds (lists, pool, timers and message history agree, no
  timer is leaked or outlives its transaction), every transaction has its three timers, and
  every further such call, including a run of all due timers, completes.\<close>

theorem pfcp_xact_safe:
  assumes "xact_reach s"
  shows "xact_inv s \<and> xact_full s \<and> (\<forall>op. xact_enabled op s \<longrightarrow> xact_exec op s \<noteq> None)"
proof -
  from xact_reach_inv[OF assms] have inv: "xact_inv s" "xact_full s" by simp_all
  then show ?thesis using xact_exec_inv[OF inv] by blast
qed

theorem pfcp_xact_safe_witness: "xact_exec (Op_create 3 None) idle_layer \<noteq> None"
  using pfcp_xact_safe[OF idle_layer_reach] idle_layer_fresh
    xact_enabled.simps(1)[of 3 None idle_layer] by blast

text \<open>C7. A response is matched to its request: a response whose sequence number is that of an
  outstanding local request is handed to the caller with that transaction, which records it
  and stops its response timer, so that nothing is sent again.\<close>

theorem pfcp_response_matched:
  assumes inv: "xact_inv s" and st: "ogs_pfcp_xact_get_stage type = PFCP_XACT_FINAL_STAGE"
    and m: "receive_match s n type sqn = Some x" and step: "x_step (xs_xact s x) = 1"
  shows "\<exists>s'. ogs_pfcp_xact_receive s n type sqn = Some (OGS_OK, Some x, s') \<and> xact_inv s' \<and>
    x_step (xs_xact s' x) = 2 \<and> last_seq (xs_xact s' x) = Some (type, None) \<and>
    (\<forall>t. x_tm_response (xs_xact s x) = Some t \<longrightarrow> t \<notin> armed s') \<and> xs_sent s' = xs_sent s"
proof -
  note f = receive_match_in_use[OF inv m]
  have e: "rx_expected (xs_xact s x) type" using f(4) st step by (simp add: rx_expected_def)
  have eq: "ogs_pfcp_xact_receive s n type sqn = xact_receive_on s x type"
    using st m by (simp add: receive_eq)
  show ?thesis
  proof (cases rule: xact_receive_on_cases[OF inv f(1), of type, case_names error dup ok])
    case (dup s')
    then show ?thesis using st by (simp add: rx_duplicate_def)
  qed (use e step eq in auto)
qed

theorem pfcp_response_matched_witness:
  "\<exists>s'. ogs_pfcp_xact_receive (one_xact demo_request) 3 51 0x500 = Some (OGS_OK, Some 0, s') \<and>
     x_step (xs_xact s' 0) = 2"
proof -
  have "receive_match (one_xact demo_request) 3 51 0x500 = Some 0"
    by (simp add: receive_list_def ogs_pfcp_xact_get_stage_def one_xact_def demo_request_def
        xact_blank_def node_list_def set_node_list_def OGS_PFCP_SQN_TO_XID_def)
  moreover have "ogs_pfcp_xact_get_stage 51 = PFCP_XACT_FINAL_STAGE"
    by (simp add: ogs_pfcp_xact_get_stage_def)
  moreover have "x_step (xs_xact (one_xact demo_request) 0) = 1"
    by (simp add: one_xact_def demo_request_def)
  ultimately show ?thesis
    using pfcp_response_matched[OF demo_request_inv(1), where type = 51 and sqn = "0x500" and n = 3 and x = 0] by blast
qed

text \<open>A response nobody waits for is dropped: if no local transaction of the node has its
  sequence number, \<open>ogs_pfcp_xact_receive\<close> reports an error, sends nothing, and the
  transaction it briefly creates is gone again, with its timers.\<close>

theorem pfcp_unmatched_response:
  assumes inv: "xact_inv s" and fresh: "xact_fresh s"
    and st: "ogs_pfcp_xact_get_stage type = PFCP_XACT_FINAL_STAGE"
    and m: "receive_match s n type sqn = None"
  shows "\<exists>s'. ogs_pfcp_xact_receive s n type sqn = Some (OGS_ERROR, None, s') \<and> xact_inv s' \<and>
    xact_same s s'"
proof (cases rule: xact_create_inv[OF inv fresh, of OGS_PFCP_REMOTE_ORIGINATOR
      "OGS_PFCP_SQN_TO_XID sqn" n None "xs_g_xact_id s", case_names fail ok])
  case (fail s')
  then show ?thesis using m st by (simp add: receive_eq remote_create_eq)
next
  case (ok x s1)
  then have x: "in_use s1 x" by (simp add: xact_added_def)
  from ok(4) have "x_step (xs_xact s1 x) = 0" "x_org (xs_xact s1 x) = OGS_PFCP_REMOTE_ORIGINATOR"
    by (simp_all add: x_core_def xact_blank_def)
  then have ne: "\<not> rx_expected (xs_xact s1 x) type" "\<not> rx_duplicate (xs_xact s1 x) type"
    using st by (simp_all add: rx_expected_def rx_duplicate_def)
  have eq: "ogs_pfcp_xact_receive s n type sqn = xact_receive_on s1 x type"
    using m st ok(1) by (simp add: receive_eq remote_create_eq)
  obtain s'' where "ogs_pfcp_xact_delete s1 x = Some s''" "xact_inv s''" "xact_same s s''"
    using xact_added_delete[OF inv ok(2,3)] .
  then show ?thesis
    by (cases rule: xact_receive_on_cases[OF ok(2) x, of type, case_names error dup ok])
      (use ne eq in auto)
qed

theorem pfcp_unmatched_response_witness:
  "\<exists>s'. ogs_pfcp_xact_receive idle_layer 3 51 0x500 = Some (OGS_ERROR, None, s') \<and>
     live s' = {} \<and> (\<forall>y. \<not> in_use s' y)"
proof -
  have inv: "xact_inv idle_layer" using xact_reach_inv[OF idle_layer_reach] by simp
  have "receive_match idle_layer 3 51 0x500 = None"
    by (simp add: receive_list_def idle_layer_def ogs_pfcp_xact_init_def node_list_def)
  moreover have "ogs_pfcp_xact_get_stage 51 = PFCP_XACT_FINAL_STAGE"
    by (simp add: ogs_pfcp_xact_get_stage_def)
  moreover have "live idle_layer = {}"
    by (simp add: idle_layer_def ogs_pfcp_xact_init_def timer_create_live)
  moreover have "\<not> in_use idle_layer y" for y
    unfolding idle_layer_def ogs_pfcp_xact_init_def pool_in_use_def
    by (simp add: pool_unused_init) (simp add: ogs_pool_init_def)
  ultimately show ?thesis
    using pfcp_unmatched_response[OF inv idle_layer_fresh, where type = 51 and sqn = "0x500" and n = 3]
    by (auto simp: xact_same_def)
qed

text \<open>C5. A request is executed at most once and answered as often as it arrives: after a request
  was received, its response stored and committed, the same request is recognised as a
  repetition (\<open>OGS_RETRY\<close>, no transaction for the caller), no transaction changes, and
  the packet that goes out is the very response sent before.\<close>

theorem pfcp_request_answered_once:
  assumes inv: "xact_inv s" and fresh: "xact_fresh s"
    and st: "ogs_pfcp_xact_get_stage type = PFCP_XACT_INITIAL_STAGE"
      "ogs_pfcp_xact_get_stage rtype = PFCP_XACT_FINAL_STAGE"
    and rcv: "ogs_pfcp_xact_receive s n type sqn = Some (OGS_OK, Some x, s1)"
    and pk: "pk_inv pk" "pfcp_hlen rtype \<le> pk_data pk"
    and tx: "ogs_pfcp_xact_update_tx s1 x rtype seid pk = Some (OGS_OK, s2)"
    and cm: "ogs_pfcp_xact_commit s2 x = Some (rv, s3)"
  shows "\<exists>pk' s4. pfcp_push_header rtype seid (x_xid (xs_xact s1 x)) pk = Some pk' \<and>
    xs_sent s3 = xs_sent s @ [(n, pk')] \<and>
    ogs_pfcp_xact_receive s3 n type sqn = Some (OGS_RETRY, None, s4) \<and>
    xs_sent s4 = xs_sent s3 @ [(n, pk')] \<and> xs_xact s4 = xs_xact s3 \<and> xact_inv s4"
proof -
  note s1 = receive_request[OF inv fresh st(1) rcv]
  then have inv1: "xact_inv s1" and x1: "in_use s1 x" by simp_all
  have st2: "ogs_pfcp_xact_get_stage rtype \<noteq> PFCP_XACT_UNKNOWN_STAGE" using st(2) by simp
  obtain pk' where s2: "xact_inv s2" "xact_touch x s1 s2" "last_seq (xs_xact s2 x) = Some (rtype, Some pk')"
      "pfcp_push_header rtype seid (x_xid (xs_xact s1 x)) pk = Some pk'"
      "x_step (xs_xact s2 x) = 2" "xs_sent s2 = xs_sent s1"
      "x_seq (xs_xact s2 x) = (x_seq (xs_xact s1 x))[1 := (rtype, Some pk')]"
    by (rule xact_update_tx_inv[OF inv1 x1 st2 pk, of seid]) (use tx s1 in auto)
  have x2: "in_use s2 x" "0 < x_step (xs_xact s2 x)" using x1 s2(2,5) by (auto simp: xact_touch_def)
  have n2: "x_node (xs_xact s2 x) = n" using s2(2) s1 by (simp add: xact_touch_def)
  have pend: "xact_pending (xs_xact s2 x)" using s2(3) by (simp add: xact_pending_def)
  have s3: "xact_inv s3" "xact_touch x s2 s3" "xs_xact s3 = xs_xact s2"
      "xs_sent s3 = xs_sent s2 @ [(n, pk')]"
    by (cases rule: xact_commit_cases[OF s2(1) x2, case_names sent gone];
        use cm pend s2(3) n2 in simp)+
  have m3: "receive_match s3 n type sqn = Some x"
    using s1 receive_match_touch[OF s2(2)] receive_match_touch[OF s3(2)] by simp
  have x3: "in_use s3 x" using x2(1) s3(2) by (simp add: xact_touch_def)
  have len: "length (x_seq (xs_xact s1 x)) = 3"
    using xact_seq_ok_in_use[OF inv1 x1] by (simp add: xact_seq_ok_def)
  have seq3: "x_seq (xs_xact s3 x) ! 0 = (type, None)" "snd (x_seq (xs_xact s3 x) ! 1) = Some pk'"
    using s1 len by (simp_all add: s3(3) s2(7))
  have dupl: "rx_duplicate (xs_xact s3 x) type"
    using seq3 st(1) s1 s2(2,5) s3(3) by (simp add: rx_duplicate_def xact_touch_def)
  have eq: "ogs_pfcp_xact_receive s3 n type sqn = xact_receive_on s3 x type"
    using st(1) m3 by (simp add: receive_eq)
  show ?thesis
  proof (cases rule: xact_receive_on_cases[OF s3(1) x3, of type, case_names error dup ok])
    case (ok s4)
    then show ?thesis using dupl by (auto simp: rx_expected_def rx_duplicate_def)
  next
    case (dup s4)
    then show ?thesis using eq s2(4,6) s3(3,4) seq3(2) n2 s1 by (intro exI[of _ pk'] exI[of _ s4]) simp
  qed (use dupl in simp)
qed

theorem pfcp_request_answered_once_witness:
  "\<exists>s1 s2 s3 pk' s4.
     ogs_pfcp_xact_receive (one_xact (xact_blank 0 OGS_PFCP_REMOTE_ORIGINATOR 5 3 None)) 3 50 0x500
       = Some (OGS_OK, Some 0, s1) \<and>
     ogs_pfcp_xact_update_tx s1 0 51 9 demo_pk = Some (OGS_OK, s2) \<and>
     ogs_pfcp_xact_commit s2 0 = Some (OGS_OK, s3) \<and>
     ogs_pfcp_xact_receive s3 3 50 0x500 = Some (OGS_RETRY, None, s4) \<and>
     xs_sent s4 = [(3, pk'), (3, pk')]"
proof -
  let ?xa = "xact_blank 0 OGS_PFCP_REMOTE_ORIGINATOR 5 3 None :: unit pfcp_xact"
  let ?s = "one_xact ?xa"
  have st: "ogs_pfcp_xact_get_stage 50 = PFCP_XACT_INITIAL_STAGE"
    "ogs_pfcp_xact_get_stage 51 = PFCP_XACT_FINAL_STAGE"
    by (simp_all add: ogs_pfcp_xact_get_stage_def)
  have inv: "xact_inv ?s" "in_use ?s 0" by (rule one_xact_inv; simp add: xact_seq_ok_blank)+
  have fresh: "xact_fresh ?s" by (simp add: one_xact_def OGS_NEXT_ID_def OGS_MAX_POOL_ID_def)
  have sent0: "xs_sent ?s = []" by (simp add: one_xact_def)
  have pk: "pk_inv demo_pk" "pfcp_hlen 51 \<le> pk_data demo_pk"
    by (simp_all add: demo_pk_def pk_inv_def pfcp_hlen_def)
  have "receive_match ?s 3 50 0x500 = Some 0"
    by (simp add: receive_list_def st one_xact_def xact_blank_def node_list_def set_node_list_def
        OGS_PFCP_SQN_TO_XID_def)
  then have eq: "ogs_pfcp_xact_receive ?s 3 50 0x500 = xact_receive_on ?s 0 50"
    by (simp add: receive_eq st)
  have "rx_expected (xs_xact ?s 0) 50" "\<not> rx_duplicate (xs_xact ?s 0) 50"
    by (simp_all add: rx_expected_def rx_duplicate_def one_xact_def xact_blank_def st)
  then obtain s1 where rcv: "ogs_pfcp_xact_receive ?s 3 50 0x500 = Some (OGS_OK, Some 0, s1)"
    unfolding eq by (cases rule: xact_receive_on_cases[OF inv, of 50, case_names e d o]) auto
  note s1 = receive_request[OF inv(1) fresh st(1) rcv]
  obtain pk' where pk': "pfcp_push_header 51 9 (x_xid (xs_xact s1 0)) demo_pk = Some pk'"
    by (rule pfcp_push_header_Some[OF pk])
  have "length (x_seq (xs_xact s1 0)) = 3"
    using s1 xact_seq_ok_in_use[of s1 0] by (simp add: xact_seq_ok_def)
  then obtain s2 where tx: "ogs_pfcp_xact_update_tx s1 0 51 9 demo_pk = Some (OGS_OK, s2)"
    using s1 pk' by (simp add: ogs_pfcp_xact_update_tx_def Let_def st)
  have s2: "xact_inv s2" "in_use s2 0" "xact_pending (xs_xact s2 0)" "0 < x_step (xs_xact s2 0)"
    using s1 st by (rule_tac xact_update_tx_inv[OF _ _ _ pk, of s1 0 9];
        use tx in \<open>auto simp: xact_touch_def xact_pending_def\<close>)+
  obtain s3 where cm: "ogs_pfcp_xact_commit s2 0 = Some (OGS_OK, s3)"
    by (cases rule: xact_commit_cases[OF s2(1,2,4), case_names sent gone]) (use s2(3) in auto)
  from pfcp_request_answered_once[OF inv(1) fresh st rcv pk tx cm] rcv tx cm sent0 show ?thesis
    by auto
qed

text \<open>C8. Creating a transaction: either the caller gets a new transaction, alone in its slot, last
  in its node's list, with all three timers and the configured counters, or it gets NULL and
  nothing has changed: a transaction whose timers could not all be allocated leaves no slot,
  no list entry and no timer behind.\<close>

theorem pfcp_local_create_atomic:
  assumes inv: "xact_inv s" and fresh: "xact_fresh s"
  shows "\<exists>xo s'. ogs_pfcp_xact_local_create s n cb = Some (xo, s') \<and> xact_inv s' \<and>
    (case xo of None \<Rightarrow> xact_same s s'
     | Some x \<Rightarrow> xact_added x s s' \<and> (\<forall>r. x_timer r (xs_xact s' x) \<noteq> None) \<and>
         x_core (xs_xact s' x) = x_core (xact_blank x OGS_PFCP_LOCAL_ORIGINATOR (next_xid s) n cb) \<and>
         x_response_rcount (xs_xact s' x) = n1_response_rcount (xs_conf s))"
  unfolding local_create_eq
  by (rule xact_create_inv[OF inv fresh, of OGS_PFCP_LOCAL_ORIGINATOR "next_xid s" n cb "next_xid s"])
    auto

lemma nth_put32: "put32 w ! 0 = ucast (drop_bit 24 w)" "put32 w ! Suc 0 = ucast (drop_bit 16 w)"
  "put32 w ! 2 = ucast (drop_bit 8 w)" "put32 w ! 3 = ucast w"
  by (simp_all add: put32_def)

lemma sqn_to_xid:
  assumes "unat xid < 2 ^ 24"
  shows "OGS_PFCP_SQN_TO_XID (OGS_PFCP_XID_TO_SQN xid) = xid"
  unfolding OGS_PFCP_SQN_TO_XID_def OGS_PFCP_XID_TO_SQN_def
  using bit_less_exp[OF assms] by (intro bit_word_eqI) (auto simp: bit_simps)

theorem pfcp_local_create_atomic_witness:
  "\<exists>xo s'. ogs_pfcp_xact_local_create idle_layer 3 None = Some (xo, s') \<and>
     (xo = None \<longrightarrow> xs_sent s' = []) \<and> xact_inv s'"
proof -
  have inv: "xact_inv idle_layer" using xact_reach_inv[OF idle_layer_reach] by simp
  have "xs_sent idle_layer = []" by (simp add: idle_layer_def ogs_pfcp_xact_init_def)
  with pfcp_local_create_atomic[OF inv idle_layer_fresh, of 3 None] show ?thesis
    by (auto simp: xact_same_def)
qed

text \<open>What a reader of the SEID finds in a header that has none: \<open>seid\<close> and
  \<open>sqn_only\<close> share their octets, so that it is the little-endian value of the sequence
  number as transmitted.\<close>

definition sqn_overlay :: "u32 \<Rightarrow> u64" where
  "sqn_overlay xid = ucast (get32 0 (ucast xid) (ucast (drop_bit 8 xid)) (ucast (drop_bit 16 xid)))"

lemma sqn_octets:
  "put32 (OGS_PFCP_XID_TO_SQN xid) = [ucast (drop_bit 16 xid), ucast (drop_bit 8 xid), ucast xid, 0]"
  unfolding put32_def OGS_PFCP_XID_TO_SQN_def list.inject
  by (intro conjI; (rule bit_word_eqI)?) (auto simp: bit_simps)

lemma sqn_word: "get32 (ucast (drop_bit 16 xid)) (ucast (drop_bit 8 xid)) (ucast xid) 0 = OGS_PFCP_XID_TO_SQN xid"
proof -
  have "get32 (put32 w ! 0) (put32 w ! 1) (put32 w ! 2) (put32 w ! 3) = w" for w
    by (simp add: put32_def)
  from this[of "OGS_PFCP_XID_TO_SQN xid"] show ?thesis unfolding sqn_octets by simp
qed

text \<open>C9. The header a peer reads is the one that was meant: parsing what
  \<open>ogs_pfcp_xact_update_tx\<close> put in front of a message gives back its type, the length of
  what follows the first four octets, for session messages the SEID, and, for the 24-bit
  transaction identifiers the layer uses, the identifier by which the answer is matched;
  what is left is the message. In a header without SEID the field holds the overlaid octets of
  the sequence number, not 0.\<close>

theorem pfcp_header_roundtrip:
  assumes pk: "pk_inv pk" "pfcp_hlen type \<le> pk_data pk" and xid: "unat xid < 2 ^ 24"
  shows "\<exists>pk' h pk''. pfcp_push_header type seid xid pk = Some pk' \<and>
    ogs_pfcp_parse_header pk' = Some (Some (h, pk'')) \<and>
    ph_type h = type \<and> ph_length h = of_nat (pk_len pk + pfcp_hlen type) - 4 \<and>
    ph_seid h = (if type \<ge> 50 then seid else sqn_overlay xid) \<and> OGS_PFCP_SQN_TO_XID (ph_sqn h) = xid \<and>
    pk_bytes pk'' = pk_bytes pk"
proof -
  let ?len = "of_nat (pk_len pk + pfcp_hlen type) - 4 :: u16"
  obtain pk' where pk': "pfcp_push_header type seid xid pk = Some pk'" "pk_inv pk'"
      "pk_bytes pk' = pfcp_header_bytes type seid xid ?len @ pk_bytes pk"
    by (rule pfcp_push_header_Some[OF pk])
  have hl: "length (pfcp_header_bytes type seid xid ?len) = pfcp_hlen type"
    by (simp add: pfcp_header_bytes_def pfcp_hlen_def)
  have len: "pk_len pk' = pfcp_hlen type + pk_len pk"
    using length_pk_bytes[OF pk'(2)] length_pk_bytes[OF pk(1)] pk'(3) hl by simp
  obtain pk'' where pk'': "ogs_pkbuf_pull pk' (pfcp_hlen type) = Some pk''"
      "pk_bytes pk'' = drop (pfcp_hlen type) (pk_bytes pk')"
    using pull_drops[OF pk'(2), of "pfcp_hlen type"] len by auto
  have rest: "pk_bytes pk'' = pk_bytes pk" using pk''(2) pk'(3) hl by simp
  have "\<exists>h. ogs_pfcp_parse_header pk' = Some (Some (h, pk'')) \<and>
      ph_type h = type \<and> ph_length h = ?len \<and> ph_seid h = (if type \<ge> 50 then seid else sqn_overlay xid) \<and>
      ph_sqn h = OGS_PFCP_XID_TO_SQN xid"
  proof (cases "type \<ge> 50")
    case True
    have "pk_bytes pk' = [0x21, type] @ put16 ?len @ put64 seid @ put32 (OGS_PFCP_XID_TO_SQN xid) @ pk_bytes pk"
      using True pk'(3) by (simp add: pfcp_header_bytes_def)
    then show ?thesis
      using True pk''(1) len by (simp add: ogs_pfcp_parse_header_def Let_def pfcp_hlen_def
          put16_def nth_append nth_put32)
  next
    case False
    then show ?thesis
      using pk'(3) pk''(1) len
      by (simp add: ogs_pfcp_parse_header_def Let_def pfcp_hlen_def pfcp_header_bytes_def
          put16_def sqn_octets sqn_overlay_def sqn_word)
  qed
  then obtain h where "ogs_pfcp_parse_header pk' = Some (Some (h, pk''))"
      "ph_type h = type \<and> ph_length h = ?len \<and> ph_seid h = (if type \<ge> 50 then seid else sqn_overlay xid)"
      "ph_sqn h = OGS_PFCP_XID_TO_SQN xid" by blast
  with pk'(1) rest sqn_to_xid[OF xid] show ?thesis by (intro exI[of _ pk'] exI[of _ h] exI[of _ pk'']) simp
qed

theorem pfcp_header_roundtrip_witness:
  "\<exists>pk' h pk''. pfcp_push_header 50 7 5 demo_pk = Some pk' \<and>
     ogs_pfcp_parse_header pk' = Some (Some (h, pk'')) \<and> ph_seid h = 7 \<and>
     OGS_PFCP_SQN_TO_XID (ph_sqn h) = 5 \<and> ph_length h = 14"
proof -
  have "pk_inv demo_pk" "pfcp_hlen 50 \<le> pk_data demo_pk" "unat (5::u32) < 2 ^ 24"
    by (simp_all add: demo_pk_def pk_inv_def pfcp_hlen_def)
  from pfcp_header_roundtrip[OF this, of 7] show ?thesis
    by (auto simp: demo_pk_def pfcp_hlen_def)
qed

end
