(* ===== verification/Pfcp_Xact_Expiry.thy ===== *)
theory Pfcp_Xact_Expiry
  imports Pfcp_Xact_Props
begin

text \<open>
  Retransmission as it happens: the event loop sleeps until the timer manager has a due timer, runs
  the manager, and the manager runs \<open>response_timeout\<close>, which has to arm its timer again.
\<close>

subsection \<open>One round of the event loop\<close>

definition xact_round :: "'c xact_state \<Rightarrow> 'c xact_state option" where
  "xact_round s =
     (let now = xs_now s + ogs_timer_mgr_next (xs_timer s) (xs_now s)
      in ogs_timer_mgr_expire xs_timer xact_put_timer xact_timer_callback now (s\<lparr>xs_now := now\<rparr>))"


text \<open>The state in which the callback of the only due timer runs.\<close>

definition xact_alarm :: "'c xact_state \<Rightarrow> nat \<Rightarrow> 'c xact_state" where
  "xact_alarm s t = s\<lparr>xs_timer := ogs_timer_stop (timer_link (xs_timer s) [t]) t,
     xs_now := timeout_of (xs_timer s) t\<rparr>"

lemma timeout_of_stop [simp]: "timeout_of (ogs_timer_stop m t) u = timeout_of m u"
  by (simp add: ogs_timer_stop_def)

lemma xact_alarm_simps [simp]:
  "xs_pool (xact_alarm s t) = xs_pool s" "xs_xact (xact_alarm s t) = xs_xact s"
  "xs_node (xact_alarm s t) = xs_node s" "xs_conf (xact_alarm s t) = xs_conf s"
  "xs_sent (xact_alarm s t) = xs_sent s" "xs_cb_log (xact_alarm s t) = xs_cb_log s"
  "xs_now (xact_alarm s t) = timeout_of (xs_timer s) t"
  "timeout_of (xs_timer (xact_alarm s t)) u = timeout_of (xs_timer s) u"
  "timer_data (xs_timer (xact_alarm s t)) u = timer_data (xs_timer s) u"
  by (simp_all add: xact_alarm_def timer_link_frame del: timer_link.simps)





subsection \<open>The layer keeps the contract of the timer manager\<close>

text \<open>Its callbacks add no timer, and what they start is due later than the time on the
  clock.\<close>

definition xact_later :: "'c xact_state \<Rightarrow> 'c xact_state \<Rightarrow> bool" where
  "xact_later s s' \<longleftrightarrow> xs_now s' = xs_now s \<and> xs_conf s' = xs_conf s \<and>
     (\<forall>u. timer_data (xs_timer s') u = timer_data (xs_timer s) u \<and>
        tm_lnext (tmr_node (xs_timer s') u) = tm_lnext (tmr_node (xs_timer s) u) \<and>
        (tm_running (tmr_node (xs_timer s') u) \<longrightarrow> xs_now s < timeout_of (xs_timer s') u \<or>
           tm_running (tmr_node (xs_timer s) u) \<and> timeout_of (xs_timer s') u = timeout_of (xs_timer s) u))"

lemma xact_later_refl [simp]: "xact_later s s"
  by (simp add: xact_later_def)

lemma xact_later_trans: "xact_later s s1 \<Longrightarrow> xact_later s1 s2 \<Longrightarrow> xact_later s s2"
  unfolding xact_later_def by metis

lemma xact_later_frame:
  assumes "xs_timer s1 = xs_timer s" "xs_now s1 = xs_now s" "xs_conf s1 = xs_conf s"
  shows "xact_later s1 s' \<longleftrightarrow> xact_later s s'" "xact_later s' s1 \<longleftrightarrow> xact_later s' s"
  by (simp_all add: xact_later_def assms)

lemma xact_later_start: "xact_timer_start tm d s = Some s' \<Longrightarrow> 0 < d \<Longrightarrow> xact_later s s'"
  by (auto simp: xact_timer_start_def ogs_timer_start_def xact_later_def Let_def split: option.splits if_splits)

lemma xact_later_timer_delete: "xact_timer_delete tm s = Some s' \<Longrightarrow> xact_later s s'"
  by (auto simp: xact_timer_delete_def ogs_timer_delete_def ogs_timer_stop_def xact_later_def Let_def
      split: option.splits if_splits)

lemma xact_later_delete:
  assumes "ogs_pfcp_xact_delete s x = Some s'"
  shows "xact_later s s'"
proof -
  obtain s1 s2 s3 where s: "xact_timer_delete (x_tm_response (xs_xact s x)) s = Some s1"
    "xact_timer_delete (x_tm_holding (xs_xact s x)) s1 = Some s2"
    "xact_timer_delete (x_tm_delayed_commit (xs_xact s x)) s2 = Some s3"
    "xs_timer s' = xs_timer s3" "xs_now s' = xs_now s3" "xs_conf s' = xs_conf s3"
    using assms by (auto simp: ogs_pfcp_xact_delete_def Let_def bind_eq_Some_conv)
  then have "xact_later s s3"
    by (meson xact_later_timer_delete xact_later_trans)
  then show ?thesis by (simp add: xact_later_frame(2) [OF s(4-6)])
qed

lemma xact_later_send: "xact_send_last x s = Some s' \<Longrightarrow> xact_later s s'"
  by (auto simp: xact_send_last_def ogs_pfcp_sendto_def xact_later_def split: option.splits prod.splits)

lemma xact_later_commit:
  assumes "ogs_pfcp_xact_commit s x = Some (rv, s')" "0 < t1_response_duration (xs_conf s)"
  shows "xact_later s s'"
proof -
  have arm: "xact_later s s'"
    if "Option.bind (xact_timer_start tm (t1_response_duration (xs_conf s)) s)
      (\<lambda>s. map_option (\<lambda>s'. (OGS_OK, s')) (xact_send_last x s)) = Some (rv, s')" for tm
    using that xact_later_start [OF _ assms(2)] xact_later_send xact_later_trans
    by (auto simp: bind_eq_Some_conv) blast
  from assms(1) obtain type pko where "last_seq (xs_xact s x) = Some (type, pko)"
    by (cases "last_seq (xs_xact s x)") (auto simp: ogs_pfcp_xact_commit_def)
  then show ?thesis
    using assms(1) arm xact_later_delete xact_later_send
    by (cases "x_org (xs_xact s x)"; cases "ogs_pfcp_xact_get_stage type")
      (auto simp: ogs_pfcp_xact_commit_def Let_def xact_fail_def xact_done_def bind_eq_Some_conv
        split: if_splits)
qed

lemma xact_later_timeout:
  assumes "xact_timeout act i s = Some s'" "\<And>x. act x s = Some s' \<Longrightarrow> xact_later s s'"
  shows "xact_later s s'"
  using assms by (auto simp: xact_timeout_def split: if_splits option.splits)

lemma xact_later_callback:
  assumes "xact_timer_callback d s = Some s'"
    and "0 < t1_response_duration (xs_conf s)" "0 < t1_holding_duration (xs_conf s)"
  shows "xact_later s s'"
proof (cases d)
  case (App_timer n)
  then show ?thesis using assms(1) by (simp add: xact_timer_callback_def)
next
  case (Xact_timer r i)
  show ?thesis
  proof (cases r)
    case R_response
    then have "response_timeout i s = Some s'" using assms(1) Xact_timer by (simp add: xact_timer_callback_def)
    then show ?thesis unfolding response_timeout_def
    proof (rule xact_later_timeout)
      fix x
      let ?s1 = "xact_upd x (\<lambda>xa. xa\<lparr>x_response_rcount := x_response_rcount xa - 1\<rparr>) s"
      assume act: "(let s1 = ?s1; xa = xs_xact s1 x
        in if x_response_rcount xa > 0 then
             Option.bind (xact_timer_start (x_tm_response xa) (t1_response_duration (xs_conf s1)) s1)
               (xact_send_last x)
           else
             (let s2 = (case x_cb xa of None \<Rightarrow> s1 | Some c \<Rightarrow> s1\<lparr>xs_cb_log := xs_cb_log s1 @ [(x, c)]\<rparr>)
              in ogs_pfcp_xact_delete s2 x)) = Some s'"
      have "xact_later ?s1 s'"
      proof (cases "x_response_rcount (xs_xact ?s1 x) > 0")
        case True
        then obtain s2 where "xact_timer_start (x_tm_response (xs_xact ?s1 x)) (t1_response_duration (xs_conf ?s1)) ?s1 = Some s2"
          "xact_send_last x s2 = Some s'"
          using act by (auto simp: Let_def bind_eq_Some_conv)
        then show ?thesis using assms(2) by (auto intro: xact_later_trans xact_later_start xact_later_send)
      next
        case False
        define s2 where "s2 = (case x_cb (xs_xact ?s1 x) of None \<Rightarrow> ?s1
          | Some c \<Rightarrow> ?s1\<lparr>xs_cb_log := xs_cb_log ?s1 @ [(x, c)]\<rparr>)"
        have f: "xs_timer s2 = xs_timer ?s1" "xs_now s2 = xs_now ?s1" "xs_conf s2 = xs_conf ?s1"
          by (simp_all add: s2_def split: option.split)
        have "ogs_pfcp_xact_delete s2 x = Some s'" using act False by (simp only: Let_def s2_def if_False)
        then have "xact_later s2 s'" by (rule xact_later_delete)
        then show ?thesis by (simp only: xact_later_frame(1) [OF f])
      qed
      then show "xact_later s s'" by (simp add: xact_later_frame(1) [of ?s1 s])
    qed
  next
    case R_holding
    then have "holding_timeout i s = Some s'" using assms(1) Xact_timer by (simp add: xact_timer_callback_def)
    then show ?thesis unfolding holding_timeout_def
    proof (rule xact_later_timeout)
      fix x
      let ?s1 = "xact_upd x (\<lambda>xa. xa\<lparr>x_holding_rcount := x_holding_rcount xa - 1\<rparr>) s"
      assume "(let s1 = ?s1; xa = xs_xact s1 x
        in if x_holding_rcount xa > 0 then
             xact_timer_start (x_tm_holding xa) (t1_holding_duration (xs_conf s1)) s1
           else ogs_pfcp_xact_delete s1 x) = Some s'"
      then have "xact_later ?s1 s'"
        using assms(3) xact_later_delete xact_later_start
        by (cases "x_holding_rcount (xs_xact ?s1 x) > 0") (simp_all only: Let_def if_True if_False xact_upd_simps)
      then show "xact_later s s'" by (simp add: xact_later_frame(1) [of ?s1 s])
    qed
  next
    case R_delayed_commit
    then have "delayed_commit_timeout i s = Some s'" using assms(1) Xact_timer by (simp add: xact_timer_callback_def)
    then show ?thesis unfolding delayed_commit_timeout_def
      by (rule xact_later_timeout) (use xact_later_commit assms(2) in auto)
  qed
qed

interpretation pfcp_timers: timer_callbacks xs_timer xact_put_timer xact_timer_callback
  "\<lambda>s. xs_now s = now \<and> 0 < t1_response_duration (xs_conf s) \<and> 0 < t1_holding_duration (xs_conf s)" now
  for now :: int
proof unfold_locales
  fix d :: app_timer and s s' :: "'c xact_state"
  assume "xs_now s = now \<and> 0 < t1_response_duration (xs_conf s) \<and> 0 < t1_holding_duration (xs_conf s)"
    and "xact_timer_callback d s = Some s'"
  then show "(xs_now s' = now \<and> 0 < t1_response_duration (xs_conf s') \<and> 0 < t1_holding_duration (xs_conf s')) \<and>
      (\<forall>u. timer_data (xs_timer s') u = timer_data (xs_timer s) u \<and>
         tm_lnext (tmr_node (xs_timer s') u) = tm_lnext (tmr_node (xs_timer s) u) \<and>
         (tm_running (tmr_node (xs_timer s') u) \<longrightarrow> now < timeout_of (xs_timer s') u \<or>
            tm_running (tmr_node (xs_timer s) u) \<and> timeout_of (xs_timer s') u = timeout_of (xs_timer s) u))"
    using xact_later_callback [of d s s'] by (simp add: xact_later_def)
qed simp_all

text \<open>A round of the event loop never fails and leaves no timer of the layer due.\<close>

lemma xact_round_not_due:
  assumes "xact_inv s" "0 < t1_response_duration (xs_conf s)" "0 < t1_holding_duration (xs_conf s)"
  obtains s' where "xact_round s = Some s'" "xact_inv s'"
    "\<And>t. t \<in> armed s' \<Longrightarrow> xs_now s + ogs_timer_mgr_next (xs_timer s) (xs_now s) < timeout_of (xs_timer s') t"
proof -
  define now where "now = xs_now s + ogs_timer_mgr_next (xs_timer s) (xs_now s)"
  let ?s = "s\<lparr>xs_now := now\<rparr>"
  have inv: "xact_inv ?s" using assms(1) by (simp add: xact_inv_defs)
  obtain s' where s': "ogs_timer_mgr_expire xs_timer xact_put_timer xact_timer_callback now ?s = Some s'" "xact_inv s'"
    using xact_expire_inv [OF inv] by blast
  have "now < timeout_of (xs_timer s') t" if "t \<in> armed s'" for t
    by (rule pfcp_timers.expire_run(2) [OF _ _ s'(1)])
      (use that assms inv in \<open>auto simp: xact_inv_def timer_armed_def\<close>)
  then show ?thesis using s' by (intro that [of s']) (simp_all add: xact_round_def now_def)
qed

subsection \<open>Arming, resending, giving up\<close>
















end
