(* ===== verification/Crypt_Words.thy ===== *)
theory Crypt_Words
  imports Ogs_Prelude
begin

text \<open>
  What the ciphers share: the four octets of a 32-bit word, look-up in a table of 256 entries,
  and multiplication by \<open>x\<close> in a field of 256 elements. Everything here is linear over exclusive
  or, which carries the proofs about the merged tables.
\<close>

named_theorems octet_simps \<open>octets of words put together from octets\<close>

definition byte32 :: "u32 \<Rightarrow> nat \<Rightarrow> u8" where
  "byte32 w i = ucast (drop_bit (8 * (3 - i)) w)"

definition entry :: "'a list \<Rightarrow> u8 \<Rightarrow> 'a" where
  "entry t b = t ! unat b"

definition MULx :: "u8 \<Rightarrow> u8 \<Rightarrow> u8" where
  "MULx V c = (if V AND 0x80 \<noteq> 0 then push_bit 1 V XOR c else push_bit 1 V)"

definition be_word :: "bytes \<Rightarrow> nat \<Rightarrow> u32" where
  "be_word bs i = get32 (bs ! i) (bs ! (i + 1)) (bs ! (i + 2)) (bs ! (i + 3))"

definition xor_bytes :: "bytes \<Rightarrow> bytes \<Rightarrow> bytes" where
  "xor_bytes = map2 (XOR)"

subsection \<open>Octets\<close>

lemma length_xor_bytes [simp]: "length (xor_bytes bs ks) = min (length bs) (length ks)"
  by (simp add: xor_bytes_def)

lemma xor_bytes_Nil [simp]: "xor_bytes [] ks = []" "xor_bytes bs [] = []"
  by (simp_all add: xor_bytes_def)

lemma xor_bytes_append:
  "length as = length ks \<Longrightarrow> xor_bytes (as @ bs) (ks @ ls) = xor_bytes as ks @ xor_bytes bs ls"
  by (simp add: xor_bytes_def)

lemma xor_bytes_short: "length bs \<le> length ks \<Longrightarrow> xor_bytes bs (ks @ ls) = xor_bytes bs ks"
  by (simp add: xor_bytes_def zip_append2)

lemma xor_bytes_twice: "length ks \<ge> length bs \<Longrightarrow> xor_bytes (xor_bytes bs ks) ks = bs"
  unfolding xor_bytes_def
  by (induction bs ks rule: list_induct2') (auto simp: xor.assoc)

lemma byte32_get32 [simp, octet_simps]:
  "byte32 (get32 a b c d) 0 = a" "byte32 (get32 a b c d) 1 = b"
  "byte32 (get32 a b c d) (Suc 0) = b"
  "byte32 (get32 a b c d) 2 = c" "byte32 (get32 a b c d) 3 = d"
  unfolding byte32_def get32_def by (rule bit_word_eqI; auto simp: bit_simps)+

lemma get32_byte32 [simp]: "get32 (byte32 w 0) (byte32 w 1) (byte32 w 2) (byte32 w 3) = w"
  "get32 (byte32 w 0) (byte32 w (Suc 0)) (byte32 w 2) (byte32 w 3) = w"
  by (simp_all add: byte32_def)

lemma word_octets:
  obtains a b c d where "w = get32 a b c d"
  by (metis get32_byte32)

lemma get32_xor: "get32 a b c d XOR get32 a' b' c' d' = get32 (a XOR a') (b XOR b') (c XOR c') (d XOR d')"
  unfolding get32_def by (rule bit_word_eqI) (auto simp: bit_simps)

lemma byte32_xor [simp, octet_simps]: "byte32 (v XOR w) i = byte32 v i XOR byte32 w i"
  unfolding byte32_def by (rule bit_word_eqI) (auto simp: bit_simps)

lemma get32_inject: "get32 a b c d = get32 a' b' c' d' \<longleftrightarrow> a = a' \<and> b = b' \<and> c = c' \<and> d = d'"
  by (metis byte32_get32)

lemma put32_bytes: "put32 w = [byte32 w 0, byte32 w 1, byte32 w 2, byte32 w 3]"
  by (simp add: put32_def byte32_def)

lemma length_concat_put32 [simp]: "length (concat (map put32 ws)) = 4 * length ws"
  by (induction ws) simp_all

lemma nth_words: "i < 4 * length ws \<Longrightarrow> concat (map put32 ws) ! i = byte32 (ws ! (i div 4)) (i mod 4)"
proof (induction ws arbitrary: i)
  case (Cons w ws)
  show ?case
  proof (cases "i < 4")
    case True
    then have "put32 w ! i = byte32 w i"
      by (auto simp: put32_bytes less_Suc_eq numeral_eq_Suc)
    then show ?thesis using True by (simp add: nth_append)
  next
    case False
    then obtain j where "i = j + 4" by (metis add.commute le_Suc_ex not_less)
    moreover have "(j + 4) div 4 = Suc (j div 4)" by simp
    ultimately show ?thesis using Cons by (simp add: nth_append)
  qed
qed simp

lemma unat_u8_less [simp]: "unat (b::u8) < 256"
  using unsigned_less [of b] by simp

lemma entry_map: "length t = 256 \<Longrightarrow> entry (map f t) b = f (entry t b)"
  by (simp add: entry_def)

text \<open>A statement about all octets is one about 256 of them.\<close>

lemma all_octets: "(\<And>i. i < 256 \<Longrightarrow> P (of_nat i)) \<Longrightarrow> P (b::u8)"
  by (metis unat_u8_less of_nat_unat ucast_id)

lemma octets256:
  "[0..<256] =
    [0, 1, 2, 3, 4, 5, 6, 7, 8, 9, 10, 11, 12, 13, 14, 15,
     16, 17, 18, 19, 20, 21, 22, 23, 24, 25, 26, 27, 28, 29, 30, 31,
     32, 33, 34, 35, 36, 37, 38, 39, 40, 41, 42, 43, 44, 45, 46, 47,
     48, 49, 50, 51, 52, 53, 54, 55, 56, 57, 58, 59, 60, 61, 62, 63,
     64, 65, 66, 67, 68, 69, 70, 71, 72, 73, 74, 75, 76, 77, 78, 79,
     80, 81, 82, 83, 84, 85, 86, 87, 88, 89, 90, 91, 92, 93, 94, 95,
     96, 97, 98, 99, 100, 101, 102, 103, 104, 105, 106, 107, 108, 109, 110, 111,
     112, 113, 114, 115, 116, 117, 118, 119, 120, 121, 122, 123, 124, 125, 126, 127,
     128, 129, 130, 131, 132, 133, 134, 135, 136, 137, 138, 139, 140, 141, 142, 143,
     144, 145, 146, 147, 148, 149, 150, 151, 152, 153, 154, 155, 156, 157, 158, 159,
     160, 161, 162, 163, 164, 165, 166, 167, 168, 169, 170, 171, 172, 173, 174, 175,
     176, 177, 178, 179, 180, 181, 182, 183, 184, 185, 186, 187, 188, 189, 190, 191,
     192, 193, 194, 195, 196, 197, 198, 199, 200, 201, 202, 203, 204, 205, 206, 207,
     208, 209, 210, 211, 212, 213, 214, 215, 216, 217, 218, 219, 220, 221, 222, 223,
     224, 225, 226, 227, 228, 229, 230, 231, 232, 233, 234, 235, 236, 237, 238, 239,
     240, 241, 242, 243, 244, 245, 246, 247, 248, 249, 250, 251, 252, 253, 254, 255]"
  by (simp add: upt_rec [of 0] upt_rec [of "Suc 0"] numeral_2_eq_2 [symmetric])

lemma nth_concat_rows:
  assumes "\<forall>r \<in> set rows. length r = 16" "i < 16 * length rows"
  shows "concat rows ! i = rows ! (i div 16) ! (i mod 16)"
  using assms
proof (induction rows arbitrary: i)
  case (Cons r rows)
  show ?case
  proof (cases "i < 16")
    case False
    then obtain j where "i = j + 16" by (metis add.commute le_Suc_ex not_less)
    moreover have "(j + 16) div 16 = Suc (j div 16)" by simp
    ultimately show ?thesis using Cons by (simp add: nth_append)
  qed (use Cons.prems in \<open>simp add: nth_append\<close>)
qed simp

subsection \<open>Multiplication\<close>

lemma bit_0x80: "n < 8 \<Longrightarrow> bit (0x80::u8) n \<longleftrightarrow> n = 7"
  by (auto simp: less_Suc_eq numeral_eq_Suc)

lemma MULx_bit: "MULx V c = push_bit 1 V XOR (if bit V 7 then c else 0)"
proof -
  have "V AND 0x80 \<noteq> 0 \<longleftrightarrow> bit V 7"
  proof -
    have "V AND 0x80 = (if bit V 7 then 0x80 else 0)"
    proof (rule bit_word_eqI)
      fix n assume "n < LENGTH(8)"
      then have "bit (0x80::u8) n \<longleftrightarrow> n = 7" by (intro bit_0x80) simp
      then show "bit (V AND 0x80) n \<longleftrightarrow> bit (if bit V 7 then (0x80::u8) else 0) n" by (auto simp: bit_and_iff)
    qed
    then show ?thesis by simp
  qed
  then show ?thesis by (simp add: MULx_def)
qed

lemma MULx_xor: "MULx (a XOR b) c = MULx a c XOR MULx b c"
proof -
  have "push_bit 1 (a XOR b) = push_bit 1 a XOR push_bit 1 b"
    by (rule bit_word_eqI) (auto simp: bit_simps)
  then show ?thesis
    by (auto simp: MULx_bit bit_simps xor.assoc xor.left_commute)
qed

lemma MULx_zero [simp]: "MULx 0 c = 0"
  by (simp add: MULx_def)

subsection \<open>Linear functions of an octet\<close>

text \<open>An octet is the sum of its bits, so that a linear function is known from eight values.\<close>

definition bitwise :: "(nat \<Rightarrow> 'a::len word) \<Rightarrow> u8 \<Rightarrow> 'a word" where
  "bitwise f c =
     (if bit c 0 then f 0 else 0) XOR (if bit c 1 then f 1 else 0) XOR
     (if bit c 2 then f 2 else 0) XOR (if bit c 3 then f 3 else 0) XOR
     (if bit c 4 then f 4 else 0) XOR (if bit c 5 then f 5 else 0) XOR
     (if bit c 6 then f 6 else 0) XOR (if bit c 7 then f 7 else 0)"

lemma octet_bits: "bitwise (\<lambda>i. push_bit i 1) c = c"
proof (rule bit_word_eqI)
  fix n assume "n < LENGTH(8)"
  then consider "n = 0" | "n = 1" | "n = 2" | "n = 3" | "n = 4" | "n = 5" | "n = 6" | "n = 7" by force
  then show "bit (bitwise (\<lambda>i. push_bit i 1) c :: u8) n \<longleftrightarrow> bit c n"
    by cases (simp_all add: bitwise_def bit_xor_iff if_distrib [of "\<lambda>w. bit w _"])
qed

lemma linear_bitwise:
  assumes "\<And>a b. F (a XOR b) = F a XOR F b"
  shows "F c = bitwise (\<lambda>i. F (push_bit i 1)) c"
proof -
  have "F 0 = 0" using assms [of 0 0] by simp
  then have "F (bitwise (\<lambda>i. push_bit i 1) c) = bitwise (\<lambda>i. F (push_bit i 1)) c"
    unfolding bitwise_def by (simp add: assms if_distrib [of F])
  then show ?thesis by (simp only: octet_bits)
qed

lemma entry_octets: "entry (map (\<lambda>n. f (of_nat n)) [0..<256]) c = f c"
  by (simp add: entry_def)

end
