(* ===== verification/Nas_Security.thy ===== *)
theory Nas_Security
  imports Ogs_Pkbuf Crypt_Words "HOL-Library.Monad_Syntax"
begin

text \<open>
  Protection of NAS messages: \<open>lib/nas/common/security.c\<close> and its two users
  \<open>src/amf/nas-security.c\<close> (5GS) and \<open>src/mme/nas-security.c\<close> (EPS), with the way of a
  received message into them (\<open>ngap_send_to_nas\<close>, \<open>s1ap_send_to_nas\<close>). The modes of AES of
  \<open>lib/crypt\<close> are here; the ciphers themselves are an interface (\<open>nas_ciphers\<close>), which
  \<open>Nas_Ciphers\<close> fills with the models of the code. The encoder of plain messages is generated code and a parameter.
\<close>

subsection \<open>The ciphers\<close>

record nas_ciphers =
  nc_aes :: "bytes \<Rightarrow> bytes \<Rightarrow> bytes" \<comment> \<open>key and block: \<open>ogs_aes_setup_enc\<close> and \<open>ogs_aes_encrypt\<close>\<close>
  nc_snow_f9 :: "bytes \<Rightarrow> u32 \<Rightarrow> u32 \<Rightarrow> u8 \<Rightarrow> bytes \<Rightarrow> bytes" \<comment> \<open>\<open>snow_3g_f9\<close>\<close>
  nc_snow :: "bytes \<Rightarrow> u32 \<Rightarrow> u8 \<Rightarrow> u8 \<Rightarrow> bytes \<Rightarrow> bytes" \<comment> \<open>\<open>SNOW_init\<close> and \<open>SNOW\<close>\<close>
  nc_zuc_eia3 :: "bytes \<Rightarrow> u32 \<Rightarrow> u8 \<Rightarrow> u8 \<Rightarrow> bytes \<Rightarrow> u32"
  nc_zuc_eea3 :: "bytes \<Rightarrow> u32 \<Rightarrow> u8 \<Rightarrow> u8 \<Rightarrow> bytes \<Rightarrow> bytes"

text \<open>Counter mode, \<open>ogs_aes_ctr128_encrypt\<close>. The counter is incremented from its last octet on.\<close>

fun ctr_carry :: "u32 \<Rightarrow> bytes \<Rightarrow> bytes" where
  "ctr_carry c [] = []"
| "ctr_carry c (b # bs) = (let c = c + ucast b in ucast c # ctr_carry (drop_bit 8 c) bs)"

definition ctr128_inc :: "bytes \<Rightarrow> bytes" where
  "ctr128_inc counter = rev (ctr_carry 1 (rev counter))"

function ctr_blocks :: "(bytes \<Rightarrow> bytes) \<Rightarrow> bytes \<Rightarrow> bytes \<Rightarrow> bytes" where
  "ctr_blocks aes ivec inp =
     (if length inp \<ge> 16
      then xor_bytes (take 16 inp) (aes ivec) @ ctr_blocks aes (ctr128_inc ivec) (drop 16 inp)
      else if inp \<noteq> [] then xor_bytes inp (aes ivec)
      else [])"
  by pat_completeness auto
termination by (relation "measure (\<lambda>(_, _, inp). length inp)") auto

declare ctr_blocks.simps [simp del]

definition ogs_aes_ctr128_encrypt :: "nas_ciphers \<Rightarrow> bytes \<Rightarrow> bytes \<Rightarrow> bytes \<Rightarrow> bytes option" where
  "ogs_aes_ctr128_encrypt C key ivec inp =
     (if inp = [] then None else Some (ctr_blocks (nc_aes C key) ivec inp))"

text \<open>The message authentication code of RFC 4493, \<open>ogs_aes_cmac_calculate\<close>.\<close>

fun shift_left :: "bytes \<Rightarrow> bytes" where
  "shift_left [] = []"
| "shift_left [b] = [push_bit 1 b AND 0xfe]"
| "shift_left (b # c # bs) =
     ((push_bit 1 b AND 0xfe) OR (if c AND 0x80 \<noteq> 0 then 1 else 0)) # shift_left (c # bs)"

definition cmac_rb :: bytes where
  "cmac_rb = replicate 15 0 @ [0x87]"

definition cmac_double :: "bytes \<Rightarrow> bytes" where
  "cmac_double l = (if l ! 0 AND 0x80 = 0 then shift_left l else xor_bytes (shift_left l) cmac_rb)"

definition generate_subkey :: "nas_ciphers \<Rightarrow> bytes \<Rightarrow> bytes \<times> bytes" where
  "generate_subkey C key =
     (let l = nc_aes C key (replicate 16 0); k1 = cmac_double l in (k1, cmac_double k1))"

definition cmac_last :: "bytes \<Rightarrow> bytes \<Rightarrow> bytes \<Rightarrow> bytes" where
  "cmac_last k1 k2 msg =
     (let n = (length msg + 15) div 16;
          flag = (n \<noteq> 0 \<and> length msg mod 16 = 0);
          bs = (if n = 0 then 0 else n - 1) * 16
      in if flag then xor_bytes (take 16 (drop bs msg)) k1
         else xor_bytes (drop bs msg @ 0x80 # replicate (15 - length msg mod 16) 0) k2)"

fun cmac_chain :: "(bytes \<Rightarrow> bytes) \<Rightarrow> nat \<Rightarrow> bytes \<Rightarrow> bytes \<Rightarrow> bytes" where
  "cmac_chain aes 0 x msg = x"
| "cmac_chain aes (Suc n) x msg = cmac_chain aes n (aes (xor_bytes x (take 16 msg))) (drop 16 msg)"

definition ogs_aes_cmac_calculate :: "nas_ciphers \<Rightarrow> bytes \<Rightarrow> bytes \<Rightarrow> bytes" where
  "ogs_aes_cmac_calculate C key msg =
     (let (k1, k2) = generate_subkey C key;
          n = (length msg + 15) div 16;
          x = cmac_chain (nc_aes C key) (n - 1) (replicate 16 0) msg
      in nc_aes C key (xor_bytes (cmac_last k1 k2 msg) x))"

subsection \<open>Integrity and ciphering of a buffer\<close>

text \<open>
  \<open>ogs_nas_mac_calculate\<close>. With AES the eight octets in front of the data are used for
  the counter block and keep it. \<open>None\<close> is a failed assertion; so is algorithm 0, for which
  the code only logs an error and leaves the result undefined.
\<close>

definition nas_ivec :: "u32 \<Rightarrow> u8 \<Rightarrow> u8 \<Rightarrow> bytes" where
  "nas_ivec count bearer dir =
     put32 count @ [push_bit 3 bearer OR push_bit 2 dir, 0, 0, 0]"

definition ogs_nas_mac_calculate :: "nas_ciphers \<Rightarrow> u8 \<Rightarrow> bytes \<Rightarrow> u32 \<Rightarrow> u8 \<Rightarrow> u8 \<Rightarrow> pkbuf
    \<Rightarrow> (bytes \<times> pkbuf) option" where
  "ogs_nas_mac_calculate C alg key count bearer dir pkbuf =
     (if bearer > 0x1f \<or> dir > 1 \<or> pk_len pkbuf = 0 then None
      else if alg = 1 then
        Some (nc_snow_f9 C key count (push_bit 27 (ucast bearer)) dir (pk_bytes pkbuf), pkbuf)
      else if alg = 2 then
        do { pkbuf \<leftarrow> ogs_pkbuf_push pkbuf 8;
             pkbuf \<leftarrow> pkbuf_write pkbuf (pk_data pkbuf) (nas_ivec count bearer dir);
             let cmac = ogs_aes_cmac_calculate C key (pk_bytes pkbuf);
             pkbuf \<leftarrow> ogs_pkbuf_pull pkbuf 8;
             Some (take 4 cmac, pkbuf) }
      else if alg = 3 then
        Some (put32 (nc_zuc_eia3 C key count bearer dir (pk_bytes pkbuf)), pkbuf)
      else None)"

definition nas_cipher :: "nas_ciphers \<Rightarrow> u8 \<Rightarrow> bytes \<Rightarrow> u32 \<Rightarrow> u8 \<Rightarrow> u8 \<Rightarrow> bytes \<Rightarrow> bytes option" where
  "nas_cipher C alg key count bearer dir bs =
     (if alg = 1 then Some (nc_snow C key count bearer dir bs)
      else if alg = 2 then ogs_aes_ctr128_encrypt C key (nas_ivec count bearer dir @ replicate 8 0) bs
      else if alg = 3 then Some (nc_zuc_eea3 C key count bearer dir bs)
      else if alg = 0 then Some bs
      else None)"

definition ogs_nas_encrypt :: "nas_ciphers \<Rightarrow> u8 \<Rightarrow> bytes \<Rightarrow> u32 \<Rightarrow> u8 \<Rightarrow> u8 \<Rightarrow> pkbuf
    \<Rightarrow> pkbuf option" where
  "ogs_nas_encrypt C alg key count bearer dir pkbuf =
     (if bearer > 0x1f \<or> dir > 1 \<or> pk_len pkbuf = 0 then None
      else do { out \<leftarrow> nas_cipher C alg key count bearer dir (pk_bytes pkbuf);
                pkbuf_write pkbuf (pk_data pkbuf) out })"

subsection \<open>The security context of a UE\<close>

text \<open>
  The fields of \<open>amf_ue_t\<close> and of \<open>mme_ue_t\<close> that the protection uses; \<open>su_bearer\<close> is
  \<open>nas.access_type\<close> in the AMF and 0 in the MME.
\<close>

record nas_ue =
  su_enc_alg :: u8
  su_int_alg :: u8
  su_knas_enc :: bytes
  su_knas_int :: bytes
  su_bearer :: u8
  su_dl_count :: u32
  su_ul_count :: u32
  su_ul_accepted :: bool
  su_available :: bool
  su_mac_failed :: bool

definition ul_sqn :: "nas_ue \<Rightarrow> u8" where
  "ul_sqn ue = ucast (su_ul_count ue)"

record sht_flags =
  sf_integrity :: bool
  sf_ciphered :: bool
  sf_new_context :: bool
  sf_service :: bool

text \<open>The switch on the security header type, the same in the encoders and the receivers.\<close>

definition sht_of :: "u8 \<Rightarrow> sht_flags option" where
  "sht_of t =
     (if t = 0 then Some \<lparr>sf_integrity = False, sf_ciphered = False, sf_new_context = False, sf_service = False\<rparr>
      else if t = 1 then Some \<lparr>sf_integrity = True, sf_ciphered = False, sf_new_context = False, sf_service = False\<rparr>
      else if t = 2 then Some \<lparr>sf_integrity = True, sf_ciphered = True, sf_new_context = False, sf_service = False\<rparr>
      else if t = 3 then Some \<lparr>sf_integrity = True, sf_ciphered = False, sf_new_context = True, sf_service = False\<rparr>
      else if t = 4 then Some \<lparr>sf_integrity = True, sf_ciphered = True, sf_new_context = True, sf_service = False\<rparr>
      else None)"

subsection \<open>Sending\<close>

text \<open>
  The common body of \<open>nas_5gs_security_encode\<close> and \<open>nas_eps_security_encode\<close>: \<open>first\<close> are the
  octets of the security header in front of the authentication code. The argument \<open>plain\<close> is
  the result of the generated encoder, NULL as \<open>None\<close>. A NULL result is \<open>Some (None, ue)\<close>.
\<close>

definition nas_security_encode :: "nas_ciphers \<Rightarrow> bytes \<Rightarrow> u8 \<Rightarrow> pkbuf option \<Rightarrow> nas_ue
    \<Rightarrow> (pkbuf option \<times> nas_ue) option" where
  "nas_security_encode C first sht plain ue =
     (case sht_of sht of
        None \<Rightarrow> Some (None, ue)
      | Some fl \<Rightarrow>
          if sht = 0 then Some (plain, ue)
          else
            do { let ue = (if sf_new_context fl
                           then ue\<lparr>su_dl_count := 0, su_ul_count := 0, su_ul_accepted := False\<rparr> else ue);
                 let ciphered = (sf_ciphered fl \<and> su_enc_alg ue \<noteq> 0);
                 let integrity = (sf_integrity fl \<and> su_int_alg ue \<noteq> 0);
                 case plain of
                   None \<Rightarrow> Some (None, ue)
                 | Some new \<Rightarrow>
                     do { new \<leftarrow> (if ciphered
                                  then ogs_nas_encrypt C (su_enc_alg ue) (su_knas_enc ue) (su_dl_count ue)
                                         (su_bearer ue) 1 new
                                  else Some new);
                          new \<leftarrow> pkbuf_prepend new [ucast (su_dl_count ue AND 0xff)];
                          (mac, new) \<leftarrow> (if integrity
                                  then ogs_nas_mac_calculate C (su_int_alg ue) (su_knas_int ue) (su_dl_count ue)
                                         (su_bearer ue) 1 new
                                  else Some ([0, 0, 0, 0], new));
                          new \<leftarrow> ogs_pkbuf_push new (of_nat (length first + 4));
                          new \<leftarrow> pkbuf_write new (pk_data new)
                                  (first @ mac @ [ucast (su_dl_count ue AND 0xff)]);
                          Some (Some new, ue\<lparr>su_dl_count := (su_dl_count ue + 1) AND 0xffffff,
                                              su_available := True\<rparr>) } })"

definition nas_5gs_security_encode :: "nas_ciphers \<Rightarrow> u8 \<Rightarrow> u8 \<Rightarrow> pkbuf option \<Rightarrow> nas_ue
    \<Rightarrow> (pkbuf option \<times> nas_ue) option" where
  "nas_5gs_security_encode C epd sht plain ue = nas_security_encode C [epd, sht] sht plain ue"

definition nas_eps_security_encode :: "nas_ciphers \<Rightarrow> u8 \<Rightarrow> u8 \<Rightarrow> pkbuf option \<Rightarrow> nas_ue
    \<Rightarrow> (pkbuf option \<times> nas_ue) option" where
  "nas_eps_security_encode C pd sht plain ue =
     nas_security_encode C [push_bit 4 (sht AND 0xf) OR (pd AND 0xf)] sht plain ue"

subsection \<open>Receiving\<close>

definition pkbuf_read :: "pkbuf \<Rightarrow> nat \<Rightarrow> nat \<Rightarrow> bytes option" where
  "pkbuf_read p pos n = (if pos + n \<le> length (pk_buf p) then Some (take n (drop pos (pk_buf p))) else None)"

text \<open>The NAS COUNT a message has by its sequence number, TS 24.501 4.4.3.1.\<close>

definition estimate_ul_count :: "nas_ue \<Rightarrow> u8 \<Rightarrow> u32" where
  "estimate_ul_count ue sqn =
     (let est = su_ul_count ue AND 0x00ffff00;
          est = (if ul_sqn ue > sqn then (est + 0x100) AND 0x00ffff00 else est)
      in est OR ucast sqn)"

text \<open>
  What is done with the comparison of the authentication codes: a message that fails is
  marked, a valid one is refused when its count is not above the last accepted one.
\<close>

definition nas_accept :: "bool \<Rightarrow> u32 \<Rightarrow> nas_ue \<Rightarrow> ogs_rv \<times> nas_ue" where
  "nas_accept valid est ue =
     (if \<not> valid then (OGS_OK, ue\<lparr>su_mac_failed := True\<rparr>)
      else if su_ul_accepted ue \<and> est \<le> su_ul_count ue then (OGS_ERROR, ue)
      else (OGS_OK, ue\<lparr>su_ul_count := est, su_ul_accepted := True\<rparr>))"

text \<open>
  The body shared by \<open>nas_5gs_security_decode\<close> and \<open>nas_eps_security_decode\<close>: the security
  header has \<open>hlen\<close> octets and lies in front of the data, the authentication code and the
  sequence number are its last five. The code restores the authentication code after its
  computation, which may have written over it.
\<close>

definition nas_check_mac :: "nas_ciphers \<Rightarrow> nat \<Rightarrow> u32 \<Rightarrow> nas_ue \<Rightarrow> pkbuf
    \<Rightarrow> (ogs_rv \<times> nas_ue \<times> pkbuf) option" where
  "nas_check_mac C mac_pos est ue pkbuf =
     do { original_mac \<leftarrow> pkbuf_read pkbuf mac_pos 4;
          (mac, pkbuf) \<leftarrow> ogs_nas_mac_calculate C (su_int_alg ue) (su_knas_int ue) est (su_bearer ue) 0 pkbuf;
          pkbuf \<leftarrow> pkbuf_write pkbuf mac_pos original_mac;
          let (rv, ue) = nas_accept (original_mac = mac) est ue;
          Some (rv, ue, pkbuf) }"

definition nas_security_decode :: "nas_ciphers \<Rightarrow> nat \<Rightarrow> sht_flags \<Rightarrow> nas_ue \<Rightarrow> pkbuf
    \<Rightarrow> (ogs_rv \<times> nas_ue \<times> pkbuf) option" where
  "nas_security_decode C hlen fl ue pkbuf =
     (let integrity = (sf_integrity fl \<and> su_available ue \<and> su_int_alg ue \<noteq> 0);
          ciphered = (sf_ciphered fl \<and> su_available ue \<and> su_enc_alg ue \<noteq> 0)
      in if \<not> (ciphered \<or> integrity) then Some (OGS_OK, ue, pkbuf)
         else
           do { pkbuf \<leftarrow> ogs_pkbuf_push pkbuf (of_nat hlen);
                let h = pk_data pkbuf;
                pkbuf \<leftarrow> ogs_pkbuf_pull pkbuf (hlen - 1);
                sqn \<leftarrow> pkbuf_read pkbuf (h + hlen - 1) 1;
                let est = estimate_ul_count ue (sqn ! 0);
                (rv, ue, pkbuf) \<leftarrow>
                  (if integrity then nas_check_mac C (h + hlen - 5) est ue pkbuf
                   else Some (OGS_OK, ue\<lparr>su_ul_count := est\<rparr>, pkbuf));
                if rv \<noteq> OGS_OK then Some (rv, ue, pkbuf)
                else
                  do { pkbuf \<leftarrow> ogs_pkbuf_pull pkbuf 1;
                       if \<not> ciphered then Some (OGS_OK, ue, pkbuf)
                       else if pk_len pkbuf = 0 then Some (OGS_ERROR, ue, pkbuf)
                       else do { pkbuf \<leftarrow> ogs_nas_encrypt C (su_enc_alg ue) (su_knas_enc ue) est
                                            (su_bearer ue) 0 pkbuf;
                                 Some (OGS_OK, ue, pkbuf) } } })"

definition nas_5gs_security_decode :: "nas_ciphers \<Rightarrow> sht_flags \<Rightarrow> nas_ue \<Rightarrow> pkbuf
    \<Rightarrow> (ogs_rv \<times> nas_ue \<times> pkbuf) option" where
  "nas_5gs_security_decode C fl ue pkbuf = nas_security_decode C 7 fl ue pkbuf"

text \<open>
  The service request of EPS carries five bits of the sequence number and half of the
  authentication code, and has no security header in front.
\<close>

definition estimate_sqn5 :: "nas_ue \<Rightarrow> u8 \<Rightarrow> u8" where
  "estimate_sqn5 ue sn =
     (let high = ul_sqn ue AND 0xe0;
          high = (if (ul_sqn ue AND 0x1f) > sn then high + 0x20 else high)
      in sn + high)"

definition nas_service_request :: "nas_ciphers \<Rightarrow> nas_ue \<Rightarrow> pkbuf \<Rightarrow> (ogs_rv \<times> nas_ue \<times> pkbuf) option" where
  "nas_service_request C ue pkbuf =
     (if su_int_alg ue = 0 then Some (OGS_ERROR, ue, pkbuf)
      else
        do { ksi \<leftarrow> pkbuf_read pkbuf (pk_data pkbuf + 1) 1;
             let est = estimate_ul_count ue (estimate_sqn5 ue (ksi ! 0 AND 0x1f));
             original_mac \<leftarrow> pkbuf_read pkbuf (pk_data pkbuf + 2) 2;
             (_, pkbuf) \<leftarrow> ogs_pkbuf_trim pkbuf 2;
             (mac, pkbuf) \<leftarrow> ogs_nas_mac_calculate C (su_int_alg ue) (su_knas_int ue) est (su_bearer ue) 0 pkbuf;
             pkbuf \<leftarrow> ogs_pkbuf_put_data pkbuf original_mac;
             received \<leftarrow> pkbuf_read pkbuf (pk_data pkbuf + 2) 2;
             let (rv, ue) = nas_accept (drop 2 mac = received) est ue;
             Some (rv, ue, pkbuf) })"

definition nas_eps_security_decode :: "nas_ciphers \<Rightarrow> sht_flags \<Rightarrow> nas_ue \<Rightarrow> pkbuf
    \<Rightarrow> (ogs_rv \<times> nas_ue \<times> pkbuf) option" where
  "nas_eps_security_decode C fl ue pkbuf =
     (if sf_service fl then nas_service_request C ue pkbuf else nas_security_decode C 6 fl ue pkbuf)"

subsection \<open>From the lower layer\<close>

text \<open>
  \<open>ngap_send_to_nas\<close> and \<open>s1ap_send_to_nas\<close> up to the decoded message: \<open>Inl ()\<close> is the error
  return, on which the connection of the UE is removed. \<open>ue\<close> is the context the connection
  belongs to, if there is one yet.
\<close>

definition OGS_NAS_HEADROOM :: nat where "OGS_NAS_HEADROOM = 16"

definition nas_buffer :: "bytes \<Rightarrow> pkbuf option" where
  "nas_buffer pdu =
     ogs_pkbuf_put_data
       (ogs_pkbuf_reserve (ogs_pkbuf_alloc (OGS_NAS_HEADROOM + length pdu)) OGS_NAS_HEADROOM) pdu"

definition nas_deliver :: "(nas_ue \<Rightarrow> pkbuf \<Rightarrow> (ogs_rv \<times> nas_ue \<times> pkbuf) option) \<Rightarrow> nat \<Rightarrow> nat
    \<Rightarrow> sht_flags \<Rightarrow> nas_ue option \<Rightarrow> pkbuf \<Rightarrow> (nas_ue option \<times> (unit + pkbuf)) option" where
  "nas_deliver decode hlen min_len fl ue nasbuf =
     (case (if sf_integrity fl then ogs_pkbuf_pull nasbuf hlen else Some nasbuf) of
        None \<Rightarrow> Some (ue, Inl ())
      | Some nasbuf \<Rightarrow>
          if pk_len nasbuf < min_len then Some (ue, Inl ())
          else case ue of
                 None \<Rightarrow> Some (ue, Inr nasbuf)
               | Some u \<Rightarrow>
                   do { (rv, u, nasbuf) \<leftarrow> decode u nasbuf;
                        Some (Some u, if rv \<noteq> OGS_OK then Inl () else Inr nasbuf) })"

definition ngap_send_to_nas :: "nas_ciphers \<Rightarrow> nas_ue option \<Rightarrow> bytes
    \<Rightarrow> (nas_ue option \<times> (unit + pkbuf)) option" where
  "ngap_send_to_nas C ue pdu =
     (if length pdu < 3 then Some (ue, Inl ())
      else
        do { nasbuf \<leftarrow> nas_buffer pdu;
             sht \<leftarrow> pkbuf_read nasbuf (pk_data nasbuf + 1) 1;
             case sht_of (sht ! 0) of
               None \<Rightarrow> Some (ue, Inl ())
             | Some fl \<Rightarrow> nas_deliver (nas_5gs_security_decode C fl) 7 3 fl ue nasbuf })"

definition eps_sht_of :: "u8 \<Rightarrow> sht_flags option" where
  "eps_sht_of t =
     (if t = 12 then Some \<lparr>sf_integrity = False, sf_ciphered = False, sf_new_context = False, sf_service = True\<rparr>
      else sht_of t)"

definition s1ap_send_to_nas :: "nas_ciphers \<Rightarrow> nas_ue option \<Rightarrow> bytes
    \<Rightarrow> (nas_ue option \<times> (unit + pkbuf)) option" where
  "s1ap_send_to_nas C ue pdu =
     (if length pdu < 2 then Some (ue, Inl ())
      else
        do { nasbuf \<leftarrow> nas_buffer pdu;
             octet \<leftarrow> pkbuf_read nasbuf (pk_data nasbuf) 1;
             case eps_sht_of (drop_bit 4 (octet ! 0)) of
               None \<Rightarrow> Some (ue, Inl ())
             | Some fl \<Rightarrow> nas_deliver (nas_eps_security_decode C fl) 6 2 fl ue nasbuf })"

end
