(* ===== verification/Nas_Security_Octets.thy ===== *)
theory Nas_Security_Octets
  imports Nas_Security
begin

text \<open>
  The protection of NAS messages as functions on octets. The buffers of the code are related to
  lists of octets: the authentication code to \<open>nas_mac\<close>, the decoders to \<open>nas_open\<close>, the way of a
  received message to \<open>nas_receive\<close>, the encoders to \<open>nas_protect\<close>. Counter mode undoes itself,
  and the estimate of the NAS COUNT is exact in the window of 256 counts it can tell apart.
\<close>

subsection \<open>Buffers in three parts\<close>

definition mkpk :: "bytes \<Rightarrow> bytes \<Rightarrow> bytes \<Rightarrow> pkbuf" where
  "mkpk pre bs post = \<lparr>pk_buf = pre @ bs @ post, pk_data = length pre,
     pk_tail = length pre + length bs, pk_len = length bs\<rparr>"

lemma mkpk_sel [simp]:
  "pk_data (mkpk pre bs post) = length pre" "pk_len (mkpk pre bs post) = length bs"
  "pk_bytes (mkpk pre bs post) = bs" "pk_buf (mkpk pre bs post) = pre @ bs @ post"
  by (simp_all add: mkpk_def pk_bytes_def)

lemma mkpk_inv: "pk_inv (mkpk pre bs post)"
  by (simp add: pk_inv_def mkpk_def)

lemma pk_inv_mkpk:
  assumes "pk_inv p"
  obtains pre post where "p = mkpk pre (pk_bytes p) post" "length pre = pk_data p"
proof -
  have "take (pk_data p) (pk_buf p) @ take (pk_len p) (drop (pk_data p) (pk_buf p)) @ drop (pk_tail p) (pk_buf p)
      = pk_buf p"
    using assms take_add [of "pk_data p" "pk_len p" "pk_buf p"] append_take_drop_id [of "pk_tail p" "pk_buf p"]
    by (simp add: pk_inv_def)
  then show ?thesis
    using assms by (intro that [of "take (pk_data p) (pk_buf p)" "drop (pk_tail p) (pk_buf p)"])
      (auto simp: mkpk_def pk_inv_def pk_bytes_def)
qed

lemma push_mkpk:
  assumes "length x = n" "n < 2 ^ 31"
  shows "ogs_pkbuf_push (mkpk (pre @ x) bs post) (of_nat n) = Some (mkpk pre (x @ bs) post)"
proof -
  have "unat (of_nat n :: u32) = n" using assms(2) by (intro unat_of_nat_u32) simp
  then show ?thesis
    using assms by (simp add: ogs_pkbuf_push_def ogs_pkbuf_headroom_def mkpk_def sint_small)
qed

lemma push_mkpk_split:
  assumes "n \<le> length pre" "n < 2 ^ 31"
  shows "ogs_pkbuf_push (mkpk pre bs post) (of_nat n) =
    Some (mkpk (take (length pre - n) pre) (drop (length pre - n) pre @ bs) post)"
  using push_mkpk [of "drop (length pre - n) pre" n "take (length pre - n) pre" bs post] assms by simp

lemma pull_mkpk:
  "length x = n \<Longrightarrow> ogs_pkbuf_pull (mkpk pre (x @ bs) post) n = Some (mkpk (pre @ x) bs post)"
  by (auto simp: ogs_pkbuf_pull_def mkpk_def)

lemma pull_mkpk_1: "ogs_pkbuf_pull (mkpk pre (x # bs) post) 1 = Some (mkpk (pre @ [x]) bs post)"
  using pull_mkpk [of "[x]" 1] by simp

lemma write_mkpk:
  "length y = length x \<Longrightarrow>
   pkbuf_write (mkpk pre (x @ bs) post) (length pre) y = Some (mkpk pre (y @ bs) post)"
  by (simp add: pkbuf_write_def poke_def mkpk_def)

lemma write_mkpk_pre:
  "length y = length x \<Longrightarrow>
   pkbuf_write (mkpk (pre @ x @ mid) bs post) (length pre) y = Some (mkpk (pre @ y @ mid) bs post)"
  by (simp add: pkbuf_write_def poke_def mkpk_def)

lemma read_mkpk:
  "length x = n \<Longrightarrow> pos = length pre \<Longrightarrow> pkbuf_read (mkpk (pre @ x @ mid) bs post) pos n = Some x"
  "length x = n \<Longrightarrow> pos = length pre \<Longrightarrow> pkbuf_read (mkpk pre (x @ bs) post) pos n = Some x"
  by (simp_all add: pkbuf_read_def)

lemma nas_buffer_mkpk:
  assumes "length pdu < 2 ^ 31"
  shows "nas_buffer pdu = Some (mkpk (replicate OGS_NAS_HEADROOM 0) pdu [])"
proof -
  let ?p = "ogs_pkbuf_reserve (ogs_pkbuf_alloc (OGS_NAS_HEADROOM + length pdu)) OGS_NAS_HEADROOM"
  have "pk_inv ?p" by (rule pk_inv_alloc) simp
  from put_data_appends [OF this assms] show ?thesis
    by (simp add: nas_buffer_def mkpk_def ogs_pkbuf_reserve_def ogs_pkbuf_alloc_def overlay_def)
qed

subsection \<open>Authentication codes and ciphering on octets\<close>

definition ciphers_ok :: "nas_ciphers \<Rightarrow> bool" where
  "ciphers_ok C \<longleftrightarrow>
     (\<forall>k b. length (nc_aes C k b) = 16) \<and>
     (\<forall>k c f d bs. bs \<noteq> [] \<longrightarrow> length (nc_snow_f9 C k c f d bs) = 4) \<and>
     (\<forall>k c b d bs. length (nc_snow C k c b d bs) = length bs \<and>
        nc_snow C k c b d (nc_snow C k c b d bs) = bs) \<and>
     (\<forall>k c b d bs. length (nc_zuc_eea3 C k c b d bs) = length bs \<and>
        nc_zuc_eea3 C k c b d (nc_zuc_eea3 C k c b d bs) = bs)"

definition nas_mac :: "nas_ciphers \<Rightarrow> u8 \<Rightarrow> bytes \<Rightarrow> u32 \<Rightarrow> u8 \<Rightarrow> u8 \<Rightarrow> bytes \<Rightarrow> bytes" where
  "nas_mac C alg key count bearer dir bs =
     (if alg = 1 then nc_snow_f9 C key count (push_bit 27 (ucast bearer)) dir bs
      else if alg = 2 then take 4 (ogs_aes_cmac_calculate C key (nas_ivec count bearer dir @ bs))
      else put32 (nc_zuc_eia3 C key count bearer dir bs))"

lemma length_nas_ivec [simp]: "length (nas_ivec count bearer dir) = 8"
  by (simp add: nas_ivec_def put32_def)

lemma length_nas_mac:
  "ciphers_ok C \<Longrightarrow> bs \<noteq> [] \<Longrightarrow> length (nas_mac C alg key count bearer dir bs) = 4"
  by (auto simp: nas_mac_def ciphers_ok_def put32_def ogs_aes_cmac_calculate_def Let_def split_beta)

lemma length_ctr_blocks:
  "(\<And>b. length (aes b) = 16) \<Longrightarrow> length (ctr_blocks aes iv bs) = length bs"
  by (induction aes iv bs rule: ctr_blocks.induct) (subst ctr_blocks.simps, auto)

lemma ctr_blocks_twice:
  "(\<And>b. length (aes b) = 16) \<Longrightarrow> ctr_blocks aes iv (ctr_blocks aes iv bs) = bs"
proof (induction aes iv bs rule: ctr_blocks.induct)
  case (1 aes iv bs)
  consider "length bs \<ge> 16" | "length bs < 16" "bs \<noteq> []" | "bs = []" by force
  then show ?case
  proof cases
    case 1
    then have "ctr_blocks aes iv bs =
        xor_bytes (take 16 bs) (aes iv) @ ctr_blocks aes (ctr128_inc iv) (drop 16 bs)"
      by (subst ctr_blocks.simps) simp
    then show ?thesis
      using 1 "1.IH" "1.prems" by (subst ctr_blocks.simps) (simp add: xor_bytes_twice)
  next
    case 2
    then have *: "ctr_blocks aes iv bs = xor_bytes bs (aes iv)" by (subst ctr_blocks.simps) simp
    have "xor_bytes bs (aes iv) \<noteq> []" "length (xor_bytes bs (aes iv)) < 16"
      using 2 "1.prems" by (auto simp flip: length_greater_0_conv)
    then show ?thesis
      using 2 "1.prems" unfolding * by (subst ctr_blocks.simps) (simp add: xor_bytes_twice)
  next
    case 3
    then show ?thesis by (simp add: ctr_blocks.simps)
  qed
qed

lemma nas_cipher_twice:
  assumes C: "ciphers_ok C" and alg: "alg \<in> {0, 1, 2, 3}" and bs: "bs \<noteq> []"
  obtains out where "nas_cipher C alg key count bearer dir bs = Some out" "length out = length bs"
    "nas_cipher C alg key count bearer dir out = Some bs"
proof -
  let ?ctr = "ctr_blocks (nc_aes C key) (nas_ivec count bearer dir @ replicate 8 0)"
  have ctr: "length (?ctr bs) = length bs" "?ctr (?ctr bs) = bs"
    using C length_ctr_blocks ctr_blocks_twice by (auto simp: ciphers_ok_def)
  then have "?ctr bs \<noteq> []" using bs by (metis length_0_conv)
  then show ?thesis
    using C alg bs ctr
    by (intro that [of "if alg = 1 then nc_snow C key count bearer dir bs else if alg = 2 then ?ctr bs
          else if alg = 3 then nc_zuc_eea3 C key count bearer dir bs else bs"])
      (auto simp: nas_cipher_def ciphers_ok_def ogs_aes_ctr128_encrypt_def)
qed

lemma mac_calculate_mkpk:
  assumes C: "ciphers_ok C" and alg: "alg \<in> {1, 2, 3}" and b: "bearer \<le> 0x1f" "dir \<le> 1"
    and bs: "bs \<noteq> []" and pre: "8 \<le> length pre"
  obtains pre' where "ogs_nas_mac_calculate C alg key count bearer dir (mkpk pre bs post) =
      Some (nas_mac C alg key count bearer dir bs, mkpk pre' bs post)" "length pre' = length pre"
proof -
  let ?p = "take (length pre - 8) pre" and ?x = "drop (length pre - 8) pre"
  have "ogs_pkbuf_push (mkpk pre bs post) 8 = Some (mkpk ?p (?x @ bs) post)"
    using push_mkpk_split [of 8 pre bs post] pre by simp
  moreover have "pkbuf_write (mkpk ?p (?x @ bs) post) (length ?p) (nas_ivec count bearer dir)
      = Some (mkpk ?p (nas_ivec count bearer dir @ bs) post)"
    using pre by (intro write_mkpk) simp
  moreover have "ogs_pkbuf_pull (mkpk ?p (nas_ivec count bearer dir @ bs) post) 8
      = Some (mkpk (?p @ nas_ivec count bearer dir) bs post)"
    by (rule pull_mkpk) simp
  ultimately show ?thesis
    using alg b bs pre
    by (intro that [of "if alg = 2 then ?p @ nas_ivec count bearer dir else pre"])
      (auto simp: ogs_nas_mac_calculate_def nas_mac_def not_less)
qed

lemma encrypt_mkpk:
  assumes C: "ciphers_ok C" and alg: "alg \<in> {0, 1, 2, 3}" and b: "bearer \<le> 0x1f" "dir \<le> 1"
    and bs: "bs \<noteq> []"
  obtains out where "nas_cipher C alg key count bearer dir bs = Some out" "length out = length bs"
    "nas_cipher C alg key count bearer dir out = Some bs"
    "ogs_nas_encrypt C alg key count bearer dir (mkpk pre bs post) = Some (mkpk pre out post)"
proof -
  obtain out where out: "nas_cipher C alg key count bearer dir bs = Some out" "length out = length bs"
    "nas_cipher C alg key count bearer dir out = Some bs"
    using nas_cipher_twice [OF C alg bs] by blast
  then have "ogs_nas_encrypt C alg key count bearer dir (mkpk pre bs post) = Some (mkpk pre out post)"
    using b bs write_mkpk [of out bs pre "[]" post] by (simp add: ogs_nas_encrypt_def not_less)
  then show ?thesis using out that by blast
qed

subsection \<open>Opening a protected message\<close>

definition ue_ok :: "nas_ue \<Rightarrow> bool" where
  "ue_ok ue \<longleftrightarrow> su_enc_alg ue \<in> {0, 1, 2, 3} \<and> su_int_alg ue \<in> {0, 1, 2, 3} \<and> su_bearer ue \<le> 0x1f"

text \<open>The decoder on octets: authentication code, sequence number and payload of the message.\<close>

definition nas_verify :: "nas_ciphers \<Rightarrow> nas_ue \<Rightarrow> bytes \<Rightarrow> u8 \<Rightarrow> bytes \<Rightarrow> bool" where
  "nas_verify C ue mac sqn payload \<longleftrightarrow>
     mac = nas_mac C (su_int_alg ue) (su_knas_int ue) (estimate_ul_count ue sqn) (su_bearer ue) 0 (sqn # payload)"

definition nas_open :: "nas_ciphers \<Rightarrow> sht_flags \<Rightarrow> nas_ue \<Rightarrow> bytes \<Rightarrow> u8 \<Rightarrow> bytes
    \<Rightarrow> ogs_rv \<times> nas_ue \<times> bytes" where
  "nas_open C fl ue mac sqn payload =
     (let integrity = (sf_integrity fl \<and> su_available ue \<and> su_int_alg ue \<noteq> 0);
          ciphered = (sf_ciphered fl \<and> su_available ue \<and> su_enc_alg ue \<noteq> 0);
          est = estimate_ul_count ue sqn;
          (rv, ue') = (if integrity then nas_accept (nas_verify C ue mac sqn payload) est ue
                       else if ciphered then (OGS_OK, ue\<lparr>su_ul_count := est\<rparr>)
                       else (OGS_OK, ue))
      in if rv \<noteq> OGS_OK then (rv, ue', [])
         else if \<not> ciphered then (OGS_OK, ue', payload)
         else if payload = [] then (OGS_ERROR, ue', [])
         else (OGS_OK, ue', the (nas_cipher C (su_enc_alg ue) (su_knas_enc ue) est (su_bearer ue) 0 payload)))"

lemma nas_accept_same [simp]:
  "su_enc_alg (snd (nas_accept v e ue)) = su_enc_alg ue" "su_int_alg (snd (nas_accept v e ue)) = su_int_alg ue"
  "su_knas_enc (snd (nas_accept v e ue)) = su_knas_enc ue" "su_knas_int (snd (nas_accept v e ue)) = su_knas_int ue"
  "su_bearer (snd (nas_accept v e ue)) = su_bearer ue" "su_available (snd (nas_accept v e ue)) = su_available ue"
  "su_dl_count (snd (nas_accept v e ue)) = su_dl_count ue"
  by (simp_all add: nas_accept_def)

lemma check_mac_mkpk:
  assumes C: "ciphers_ok C" and ue: "su_int_alg ue \<in> {1, 2, 3}" "su_bearer ue \<le> 0x1f"
    and pre: "4 \<le> length pre" and mac: "length mac = 4"
  shows "\<exists>pre'. length pre' = length pre + 4 \<and>
    nas_check_mac C (length pre) (estimate_ul_count ue sqn) ue (mkpk (pre @ mac) (sqn # payload) post) =
      (let (rv, ue') = nas_accept (nas_verify C ue mac sqn payload) (estimate_ul_count ue sqn) ue in
       Some (rv, ue', mkpk pre' (sqn # payload) post))"
proof -
  let ?est = "estimate_ul_count ue sqn"
  obtain pre1 where m: "ogs_nas_mac_calculate C (su_int_alg ue) (su_knas_int ue) ?est (su_bearer ue) 0
      (mkpk (pre @ mac) (sqn # payload) post) =
      Some (nas_mac C (su_int_alg ue) (su_knas_int ue) ?est (su_bearer ue) 0 (sqn # payload),
        mkpk pre1 (sqn # payload) post)" "length pre1 = length (pre @ mac)"
    by (rule mac_calculate_mkpk [OF C ue, where dir = 0 and bs = "sqn # payload" and pre = "pre @ mac"])
      (use pre mac in auto)
  define p x where "p = take (length pre) pre1" and "x = drop (length pre) pre1"
  then have p: "pre1 = p @ x" "length p = length pre" "length x = 4" using m(2) mac by auto
  have "pkbuf_write (mkpk pre1 (sqn # payload) post) (length pre) mac = Some (mkpk (p @ mac) (sqn # payload) post)"
    using write_mkpk_pre [of mac x p "[]" "sqn # payload" post] p mac by simp
  then show ?thesis
    using m p mac read_mkpk(1) [of mac 4 "length pre" pre "[]" "sqn # payload" post]
    by (intro exI [of _ "p @ mac"]) (simp add: nas_check_mac_def nas_verify_def)
qed

text \<open>The decoder behind its header: \<open>hdr\<close> are the octets of the header before the code.\<close>

lemma decode_mkpk:
  assumes C: "ciphers_ok C" and ue: "ue_ok ue" and mac: "length mac = 4"
    and pre: "4 \<le> length pre" and hlen: "hlen = length hdr + 5" "hlen < 2 ^ 31"
  shows "\<exists>rv ue' p'. nas_security_decode C hlen fl ue (mkpk (pre @ hdr @ mac @ [sqn]) payload post) =
      Some (rv, ue', p') \<and>
    (case nas_open C fl ue mac sqn payload of (rv1, ue1, out) \<Rightarrow>
       rv = rv1 \<and> ue' = ue1 \<and> (rv = OGS_OK \<longrightarrow> pk_bytes p' = out))"
proof -
  define integrity where "integrity = (sf_integrity fl \<and> su_available ue \<and> su_int_alg ue \<noteq> 0)"
  define ciphered where "ciphered = (sf_ciphered fl \<and> su_available ue \<and> su_enc_alg ue \<noteq> 0)"
  let ?est = "estimate_ul_count ue sqn"
  let ?p0 = "mkpk (pre @ hdr @ mac @ [sqn]) payload post"
  let ?p1 = "mkpk (pre @ hdr @ mac) (sqn # payload) post"
  let ?check = "if integrity then nas_check_mac C (length (pre @ hdr)) ?est ue ?p1
                else Some (OGS_OK, ue\<lparr>su_ul_count := ?est\<rparr>, ?p1)"
  have push: "ogs_pkbuf_push ?p0 (of_nat hlen) = Some (mkpk pre (hdr @ mac @ sqn # payload) post)"
    using push_mkpk [of "hdr @ mac @ [sqn]" hlen pre payload post] hlen mac by simp
  have pull: "ogs_pkbuf_pull (mkpk pre (hdr @ mac @ sqn # payload) post) (hlen - 1) = Some ?p1"
    using pull_mkpk [of "hdr @ mac" "hlen - 1" pre "sqn # payload" post] hlen mac by simp
  have read: "pkbuf_read ?p1 (length pre + hlen - 1) 1 = Some [sqn]"
    using read_mkpk(2) [of "[sqn]" 1 "length pre + hlen - 1" "pre @ hdr @ mac" payload post] hlen mac by simp
  have pos: "length pre + hlen - 5 = length (pre @ hdr)" using hlen by simp
  define r where "r = (if integrity then nas_accept (nas_verify C ue mac sqn payload) ?est ue
                       else (OGS_OK, ue\<lparr>su_ul_count := ?est\<rparr>))"
  have alg: "integrity \<Longrightarrow> su_int_alg ue \<in> {1, 2, 3}" "su_bearer ue \<le> 0x1f" "su_enc_alg ue \<in> {0, 1, 2, 3}"
    using ue by (auto simp: ue_ok_def integrity_def)
  have check: "\<exists>pre'. ?check = Some (fst r, snd r, mkpk pre' (sqn # payload) post)"
    using check_mac_mkpk [OF C alg(1,2), of "pre @ hdr" mac sqn payload post] pre mac
    by (auto simp: r_def split_beta)
  then obtain pre' where check: "?check = Some (fst r, snd r, mkpk pre' (sqn # payload) post)" by blast
  have same: "su_enc_alg (snd r) = su_enc_alg ue" "su_knas_enc (snd r) = su_knas_enc ue"
    "su_bearer (snd r) = su_bearer ue"
    by (auto simp: r_def)
  note flags = integrity_def [symmetric] ciphered_def [symmetric]
  show ?thesis
  proof (cases "ciphered \<or> integrity")
    case False
    then show ?thesis unfolding nas_security_decode_def nas_open_def Let_def flags by simp
  next
    case True
    have r': "(if integrity then nas_accept (nas_verify C ue mac sqn payload) ?est ue
        else if ciphered then (OGS_OK, ue\<lparr>su_ul_count := ?est\<rparr>) else (OGS_OK, ue)) = r"
      using True by (auto simp: r_def)
    have dec: "nas_security_decode C hlen fl ue ?p0 =
      (if fst r \<noteq> OGS_OK then Some (fst r, snd r, mkpk pre' (sqn # payload) post)
       else if \<not> ciphered then Some (OGS_OK, snd r, mkpk (pre' @ [sqn]) payload post)
       else if payload = [] then Some (OGS_ERROR, snd r, mkpk (pre' @ [sqn]) payload post)
       else do { p \<leftarrow> ogs_nas_encrypt C (su_enc_alg ue) (su_knas_enc ue) ?est (su_bearer ue) 0
                        (mkpk (pre' @ [sqn]) payload post); Some (OGS_OK, snd r, p) })"
      using True
      unfolding nas_security_decode_def Let_def flags push bind.bind_lunit mkpk_sel pull read pos
        nth_Cons_0 check
      by (simp add: pull_mkpk_1 same del: One_nat_def)
    show ?thesis
    proof (cases "fst r = OGS_OK \<and> ciphered \<and> payload \<noteq> []")
      case True
      obtain out where "nas_cipher C (su_enc_alg ue) (su_knas_enc ue) ?est (su_bearer ue) 0 payload = Some out"
        "ogs_nas_encrypt C (su_enc_alg ue) (su_knas_enc ue) ?est (su_bearer ue) 0
           (mkpk (pre' @ [sqn]) payload post) = Some (mkpk (pre' @ [sqn]) out post)"
        by (rule encrypt_mkpk [OF C alg(3,2), where dir = 0 and bs = payload]) (use True in auto)
      then show ?thesis
        unfolding dec nas_open_def Let_def flags r' using True by (simp add: split_beta)
    next
      case False
      then show ?thesis
        unfolding dec nas_open_def Let_def flags r' by (auto simp: split_beta)
    qed
  qed
qed

subsection \<open>Receiving octets\<close>

text \<open>
  The way of a received message on octets: \<open>hlen\<close> is the length of the security header,
  \<open>min_len\<close> that of the header of a plain message.
\<close>

definition nas_receive :: "nas_ciphers \<Rightarrow> nat \<Rightarrow> nat \<Rightarrow> sht_flags option \<Rightarrow> nas_ue option \<Rightarrow> bytes
    \<Rightarrow> nas_ue option \<times> (unit + bytes)" where
  "nas_receive C hlen min_len flags ue pdu =
     (case flags of
        None \<Rightarrow> (ue, Inl ())
      | Some fl \<Rightarrow>
          if length pdu < min_len then (ue, Inl ())
          else if \<not> sf_integrity fl then (ue, Inr pdu)
          else if length pdu < hlen + min_len then (ue, Inl ())
          else case ue of
                 None \<Rightarrow> (None, Inr (drop hlen pdu))
               | Some u \<Rightarrow>
                   (case nas_open C fl u (take 4 (drop (hlen - 5) pdu)) (pdu ! (hlen - 1)) (drop hlen pdu) of
                      (rv, u, out) \<Rightarrow> (Some u, if rv \<noteq> OGS_OK then Inl () else Inr out)))"

definition as_octets :: "nas_ue option \<times> (unit + pkbuf) \<Rightarrow> nas_ue option \<times> (unit + bytes)" where
  "as_octets v = (fst v, map_sum id pk_bytes (snd v))"

lemma split_header:
  assumes "5 \<le> hlen" "hlen \<le> length pdu"
  shows "take hlen pdu = take (hlen - 5) pdu @ take 4 (drop (hlen - 5) pdu) @ [pdu ! (hlen - 1)]"
proof -
  have "drop (hlen - 5) pdu = take 4 (drop (hlen - 5) pdu) @ drop (hlen - 1) pdu"
    using assms append_take_drop_id [of 4 "drop (hlen - 5) pdu"] by simp
  moreover have "drop (hlen - 1) pdu = pdu ! (hlen - 1) # drop hlen pdu"
    using assms Cons_nth_drop_Suc [of "hlen - 1" pdu] by simp
  ultimately have "take hlen pdu @ drop hlen pdu =
      (take (hlen - 5) pdu @ take 4 (drop (hlen - 5) pdu) @ [pdu ! (hlen - 1)]) @ drop hlen pdu"
    using append_take_drop_id [of "hlen - 5" pdu] by simp
  then show ?thesis unfolding append_same_eq .
qed

lemma decode_unprotected:
  "\<not> sf_integrity fl \<Longrightarrow> \<not> sf_ciphered fl \<Longrightarrow> nas_security_decode C hlen fl ue p = Some (OGS_OK, ue, p)"
  by (simp add: nas_security_decode_def)

lemma sht_of_flags:
  "sht_of t = Some fl \<Longrightarrow> \<not> sf_service fl \<and> (sf_ciphered fl \<longrightarrow> sf_integrity fl) \<and>
     (sf_new_context fl \<longrightarrow> sf_integrity fl)"
  by (auto simp: sht_of_def split: if_splits)

lemma deliver_receive:
  assumes C: "ciphers_ok C" and ue: "\<And>u. ue = Some u \<Longrightarrow> ue_ok u" and fl: "sht_of t = Some fl"
    and hlen: "hlen \<in> {6, 7}" and len: "min_len \<le> length pdu"
  shows "\<exists>v. nas_deliver (nas_security_decode C hlen fl) hlen min_len fl ue
      (mkpk (replicate OGS_NAS_HEADROOM 0) pdu []) = Some v \<and>
    as_octets v = nas_receive C hlen min_len (Some fl) ue pdu"
proof (cases "sf_integrity fl")
  case False
  then show ?thesis
    using len sht_of_flags [OF fl]
    by (cases ue) (auto simp: nas_deliver_def nas_receive_def decode_unprotected as_octets_def)
next
  case True
  have pull: "ogs_pkbuf_pull (mkpk z pdu []) hlen =
      (if hlen \<le> length pdu then Some (mkpk (z @ take hlen pdu) (drop hlen pdu) []) else None)" for z
  proof (cases "hlen \<le> length pdu")
    case True
    then show ?thesis using pull_mkpk [of "take hlen pdu" hlen z "drop hlen pdu" "[]"] by simp
  next
    case False
    then show ?thesis by (simp add: ogs_pkbuf_pull_def)
  qed
  show ?thesis
  proof (cases "hlen + min_len \<le> length pdu")
    case False
    then show ?thesis
      using True len by (auto simp: nas_deliver_def nas_receive_def as_octets_def pull)
  next
    case long: True
    let ?hdr = "take (hlen - 5) pdu" and ?mac = "take 4 (drop (hlen - 5) pdu)"
      and ?sqn = "pdu ! (hlen - 1)" and ?z = "replicate OGS_NAS_HEADROOM 0 :: bytes"
    have hd: "take hlen pdu = ?hdr @ ?mac @ [?sqn]"
      using split_header [of hlen pdu] hlen long by auto
    show ?thesis
    proof (cases ue)
      case None
      then show ?thesis
        using True long len by (auto simp: nas_deliver_def nas_receive_def as_octets_def pull)
    next
      case (Some u)
      have "length ?mac = 4" "hlen = length ?hdr + 5" "hlen < 2 ^ 31" "4 \<le> length ?z"
        using hlen long by (auto simp: OGS_NAS_HEADROOM_def)
      from decode_mkpk [OF C ue [OF Some] this(1) this(4) this(2,3), of fl ?sqn "drop hlen pdu" "[]"]
      obtain rv u' p' where d: "nas_security_decode C hlen fl u
          (mkpk (?z @ ?hdr @ ?mac @ [?sqn]) (drop hlen pdu) []) = Some (rv, u', p')"
        "case nas_open C fl u ?mac ?sqn (drop hlen pdu) of (rv1, ue1, out) \<Rightarrow>
           rv = rv1 \<and> u' = ue1 \<and> (rv = OGS_OK \<longrightarrow> pk_bytes p' = out)"
        by (elim exE conjE) (rule that)
      have "\<not> length pdu - hlen < min_len" "hlen \<le> length pdu" using long by arith+
      then have "nas_deliver (nas_security_decode C hlen fl) hlen min_len fl ue (mkpk ?z pdu []) =
          Some (Some u', if rv \<noteq> OGS_OK then Inl () else Inr p')"
        using True Some d(1) hd by (simp add: nas_deliver_def pull)
      then show ?thesis
        using True long len Some d(2) by (auto simp: nas_receive_def as_octets_def)
    qed
  qed
qed

lemma ngap_send_receive:
  assumes C: "ciphers_ok C" and ue: "\<And>u. ue = Some u \<Longrightarrow> ue_ok u" and len: "length pdu < 2 ^ 31"
  shows "map_option as_octets (ngap_send_to_nas C ue pdu) =
    Some (nas_receive C 7 3 (if length pdu < 3 then None else sht_of (pdu ! 1)) ue pdu)"
proof (cases "length pdu < 3")
  case True
  then show ?thesis by (simp add: ngap_send_to_nas_def nas_receive_def as_octets_def)
next
  case False
  let ?p = "mkpk (replicate OGS_NAS_HEADROOM 0) pdu []"
  have "pkbuf_read ?p (OGS_NAS_HEADROOM + 1) 1 = Some [pdu ! 1]"
    using False by (simp add: pkbuf_read_def drop_Suc take_Suc nth_tl hd_drop_conv_nth OGS_NAS_HEADROOM_def)
       (cases pdu; cases "tl pdu"; simp)
  then have "ngap_send_to_nas C ue pdu = (case sht_of (pdu ! 1) of None \<Rightarrow> Some (ue, Inl ())
      | Some fl \<Rightarrow> nas_deliver (nas_5gs_security_decode C fl) 7 3 fl ue ?p)"
    using False by (simp add: ngap_send_to_nas_def nas_buffer_mkpk [OF len])
  note send = this
  show ?thesis
  proof (cases "sht_of (pdu ! 1)")
    case None
    then show ?thesis using False send by (simp add: nas_receive_def as_octets_def)
  next
    case (Some fl)
    have "\<exists>v. nas_deliver (nas_security_decode C 7 fl) 7 3 fl ue ?p = Some v \<and>
        as_octets v = nas_receive C 7 3 (Some fl) ue pdu"
      by (rule deliver_receive [OF C ue Some]) (use False in auto)
    then show ?thesis
      using False Some send by (auto simp: nas_5gs_security_decode_def [abs_def])
  qed
qed

subsection \<open>The service request of EPS\<close>

lemma trim_mkpk:
  assumes "2 \<le> length pdu"
  shows "ogs_pkbuf_trim (mkpk pre pdu post) 2 = Some (OGS_OK, mkpk pre (take 2 pdu) (drop 2 pdu @ post))"
  using assms by (simp add: ogs_pkbuf_trim_def mkpk_def min_def)

lemma put_data_mkpk:
  assumes "length x = length y" "length x < 2 ^ 31"
  shows "ogs_pkbuf_put_data (mkpk pre bs (y @ post)) x = Some (mkpk pre (bs @ x) post)"
proof -
  from put_data_appends [OF mkpk_inv assms(2)] show ?thesis
    using assms(1) by (simp add: mkpk_def overlay_def)
qed

definition service_count :: "nas_ue \<Rightarrow> bytes \<Rightarrow> u32" where
  "service_count ue pdu = estimate_ul_count ue (estimate_sqn5 ue (pdu ! 1 AND 0x1f))"

definition service_valid :: "nas_ciphers \<Rightarrow> nas_ue \<Rightarrow> bytes \<Rightarrow> bool" where
  "service_valid C ue pdu \<longleftrightarrow>
     drop 2 (nas_mac C (su_int_alg ue) (su_knas_int ue) (service_count ue pdu) (su_bearer ue) 0 (take 2 pdu)) =
     take 2 (drop 2 pdu)"

lemma read_nth:
  assumes "n < length pdu" "pos = length pre + n"
  shows "pkbuf_read (mkpk pre pdu post) pos 1 = Some [pdu ! n]"
  using assms by (simp add: pkbuf_read_def take_Suc_conv_app_nth [of 0, simplified])

lemma service_request_mkpk:
  assumes C: "ciphers_ok C" and ue: "ue_ok ue" "su_int_alg ue \<noteq> 0"
    and len: "4 \<le> length pdu" and pre: "8 \<le> length pre"
  shows "\<exists>p'. nas_service_request C ue (mkpk pre pdu []) =
    (let (rv, ue') = nas_accept (service_valid C ue pdu) (service_count ue pdu) ue in Some (rv, ue', p')) \<and>
    pk_bytes p' = take 4 pdu"
proof -
  let ?a = "take 2 pdu" and ?m = "take 2 (drop 2 pdu)" and ?r = "drop 4 pdu"
  have m: "drop 2 pdu = ?m @ ?r" using append_take_drop_id [of 2 "drop 2 pdu"] by simp
  have split: "length ?a = 2" "length ?m = 2" using len by auto
  have read: "pkbuf_read (mkpk pre pdu []) (length pre + 2) 2 = Some ?m"
    "\<And>pre' post. length pre' = length pre \<Longrightarrow> pkbuf_read (mkpk pre' (?a @ ?m) post) (length pre + 2) 2 = Some ?m"
    using split len by (auto simp: pkbuf_read_def)
  have ksi: "pkbuf_read (mkpk pre pdu []) (length pre + 1) 1 = Some [pdu ! 1]"
    using len by (intro read_nth) auto
  obtain pre' where mac: "ogs_nas_mac_calculate C (su_int_alg ue) (su_knas_int ue) (service_count ue pdu)
      (su_bearer ue) 0 (mkpk pre ?a (?m @ ?r)) =
      Some (nas_mac C (su_int_alg ue) (su_knas_int ue) (service_count ue pdu) (su_bearer ue) 0 ?a,
        mkpk pre' ?a (?m @ ?r))" "length pre' = length pre"
    by (rule mac_calculate_mkpk [OF C, where alg = "su_int_alg ue" and bearer = "su_bearer ue" and dir = 0
          and bs = ?a and pre = pre])
      (use ue split pre in \<open>auto simp: ue_ok_def\<close>)
  have put: "ogs_pkbuf_put_data (mkpk pre' ?a (?m @ ?r)) ?m = Some (mkpk pre' (?a @ ?m) ?r)"
    by (rule put_data_mkpk) (use split in auto)
  have trim: "ogs_pkbuf_trim (mkpk pre pdu []) 2 = Some (OGS_OK, mkpk pre ?a (?m @ ?r))"
    using trim_mkpk [of pdu pre "[]"] len m by simp
  have "take 4 pdu = ?a @ ?m" using take_add [of 2 2 pdu] by simp
  then show ?thesis
    using ue(2) mac(2)
    unfolding nas_service_request_def mkpk_sel ksi bind.bind_lunit Let_def nth_Cons_0 read(1) trim
      service_count_def [symmetric]
    by (simp add: mac(1) put read(2) split_beta service_valid_def del: add_2_eq_Suc add_2_eq_Suc')
qed

text \<open>A service request that does not reach its authentication code is read beyond its end.\<close>

lemma service_request_short:
  assumes "su_int_alg ue \<noteq> 0" "length pdu < 4"
  shows "nas_service_request C ue (mkpk pre pdu []) = None"
proof -
  have "pkbuf_read (mkpk pre pdu []) (length pre + 2) 2 = None" using assms(2) by (simp add: pkbuf_read_def)
  then show ?thesis
    using assms(1) by (simp add: nas_service_request_def Let_def del: add_2_eq_Suc add_2_eq_Suc')
qed

text \<open>What the MME does with the octets it receives.\<close>

definition is_service :: "bytes \<Rightarrow> bool" where
  "is_service pdu \<longleftrightarrow> 2 \<le> length pdu \<and> drop_bit 4 (pdu ! 0) = 12"

lemma s1ap_send_split:
  assumes len: "length pdu < 2 ^ 31"
  shows "s1ap_send_to_nas C ue pdu =
    (if length pdu < 2 then Some (ue, Inl ())
     else case eps_sht_of (drop_bit 4 (pdu ! 0)) of None \<Rightarrow> Some (ue, Inl ())
      | Some fl \<Rightarrow> nas_deliver (nas_eps_security_decode C fl) 6 2 fl ue (mkpk (replicate OGS_NAS_HEADROOM 0) pdu []))"
proof (cases "length pdu < 2")
  case False
  let ?p = "mkpk (replicate OGS_NAS_HEADROOM 0) pdu []"
  have "pkbuf_read ?p OGS_NAS_HEADROOM 1 = Some [pdu ! 0]"
    by (rule read_nth) (use False in auto)
  then show ?thesis
    using False by (simp add: s1ap_send_to_nas_def nas_buffer_mkpk [OF len])
qed (simp add: s1ap_send_to_nas_def)

lemma s1ap_send_receive:
  assumes C: "ciphers_ok C" and ue: "\<And>u. ue = Some u \<Longrightarrow> ue_ok u" and len: "length pdu < 2 ^ 31"
    and ns: "\<not> is_service pdu"
  shows "map_option as_octets (s1ap_send_to_nas C ue pdu) =
    Some (nas_receive C 6 2 (if length pdu < 2 then None else sht_of (drop_bit 4 (pdu ! 0))) ue pdu)"
proof (cases "length pdu < 2")
  case True
  then show ?thesis by (simp add: s1ap_send_split [OF len] nas_receive_def as_octets_def)
next
  case False
  then have t: "eps_sht_of (drop_bit 4 (pdu ! 0)) = sht_of (drop_bit 4 (pdu ! 0))"
    using ns by (auto simp: eps_sht_of_def is_service_def)
  show ?thesis
  proof (cases "sht_of (drop_bit 4 (pdu ! 0))")
    case None
    then show ?thesis using False t by (simp add: s1ap_send_split [OF len] nas_receive_def as_octets_def)
  next
    case (Some fl)
    have "\<exists>v. nas_deliver (nas_security_decode C 6 fl) 6 2 fl ue (mkpk (replicate OGS_NAS_HEADROOM 0) pdu []) = Some v \<and>
        as_octets v = nas_receive C 6 2 (Some fl) ue pdu"
      by (rule deliver_receive [OF C ue Some]) (use False in auto)
    moreover have "nas_eps_security_decode C fl = nas_security_decode C 6 fl"
      using sht_of_flags [OF Some] by (simp add: nas_eps_security_decode_def fun_eq_iff)
    ultimately show ?thesis using False Some t by (auto simp: s1ap_send_split [OF len])
  qed
qed

lemma s1ap_send_service:
  assumes len: "length pdu < 2 ^ 31" and s: "is_service pdu"
  shows "s1ap_send_to_nas C (Some u) pdu =
    do { (rv, u, p) \<leftarrow> nas_service_request C u (mkpk (replicate OGS_NAS_HEADROOM 0) pdu []);
         Some (Some u, if rv \<noteq> OGS_OK then Inl () else Inr p) }"
  using s by (simp add: s1ap_send_split [OF len] is_service_def eps_sht_of_def nas_deliver_def
      nas_eps_security_decode_def)

subsection \<open>Estimating the count\<close>

text \<open>The estimate is below \<open>2 ^ 24\<close>, and exact for the 256 counts from the last accepted one on.\<close>

lemma mask_mid: "(w::u32) AND 0x00ffff00 = push_bit 8 (take_bit 16 (drop_bit 8 w))"
proof -
  have "(0x00ffff00::u32) = push_bit 8 (mask 16)" by (simp add: mask_eq_exp_minus_1 push_bit_eq_mult)
  moreover have "w AND push_bit 8 (mask 16) = push_bit 8 (take_bit 16 (drop_bit 8 w))"
    by (rule bit_word_eqI) (auto simp: bit_simps)
  ultimately show ?thesis by (simp only:)
qed

lemma unat_mask_mid: "unat ((w::u32) AND 0x00ffff00) = unat w div 256 mod 65536 * 256"
proof -
  have "unat (push_bit 8 (take_bit 16 (drop_bit 8 w))) = take_bit 32 (push_bit 8 (take_bit 16 (drop_bit 8 (unat w))))"
    by (simp only: unsigned_push_bit_eq unsigned_take_bit_eq unsigned_drop_bit_eq len_of_numeral_defs) (simp add: take_bit_drop_bit)
  also have "\<dots> = (unat w div 256 mod 65536) * 256 mod 2 ^ 32"
    by (simp only: push_bit_eq_mult take_bit_eq_mod drop_bit_eq_div) simp
  also have "\<dots> = (unat w div 256 mod 65536) * 256" by (rule mod_less) simp
  finally show ?thesis by (simp only: mask_mid)
qed

lemma or_low: "(w AND 0x00ffff00) OR ucast (s::u8) = (w AND 0x00ffff00 :: u32) + ucast s"
  unfolding mask_mid by (rule disjunctive_add [symmetric]) (auto simp: bit_simps)

lemma unat_or_low: "unat ((w AND 0x00ffff00) OR ucast (s::u8) :: u32) = unat w div 256 mod 65536 * 256 + unat s"
proof -
  have s: "unat s < 256" using unsigned_less [of s] by simp
  have u: "unat (ucast s :: u32) = unat s" using s by (simp add: unsigned_ucast_eq take_bit_nat_eq_self)
  have "unat w div 256 mod 65536 \<le> 65535" by simp
  then have "unat w div 256 mod 65536 * 256 + unat s < 16777216" using s by linarith
  then show ?thesis
    unfolding or_low by (simp add: unat_word_ariths unat_mask_mid u)
qed

lemma estimate_bound: "unat (estimate_ul_count ue sqn) < 2 ^ 24"
proof -
  have s: "unat sqn < 256" using unsigned_less [of sqn] by simp
  have *: "unat ((w AND 0x00ffff00) OR ucast sqn :: u32) < 16777216" for w
  proof -
    have "unat w div 256 mod 65536 \<le> 65535" by simp
    then show ?thesis using s unfolding unat_or_low by linarith
  qed
  show ?thesis using * by (simp add: estimate_ul_count_def Let_def)
qed

lemma same_block:
  fixes u c :: nat
  assumes "u \<le> c" "c < u + 256"
  shows "u mod 256 \<le> c mod 256 \<Longrightarrow> c div 256 = u div 256"
    and "u mod 256 > c mod 256 \<Longrightarrow> c div 256 = u div 256 + 1"
proof -
  define h l h' l' where "h = u div 256" and "l = u mod 256" and "h' = c div 256" and "l' = c mod 256"
  then have d: "u = 256 * h + l" "c = 256 * h' + l'" "l < 256" "l' < 256" by simp_all
  show "c div 256 = u div 256" if "u mod 256 \<le> c mod 256"
  proof (rule antisym)
    show "c div 256 \<le> u div 256" "u div 256 \<le> c div 256"
      using that assms d unfolding h_def [symmetric] l_def [symmetric] h'_def [symmetric] l'_def [symmetric] by linarith+
  qed
  show "c div 256 = u div 256 + 1" if "u mod 256 > c mod 256"
  proof (rule antisym)
    show "c div 256 \<le> u div 256 + 1" "u div 256 + 1 \<le> c div 256"
      using that assms d unfolding h_def [symmetric] l_def [symmetric] h'_def [symmetric] l'_def [symmetric] by linarith+
  qed
qed

lemma estimate_exact:
  assumes ul: "unat (su_ul_count ue) \<le> unat c" "unat c < unat (su_ul_count ue) + 256" "unat c < 2 ^ 24"
  shows "estimate_ul_count ue (ucast c) = c"
proof -
  let ?u = "unat (su_ul_count ue)"
  have lo: "unat (ucast w :: u8) = unat w mod 256" for w :: u32
    by (simp add: unsigned_ucast_eq take_bit_eq_mod)
  have gt: "ul_sqn ue > ucast c \<longleftrightarrow> ?u mod 256 > unat c mod 256"
    by (simp add: ul_sqn_def word_less_nat_alt lo)
  have c: "unat c div 256 < 65536" using ul(3) by (simp add: less_mult_imp_div_less)
  have split: "unat c div 256 * 256 + unat c mod 256 = unat c" by simp
  have "unat (estimate_ul_count ue (ucast c)) = unat c"
  proof (cases "?u mod 256 > unat c mod 256")
    case True
    note q = same_block(2) [OF ul(1,2) True]
    have "unat ((su_ul_count ue AND 0x00ffff00) + 0x100) = unat c div 256 * 256"
      using c q by (simp add: unat_word_ariths unat_mask_mid)
    then have "unat (estimate_ul_count ue (ucast c)) = unat c div 256 mod 65536 * 256 + unat c mod 256"
      using gt True by (simp add: estimate_ul_count_def Let_def unat_or_low lo)
    then show ?thesis using c split by simp
  next
    case False
    note q = same_block(1) [OF ul(1,2)]
    have "unat (estimate_ul_count ue (ucast c)) = ?u div 256 mod 65536 * 256 + unat c mod 256"
      using gt False by (simp add: estimate_ul_count_def Let_def unat_or_low lo)
    then show ?thesis using c split q False by simp
  qed
  then show ?thesis by (simp add: word_unat_eq_iff)
qed

subsection \<open>Protected messages\<close>

text \<open>
  The layout of a protected message: \<open>first\<close> are the octets in front of the authentication
  code, \<open>dir\<close> is 0 for a message of the UE and 1 for one of the network.
\<close>

definition nas_protect :: "nas_ciphers \<Rightarrow> bytes \<Rightarrow> sht_flags \<Rightarrow> nas_ue \<Rightarrow> u8 \<Rightarrow> u32 \<Rightarrow> bytes \<Rightarrow> bytes" where
  "nas_protect C first fl ue dir count plain =
     (let body = (if sf_ciphered fl \<and> su_enc_alg ue \<noteq> 0
                  then the (nas_cipher C (su_enc_alg ue) (su_knas_enc ue) count (su_bearer ue) dir plain)
                  else plain);
          mac = (if sf_integrity fl \<and> su_int_alg ue \<noteq> 0
                 then nas_mac C (su_int_alg ue) (su_knas_int ue) count (su_bearer ue) dir (ucast count # body)
                 else [0, 0, 0, 0])
      in first @ mac @ ucast count # body)"

lemma length_nas_protect:
  assumes C: "ciphers_ok C" and ue: "ue_ok ue" and plain: "plain \<noteq> []"
  shows "length (nas_protect C first fl ue dir count plain) = length first + 5 + length plain"
proof -
  have "su_enc_alg ue \<in> {0, 1, 2, 3}" using ue by (simp add: ue_ok_def)
  then obtain out where "nas_cipher C (su_enc_alg ue) (su_knas_enc ue) count (su_bearer ue) dir plain = Some out"
    "length out = length plain"
    by (rule nas_cipher_twice [OF C _ plain])
  then show ?thesis by (simp add: nas_protect_def Let_def length_nas_mac [OF C])
qed

lemma receive_protect:
  assumes C: "ciphers_ok C" and ue: "ue_ok ue" "su_available ue" "su_int_alg ue \<noteq> 0"
    and fl: "sf_integrity fl" and first: "length first + 5 = hlen"
    and plain: "min_len \<le> length plain" "0 < min_len"
    and c: "unat (su_ul_count ue) \<le> unat c" "unat c < unat (su_ul_count ue) + 256" "unat c < 2 ^ 24"
      "su_ul_accepted ue \<Longrightarrow> su_ul_count ue < c"
  shows "nas_receive C hlen min_len (Some fl) (Some ue) (nas_protect C first fl ue 0 c plain) =
    (Some (ue\<lparr>su_ul_count := c, su_ul_accepted := True\<rparr>), Inr plain)"
proof -
  have ne: "plain \<noteq> []" using plain by auto
  have "su_enc_alg ue \<in> {0, 1, 2, 3}" using ue by (simp add: ue_ok_def)
  then obtain out where out: "nas_cipher C (su_enc_alg ue) (su_knas_enc ue) c (su_bearer ue) 0 plain = Some out"
    "length out = length plain" "nas_cipher C (su_enc_alg ue) (su_knas_enc ue) c (su_bearer ue) 0 out = Some plain"
    by (rule nas_cipher_twice [OF C _ ne])
  define body where "body = (if sf_ciphered fl \<and> su_enc_alg ue \<noteq> 0 then out else plain)"
  define mac where "mac = nas_mac C (su_int_alg ue) (su_knas_int ue) c (su_bearer ue) 0 (ucast c # body)"
  have p: "nas_protect C first fl ue 0 c plain = first @ mac @ ucast c # body"
    using fl ue(3) out(1) by (simp add: nas_protect_def Let_def body_def mac_def)
  have len: "length mac = 4" "length body = length plain" "body \<noteq> []"
    using out(2) ne by (auto simp: mac_def body_def length_nas_mac [OF C])
  have hlen: "hlen - 5 = length first" "hlen - 1 = length first + 4" "hlen = Suc (length first + 4)"
    using first by auto
  have parts: "take 4 (drop (hlen - 5) (first @ mac @ ucast c # body)) = mac"
    "(first @ mac @ ucast c # body) ! (hlen - 1) = ucast c" "drop hlen (first @ mac @ ucast c # body) = body"
    unfolding hlen(1,2) using len by (simp_all add: nth_append hlen(3))
  note est = estimate_exact [OF c(1,2,3)]
  have "nas_accept (nas_verify C ue mac (ucast c) body) c ue =
      (OGS_OK, ue\<lparr>su_ul_count := c, su_ul_accepted := True\<rparr>)"
    using c(4) by (auto simp: nas_accept_def nas_verify_def est mac_def not_le)
  then have "nas_open C fl ue mac (ucast c) body =
      (OGS_OK, ue\<lparr>su_ul_count := c, su_ul_accepted := True\<rparr>, plain)"
    using fl ue(2,3) len out(3) by (auto simp: nas_open_def Let_def est body_def)
  then show ?thesis
    using fl first plain len parts unfolding p by (simp add: nas_receive_def)
qed

lemma encode_protect:
  assumes C: "ciphers_ok C" and ue: "ue_ok ue" and sht: "sht_of sht = Some fl" "sht \<noteq> 0"
    and first: "length first \<le> 2" and pre: "9 \<le> length pre" and plain: "plain \<noteq> []"
    and ue1: "ue1 = (if sf_new_context fl
      then ue\<lparr>su_dl_count := 0, su_ul_count := 0, su_ul_accepted := False\<rparr> else ue)"
  shows "\<exists>p. nas_security_encode C first sht (Some (mkpk pre plain post)) ue =
      Some (Some p, ue1\<lparr>su_dl_count := (su_dl_count ue1 + 1) AND 0xffffff, su_available := True\<rparr>) \<and>
    pk_bytes p = nas_protect C first fl ue1 1 (su_dl_count ue1) plain"
proof -
  let ?c = "su_dl_count ue1"
  define ciphered where "ciphered = (sf_ciphered fl \<and> su_enc_alg ue1 \<noteq> 0)"
  define integrity where "integrity = (sf_integrity fl \<and> su_int_alg ue1 \<noteq> 0)"
  note flags = ciphered_def [symmetric] integrity_def [symmetric]
  have ok: "su_enc_alg ue1 \<in> {0, 1, 2, 3}" "integrity \<Longrightarrow> su_int_alg ue1 \<in> {1, 2, 3}" "su_bearer ue1 \<le> 0x1f"
    using ue by (auto simp: ue1 ue_ok_def integrity_def split: if_splits)
  obtain out where out: "nas_cipher C (su_enc_alg ue1) (su_knas_enc ue1) ?c (su_bearer ue1) 1 plain = Some out"
      "length out = length plain"
      "ogs_nas_encrypt C (su_enc_alg ue1) (su_knas_enc ue1) ?c (su_bearer ue1) 1 (mkpk pre plain post) =
       Some (mkpk pre out post)"
    by (rule encrypt_mkpk [OF C ok(1,3), where dir = 1 and bs = plain]) (use plain in auto)
  define body where "body = (if ciphered then out else plain)"
  define sq :: u8 where "sq = ucast (?c AND 0xff)"
  define mac where "mac = (if integrity
    then nas_mac C (su_int_alg ue1) (su_knas_int ue1) ?c (su_bearer ue1) 1 (sq # body) else [0, 0, 0, 0])"
  have sq: "sq = ucast ?c" unfolding sq_def by (rule bit_word_eqI) (auto simp: bit_simps)
  have enc: "(if ciphered then ogs_nas_encrypt C (su_enc_alg ue1) (su_knas_enc ue1) ?c (su_bearer ue1) 1
      (mkpk pre plain post) else Some (mkpk pre plain post)) = Some (mkpk pre body post)"
    using out(3) by (simp add: body_def)
  let ?pre = "take (length pre - 1) pre"
  have prepend: "pkbuf_prepend (mkpk pre body post) [sq] = Some (mkpk ?pre (sq # body) post)"
    using push_mkpk_split [of 1 pre body post] pre
      write_mkpk [of "[sq]" "drop (length pre - 1) pre" ?pre body post]
    by (simp add: pkbuf_prepend_def)
  have "\<exists>pre'. (if integrity then ogs_nas_mac_calculate C (su_int_alg ue1) (su_knas_int ue1) ?c (su_bearer ue1) 1
        (mkpk ?pre (sq # body) post) else Some ([0, 0, 0, 0], mkpk ?pre (sq # body) post)) =
      Some (mac, mkpk pre' (sq # body) post) \<and> length pre' = length ?pre"
  proof (cases integrity)
    case True
    show ?thesis
      by (rule mac_calculate_mkpk [OF C ok(2,3), where dir = 1 and bs = "sq # body" and pre = ?pre])
        (use True pre in \<open>auto simp: mac_def\<close>)
  qed (auto simp: mac_def)
  then obtain pre' where calc: "(if integrity
        then ogs_nas_mac_calculate C (su_int_alg ue1) (su_knas_int ue1) ?c (su_bearer ue1) 1
        (mkpk ?pre (sq # body) post) else Some ([0, 0, 0, 0], mkpk ?pre (sq # body) post)) =
      Some (mac, mkpk pre' (sq # body) post)" "length pre' = length ?pre" by blast
  let ?n = "length pre' - (length first + 4)"
  have push: "ogs_pkbuf_push (mkpk pre' (sq # body) post) (of_nat (length first + 4)) =
      Some (mkpk (take ?n pre') (drop ?n pre' @ sq # body) post)"
    by (rule push_mkpk_split) (use calc(2) pre first in auto)
  have "length (first @ mac @ [sq]) = length (drop ?n pre' @ [sq])"
    using calc(2) pre first length_nas_mac [OF C] by (auto simp: mac_def)
  from write_mkpk [OF this, of "take ?n pre'" body post]
  have wr: "pkbuf_write (mkpk (take ?n pre') (drop ?n pre' @ sq # body) post) (length (take ?n pre'))
      (first @ mac @ [sq]) = Some (mkpk (take ?n pre') (first @ mac @ sq # body) post)"
    by simp
  have "nas_protect C first fl ue1 1 ?c plain = first @ mac @ sq # body"
    using out(1) by (simp add: nas_protect_def Let_def flags body_def mac_def sq)
  moreover have "nas_security_encode C first sht (Some (mkpk pre plain post)) ue =
      Some (Some (mkpk (take ?n pre') (first @ mac @ sq # body) post),
        ue1\<lparr>su_dl_count := (su_dl_count ue1 + 1) AND 0xffffff, su_available := True\<rparr>)"
    using sht(2) unfolding nas_security_encode_def sht(1) Let_def ue1 [symmetric] flags option.case enc
      bind.bind_lunit sq_def [symmetric] prepend calc(1) prod.case push mkpk_sel(1) wr
    by simp
  ultimately show ?thesis by simp
qed

end
