(* ===== verification/Nas_Security_Props.thy ===== *)
theory Nas_Security_Props
  imports Nas_Security_Octets
begin

text \<open>
  What the protection of NAS messages gives: whatever octets are received, the AMF does not
  fail and the MME fails only on a service request that is too short; no NAS COUNT is taken
  twice; and a message protected by the other side is delivered as it was sent.
\<close>

subsection \<open>Replay\<close>

text \<open>
  A run of the receiver: the count is logged when a message of a protected type is delivered
  and the flag of a failed check is clear, which is what the handlers above take for authentic
  (\<open>SECURITY_CONTEXT_IS_VALID\<close>). The flag stays set once a check has failed.
\<close>

definition nas_step :: "(nas_ue option \<Rightarrow> bytes \<Rightarrow> (nas_ue option \<times> (unit + pkbuf)) option) \<Rightarrow> nas_ue \<Rightarrow> bytes
    \<Rightarrow> (nas_ue \<times> bool) option" where
  "nas_step recv ue pdu =
     do { (ue', v) \<leftarrow> recv (Some ue) pdu;
          ue' \<leftarrow> ue';
          Some (ue', \<not> isl v \<and> \<not> su_mac_failed ue') }"

fun nas_run :: "(nas_ue option \<Rightarrow> bytes \<Rightarrow> (nas_ue option \<times> (unit + pkbuf)) option) \<Rightarrow> (bytes \<Rightarrow> bool)
    \<Rightarrow> nas_ue \<Rightarrow> bytes list \<Rightarrow> (nas_ue \<times> u32 list) option" where
  "nas_run recv protected ue [] = Some (ue, [])"
| "nas_run recv protected ue (pdu # pdus) =
     do { (ue, ok) \<leftarrow> nas_step recv ue pdu;
          (ue', log) \<leftarrow> nas_run recv protected ue pdus;
          Some (ue', if ok \<and> protected pdu then su_ul_count ue # log else log) }"

locale nas_receiver =
  fixes recv :: "nas_ue option \<Rightarrow> bytes \<Rightarrow> (nas_ue option \<times> (unit + pkbuf)) option"
    and protected :: "bytes \<Rightarrow> bool" and legal :: "bytes \<Rightarrow> bool" and good :: "nas_ue \<Rightarrow> bool"
  assumes step_law: "good ue \<Longrightarrow> legal pdu \<Longrightarrow>
    \<exists>ue' ok. nas_step recv ue pdu = Some (ue', ok) \<and> good ue' \<and>
      (if ok \<and> protected pdu
       then su_ul_accepted ue' \<and> (su_ul_accepted ue \<longrightarrow> su_ul_count ue < su_ul_count ue') \<and>
            unat (su_ul_count ue') < 2 ^ 24
       else su_ul_accepted ue \<longrightarrow> su_ul_accepted ue' \<and> su_ul_count ue \<le> su_ul_count ue')"
begin

lemma run_increasing:
  "good ue \<Longrightarrow> \<forall>pdu \<in> set pdus. legal pdu \<Longrightarrow>
   \<exists>ue' log. nas_run recv protected ue pdus = Some (ue', log) \<and> good ue' \<and> sorted_wrt (<) log \<and>
     (\<forall>c \<in> set log. unat c < 2 ^ 24 \<and> (su_ul_accepted ue \<longrightarrow> su_ul_count ue < c))"
proof (induction pdus arbitrary: ue)
  case (Cons pdu pdus)
  then obtain ue1 ok where s: "nas_step recv ue pdu = Some (ue1, ok)" "good ue1"
    "if ok \<and> protected pdu
       then su_ul_accepted ue1 \<and> (su_ul_accepted ue \<longrightarrow> su_ul_count ue < su_ul_count ue1) \<and>
            unat (su_ul_count ue1) < 2 ^ 24
       else su_ul_accepted ue \<longrightarrow> su_ul_accepted ue1 \<and> su_ul_count ue \<le> su_ul_count ue1"
    using step_law [of ue pdu] by auto
  obtain ue' log where r: "nas_run recv protected ue1 pdus = Some (ue', log)" "good ue'" "sorted_wrt (<) log"
    "\<forall>c \<in> set log. unat c < 2 ^ 24 \<and> (su_ul_accepted ue1 \<longrightarrow> su_ul_count ue1 < c)"
    using Cons.IH [OF s(2)] Cons.prems by auto
  show ?case
  proof (cases "ok \<and> protected pdu")
    case True
    have "\<forall>c \<in> set log. su_ul_accepted ue \<longrightarrow> su_ul_count ue < c"
      using True s(3) r(4) by (auto intro: less_trans)
    then show ?thesis using True s r by auto
  next
    case False
    then show ?thesis using s r by (auto intro: le_less_trans)
  qed
qed simp

end

definition context_ok :: "nas_ciphers \<Rightarrow> nas_ue \<Rightarrow> bool" where
  "context_ok C ue \<longleftrightarrow> ciphers_ok C \<and> ue_ok ue \<and> su_available ue \<and> su_int_alg ue \<noteq> 0"

lemma nas_accept_law:
  assumes "nas_accept valid est ue = (rv, ue')" "unat est < 2 ^ 24"
  shows "(rv = OGS_OK \<and> \<not> su_mac_failed ue' \<longrightarrow>
      su_ul_accepted ue' \<and> (su_ul_accepted ue \<longrightarrow> su_ul_count ue < su_ul_count ue') \<and>
      unat (su_ul_count ue') < 2 ^ 24) \<and>
    (su_ul_accepted ue \<longrightarrow> su_ul_accepted ue' \<and> su_ul_count ue \<le> su_ul_count ue') \<and>
    context_ok C ue' = context_ok C ue"
  using assms by (auto simp: nas_accept_def context_ok_def ue_ok_def split: if_splits)

definition count_law :: "nas_ciphers \<Rightarrow> bool \<Rightarrow> nas_ue \<Rightarrow> nas_ue \<Rightarrow> bool \<Rightarrow> bool" where
  "count_law C protected ue ue' ok \<longleftrightarrow> context_ok C ue' \<and>
     (if ok \<and> protected
      then su_ul_accepted ue' \<and> (su_ul_accepted ue \<longrightarrow> su_ul_count ue < su_ul_count ue') \<and>
           unat (su_ul_count ue') < 2 ^ 24
      else su_ul_accepted ue \<longrightarrow> su_ul_accepted ue' \<and> su_ul_count ue \<le> su_ul_count ue')"

lemma open_law:
  assumes ue: "context_ok C ue" and fl: "sf_integrity fl" and p: "payload \<noteq> []"
    and o: "nas_open C fl ue mac sqn payload = (rv, ue', out)"
  shows "count_law C True ue ue' (rv = OGS_OK \<and> \<not> su_mac_failed ue')"
proof -
  let ?r = "nas_accept (nas_verify C ue mac sqn payload) (estimate_ul_count ue sqn) ue"
  have "rv = fst ?r" "ue' = snd ?r"
    using o ue fl p by (auto simp: nas_open_def context_ok_def Let_def split_beta split: if_splits)
  then have "?r = (rv, ue')" by simp
  from nas_accept_law [OF this estimate_bound, of C] show ?thesis
    using ue by (auto simp: count_law_def)
qed

lemma receive_law:
  assumes ue: "context_ok C ue" and m: "0 < min_len"
  obtains ue' v where "nas_receive C hlen min_len flags (Some ue) pdu = (Some ue', v)"
    "count_law C (\<exists>fl. flags = Some fl \<and> sf_integrity fl) ue ue' (\<not> isl v \<and> \<not> su_mac_failed ue')"
proof -
  have same: "count_law C b ue ue False" "count_law C False ue ue c" for b c
    using ue by (auto simp: count_law_def)
  show ?thesis
  proof (cases "\<exists>fl. flags = Some fl \<and> sf_integrity fl \<and> hlen + min_len \<le> length pdu")
    case True
    then obtain fl where fl: "flags = Some fl" "sf_integrity fl" "hlen + min_len \<le> length pdu" by blast
    then have p: "drop hlen pdu \<noteq> []" "\<not> length pdu < min_len" using m by auto
    obtain rv ue' out where o:
      "nas_open C fl ue (take 4 (drop (hlen - 5) pdu)) (pdu ! (hlen - 1)) (drop hlen pdu) = (rv, ue', out)"
      by (cases "nas_open C fl ue (take 4 (drop (hlen - 5) pdu)) (pdu ! (hlen - 1)) (drop hlen pdu)") auto
    show ?thesis
      using open_law [OF ue fl(2) p(1) o] fl p o
      by (intro that [of ue' "if rv \<noteq> OGS_OK then Inl () else Inr out"]) (auto simp: nas_receive_def)
  next
    case False
    have "fst (nas_receive C hlen min_len flags (Some ue) pdu) = Some ue"
      "\<not> isl (snd (nas_receive C hlen min_len flags (Some ue) pdu)) \<Longrightarrow> \<not> (\<exists>fl. flags = Some fl \<and> sf_integrity fl)"
      using False by (auto simp: nas_receive_def split: option.splits if_splits)
    then show ?thesis
      using same ue by (intro that [of ue "snd (nas_receive C hlen min_len flags (Some ue) pdu)"])
        (auto simp: prod_eq_iff count_law_def)
  qed
qed

lemma step_of_receive:
  assumes "map_option as_octets (recv (Some ue) pdu) = Some (Some ue', v)"
  shows "nas_step recv ue pdu = Some (ue', \<not> isl v \<and> \<not> su_mac_failed ue')"
  using assms by (auto simp: nas_step_def as_octets_def isl_map_sum)

definition amf_protected :: "bytes \<Rightarrow> bool" where
  "amf_protected pdu \<longleftrightarrow> 3 \<le> length pdu \<and> pdu ! 1 \<in> {1, 2, 3, 4}"

lemma sht_of_protected: "(\<exists>fl. sht_of t = Some fl \<and> sf_integrity fl) \<longleftrightarrow> t \<in> {1, 2, 3, 4}"
  by (auto simp: sht_of_def)

interpretation amf: nas_receiver "ngap_send_to_nas C" amf_protected "\<lambda>pdu. length pdu < 2 ^ 31" "context_ok C" for C
proof
  fix ue pdu
  assume ue: "context_ok C ue" and len: "length (pdu :: bytes) < 2 ^ 31"
  let ?fl = "if length pdu < 3 then None else sht_of (pdu ! 1)"
  obtain ue' v where r: "nas_receive C 7 3 ?fl (Some ue) pdu = (Some ue', v)"
    "count_law C (\<exists>fl. ?fl = Some fl \<and> sf_integrity fl) ue ue' (\<not> isl v \<and> \<not> su_mac_failed ue')"
    by (rule receive_law [OF ue, of 3 7 ?fl pdu]) auto
  have "map_option as_octets (ngap_send_to_nas C (Some ue) pdu) = Some (Some ue', v)"
    using ngap_send_receive [of C "Some ue" pdu] ue len r(1) by (auto simp: context_ok_def ue_ok_def)
  from step_of_receive [where recv = "ngap_send_to_nas C", OF this] r(2) sht_of_protected [of "pdu ! 1"]
  show "\<exists>ue' ok. nas_step (ngap_send_to_nas C) ue pdu = Some (ue', ok) \<and> context_ok C ue' \<and>
      (if ok \<and> amf_protected pdu
       then su_ul_accepted ue' \<and> (su_ul_accepted ue \<longrightarrow> su_ul_count ue < su_ul_count ue') \<and>
            unat (su_ul_count ue') < 2 ^ 24
       else su_ul_accepted ue \<longrightarrow> su_ul_accepted ue' \<and> su_ul_count ue \<le> su_ul_count ue')"
    by (auto simp: count_law_def amf_protected_def split: if_splits)
qed

definition mme_protected :: "bytes \<Rightarrow> bool" where
  "mme_protected pdu \<longleftrightarrow> 2 \<le> length pdu \<and> drop_bit 4 (pdu ! 0) \<in> {1, 2, 3, 4, 12}"

text \<open>The octets on which the MME does not fail: no service request shorter than four octets.\<close>

definition mme_legal :: "bytes \<Rightarrow> bool" where
  "mme_legal pdu \<longleftrightarrow> length pdu < 2 ^ 31 \<and> (is_service pdu \<longrightarrow> 4 \<le> length pdu)"

lemma mme_step_service:
  assumes ue: "context_ok C ue" and s: "is_service pdu" and l: "mme_legal pdu"
  shows "\<exists>ue' v. map_option as_octets (s1ap_send_to_nas C (Some ue) pdu) = Some (Some ue', v) \<and>
    count_law C True ue ue' (\<not> isl v \<and> \<not> su_mac_failed ue')"
proof -
  obtain rv ue' where a: "nas_accept (service_valid C ue pdu) (service_count ue pdu) ue = (rv, ue')"
    by (cases "nas_accept (service_valid C ue pdu) (service_count ue pdu) ue") auto
  have "unat (service_count ue pdu) < 2 ^ 24" unfolding service_count_def by (rule estimate_bound)
  note law = nas_accept_law [OF a this, of C]
  obtain p' where "nas_service_request C ue (mkpk (replicate OGS_NAS_HEADROOM 0) pdu []) = Some (rv, ue', p')"
    using service_request_mkpk [of C ue pdu "replicate OGS_NAS_HEADROOM 0"] ue s l a
    by (auto simp: context_ok_def mme_legal_def OGS_NAS_HEADROOM_def)
  then have "s1ap_send_to_nas C (Some ue) pdu = Some (Some ue', if rv \<noteq> OGS_OK then Inl () else Inr p')"
    using s1ap_send_service [OF _ s] l by (simp add: mme_legal_def)
  then show ?thesis using law ue by (auto simp: as_octets_def count_law_def)
qed

interpretation mme: nas_receiver "s1ap_send_to_nas C" mme_protected mme_legal "context_ok C" for C
proof
  fix ue pdu
  assume ue: "context_ok C ue" and l: "mme_legal pdu"
  let ?fl = "if length pdu < 2 then None else sht_of (drop_bit 4 (pdu ! 0))"
  have len: "length pdu < 2 ^ 31" using l by (simp add: mme_legal_def)
  obtain ue' v where r: "map_option as_octets (s1ap_send_to_nas C (Some ue) pdu) = Some (Some ue', v)"
    "count_law C (mme_protected pdu) ue ue' (\<not> isl v \<and> \<not> su_mac_failed ue')"
  proof (cases "is_service pdu")
    case True
    then show ?thesis
      using mme_step_service [OF ue True l] that
      by (auto simp: mme_protected_def is_service_def)
  next
    case False
    obtain ue' v where r: "nas_receive C 6 2 ?fl (Some ue) pdu = (Some ue', v)"
      "count_law C (\<exists>fl. ?fl = Some fl \<and> sf_integrity fl) ue ue' (\<not> isl v \<and> \<not> su_mac_failed ue')"
      by (rule receive_law [OF ue, of 2 6 ?fl pdu]) auto
    moreover have "(\<exists>fl. ?fl = Some fl \<and> sf_integrity fl) = mme_protected pdu"
      using False sht_of_protected [of "drop_bit 4 (pdu ! 0)"] by (auto simp: mme_protected_def is_service_def)
    ultimately show ?thesis
      using s1ap_send_receive [of C "Some ue" pdu] ue len False that by (auto simp: context_ok_def ue_ok_def)
  qed
  from step_of_receive [where recv = "s1ap_send_to_nas C", OF r(1)] r(2)
  show "\<exists>ue' ok. nas_step (s1ap_send_to_nas C) ue pdu = Some (ue', ok) \<and> context_ok C ue' \<and>
      (if ok \<and> mme_protected pdu
       then su_ul_accepted ue' \<and> (su_ul_accepted ue \<longrightarrow> su_ul_count ue < su_ul_count ue') \<and>
            unat (su_ul_count ue') < 2 ^ 24
       else su_ul_accepted ue \<longrightarrow> su_ul_accepted ue' \<and> su_ul_count ue \<le> su_ul_count ue')"
    by (auto simp: count_law_def split: if_splits)
qed

subsection \<open>The properties\<close>

text \<open>A concrete choice of the ciphers that has what the properties ask of them.\<close>

definition demo_ciphers :: nas_ciphers where
  "demo_ciphers = \<lparr>
     nc_aes = (\<lambda>k b. map ((XOR) 0x5a) (take 16 (b @ replicate 16 0))),
     nc_snow_f9 = (\<lambda>k c f d bs. put32 (c + 7 * of_nat (length bs))),
     nc_snow = (\<lambda>k c b d bs. map ((XOR) (ucast c XOR 0x33)) bs),
     nc_zuc_eia3 = (\<lambda>k c b d bs. c + 5 * of_nat (length bs)),
     nc_zuc_eea3 = (\<lambda>k c b d bs. map ((XOR) (ucast c XOR 0x55)) bs)\<rparr>"

lemma xor_map_twice: "map ((XOR) (x::u8)) (map ((XOR) x) bs) = bs"
  by (simp add: comp_def flip: xor.assoc)

lemma demo_ciphers_ok: "ciphers_ok demo_ciphers"
  unfolding ciphers_ok_def demo_ciphers_def
  by (auto simp: put32_def xor_map_twice min_def simp del: map_map)

definition demo_ue :: nas_ue where
  "demo_ue = \<lparr>su_enc_alg = 1, su_int_alg = 1, su_knas_enc = [], su_knas_int = [], su_bearer = 1,
     su_dl_count = 255, su_ul_count = 254, su_ul_accepted = True, su_available = True, su_mac_failed = False\<rparr>"

lemma demo_context: "context_ok demo_ciphers demo_ue" "ue_ok demo_ue"
  by (simp_all add: context_ok_def demo_ciphers_ok ue_ok_def demo_ue_def)

abbreviation demo_flags :: sht_flags where
  "demo_flags \<equiv> \<lparr>sf_integrity = True, sf_ciphered = True, sf_new_context = False, sf_service = False\<rparr>"

lemma demo_header: "sht_of 2 = Some demo_flags"
  by (simp add: sht_of_def)

lemma demo_uplink: "nas_protect demo_ciphers [0x7e, 2] demo_flags demo_ue 0 256 [0x7e, 0, 0x5c] =
    [0x7e, 2, 0, 0, 1, 28, 0, 0x4d, 0x33, 0x6f]"
  by code_simp

lemma demo_downlink: "nas_protect demo_ciphers [0x7e, 2] demo_flags demo_ue 1 255 [0x7e, 0, 0x5c] =
    [0x7e, 2, 0, 0, 1, 27, 0xff, 0xb2, 0xcc, 0x90]"
  by code_simp

abbreviation demo_replay :: "bytes list" where
  "demo_replay \<equiv>
     [[0x7e, 2, 0, 0, 1, 28, 0, 0x4d, 0x33, 0x6f], [0x7e, 2, 0, 0, 1, 28, 0, 0x4d, 0x33, 0x6f]]"

lemma demo_replay_run:
  "map_option snd (nas_run (ngap_send_to_nas demo_ciphers) amf_protected demo_ue demo_replay) = Some [256]"
  by code_simp

text \<open>C33. Whatever octets arrive, the AMF finishes their reception without a failed assertion or an access outside the buffer, and its result is that of the reception on octets.\<close>

theorem ngap_reception:
  assumes "ciphers_ok C" "\<forall>u. ue = Some u \<longrightarrow> ue_ok u" "length pdu < 2 ^ 31"
  shows "map_option as_octets (ngap_send_to_nas C ue pdu) =
    Some (nas_receive C 7 3 (if length pdu < 3 then None else sht_of (pdu ! 1)) ue pdu)"
  using assms by (intro ngap_send_receive) auto

theorem ngap_reception_witness:
  "map_option as_octets (ngap_send_to_nas demo_ciphers (Some demo_ue) [0x7e, 2, 0, 0, 0, 0, 9, 1, 2]) =
    Some (Some demo_ue, Inl ())"
  using ngap_reception [of demo_ciphers "Some demo_ue" "[0x7e, 2, 0, 0, 0, 0, 9, 1, 2]"]
  by (simp add: demo_ciphers_ok demo_context nas_receive_def sht_of_def)

text \<open>C30. No uplink NAS COUNT is taken twice. In every run of the AMF over received messages,
  and in every run of the MME in which all service requests have at least four octets, each message
  is received without failure, and the counts of the messages taken for authentic rise strictly,
  stay below \<open>2 ^ 24\<close> and lie above the last count accepted before. On a shorter
  service request the MME fails; that case is excluded here and is a property of its own below.
  Messages are shorter than \<open>2 ^ 31\<close> octets.\<close>

theorem nas_no_replay:
  assumes "context_ok C ue" "\<forall>pdu \<in> set pdus. length pdu < 2 ^ 31"
  shows "(\<exists>ue' log. nas_run (ngap_send_to_nas C) amf_protected ue pdus = Some (ue', log) \<and>
      sorted_wrt (<) log \<and> (\<forall>c \<in> set log. unat c < 2 ^ 24 \<and> (su_ul_accepted ue \<longrightarrow> su_ul_count ue < c))) \<and>
    ((\<forall>pdu \<in> set pdus. is_service pdu \<longrightarrow> 4 \<le> length pdu) \<longrightarrow>
      (\<exists>ue' log. nas_run (s1ap_send_to_nas C) mme_protected ue pdus = Some (ue', log) \<and>
        sorted_wrt (<) log \<and> (\<forall>c \<in> set log. unat c < 2 ^ 24 \<and> (su_ul_accepted ue \<longrightarrow> su_ul_count ue < c))))"
proof (intro conjI impI)
  show "\<exists>ue' log. nas_run (ngap_send_to_nas C) amf_protected ue pdus = Some (ue', log) \<and>
      sorted_wrt (<) log \<and> (\<forall>c \<in> set log. unat c < 2 ^ 24 \<and> (su_ul_accepted ue \<longrightarrow> su_ul_count ue < c))"
    using amf.run_increasing [OF assms] by blast
  assume "\<forall>pdu \<in> set pdus. is_service pdu \<longrightarrow> 4 \<le> length pdu"
  then have "\<forall>pdu \<in> set pdus. mme_legal pdu" using assms(2) by (simp add: mme_legal_def)
  from mme.run_increasing [OF assms(1) this]
  show "\<exists>ue' log. nas_run (s1ap_send_to_nas C) mme_protected ue pdus = Some (ue', log) \<and>
      sorted_wrt (<) log \<and> (\<forall>c \<in> set log. unat c < 2 ^ 24 \<and> (su_ul_accepted ue \<longrightarrow> su_ul_count ue < c))"
    by blast
qed

theorem nas_no_replay_witness:
  "\<exists>ue'. nas_run (ngap_send_to_nas demo_ciphers) amf_protected demo_ue demo_replay = Some (ue', [256]) \<and>
    sorted_wrt (<) [256 :: u32] \<and> unat (256 :: u32) < 2 ^ 24 \<and> su_ul_count demo_ue < 256"
  using nas_no_replay [OF demo_context(1), of demo_replay] demo_replay_run
  by (auto simp: demo_ue_def)

text \<open>C31. A message the UE protects at a count of the window above the last accepted one is delivered by the AMF and by the MME as the plain message it was made of, and its count becomes the last accepted one, also when the sequence number has wrapped around.\<close>

theorem nas_uplink_roundtrip:
  assumes "context_ok C ue" "sht_of t = Some fl" "t \<noteq> 0" "3 \<le> length plain" "length plain < 2 ^ 30"
    and "unat (su_ul_count ue) \<le> unat c" "unat c < unat (su_ul_count ue) + 256" "unat c < 2 ^ 24"
      "su_ul_accepted ue \<longrightarrow> su_ul_count ue < c"
  shows "map_option as_octets (ngap_send_to_nas C (Some ue) (nas_protect C [epd, t] fl ue 0 c plain)) =
      Some (Some (ue\<lparr>su_ul_count := c, su_ul_accepted := True\<rparr>), Inr plain) \<and>
    map_option as_octets (s1ap_send_to_nas C (Some ue)
        (nas_protect C [push_bit 4 t OR (pd AND 0xf)] fl ue 0 c plain)) =
      Some (Some (ue\<lparr>su_ul_count := c, su_ul_accepted := True\<rparr>), Inr plain)"
proof -
  note ok = assms(1) [unfolded context_ok_def]
  have fl: "sf_integrity fl" and t: "t \<in> {1, 2, 3, 4}"
    using assms(2,3) by (auto simp: sht_of_def split: if_splits)
  have ne: "plain \<noteq> []" using assms(4) by auto
  let ?a = "nas_protect C [epd, t] fl ue 0 c plain"
  let ?m = "nas_protect C [push_bit 4 t OR (pd AND 0xf)] fl ue 0 c plain"
  have len: "length ?a = 7 + length plain" "length ?m = 6 + length plain"
    using ok ne by (simp_all add: length_nas_protect)
  have a1: "?a ! 1 = t" by (simp add: nas_protect_def Let_def)
  have m0: "drop_bit 4 (?m ! 0) = t"
  proof -
    have "drop_bit 4 (push_bit 4 t OR (pd AND 0xf)) = t"
      by (rule bit_word_eqI) (use t in \<open>auto simp: bit_simps bit_numeral_rec less_Suc_eq numeral_eq_Suc\<close>)
    then show ?thesis by (simp add: nas_protect_def Let_def)
  qed
  have "nas_receive C 7 3 (Some fl) (Some ue) ?a =
      (Some (ue\<lparr>su_ul_count := c, su_ul_accepted := True\<rparr>), Inr plain)"
    by (rule receive_protect) (use ok fl assms in auto)
  moreover have "nas_receive C 6 2 (Some fl) (Some ue) ?m =
      (Some (ue\<lparr>su_ul_count := c, su_ul_accepted := True\<rparr>), Inr plain)"
    by (rule receive_protect) (use ok fl assms in auto)
  moreover have "\<not> is_service ?m" using t m0 by (auto simp: is_service_def)
  ultimately show ?thesis
    using ngap_send_receive [of C "Some ue" ?a] s1ap_send_receive [of C "Some ue" ?m] ok len assms(2,5) a1 m0
    by simp
qed

theorem nas_uplink_roundtrip_witness:
  "map_option as_octets (ngap_send_to_nas demo_ciphers (Some demo_ue)
      [0x7e, 2, 0, 0, 1, 28, 0, 0x4d, 0x33, 0x6f]) =
    Some (Some (demo_ue\<lparr>su_ul_count := 256, su_ul_accepted := True\<rparr>), Inr [0x7e, 0, 0x5c])"
  using nas_uplink_roundtrip [OF demo_context(1) demo_header, of "[0x7e, 0, 0x5c]" 256 "0x7e"] demo_uplink
  by (simp add: demo_ue_def)

text \<open>C32. The encoders of the AMF and of the MME lay a message out as the UE expects it: the security header, the authentication code and the sequence number of the downlink count, the ciphered message; a new security context starts both counts at 0, and the downlink count rises by one modulo \<open>2 ^ 24\<close>.\<close>

theorem nas_downlink_layout:
  assumes "ciphers_ok C" "ue_ok ue" "sht_of t = Some fl" "t \<noteq> 0"
    and "pk_inv p" "9 \<le> pk_data p" "pk_bytes p \<noteq> []"
  shows "let ue1 = (if t \<in> {3, 4} then ue\<lparr>su_dl_count := 0, su_ul_count := 0, su_ul_accepted := False\<rparr> else ue);
             ue2 = ue1\<lparr>su_dl_count := (su_dl_count ue1 + 1) AND 0xffffff, su_available := True\<rparr>
         in (\<exists>p'. nas_5gs_security_encode C epd t (Some p) ue = Some (Some p', ue2) \<and>
               pk_bytes p' = nas_protect C [epd, t] fl ue1 1 (su_dl_count ue1) (pk_bytes p)) \<and>
            (\<exists>p'. nas_eps_security_encode C pd t (Some p) ue = Some (Some p', ue2) \<and>
               pk_bytes p' = nas_protect C [push_bit 4 (t AND 0xf) OR (pd AND 0xf)] fl ue1 1 (su_dl_count ue1)
                 (pk_bytes p))"
proof -
  obtain pre post where p: "p = mkpk pre (pk_bytes p) post" "length pre = pk_data p"
    by (rule pk_inv_mkpk [OF assms(5)])
  have new: "sf_new_context fl \<longleftrightarrow> t \<in> {3, 4}"
    using assms(3) by (auto simp: sht_of_def split: if_splits)
  let ?ue1 = "if t \<in> {3, 4} then ue\<lparr>su_dl_count := 0, su_ul_count := 0, su_ul_accepted := False\<rparr> else ue"
  have enc: "\<exists>p'. nas_security_encode C first t (Some p) ue =
      Some (Some p', ?ue1\<lparr>su_dl_count := (su_dl_count ?ue1 + 1) AND 0xffffff, su_available := True\<rparr>) \<and>
    pk_bytes p' = nas_protect C first fl ?ue1 1 (su_dl_count ?ue1) (pk_bytes p)" if "length first \<le> 2" for first
    using encode_protect [OF assms(1-4) that, of pre "pk_bytes p" ?ue1 post] assms(6,7) p new by metis
  show ?thesis
    unfolding Let_def nas_5gs_security_encode_def nas_eps_security_encode_def by (intro conjI enc) simp_all
qed

theorem nas_downlink_layout_witness:
  "\<exists>p'. nas_5gs_security_encode demo_ciphers 0x7e 2
      (Some (mkpk (replicate 16 0) [0x7e, 0, 0x5c] [])) demo_ue =
      Some (Some p', demo_ue\<lparr>su_dl_count := 256\<rparr>) \<and>
    pk_bytes p' = [0x7e, 2, 0, 0, 1, 27, 0xff, 0xb2, 0xcc, 0x90]"
  using nas_downlink_layout [OF demo_ciphers_ok demo_context(2) demo_header,
      of "mkpk (replicate 16 0) [0x7e, 0, 0x5c] []" "0x7e" 7] demo_downlink
  by (simp add: demo_ue_def Let_def mkpk_inv)

text \<open>C34. With a security context that uses integrity protection, the MME fails on a received message exactly when it is a service request of less than four octets: the half authentication code is read behind the end of the buffer and put back where there is no room.\<close>

theorem mme_short_service_request:
  assumes "context_ok C ue" "length pdu < 2 ^ 31"
  shows "s1ap_send_to_nas C (Some ue) pdu = None \<longleftrightarrow> is_service pdu \<and> length pdu < 4"
proof
  assume s: "s1ap_send_to_nas C (Some ue) pdu = None"
  show "is_service pdu \<and> length pdu < 4"
  proof (rule ccontr)
    assume "\<not> (is_service pdu \<and> length pdu < 4)"
    then have "mme_legal pdu" using assms(2) by (auto simp: mme_legal_def)
    from mme.step_law [OF assms(1) this] s show False by (simp add: nas_step_def)
  qed
next
  assume "is_service pdu \<and> length pdu < 4"
  then show "s1ap_send_to_nas C (Some ue) pdu = None"
    using assms s1ap_send_service [of pdu C ue] service_request_short [of ue pdu C]
    by (simp add: context_ok_def)
qed

theorem mme_short_service_request_witness:
  "s1ap_send_to_nas demo_ciphers (Some demo_ue) [0xc7, 0x1f, 0] = None"
  using mme_short_service_request [OF demo_context(1), of "[0xc7, 0x1f, 0]"]
  by (simp add: is_service_def)

end
