(* ===== verification/Snow3g.thy ===== *)
theory Snow3g
  imports Snow3g_Tables Crypt_Words
begin

text \<open>
  The two implementations of SNOW 3G: the one of \<open>lib/crypt/snow-3g.c\<close>, which computes with
  octets and is used for the authentication code (\<open>snow_3g_f9\<close>), and the table-driven one of
  \<open>lib/crypt/openssl/snow_core.c\<close>, which is used for ciphering (\<open>SNOW\<close>). Registers that the first
  keeps in static variables and the second in a context are a record here. Keys have 16 octets.
\<close>

record SNOW_CTX =
  lfsr :: "u32 list"
  fsm_r1 :: u32
  fsm_r2 :: u32
  fsm_r3 :: u32

subsection \<open>Computing with octets\<close>

fun MULxPOW :: "u8 \<Rightarrow> nat \<Rightarrow> u8 \<Rightarrow> u8" where
  "MULxPOW V 0 c = V"
| "MULxPOW V (Suc i) c = MULx (MULxPOW V i c) c"

definition MULalpha :: "u8 \<Rightarrow> u32" where
  "MULalpha c = get32 (MULxPOW c 23 0xa9) (MULxPOW c 245 0xa9) (MULxPOW c 48 0xa9) (MULxPOW c 239 0xa9)"

definition DIValpha :: "u8 \<Rightarrow> u32" where
  "DIValpha c = get32 (MULxPOW c 16 0xa9) (MULxPOW c 39 0xa9) (MULxPOW c 6 0xa9) (MULxPOW c 64 0xa9)"

text \<open>The body that the S-boxes \<open>S1\<close> and \<open>S2\<close> have in common.\<close>

definition snow_sbox :: "u8 list \<Rightarrow> u8 \<Rightarrow> u32 \<Rightarrow> u32" where
  "snow_sbox box c w =
     (let w0 = entry box (byte32 w 0); w1 = entry box (byte32 w 1);
          w2 = entry box (byte32 w 2); w3 = entry box (byte32 w 3);
          r0 = MULx w0 c XOR w1 XOR w2 XOR (MULx w3 c XOR w3);
          r1 = (MULx w0 c XOR w0) XOR MULx w1 c XOR w2 XOR w3;
          r2 = w0 XOR (MULx w1 c XOR w1) XOR MULx w2 c XOR w3;
          r3 = w0 XOR w1 XOR (MULx w2 c XOR w2) XOR MULx w3 c
      in get32 r0 r1 r2 r3)"

definition snow_3g_S1 :: "u32 \<Rightarrow> u32" where "snow_3g_S1 w = snow_sbox SR 0x1b w"

definition snow_3g_S2 :: "u32 \<Rightarrow> u32" where "snow_3g_S2 w = snow_sbox SQ 0x69 w"

definition ClockLFSRKeyStreamMode :: "SNOW_CTX \<Rightarrow> SNOW_CTX" where
  "ClockLFSRKeyStreamMode s =
     (let s0 = lfsr s ! 0; s11 = lfsr s ! 11;
          v = (push_bit 8 s0 AND 0xffffff00) XOR MULalpha (byte32 s0 0) XOR lfsr s ! 2 XOR
              (drop_bit 8 s11 AND 0x00ffffff) XOR DIValpha (byte32 s11 3)
      in s\<lparr>lfsr := tl (lfsr s) @ [v]\<rparr>)"

definition ClockLFSRInitializationMode :: "u32 \<Rightarrow> SNOW_CTX \<Rightarrow> SNOW_CTX" where
  "ClockLFSRInitializationMode F s =
     (let s0 = lfsr s ! 0; s11 = lfsr s ! 11;
          v = (push_bit 8 s0 AND 0xffffff00) XOR MULalpha (byte32 s0 0) XOR lfsr s ! 2 XOR
              (drop_bit 8 s11 AND 0x00ffffff) XOR DIValpha (byte32 s11 3) XOR F
      in s\<lparr>lfsr := tl (lfsr s) @ [v]\<rparr>)"

definition ClockFSM :: "SNOW_CTX \<Rightarrow> u32 \<times> SNOW_CTX" where
  "ClockFSM s =
     ((lfsr s ! 15 + fsm_r1 s) XOR fsm_r2 s,
      s\<lparr>fsm_r3 := snow_3g_S2 (fsm_r2 s), fsm_r2 := snow_3g_S1 (fsm_r1 s),
        fsm_r1 := fsm_r2 s + (fsm_r3 s XOR lfsr s ! 5)\<rparr>)"

definition snow_registers :: "u32 list \<Rightarrow> u32 list \<Rightarrow> SNOW_CTX" where
  "snow_registers k iv =
     \<lparr>lfsr = [k ! 0 XOR 0xffffffff, k ! 1 XOR 0xffffffff, k ! 2 XOR 0xffffffff, k ! 3 XOR 0xffffffff,
              k ! 0, k ! 1, k ! 2, k ! 3,
              k ! 0 XOR 0xffffffff, k ! 1 XOR 0xffffffff XOR iv ! 3, k ! 2 XOR 0xffffffff XOR iv ! 2,
              k ! 3 XOR 0xffffffff, k ! 0 XOR iv ! 1, k ! 1, k ! 2, k ! 3 XOR iv ! 0],
      fsm_r1 = 0, fsm_r2 = 0, fsm_r3 = 0\<rparr>"

fun snow_init_loop :: "nat \<Rightarrow> SNOW_CTX \<Rightarrow> SNOW_CTX" where
  "snow_init_loop 0 s = s"
| "snow_init_loop (Suc n) s = (let (F, s) = ClockFSM s in snow_init_loop n (ClockLFSRInitializationMode F s))"

definition snow_3g_initialize :: "u32 list \<Rightarrow> u32 list \<Rightarrow> SNOW_CTX" where
  "snow_3g_initialize k iv = snow_init_loop 32 (snow_registers k iv)"

fun snow_stream_loop :: "nat \<Rightarrow> SNOW_CTX \<Rightarrow> u32 list" where
  "snow_stream_loop 0 s = []"
| "snow_stream_loop (Suc n) s =
     (let (F, s) = ClockFSM s in (F XOR lfsr s ! 0) # snow_stream_loop n (ClockLFSRKeyStreamMode s))"

definition snow_3g_generate_key_stream :: "nat \<Rightarrow> SNOW_CTX \<Rightarrow> u32 list" where
  "snow_3g_generate_key_stream n s = snow_stream_loop n (ClockLFSRKeyStreamMode (snd (ClockFSM s)))"

definition snow_key :: "bytes \<Rightarrow> u32 list" where
  "snow_key key = [be_word key 12, be_word key 8, be_word key 4, be_word key 0]"

text \<open>
  Ciphering in place. The loop works on whole words, so that it leaves the data when they do not
  fill the last word: \<open>None\<close>.
\<close>

fun f8_loop :: "u32 list \<Rightarrow> bytes \<Rightarrow> bytes option" where
  "f8_loop [] data = Some data"
| "f8_loop (k # ks) data =
     (if length data < 4 then None
      else map_option ((@) (xor_bytes (take 4 data) (put32 k))) (f8_loop ks (drop 4 data)))"

definition snow_3g_f8 :: "bytes \<Rightarrow> u32 \<Rightarrow> u32 \<Rightarrow> u32 \<Rightarrow> bytes \<Rightarrow> nat \<Rightarrow> bytes option" where
  "snow_3g_f8 key count bearer dir data nbits =
     (let n = (nbits + 31) div 32;
          lastbits = (8 - nbits mod 8) mod 8;
          iv2 = push_bit 27 bearer OR push_bit 26 (dir AND 1);
          s = snow_3g_initialize (snow_key key) [iv2, count, iv2, count]
      in case f8_loop (snow_3g_generate_key_stream n s) data of
           None \<Rightarrow> None
         | Some data \<Rightarrow>
             if lastbits = 0 then Some data
             else if length data \<le> nbits div 8 then None
             else Some (data[nbits div 8 := data ! (nbits div 8) AND (0 - push_bit lastbits 1)]))"

subsection \<open>The authentication code\<close>

definition MUL64x :: "u64 \<Rightarrow> u64 \<Rightarrow> u64" where
  "MUL64x V c = (if V AND 0x8000000000000000 \<noteq> 0 then push_bit 1 V XOR c else push_bit 1 V)"

fun MUL64xPOW :: "u64 \<Rightarrow> nat \<Rightarrow> u64 \<Rightarrow> u64" where
  "MUL64xPOW V 0 c = V"
| "MUL64xPOW V (Suc i) c = MUL64x (MUL64xPOW V i c) c"

definition MUL64 :: "u64 \<Rightarrow> u64 \<Rightarrow> u64 \<Rightarrow> u64" where
  "MUL64 V P c =
     foldl (\<lambda>result i. if drop_bit i P AND 1 \<noteq> 0 then result XOR MUL64xPOW V i c else result) 0 [0..<64]"

definition mask8bit :: "nat \<Rightarrow> u8" where
  "mask8bit n = 0xff XOR (push_bit (8 - n) 1 - 1)"

text \<open>
  The data are read in blocks of eight octets; the last block is filled up with zeros. Without
  data the number of blocks wraps around, and the loop runs out of the data: \<open>None\<close>.
\<close>

definition f9_last :: "bytes \<Rightarrow> nat \<Rightarrow> u64" where
  "f9_last block rem_bits =
     (let whole = take (rem_bits div 8) block; r = rem_bits mod 8;
          part = (if r > 0 then [block ! (rem_bits div 8) AND mask8bit r] else []);
          octets = whole @ part
      in get64 (octets @ replicate (8 - length octets) 0))"

fun f9_loop :: "u64 \<Rightarrow> nat \<Rightarrow> u64 \<Rightarrow> bytes \<Rightarrow> u64 \<times> bytes" where
  "f9_loop P 0 EVAL data = (EVAL, data)"
| "f9_loop P (Suc n) EVAL data = f9_loop P n (MUL64 (EVAL XOR get64 (take 8 data)) P 0x1b) (drop 8 data)"

definition snow_3g_f9 :: "bytes \<Rightarrow> u32 \<Rightarrow> u32 \<Rightarrow> u32 \<Rightarrow> bytes \<Rightarrow> nat \<Rightarrow> bytes option" where
  "snow_3g_f9 key count fresh dir data nbits =
     (if nbits = 0 \<or> 8 * length data < nbits then None
      else
        let s = snow_3g_initialize (snow_key key)
                  [fresh XOR push_bit 15 dir, count XOR push_bit 31 dir, fresh, count];
            z = snow_3g_generate_key_stream 5 s;
            P = push_bit 32 (ucast (z ! 0)) OR ucast (z ! 1);
            Q = push_bit 32 (ucast (z ! 2)) OR ucast (z ! 3);
            D = nbits div 64 + (if nbits mod 64 = 0 then 1 else 2);
            (EVAL, rest) = f9_loop P (D - 2) 0 data;
            rem_bits = (if nbits mod 64 = 0 then 64 else nbits mod 64);
            EVAL = MUL64 (EVAL XOR f9_last rest rem_bits) P 0x1b;
            EVAL = MUL64 (EVAL XOR of_nat nbits) Q 0x1b
        in Some (xor_bytes (take 4 (put64 EVAL)) (put32 (z ! 4))))"

subsection \<open>The table-driven cipher\<close>

definition snow_S1 :: "u32 \<Rightarrow> u32" where
  "snow_S1 w = entry S1_T0 (byte32 w 3) XOR entry S1_T1 (byte32 w 2) XOR
               entry S1_T2 (byte32 w 1) XOR entry S1_T3 (byte32 w 0)"

definition snow_S2 :: "u32 \<Rightarrow> u32" where
  "snow_S2 w = entry S2_T0 (byte32 w 3) XOR entry S2_T1 (byte32 w 2) XOR
               entry S2_T2 (byte32 w 1) XOR entry S2_T3 (byte32 w 0)"

definition lfsr_keystream :: "SNOW_CTX \<Rightarrow> SNOW_CTX" where
  "lfsr_keystream ctx =
     (let s0 = lfsr ctx ! 0; s2 = lfsr ctx ! 2; s11 = lfsr ctx ! 11;
          v = (push_bit 8 s0 AND 0xffffff00) XOR entry MULalpha_table (byte32 s0 0) XOR s2 XOR
              (drop_bit 8 s11 AND 0x00ffffff) XOR entry DIValpha_table (byte32 s11 3)
      in ctx\<lparr>lfsr := tl (lfsr ctx) @ [v]\<rparr>)"

definition lfsr_init :: "u32 \<Rightarrow> SNOW_CTX \<Rightarrow> SNOW_CTX" where
  "lfsr_init f ctx =
     (let v = (push_bit 8 (lfsr ctx ! 0) AND 0xffffff00) XOR entry MULalpha_table (byte32 (lfsr ctx ! 0) 0) XOR
              lfsr ctx ! 2 XOR (drop_bit 8 (lfsr ctx ! 11) AND 0x00ffffff) XOR
              entry DIValpha_table (byte32 (lfsr ctx ! 11) 3) XOR f
      in ctx\<lparr>lfsr := tl (lfsr ctx) @ [v]\<rparr>)"

definition clock_fsm :: "SNOW_CTX \<Rightarrow> u32 \<times> SNOW_CTX" where
  "clock_fsm ctx =
     ((lfsr ctx ! 15 + fsm_r1 ctx) XOR fsm_r2 ctx,
      ctx\<lparr>fsm_r3 := snow_S2 (fsm_r2 ctx), fsm_r2 := snow_S1 (fsm_r1 ctx),
          fsm_r1 := fsm_r2 ctx + (fsm_r3 ctx XOR lfsr ctx ! 5)\<rparr>)"

definition snow_init_lfsr_fsm :: "u32 list \<Rightarrow> u32 list \<Rightarrow> SNOW_CTX" where
  "snow_init_lfsr_fsm key iv =
     \<lparr>lfsr = [key ! 0 XOR 0xffffffff, key ! 1 XOR 0xffffffff, key ! 2 XOR 0xffffffff, key ! 3 XOR 0xffffffff,
              key ! 0, key ! 1, key ! 2, key ! 3,
              key ! 0 XOR 0xffffffff, key ! 1 XOR 0xffffffff XOR iv ! 3, key ! 2 XOR 0xffffffff XOR iv ! 2,
              key ! 3 XOR 0xffffffff, key ! 0 XOR iv ! 1, key ! 1, key ! 2, key ! 3 XOR iv ! 0],
      fsm_r1 = 0, fsm_r2 = 0, fsm_r3 = 0\<rparr>"

fun set_key_loop :: "nat \<Rightarrow> SNOW_CTX \<Rightarrow> SNOW_CTX" where
  "set_key_loop 0 ctx = ctx"
| "set_key_loop (Suc n) ctx = (let (f, ctx) = clock_fsm ctx in set_key_loop n (lfsr_init f ctx))"

definition SNOW_set_key :: "u32 list \<Rightarrow> u32 list \<Rightarrow> SNOW_CTX" where
  "SNOW_set_key key iv = set_key_loop 32 (snow_init_lfsr_fsm key iv)"

definition SNOW_init :: "u32 \<Rightarrow> u8 \<Rightarrow> u8 \<Rightarrow> bytes \<Rightarrow> SNOW_CTX" where
  "SNOW_init countc bearer direction key =
     (let iv2 = push_bit 27 (ucast (bearer AND 0x1f)) OR push_bit 26 (ucast (direction AND 1))
      in SNOW_set_key [be_word key 12, be_word key 8, be_word key 4, be_word key 0] [iv2, countc, iv2, countc])"

function SNOW_loop :: "SNOW_CTX \<Rightarrow> bytes \<Rightarrow> bytes" where
  "SNOW_loop ctx inp =
     (if inp = [] then []
      else let (f, ctx) = clock_fsm ctx; f = f XOR lfsr ctx ! 0
           in xor_bytes (take 4 inp) (put32 f) @ SNOW_loop (lfsr_keystream ctx) (drop 4 inp))"
  by pat_completeness auto
termination by (relation "measure (\<lambda>(_, inp). length inp)") auto

declare SNOW_loop.simps [simp del]

definition snow_array_to_key :: "bytes \<Rightarrow> bytes \<Rightarrow> u32 list \<times> u32 list" where
  "snow_array_to_key key iv = (map (\<lambda>i. be_word key (4 * i)) [0..<4], map (\<lambda>i. be_word iv (4 * i)) [0..<4])"

fun keystream_loop :: "nat \<Rightarrow> SNOW_CTX \<Rightarrow> u32 list \<times> SNOW_CTX" where
  "keystream_loop 0 ctx = ([], ctx)"
| "keystream_loop (Suc n) ctx =
     (let (f, ctx) = clock_fsm ctx; w = f XOR lfsr ctx ! 0; (ws, ctx) = keystream_loop n (lfsr_keystream ctx)
      in (w # ws, ctx))"

definition SNOW_gen_keystream :: "nat \<Rightarrow> SNOW_CTX \<Rightarrow> u32 list \<times> SNOW_CTX" where
  "SNOW_gen_keystream nb_word ctx = keystream_loop nb_word (lfsr_keystream (snd (clock_fsm ctx)))"

text \<open>Ciphering; the callers discard the context that it leaves behind.\<close>

definition SNOW :: "bytes \<Rightarrow> SNOW_CTX \<Rightarrow> bytes" where
  "SNOW inp ctx = SNOW_loop (lfsr_keystream (snd (clock_fsm ctx))) inp"

end
