(* ===== verification/Snow3g_Equiv.thy ===== *)
theory Snow3g_Equiv
  imports Snow3g
begin

text \<open>
  The table-driven SNOW 3G computes the same cipher as the one on octets. Each table of words is
  the image of an S-box under one column of the mixing; the tables of multiplication are linear,
  so that it is enough to compare them on eight octets.
\<close>

subsection \<open>S-boxes\<close>

definition column0 :: "u8 \<Rightarrow> u8 \<Rightarrow> u32" where "column0 c x = get32 (MULx x c XOR x) x x (MULx x c)"
definition column1 :: "u8 \<Rightarrow> u8 \<Rightarrow> u32" where "column1 c x = get32 x x (MULx x c) (MULx x c XOR x)"
definition column2 :: "u8 \<Rightarrow> u8 \<Rightarrow> u32" where "column2 c x = get32 x (MULx x c) (MULx x c XOR x) x"
definition column3 :: "u8 \<Rightarrow> u8 \<Rightarrow> u32" where "column3 c x = get32 (MULx x c) (MULx x c XOR x) x x"

lemmas column_defs = column0_def column1_def column2_def column3_def

lemma length_boxes: "length SR = 256" "length SQ = 256"
  by (simp_all add: SR_def SQ_def)

lemma S1_T0_columns: "S1_T0 = map (column0 0x1b) SR"
  by (simp add: S1_T0_def SR_def column0_def MULx_def get32_def)
lemma S1_T1_columns: "S1_T1 = map (column1 0x1b) SR"
  by (simp add: S1_T1_def SR_def column1_def MULx_def get32_def)
lemma S1_T2_columns: "S1_T2 = map (column2 0x1b) SR"
  by (simp add: S1_T2_def SR_def column2_def MULx_def get32_def)
lemma S1_T3_columns: "S1_T3 = map (column3 0x1b) SR"
  by (simp add: S1_T3_def SR_def column3_def MULx_def get32_def)
lemma S2_T0_columns: "S2_T0 = map (column0 0x69) SQ"
  by (simp add: S2_T0_def SQ_def column0_def MULx_def get32_def)
lemma S2_T1_columns: "S2_T1 = map (column1 0x69) SQ"
  by (simp add: S2_T1_def SQ_def column1_def MULx_def get32_def)
lemma S2_T2_columns: "S2_T2 = map (column2 0x69) SQ"
  by (simp add: S2_T2_def SQ_def column2_def MULx_def get32_def)
lemma S2_T3_columns: "S2_T3 = map (column3 0x69) SQ"
  by (simp add: S2_T3_def SQ_def column3_def MULx_def get32_def)

lemmas table_columns = S1_T0_columns S1_T1_columns S1_T2_columns S1_T3_columns
  S2_T0_columns S2_T1_columns S2_T2_columns S2_T3_columns

lemma columns_sbox:
  "column0 c (entry box (byte32 w 3)) XOR column1 c (entry box (byte32 w 2)) XOR
   column2 c (entry box (byte32 w 1)) XOR column3 c (entry box (byte32 w 0)) = snow_sbox box c w"
  unfolding snow_sbox_def Let_def column_defs get32_xor get32_inject by (simp add: ac_simps)

lemma snow_S1_eq: "snow_S1 = snow_3g_S1"
  by (simp add: fun_eq_iff snow_S1_def snow_3g_S1_def table_columns entry_map length_boxes columns_sbox
      del: One_nat_def)

lemma snow_S2_eq: "snow_S2 = snow_3g_S2"
  by (simp add: fun_eq_iff snow_S2_def snow_3g_S2_def table_columns entry_map length_boxes columns_sbox
      del: One_nat_def)

subsection \<open>Multiplication by the root of the feedback polynomial\<close>

lemma MULxPOW_xor: "MULxPOW (a XOR b) i c = MULxPOW a i c XOR MULxPOW b i c"
  by (induction i) (simp_all add: MULx_xor)

lemma MULxPOW_zero [simp]: "MULxPOW 0 i c = 0"
  by (induction i) simp_all

lemma MULxPOW_add: "MULxPOW (MULxPOW a i c) j c = MULxPOW a (i + j) c"
  by (induction j) simp_all

text \<open>The powers of \<open>x\<close>, each from the one before.\<close>

definition alpha_powers :: "u8 list" where
  "alpha_powers =
    [0x01, 0x02, 0x04, 0x08, 0x10, 0x20, 0x40, 0x80, 0xa9, 0xfb, 0x5f, 0xbe, 0xd5, 0x03, 0x06, 0x0c,
     0x18, 0x30, 0x60, 0xc0, 0x29, 0x52, 0xa4, 0xe1, 0x6b, 0xd6, 0x05, 0x0a, 0x14, 0x28, 0x50, 0xa0,
     0xe9, 0x7b, 0xf6, 0x45, 0x8a, 0xbd, 0xd3, 0x0f, 0x1e, 0x3c, 0x78, 0xf0, 0x49, 0x92, 0x8d, 0xb3,
     0xcf, 0x37, 0x6e, 0xdc, 0x11, 0x22, 0x44, 0x88, 0xb9, 0xdb, 0x1f, 0x3e, 0x7c, 0xf8, 0x59, 0xb2,
     0xcd, 0x33, 0x66, 0xcc, 0x31, 0x62, 0xc4, 0x21, 0x42, 0x84, 0xa1, 0xeb, 0x7f, 0xfe, 0x55, 0xaa,
     0xfd, 0x53, 0xa6, 0xe5, 0x63, 0xc6, 0x25, 0x4a, 0x94, 0x81, 0xab, 0xff, 0x57, 0xae, 0xf5, 0x43,
     0x86, 0xa5, 0xe3, 0x6f, 0xde, 0x15, 0x2a, 0x54, 0xa8, 0xf9, 0x5b, 0xb6, 0xc5, 0x23, 0x46, 0x8c,
     0xb1, 0xcb, 0x3f, 0x7e, 0xfc, 0x51, 0xa2, 0xed, 0x73, 0xe6, 0x65, 0xca, 0x3d, 0x7a, 0xf4, 0x41,
     0x82, 0xad, 0xf3, 0x4f, 0x9e, 0x95, 0x83, 0xaf, 0xf7, 0x47, 0x8e, 0xb5, 0xc3, 0x2f, 0x5e, 0xbc,
     0xd1, 0x0b, 0x16, 0x2c, 0x58, 0xb0, 0xc9, 0x3b, 0x76, 0xec, 0x71, 0xe2, 0x6d, 0xda, 0x1d, 0x3a,
     0x74, 0xe8, 0x79, 0xf2, 0x4d, 0x9a, 0x9d, 0x93, 0x8f, 0xb7, 0xc7, 0x27, 0x4e, 0x9c, 0x91, 0x8b,
     0xbf, 0xd7, 0x07, 0x0e, 0x1c, 0x38, 0x70, 0xe0, 0x69, 0xd2, 0x0d, 0x1a, 0x34, 0x68, 0xd0, 0x09,
     0x12, 0x24, 0x48, 0x90, 0x89, 0xbb, 0xdf, 0x17, 0x2e, 0x5c, 0xb8, 0xd9, 0x1b, 0x36, 0x6c, 0xd8,
     0x19, 0x32, 0x64, 0xc8, 0x39, 0x72, 0xe4, 0x61, 0xc2, 0x2d, 0x5a, 0xb4, 0xc1, 0x2b, 0x56, 0xac,
     0xf1, 0x4b, 0x96, 0x85, 0xa3, 0xef, 0x77, 0xee, 0x75, 0xea, 0x7d, 0xfa, 0x5d, 0xba, 0xdd, 0x13,
     0x26, 0x4c, 0x98, 0x99, 0x9b, 0x9f, 0x97, 0x87, 0xa7, 0xe7, 0x67, 0xce, 0x35]"

lemma alpha_powers_step: "alpha_powers = 1 # map (\<lambda>x. MULx x 0xa9) (butlast alpha_powers)"
  by (simp add: alpha_powers_def MULx_def)

lemma length_alpha_powers: "length alpha_powers = 253"
  by (simp add: alpha_powers_def)

lemma alpha_powers_nth: "i < 253 \<Longrightarrow> MULxPOW 1 i 0xa9 = alpha_powers ! i"
proof (induction i)
  case 0
  then show ?case by (simp add: alpha_powers_def)
next
  case (Suc i)
  have "alpha_powers ! Suc i = (1 # map (\<lambda>x. MULx x 0xa9) (butlast alpha_powers)) ! Suc i"
    by (simp only: alpha_powers_step [symmetric])
  also have "\<dots> = MULx (alpha_powers ! i) 0xa9"
    using Suc.prems by (simp add: nth_butlast length_alpha_powers)
  finally show ?case using Suc by simp
qed

lemma MULxPOW_bit:
  assumes "j < 8" "i < 245 + 1"
  shows "MULxPOW (push_bit j 1) i 0xa9 = alpha_powers ! (j + i)"
proof -
  have "push_bit j 1 = alpha_powers ! j"
    using assms(1) by (auto simp: less_Suc_eq numeral_eq_Suc alpha_powers_def)
  then have *: "push_bit j 1 = MULxPOW 1 j 0xa9" using assms(1) by (simp add: alpha_powers_nth)
  show ?thesis unfolding * MULxPOW_add using assms by (intro alpha_powers_nth) simp
qed

lemmas MULxPOW_bits =
  MULxPOW_bit [of 0, simplified] MULxPOW_bit [of 1, simplified] MULxPOW_bit [of 2, simplified]
  MULxPOW_bit [of 3, simplified] MULxPOW_bit [of 4, simplified] MULxPOW_bit [of 5, simplified]
  MULxPOW_bit [of 6, simplified] MULxPOW_bit [of 7, simplified]

lemma MULalpha_xor: "MULalpha (a XOR b) = MULalpha a XOR MULalpha b"
  by (simp add: MULalpha_def MULxPOW_xor get32_xor)

lemma DIValpha_xor: "DIValpha (a XOR b) = DIValpha a XOR DIValpha b"
  by (simp add: DIValpha_def MULxPOW_xor get32_xor)

lemma MULalpha_bits:
  "map (\<lambda>i. MULalpha (push_bit i 1)) [0, 1, 2, 3, 4, 5, 6, 7] =
    [0xe19fcf13, 0x6b973726, 0xd6876e4c, 0x05a7dc98, 0x0ae71199, 0x1467229b, 0x28ce449f, 0x50358897]"
  by (simp add: MULalpha_def MULxPOW_bits alpha_powers_def get32_def)

lemma DIValpha_bits:
  "map (\<lambda>i. DIValpha (push_bit i 1)) [0, 1, 2, 3, 4, 5, 6, 7] =
    [0x180f40cd, 0x301e8033, 0x603ca966, 0xc078fbcc, 0x29f05f31, 0x5249be62, 0xa492d5c4, 0xe18d0321]"
  by (simp add: DIValpha_def MULxPOW_bits alpha_powers_def get32_def)

lemma MULalpha_table_bitwise:
  "MULalpha_table = map (\<lambda>n. bitwise (\<lambda>i. [0xe19fcf13, 0x6b973726, 0xd6876e4c, 0x05a7dc98, 0x0ae71199, 0x1467229b, 0x28ce449f, 0x50358897] ! i) (of_nat n)) [0..<256]"
  unfolding octets256 by (simp add: MULalpha_table_def bitwise_def)

lemma DIValpha_table_bitwise:
  "DIValpha_table = map (\<lambda>n. bitwise (\<lambda>i. [0x180f40cd, 0x301e8033, 0x603ca966, 0xc078fbcc, 0x29f05f31, 0x5249be62, 0xa492d5c4, 0xe18d0321] ! i) (of_nat n)) [0..<256]"
  unfolding octets256 by (simp add: DIValpha_table_def bitwise_def)

lemma MULalpha_entry: "entry MULalpha_table c = MULalpha c"
proof -
  have "MULalpha c = bitwise (\<lambda>i. MULalpha (push_bit i 1)) c"
    by (rule linear_bitwise) (rule MULalpha_xor)
  also have "\<dots> = bitwise (\<lambda>i. [0xe19fcf13, 0x6b973726, 0xd6876e4c, 0x05a7dc98, 0x0ae71199, 0x1467229b, 0x28ce449f, 0x50358897] ! i) c"
    using MULalpha_bits unfolding bitwise_def by simp
  finally show ?thesis unfolding MULalpha_table_bitwise entry_octets by simp
qed

lemma DIValpha_entry: "entry DIValpha_table c = DIValpha c"
proof -
  have "DIValpha c = bitwise (\<lambda>i. DIValpha (push_bit i 1)) c"
    by (rule linear_bitwise) (rule DIValpha_xor)
  also have "\<dots> = bitwise (\<lambda>i. [0x180f40cd, 0x301e8033, 0x603ca966, 0xc078fbcc, 0x29f05f31, 0x5249be62, 0xa492d5c4, 0xe18d0321] ! i) c"
    using DIValpha_bits unfolding bitwise_def by simp
  finally show ?thesis unfolding DIValpha_table_bitwise entry_octets by simp
qed

subsection \<open>The ciphers\<close>

lemma clocks_eq:
  "clock_fsm = ClockFSM" "lfsr_keystream = ClockLFSRKeyStreamMode" "lfsr_init = ClockLFSRInitializationMode"
  by (simp_all add: fun_eq_iff clock_fsm_def ClockFSM_def snow_S1_eq snow_S2_eq lfsr_keystream_def
      ClockLFSRKeyStreamMode_def lfsr_init_def ClockLFSRInitializationMode_def MULalpha_entry DIValpha_entry
      Let_def)

lemma set_key_loop_eq: "set_key_loop n s = snow_init_loop n s"
  by (induction n arbitrary: s) (simp_all add: clocks_eq split_beta)

lemma SNOW_set_key_eq: "SNOW_set_key = snow_3g_initialize"
  by (simp add: fun_eq_iff SNOW_set_key_def snow_3g_initialize_def set_key_loop_eq
      snow_init_lfsr_fsm_def snow_registers_def)

lemma keystream_loop_eq: "fst (keystream_loop n s) = snow_stream_loop n s"
  by (induction n arbitrary: s) (simp_all add: clocks_eq split_beta Let_def)

lemma SNOW_gen_keystream_eq: "fst (SNOW_gen_keystream n s) = snow_3g_generate_key_stream n s"
  by (simp add: SNOW_gen_keystream_def snow_3g_generate_key_stream_def keystream_loop_eq clocks_eq)

lemma length_snow_stream [simp]: "length (snow_stream_loop n s) = n"
  by (induction n arbitrary: s) (simp_all add: split_beta)

text \<open>Ciphering is the exclusive or with the octets of the stream.\<close>

definition snow_octets :: "nat \<Rightarrow> SNOW_CTX \<Rightarrow> bytes" where
  "snow_octets n s = concat (map put32 (snow_stream_loop n s))"

lemma SNOW_loop_stream:
  "length inp \<le> 4 * n \<Longrightarrow> SNOW_loop s inp = xor_bytes inp (snow_octets n s)"
proof (induction n arbitrary: s inp)
  case 0
  then show ?case by (simp add: SNOW_loop.simps xor_bytes_def)
next
  case (Suc n)
  obtain f t where c: "ClockFSM s = (f, t)" by force
  let ?k = "put32 (f XOR lfsr t ! 0)" and ?u = "ClockLFSRKeyStreamMode t"
  have o: "snow_octets (Suc n) s = ?k @ snow_octets n ?u"
    by (simp add: snow_octets_def c)
  show ?case
  proof (cases "length inp \<le> 4")
    case True
    then show ?thesis
      unfolding o by (subst SNOW_loop.simps) (auto simp: clocks_eq c xor_bytes_short SNOW_loop.simps [of _ "[]"])
  next
    case False
    then have "xor_bytes inp (?k @ snow_octets n ?u) =
        xor_bytes (take 4 inp) ?k @ xor_bytes (drop 4 inp) (snow_octets n ?u)"
      using xor_bytes_append [of "take 4 inp" ?k "drop 4 inp"] by simp
    then show ?thesis
      using False Suc unfolding o by (subst SNOW_loop.simps) (auto simp: clocks_eq c)
  qed
qed

lemma f8_loop_stream:
  "f8_loop ks data = (if 4 * length ks \<le> length data
     then Some (xor_bytes (take (4 * length ks) data) (concat (map put32 ks)) @ drop (4 * length ks) data)
     else None)"
proof (induction ks arbitrary: data)
  case (Cons k ks)
  have "take (4 + 4 * length ks) data = take 4 data @ take (4 * length ks) (drop 4 data)"
    by (rule take_add)
  then show ?case
    using Cons by (auto simp: xor_bytes_append add.commute)
qed (simp add: xor_bytes_def)

lemma SNOW_stream:
  "length inp \<le> 4 * n \<Longrightarrow>
   SNOW inp s = xor_bytes inp (concat (map put32 (snow_3g_generate_key_stream n s)))"
  by (simp add: SNOW_def SNOW_loop_stream [where n = n] clocks_eq snow_octets_def snow_3g_generate_key_stream_def)

lemma length_key_stream [simp]: "length (snow_3g_generate_key_stream n s) = n"
  by (simp add: snow_3g_generate_key_stream_def)

lemma length_SNOW [simp]: "length (SNOW inp s) = length inp"
  by (simp add: SNOW_stream [where n = "length inp"])

lemma SNOW_twice: "SNOW (SNOW inp s) s = inp"
proof -
  let ?n = "length inp"
  have "SNOW (SNOW inp s) s =
      xor_bytes (SNOW inp s) (concat (map put32 (snow_3g_generate_key_stream ?n s)))"
    by (rule SNOW_stream) simp
  then show ?thesis by (simp add: SNOW_stream [where n = ?n] xor_bytes_twice)
qed

lemma SNOW_init_eq:
  "SNOW_init count bearer dir key =
   (let iv2 = push_bit 27 (ucast bearer) OR push_bit 26 (ucast dir AND 1)
    in snow_3g_initialize (snow_key key) [iv2, count, iv2, count])"
proof -
  have "push_bit 27 (ucast (bearer AND 0x1f)) = (push_bit 27 (ucast bearer) :: u32)"
  proof -
    have "bearer AND 0x1f = take_bit 5 bearer" by (simp add: take_bit_eq_mask mask_numeral)
    then show ?thesis by (simp only:) (rule bit_word_eqI, auto simp: bit_simps)
  qed
  moreover have "ucast (dir AND 1) = (ucast dir AND 1 :: u32)"
    by (rule bit_word_eqI) (auto simp: bit_simps)
  ultimately show ?thesis
    by (simp add: SNOW_init_def SNOW_set_key_eq snow_key_def Let_def)
qed

text \<open>C35. The table-driven SNOW 3G that ciphers NAS messages equals the cipher on octets of \<open>snow_3g_f8\<close> wherever the latter stays inside the data, which it does exactly for a whole number of words.\<close>

theorem snow_3g_equivalent:
  "snow_3g_f8 key count (ucast bearer) (ucast dir) data (8 * length data) =
   (if 4 dvd length data then Some (SNOW data (SNOW_init count bearer dir key)) else None)"
proof -
  let ?n = "(length data + 3) div 4" and ?s = "SNOW_init count bearer dir key"
  have n: "(8 * length data + 31) div 32 = ?n" by presburger
  have f8: "snow_3g_f8 key count (ucast bearer) (ucast dir) data (8 * length data) =
      f8_loop (snow_3g_generate_key_stream ?n ?s) data"
    unfolding snow_3g_f8_def Let_def n SNOW_init_eq by (auto split: option.split)
  show ?thesis
  proof (cases "4 dvd length data")
    case True
    then have "4 * ?n = length data" by presburger
    then show ?thesis using True unfolding f8 f8_loop_stream by (simp add: SNOW_stream [where n = ?n])
  next
    case False
    then have "\<not> 4 * ?n \<le> length data" by presburger
    then show ?thesis using False unfolding f8 f8_loop_stream by simp
  qed
qed

end
