(* ===== verification/Zuc.thy ===== *)
theory Zuc
  imports Crypt_Words "HOL-Library.Monad_Syntax"
begin

text \<open>
  The stream cipher ZUC with ciphering (EEA3) and the authentication code (EIA3) on top,
  \<open>lib/crypt/zuc.c\<close>. The registers, static variables of the code, are a record. Keys and
  initialisation vectors have 16 octets, messages less than \<open>2 ^ 29\<close>.
\<close>

definition zuc_S0 :: "u8 list" where
  "zuc_S0 =
    [0x3e, 0x72, 0x5b, 0x47, 0xca, 0xe0, 0x00, 0x33, 0x04, 0xd1, 0x54, 0x98, 0x09, 0xb9, 0x6d, 0xcb,
     0x7b, 0x1b, 0xf9, 0x32, 0xaf, 0x9d, 0x6a, 0xa5, 0xb8, 0x2d, 0xfc, 0x1d, 0x08, 0x53, 0x03, 0x90,
     0x4d, 0x4e, 0x84, 0x99, 0xe4, 0xce, 0xd9, 0x91, 0xdd, 0xb6, 0x85, 0x48, 0x8b, 0x29, 0x6e, 0xac,
     0xcd, 0xc1, 0xf8, 0x1e, 0x73, 0x43, 0x69, 0xc6, 0xb5, 0xbd, 0xfd, 0x39, 0x63, 0x20, 0xd4, 0x38,
     0x76, 0x7d, 0xb2, 0xa7, 0xcf, 0xed, 0x57, 0xc5, 0xf3, 0x2c, 0xbb, 0x14, 0x21, 0x06, 0x55, 0x9b,
     0xe3, 0xef, 0x5e, 0x31, 0x4f, 0x7f, 0x5a, 0xa4, 0x0d, 0x82, 0x51, 0x49, 0x5f, 0xba, 0x58, 0x1c,
     0x4a, 0x16, 0xd5, 0x17, 0xa8, 0x92, 0x24, 0x1f, 0x8c, 0xff, 0xd8, 0xae, 0x2e, 0x01, 0xd3, 0xad,
     0x3b, 0x4b, 0xda, 0x46, 0xeb, 0xc9, 0xde, 0x9a, 0x8f, 0x87, 0xd7, 0x3a, 0x80, 0x6f, 0x2f, 0xc8,
     0xb1, 0xb4, 0x37, 0xf7, 0x0a, 0x22, 0x13, 0x28, 0x7c, 0xcc, 0x3c, 0x89, 0xc7, 0xc3, 0x96, 0x56,
     0x07, 0xbf, 0x7e, 0xf0, 0x0b, 0x2b, 0x97, 0x52, 0x35, 0x41, 0x79, 0x61, 0xa6, 0x4c, 0x10, 0xfe,
     0xbc, 0x26, 0x95, 0x88, 0x8a, 0xb0, 0xa3, 0xfb, 0xc0, 0x18, 0x94, 0xf2, 0xe1, 0xe5, 0xe9, 0x5d,
     0xd0, 0xdc, 0x11, 0x66, 0x64, 0x5c, 0xec, 0x59, 0x42, 0x75, 0x12, 0xf5, 0x74, 0x9c, 0xaa, 0x23,
     0x0e, 0x86, 0xab, 0xbe, 0x2a, 0x02, 0xe7, 0x67, 0xe6, 0x44, 0xa2, 0x6c, 0xc2, 0x93, 0x9f, 0xf1,
     0xf6, 0xfa, 0x36, 0xd2, 0x50, 0x68, 0x9e, 0x62, 0x71, 0x15, 0x3d, 0xd6, 0x40, 0xc4, 0xe2, 0x0f,
     0x8e, 0x83, 0x77, 0x6b, 0x25, 0x05, 0x3f, 0x0c, 0x30, 0xea, 0x70, 0xb7, 0xa1, 0xe8, 0xa9, 0x65,
     0x8d, 0x27, 0x1a, 0xdb, 0x81, 0xb3, 0xa0, 0xf4, 0x45, 0x7a, 0x19, 0xdf, 0xee, 0x78, 0x34, 0x60]"

definition zuc_S1 :: "u8 list" where
  "zuc_S1 =
    [0x55, 0xc2, 0x63, 0x71, 0x3b, 0xc8, 0x47, 0x86, 0x9f, 0x3c, 0xda, 0x5b, 0x29, 0xaa, 0xfd, 0x77,
     0x8c, 0xc5, 0x94, 0x0c, 0xa6, 0x1a, 0x13, 0x00, 0xe3, 0xa8, 0x16, 0x72, 0x40, 0xf9, 0xf8, 0x42,
     0x44, 0x26, 0x68, 0x96, 0x81, 0xd9, 0x45, 0x3e, 0x10, 0x76, 0xc6, 0xa7, 0x8b, 0x39, 0x43, 0xe1,
     0x3a, 0xb5, 0x56, 0x2a, 0xc0, 0x6d, 0xb3, 0x05, 0x22, 0x66, 0xbf, 0xdc, 0x0b, 0xfa, 0x62, 0x48,
     0xdd, 0x20, 0x11, 0x06, 0x36, 0xc9, 0xc1, 0xcf, 0xf6, 0x27, 0x52, 0xbb, 0x69, 0xf5, 0xd4, 0x87,
     0x7f, 0x84, 0x4c, 0xd2, 0x9c, 0x57, 0xa4, 0xbc, 0x4f, 0x9a, 0xdf, 0xfe, 0xd6, 0x8d, 0x7a, 0xeb,
     0x2b, 0x53, 0xd8, 0x5c, 0xa1, 0x14, 0x17, 0xfb, 0x23, 0xd5, 0x7d, 0x30, 0x67, 0x73, 0x08, 0x09,
     0xee, 0xb7, 0x70, 0x3f, 0x61, 0xb2, 0x19, 0x8e, 0x4e, 0xe5, 0x4b, 0x93, 0x8f, 0x5d, 0xdb, 0xa9,
     0xad, 0xf1, 0xae, 0x2e, 0xcb, 0x0d, 0xfc, 0xf4, 0x2d, 0x46, 0x6e, 0x1d, 0x97, 0xe8, 0xd1, 0xe9,
     0x4d, 0x37, 0xa5, 0x75, 0x5e, 0x83, 0x9e, 0xab, 0x82, 0x9d, 0xb9, 0x1c, 0xe0, 0xcd, 0x49, 0x89,
     0x01, 0xb6, 0xbd, 0x58, 0x24, 0xa2, 0x5f, 0x38, 0x78, 0x99, 0x15, 0x90, 0x50, 0xb8, 0x95, 0xe4,
     0xd0, 0x91, 0xc7, 0xce, 0xed, 0x0f, 0xb4, 0x6f, 0xa0, 0xcc, 0xf0, 0x02, 0x4a, 0x79, 0xc3, 0xde,
     0xa3, 0xef, 0xea, 0x51, 0xe6, 0x6b, 0x18, 0xec, 0x1b, 0x2c, 0x80, 0xf7, 0x74, 0xe7, 0xff, 0x21,
     0x5a, 0x6a, 0x54, 0x1e, 0x41, 0x31, 0x92, 0x35, 0xc4, 0x33, 0x07, 0x0a, 0xba, 0x7e, 0x0e, 0x34,
     0x88, 0xb1, 0x98, 0x7c, 0xf3, 0x3d, 0x60, 0x6c, 0x7b, 0xca, 0xd3, 0x1f, 0x32, 0x65, 0x04, 0x28,
     0x64, 0xbe, 0x85, 0x9b, 0x2f, 0x59, 0x8a, 0xd7, 0xb0, 0x25, 0xac, 0xaf, 0x12, 0x03, 0xe2, 0xf2]"

definition EK_d :: "u32 list" where
  "EK_d =
    [0x44d7, 0x26bc, 0x626b, 0x135e, 0x5789, 0x35e2, 0x7135, 0x09af,
     0x4d78, 0x2f13, 0x6bc4, 0x1af1, 0x5e26, 0x3c4d, 0x789a, 0x47ac]"

record zuc_state =
  LFSR :: "u32 list"
  F_R1 :: u32
  F_R2 :: u32
  BRC_X0 :: u32
  BRC_X1 :: u32
  BRC_X2 :: u32
  BRC_X3 :: u32

definition AddM :: "u32 \<Rightarrow> u32 \<Rightarrow> u32" where
  "AddM a b = (let c = a + b in (c AND 0x7fffffff) + drop_bit 31 c)"

definition MulByPow2 :: "u32 \<Rightarrow> nat \<Rightarrow> u32" where
  "MulByPow2 x k = (push_bit k x OR drop_bit (31 - k) x) AND 0x7fffffff"

definition zuc_feedback :: "u32 list \<Rightarrow> u32" where
  "zuc_feedback s =
     (let f = s ! 0;
          f = AddM f (MulByPow2 (s ! 0) 8);
          f = AddM f (MulByPow2 (s ! 4) 20);
          f = AddM f (MulByPow2 (s ! 10) 21);
          f = AddM f (MulByPow2 (s ! 13) 17)
      in AddM f (MulByPow2 (s ! 15) 15))"

text \<open>The two modes write the same taps out; what differs is the word added while
  initialising.\<close>

definition LFSRWithInitialisationMode :: "u32 \<Rightarrow> zuc_state \<Rightarrow> zuc_state" where
  "LFSRWithInitialisationMode u z = z\<lparr>LFSR := tl (LFSR z) @ [AddM (zuc_feedback (LFSR z)) u]\<rparr>"

definition LFSRWithWorkMode :: "zuc_state \<Rightarrow> zuc_state" where
  "LFSRWithWorkMode z = z\<lparr>LFSR := tl (LFSR z) @ [zuc_feedback (LFSR z)]\<rparr>"

definition BitReorganization :: "zuc_state \<Rightarrow> zuc_state" where
  "BitReorganization z =
     z\<lparr>BRC_X0 := push_bit 1 (LFSR z ! 15 AND 0x7fff8000) OR (LFSR z ! 14 AND 0xffff),
       BRC_X1 := push_bit 16 (LFSR z ! 11 AND 0xffff) OR drop_bit 15 (LFSR z ! 9),
       BRC_X2 := push_bit 16 (LFSR z ! 7 AND 0xffff) OR drop_bit 15 (LFSR z ! 5),
       BRC_X3 := push_bit 16 (LFSR z ! 2 AND 0xffff) OR drop_bit 15 (LFSR z ! 0)\<rparr>"

definition ROT :: "u32 \<Rightarrow> nat \<Rightarrow> u32" where
  "ROT a k = push_bit k a OR drop_bit (32 - k) a"

definition zuc_L1 :: "u32 \<Rightarrow> u32" where
  "zuc_L1 X = X XOR ROT X 2 XOR ROT X 10 XOR ROT X 18 XOR ROT X 24"

definition zuc_L2 :: "u32 \<Rightarrow> u32" where
  "zuc_L2 X = X XOR ROT X 8 XOR ROT X 14 XOR ROT X 22 XOR ROT X 30"

definition zuc_boxes :: "u32 \<Rightarrow> u32" where
  "zuc_boxes u = get32 (entry zuc_S0 (byte32 u 0)) (entry zuc_S1 (byte32 u 1))
                       (entry zuc_S0 (byte32 u 2)) (entry zuc_S1 (byte32 u 3))"

definition zuc_F :: "zuc_state \<Rightarrow> u32 \<times> zuc_state" where
  "zuc_F z =
     (let W = (BRC_X0 z XOR F_R1 z) + F_R2 z;
          W1 = F_R1 z + BRC_X1 z;
          W2 = F_R2 z XOR BRC_X2 z;
          u = zuc_L1 (push_bit 16 W1 OR drop_bit 16 W2);
          v = zuc_L2 (push_bit 16 W2 OR drop_bit 16 W1)
      in (W, z\<lparr>F_R1 := zuc_boxes u, F_R2 := zuc_boxes v\<rparr>))"

definition MAKEU31 :: "u8 \<Rightarrow> u32 \<Rightarrow> u8 \<Rightarrow> u32" where
  "MAKEU31 a b c = push_bit 23 (ucast a) OR push_bit 8 b OR ucast c"

fun zuc_init_loop :: "nat \<Rightarrow> zuc_state \<Rightarrow> zuc_state" where
  "zuc_init_loop 0 z = z"
| "zuc_init_loop (Suc n) z =
     (let (w, z) = zuc_F (BitReorganization z) in zuc_init_loop n (LFSRWithInitialisationMode (drop_bit 1 w) z))"

definition zuc_initialize :: "bytes \<Rightarrow> bytes \<Rightarrow> zuc_state" where
  "zuc_initialize k iv =
     zuc_init_loop 32 \<lparr>LFSR = map (\<lambda>i. MAKEU31 (k ! i) (EK_d ! i) (iv ! i)) [0..<16],
       F_R1 = 0, F_R2 = 0, BRC_X0 = 0, BRC_X1 = 0, BRC_X2 = 0, BRC_X3 = 0\<rparr>"

fun zuc_stream_loop :: "nat \<Rightarrow> zuc_state \<Rightarrow> u32 list" where
  "zuc_stream_loop 0 z = []"
| "zuc_stream_loop (Suc n) z =
     (let (w, z) = zuc_F (BitReorganization z) in (w XOR BRC_X3 z) # zuc_stream_loop n (LFSRWithWorkMode z))"

definition zuc_generate_key_stream :: "nat \<Rightarrow> zuc_state \<Rightarrow> u32 list" where
  "zuc_generate_key_stream n z = zuc_stream_loop n (LFSRWithWorkMode (snd (zuc_F (BitReorganization z))))"

definition ZUC :: "bytes \<Rightarrow> bytes \<Rightarrow> nat \<Rightarrow> u32 list" where
  "ZUC k iv len = zuc_generate_key_stream len (zuc_initialize k iv)"

subsection \<open>Ciphering\<close>

definition eea3_iv :: "u32 \<Rightarrow> u32 \<Rightarrow> u32 \<Rightarrow> bytes" where
  "eea3_iv count bearer dir =
     (let half = put32 count @ [ucast ((push_bit 3 bearer OR push_bit 2 (dir AND 1)) AND 0xfc), 0, 0, 0]
      in half @ half)"

text \<open>The result of the loop on octets; \<open>None\<close> when the message has less octets than its length says.\<close>

definition zuc_eea3 :: "bytes \<Rightarrow> u32 \<Rightarrow> u32 \<Rightarrow> u32 \<Rightarrow> nat \<Rightarrow> bytes \<Rightarrow> bytes option" where
  "zuc_eea3 ck count bearer dir nbits M =
     (let lastbits = (8 - nbits mod 8) mod 8;
          z = ZUC ck (eea3_iv count bearer dir) ((nbits + 31) div 32);
          n = (nbits + 7) div 8;
          C = map (\<lambda>i. M ! i XOR ucast (drop_bit ((3 - i mod 4) * 8) (z ! (i div 4)) AND 0xff)) [0..<n]
      in if length M < n then None
         else if lastbits = 0 then Some C
         else Some (C[n - 1 := C ! (n - 1) AND (0 - push_bit lastbits 1)]))"

subsection \<open>The authentication code\<close>

definition word_at :: "u32 list \<Rightarrow> nat \<Rightarrow> u32 option" where
  "word_at z i = (if i < length z then Some (z ! i) else None)"

definition GET_WORD :: "u32 list \<Rightarrow> nat \<Rightarrow> u32 option" where
  "GET_WORD z i =
     (let ti = i mod 32
      in if ti = 0 then word_at z (i div 32)
         else do { a \<leftarrow> word_at z (i div 32);
                   b \<leftarrow> word_at z (i div 32 + 1);
                   Some (push_bit ti a OR drop_bit (32 - ti) b) })"

definition GET_BIT :: "bytes \<Rightarrow> nat \<Rightarrow> bool option" where
  "GET_BIT M i =
     (if i div 8 < length M then Some (M ! (i div 8) AND push_bit (7 - i mod 8) 1 \<noteq> 0) else None)"

fun eia3_loop :: "u32 list \<Rightarrow> bytes \<Rightarrow> nat list \<Rightarrow> u32 \<Rightarrow> u32 option" where
  "eia3_loop z M [] T = Some T"
| "eia3_loop z M (i # is) T =
     do { b \<leftarrow> GET_BIT M i;
          T \<leftarrow> (if b then do { w \<leftarrow> GET_WORD z i; Some (T XOR w) } else Some T);
          eia3_loop z M is T }"

definition eia3_iv :: "u32 \<Rightarrow> u32 \<Rightarrow> u32 \<Rightarrow> bytes" where
  "eia3_iv count bearer dir =
     (let c = put32 count; b = ucast (push_bit 3 bearer AND 0xf8); d = push_bit 7 (ucast (dir AND 1))
      in c @ [b, 0, 0, 0] @ [c ! 0 XOR d, c ! 1, c ! 2, c ! 3] @ [b, 0, d, 0])"

definition zuc_eia3 :: "bytes \<Rightarrow> u32 \<Rightarrow> u32 \<Rightarrow> u32 \<Rightarrow> nat \<Rightarrow> bytes \<Rightarrow> u32 option" where
  "zuc_eia3 ik count bearer dir nbits M =
     (let L = (nbits + 64 + 31) div 32;
          z = ZUC ik (eia3_iv count bearer dir) L
      in do { T \<leftarrow> eia3_loop z M [0..<nbits] 0;
              w \<leftarrow> GET_WORD z nbits;
              e \<leftarrow> word_at z (L - 1);
              Some (T XOR w XOR e) })"

end
