(* ===== verification/Zuc_Props.thy ===== *)
theory Zuc_Props
  imports Zuc
begin

text \<open>
  The arithmetic of ZUC and what its users rely on. The cells of the shift register are
  residues modulo \<open>2 ^ 31 - 1\<close>, each represented by a number from 1 to \<open>2 ^ 31 - 1\<close>; ciphering is an
  exclusive or with the key stream; the authentication code never reads outside the stream.
\<close>

subsection \<open>Residues\<close>

abbreviation zp :: nat where "zp \<equiv> 2147483647"

definition zuc_rep :: "nat \<Rightarrow> nat" where
  "zuc_rep v = (if v mod zp = 0 then zp else v mod zp)"

definition zuc_cell :: "u32 \<Rightarrow> bool" where
  "zuc_cell c \<longleftrightarrow> 1 \<le> unat c \<and> unat c \<le> zp"

lemma zuc_rep_unique: "1 \<le> v \<Longrightarrow> v \<le> zp \<Longrightarrow> v mod zp = w mod zp \<Longrightarrow> v = zuc_rep w"
  by (cases "v = zp") (auto simp: zuc_rep_def)

lemma zuc_rep_bounds: "1 \<le> zuc_rep v" "zuc_rep v \<le> zp"
  using mod_less_divisor [of zp v] by (auto simp: zuc_rep_def)

lemma zuc_rep_mod [simp]: "zuc_rep v mod zp = v mod zp"
  by (simp add: zuc_rep_def)

lemma zuc_rep_cong: "v mod zp = w mod zp \<Longrightarrow> zuc_rep v = zuc_rep w"
  by (simp add: zuc_rep_def)

lemma zuc_rep_add: "zuc_rep (zuc_rep v + w) = zuc_rep (v + w)" "zuc_rep (v + zuc_rep w) = zuc_rep (v + w)"
  by (rule zuc_rep_cong, metis mod_add_cong zuc_rep_mod)+

lemma and_take31: "c AND 0x7fffffff = take_bit 31 (c :: u32)"
  by (simp add: take_bit_eq_mask mask_numeral)

lemma and_mask31: "unat (c AND 0x7fffffff :: u32) = unat c mod 2 ^ 31"
  unfolding and_take31 by (simp add: take_bit_eq_mod unat_mod_distrib)

lemma AddM_rep:
  assumes "zuc_cell a" "unat b \<le> zp"
  shows "unat (AddM a b) = zuc_rep (unat a + unat b)"
proof -
  define v where "v = unat a + unat b"
  have v: "1 \<le> v" "v \<le> 2 * zp" using assms by (auto simp: v_def zuc_cell_def)
  have c: "unat (a + b) = v" using v by (simp add: v_def unat_word_ariths)
  have d: "unat (drop_bit 31 (a + b)) = v div 2 ^ 31"
    by (simp add: drop_bit_eq_div unat_div_distrib c)
  have s: "unat (AddM a b) = v mod 2 ^ 31 + v div 2 ^ 31"
  proof -
    have "v div 2 ^ 31 \<le> 1" "v mod 2 ^ 31 < 2 ^ 31" using v by simp_all
    then have "v mod 2 ^ 31 + v div 2 ^ 31 < 2 ^ LENGTH(32)" by simp
    then show ?thesis unfolding AddM_def Let_def unat_word_ariths(1) [of "_ AND _"] and_mask31 c d
      by (rule mod_less)
  qed
  show ?thesis
  proof (cases "v \<le> zp")
    case True
    then show ?thesis using s v unfolding v_def [symmetric] by (intro zuc_rep_unique) auto
  next
    case False
    then have "v div 2 ^ 31 = 1" "v mod 2 ^ 31 = v - 2 ^ 31" using v by (auto simp: div_nat_eqI mod_nat_eqI)
    then have "unat (AddM a b) = v - zp" using s False by simp
    then show ?thesis using v False unfolding v_def [symmetric]
      by (intro zuc_rep_unique) (auto simp: le_mod_geq)
  qed
qed

lemma MulByPow2_rep:
  assumes x: "zuc_cell x" and k: "0 < k" "k < 31"
  shows "unat (MulByPow2 x k) = zuc_rep (2 ^ k * unat x)"
proof -
  define j where "j = 31 - k"
  have jk: "j + k = 31" "0 < j" using k by (auto simp: j_def)
  define q r where "q = unat x div 2 ^ j" and "r = unat x mod 2 ^ j"
  have x2: "unat x < 2 ^ 31" "1 \<le> unat x" using x by (auto simp: zuc_cell_def)
  have xq: "unat x = q * 2 ^ j + r" unfolding q_def r_def by (rule div_mult_mod_eq [symmetric])
  have r: "r < 2 ^ j" by (simp add: r_def)
  have q: "q < 2 ^ k"
  proof -
    have "2 ^ k * 2 ^ j = (2 ^ 31 :: nat)" using jk by (simp add: add.commute flip: power_add)
    then show ?thesis using x2(1) unfolding q_def by (intro less_mult_imp_div_less) simp
  qed
  have "x = take_bit 31 x" using x2(1) by (simp add: word_unat_eq_iff unsigned_take_bit_eq take_bit_nat_eq_self)
  then have b: "bit x n \<Longrightarrow> n < 31" for n by (metis bit_take_bit_iff)
  have "MulByPow2 x k = push_bit k (take_bit j x) OR drop_bit j x"
    unfolding MulByPow2_def j_def [symmetric] and_take31
    by (rule bit_word_eqI) (use jk b in \<open>force simp: bit_simps\<close>)
  also have "\<dots> = push_bit k (take_bit j x) + drop_bit j x"
    by (rule disjunctive_add [symmetric]) (use jk b in \<open>force simp: bit_simps\<close>)
  finally have "MulByPow2 x k = push_bit k (take_bit j x) + drop_bit j x" .
  moreover have le: "r * 2 ^ k + q < 2 ^ 31"
  proof -
    have "(r + 1) * 2 ^ k \<le> 2 ^ j * 2 ^ k" using r by (intro mult_le_mono1) simp
    then show ?thesis using q jk by (simp flip: power_add)
  qed
  moreover have "unat (push_bit k (take_bit j x)) = r * 2 ^ k"
  proof -
    have "unat (push_bit k (take_bit j x)) = r * 2 ^ k mod 2 ^ 32"
      unfolding unsigned_push_bit_eq unsigned_take_bit_eq
      by (simp add: push_bit_eq_mult take_bit_eq_mod r_def)
    then show ?thesis using le by simp
  qed
  moreover have "unat (drop_bit j x) = q"
  proof -
    have "unat (drop_bit j x) = drop_bit j (unat x)"
      unfolding unsigned_drop_bit_eq using x2(1) by (simp add: take_bit_nat_eq_self)
    then show ?thesis by (simp add: drop_bit_eq_div q_def)
  qed
  ultimately have m: "unat (MulByPow2 x k) = r * 2 ^ k + q"
    by (simp add: unat_word_ariths)
  have "q * 2 ^ j * 2 ^ k = q * 2 ^ 31" using jk by (simp flip: power_add)
  then have "r * 2 ^ k + q + q * zp = 2 ^ k * unat x"
    unfolding xq by (simp add: algebra_simps)
  then have "(r * 2 ^ k + q) mod zp = (2 ^ k * unat x) mod zp"
    by (metis mod_mult_self1)
  moreover have "r * 2 ^ k + q \<noteq> 0" using x2(2) xq by (cases "r = 0") auto
  then have "1 \<le> r * 2 ^ k + q" by linarith
  ultimately show ?thesis using m le by (intro zuc_rep_unique) auto
qed

subsection \<open>The shift register\<close>

text \<open>The feedback of the specification: a sum of residues, represented from 1 on.\<close>

definition zuc_next :: "nat list \<Rightarrow> nat" where
  "zuc_next s = zuc_rep (2 ^ 15 * s ! 15 + 2 ^ 17 * s ! 13 + 2 ^ 21 * s ! 10 + 2 ^ 20 * s ! 4 + (1 + 2 ^ 8) * s ! 0)"

definition zuc_ok :: "zuc_state \<Rightarrow> bool" where
  "zuc_ok z \<longleftrightarrow> length (LFSR z) = 16 \<and> (\<forall>c \<in> set (LFSR z). zuc_cell c)"

lemma cell_rep: "unat c = zuc_rep v \<Longrightarrow> zuc_cell c"
  using zuc_rep_bounds [of v] by (simp add: zuc_cell_def)

lemma AddM_step:
  assumes "unat a = zuc_rep v" "zuc_cell x" "0 < k" "k < 31"
  shows "unat (AddM a (MulByPow2 x k)) = zuc_rep (v + 2 ^ k * unat x)"
proof -
  note m = MulByPow2_rep [OF assms(2-4)]
  have "unat (AddM a (MulByPow2 x k)) = zuc_rep (unat a + unat (MulByPow2 x k))"
    using cell_rep [OF assms(1)] m zuc_rep_bounds(2) by (intro AddM_rep) auto
  then show ?thesis unfolding m assms(1) by (simp only: zuc_rep_add)
qed

lemma feedback_next:
  assumes "length s = 16" "\<forall>c \<in> set s. zuc_cell c"
  shows "unat (zuc_feedback s) = zuc_next (map unat s)"
proof -
  have c: "zuc_cell (s ! i)" if "i < 16" for i using assms that by simp
  have "unat (s ! 0) = zuc_rep (unat (s ! 0))"
    using c [of 0] by (intro zuc_rep_unique) (auto simp: zuc_cell_def)
  note f = AddM_step [OF AddM_step [OF AddM_step [OF AddM_step [OF AddM_step [OF this]]]]]
  have "unat (zuc_feedback s) = zuc_rep (unat (s ! 0) + 2 ^ 8 * unat (s ! 0) + 2 ^ 20 * unat (s ! 4) +
      2 ^ 21 * unat (s ! 10) + 2 ^ 17 * unat (s ! 13) + 2 ^ 15 * unat (s ! 15))"
    unfolding zuc_feedback_def Let_def by (rule f) (use c in auto)
  then show ?thesis using assms(1) by (simp add: zuc_next_def algebra_simps)
qed

lemma shift_ok: "zuc_ok z \<Longrightarrow> zuc_cell c \<Longrightarrow> zuc_ok (z\<lparr>LFSR := tl (LFSR z) @ [c]\<rparr>)"
  by (cases "LFSR z") (auto simp: zuc_ok_def)

lemma work_ok:
  assumes "zuc_ok z"
  shows "zuc_ok (LFSRWithWorkMode z)"
    and "LFSR (LFSRWithWorkMode z) = tl (LFSR z) @ [zuc_feedback (LFSR z)]"
    and "unat (zuc_feedback (LFSR z)) = zuc_next (map unat (LFSR z))"
proof -
  show n: "unat (zuc_feedback (LFSR z)) = zuc_next (map unat (LFSR z))"
    using assms by (intro feedback_next) (auto simp: zuc_ok_def)
  show "zuc_ok (LFSRWithWorkMode z)"
    unfolding LFSRWithWorkMode_def using n
    by (intro shift_ok assms cell_rep) (simp add: zuc_next_def)
  show "LFSR (LFSRWithWorkMode z) = tl (LFSR z) @ [zuc_feedback (LFSR z)]"
    by (simp add: LFSRWithWorkMode_def)
qed

lemma init_ok:
  assumes "zuc_ok z" "unat u \<le> zp"
  shows "zuc_ok (LFSRWithInitialisationMode u z)"
proof -
  have n: "unat (zuc_feedback (LFSR z)) = zuc_next (map unat (LFSR z))"
    using assms by (intro feedback_next) (auto simp: zuc_ok_def)
  then have "zuc_cell (zuc_feedback (LFSR z))" by (intro cell_rep) (simp add: zuc_next_def)
  from AddM_rep [OF this assms(2)] show ?thesis
    unfolding LFSRWithInitialisationMode_def by (intro shift_ok assms(1) cell_rep)
qed

lemma same_register [simp]: "LFSR (BitReorganization z) = LFSR z" "LFSR (snd (zuc_F z)) = LFSR z"
  by (simp_all add: BitReorganization_def zuc_F_def Let_def)

lemma same_ok [simp]: "zuc_ok (BitReorganization z) = zuc_ok z" "zuc_ok (snd (zuc_F z)) = zuc_ok z"
  by (simp_all add: zuc_ok_def)

lemma init_loop_ok: "zuc_ok z \<Longrightarrow> zuc_ok (zuc_init_loop n z)"
proof (induction n arbitrary: z)
  case (Suc n)
  obtain w y where f: "zuc_F (BitReorganization z) = (w, y)" by force
  then have "zuc_ok y" using Suc.prems same_ok(2) [of "BitReorganization z"] by simp
  moreover have "unat w < 2 ^ LENGTH(32)" by (rule unsigned_less)
  then have "unat (drop_bit 1 w) \<le> zp" by (simp add: drop_bit_eq_div unat_div_distrib)
  ultimately show ?case using Suc.IH init_ok f by simp
qed simp

lemma key_cell: "b \<in> set EK_d \<Longrightarrow> zuc_cell (MAKEU31 a b c)"
proof -
  assume b: "b \<in> set EK_d"
  have d: "b \<noteq> 0" "unat b < 2 ^ 15" using b by (auto simp: EK_d_def)
  then have "\<not> (\<forall>m. \<not> bit b m)" by (auto intro: bit_word_eqI)
  then obtain m where m: "bit b m" by blast
  have b15: "bit b n \<Longrightarrow> n < 15" for n using bit_less_exp [OF d(2)] .
  have "bit (MAKEU31 a b c) (m + 8)"
    using m b15 [of m] by (simp add: MAKEU31_def bit_simps)
  then have "MAKEU31 a b c \<noteq> 0" by auto
  moreover have "take_bit 31 (MAKEU31 a b c) = MAKEU31 a b c"
    by (rule bit_word_eqI) (use b15 in \<open>force simp: MAKEU31_def bit_simps\<close>)
  then have "unat (MAKEU31 a b c) < 2 ^ 31" by (rule unat_take_bit_less)
  ultimately show ?thesis by (simp add: zuc_cell_def unat_gt_0 Suc_le_eq)
qed

lemma initialize_ok: "zuc_ok (zuc_initialize k iv)"
proof -
  have "length EK_d = 16" by (simp add: EK_d_def)
  then show ?thesis
    unfolding zuc_initialize_def
    by (intro init_loop_ok) (auto simp: zuc_ok_def simp del: upt_Suc intro!: key_cell)
qed

text \<open>One clock of the generator, and the states it goes through.\<close>

definition zuc_clock :: "zuc_state \<Rightarrow> zuc_state" where
  "zuc_clock z = LFSRWithWorkMode (snd (zuc_F (BitReorganization z)))"

lemma zuc_clock_ok: "zuc_ok z \<Longrightarrow> zuc_ok (zuc_clock z)"
  unfolding zuc_clock_def by (intro work_ok) simp

lemma zuc_run_ok: "zuc_ok ((zuc_clock ^^ n) (zuc_initialize k iv))"
  by (induction n) (simp_all add: initialize_ok zuc_clock_ok)

text \<open>C36. In every state of the generator the sixteen cells hold numbers from 1 to \<open>2 ^ 31 - 1\<close>, and a clock shifts in the sum modulo \<open>2 ^ 31 - 1\<close> that the specification of ZUC prescribes, with \<open>2 ^ 31 - 1\<close> for 0.\<close>

theorem zuc_register_type:
  "let s = LFSR ((zuc_clock ^^ n) (zuc_initialize k iv))
   in length s = 16 \<and> list_all (\<lambda>c. 1 \<le> unat c \<and> unat c \<le> 2 ^ 31 - 1) s \<and>
      map unat (LFSR ((zuc_clock ^^ Suc n) (zuc_initialize k iv))) =
        tl (map unat s) @ [zuc_next (map unat s)]"
proof -
  define z where "z = (zuc_clock ^^ n) (zuc_initialize k iv)"
  have ok: "zuc_ok z" unfolding z_def by (rule zuc_run_ok)
  then have "zuc_ok (snd (zuc_F (BitReorganization z)))" by simp
  note w = work_ok(2,3) [OF this]
  have "map unat (LFSR (zuc_clock z)) = tl (map unat (LFSR z)) @ [zuc_next (map unat (LFSR z))]"
    using w by (simp add: zuc_clock_def map_tl)
  then show ?thesis
    using ok unfolding Let_def funpow.simps comp_def z_def [symmetric] by (auto simp: zuc_ok_def zuc_cell_def list_all_length)
qed

subsection \<open>Ciphering\<close>

lemma length_zuc_stream [simp]: "length (zuc_stream_loop n z) = n"
  by (induction n arbitrary: z) (simp_all add: split_beta)

lemma length_ZUC [simp]: "length (ZUC k iv n) = n"
  by (simp add: ZUC_def zuc_generate_key_stream_def)

lemma eea3_stream:
  "zuc_eea3 ck count bearer dir (8 * length M) M =
   Some (xor_bytes M (concat (map put32 (ZUC ck (eea3_iv count bearer dir) ((length M + 3) div 4)))))"
proof -
  let ?z = "ZUC ck (eea3_iv count bearer dir) ((length M + 3) div 4)"
  have n: "(8 * length M + 31) div 32 = (length M + 3) div 4" "(8 * length M + 7) div 8 = length M"
    by presburger+
  have le: "length M \<le> 4 * ((length M + 3) div 4)" by presburger
  have "map (\<lambda>i. M ! i XOR ucast (drop_bit ((3 - i mod 4) * 8) (?z ! (i div 4)) AND 0xff)) [0..<length M] =
      xor_bytes M (concat (map put32 ?z))"
  proof (rule nth_equalityI)
    fix i assume "i < length (map (\<lambda>i. M ! i XOR ucast (drop_bit ((3 - i mod 4) * 8) (?z ! (i div 4)) AND 0xff)) [0..<length M])"
    then have i: "i < length M" "i < 4 * length ?z" using le by auto
    then show "map (\<lambda>i. M ! i XOR ucast (drop_bit ((3 - i mod 4) * 8) (?z ! (i div 4)) AND 0xff)) [0..<length M] ! i =
        xor_bytes M (concat (map put32 ?z)) ! i"
      using le by (simp add: xor_bytes_def nth_words byte32_def mult.commute)
  qed (use le in simp)
  then show ?thesis unfolding zuc_eea3_def Let_def n by simp
qed

lemma eea3_twice:
  assumes "zuc_eea3 ck count bearer dir (8 * length M) M = Some C"
  shows "length C = length M" "zuc_eea3 ck count bearer dir (8 * length C) C = Some M"
proof -
  have le: "length M \<le> 4 * ((length M + 3) div 4)" by presburger
  show C: "length C = length M" using assms le unfolding eea3_stream by auto
  have "C = xor_bytes M (concat (map put32 (ZUC ck (eea3_iv count bearer dir) ((length M + 3) div 4))))"
    using assms unfolding eea3_stream by simp
  then have "xor_bytes C (concat (map put32 (ZUC ck (eea3_iv count bearer dir) ((length M + 3) div 4)))) = M"
    using le by (simp add: xor_bytes_twice)
  then show "zuc_eea3 ck count bearer dir (8 * length C) C = Some M"
    using eea3_stream [of ck count bearer dir C] C by simp
qed

subsection \<open>The authentication code\<close>

text \<open>The key stream as a sequence of bits, and the word that starts at a bit of it.\<close>

definition stream_bit :: "u32 list \<Rightarrow> nat \<Rightarrow> bool" where
  "stream_bit z i = bit (z ! (i div 32)) (31 - i mod 32)"

definition stream_word :: "u32 list \<Rightarrow> nat \<Rightarrow> u32" where
  "stream_word z i = horner_sum of_bool 2 (rev (map (\<lambda>j. stream_bit z (i + j)) [0..<32]))"

definition message_bit :: "bytes \<Rightarrow> nat \<Rightarrow> bool" where
  "message_bit M i = bit (M ! (i div 8)) (7 - i mod 8)"

lemma stream_bit_block: "m < 32 \<Longrightarrow> stream_bit z (32 * q + m) = bit (z ! q) (31 - m)"
  by (simp add: stream_bit_def)

lemma stream_bit_next:
  assumes "32 \<le> m" "m < 64"
  shows "stream_bit z (32 * q + m) = bit (z ! (q + 1)) (63 - m)"
proof -
  have "stream_bit z (32 * q + m) = stream_bit z (32 * (q + 1) + (m - 32))" using assms by simp
  also have "\<dots> = bit (z ! (q + 1)) (31 - (m - 32))" by (rule stream_bit_block) (use assms in simp)
  also have "31 - (m - 32) = 63 - m" using assms by simp
  finally show ?thesis .
qed

lemma bit_stream_word:
  assumes "n < 32"
  shows "bit (stream_word z i) n = stream_bit z (i + (31 - n))"
proof -
  have "[0..<32] ! (31 - n) = 31 - n" using assms by (subst nth_upt) auto
  then show ?thesis
    using assms by (simp add: stream_word_def bit_horner_sum_bit_iff rev_nth del: upt_Suc)
qed

lemma GET_WORD_stream:
  assumes "i div 32 < length z" "i mod 32 \<noteq> 0 \<Longrightarrow> i div 32 + 1 < length z"
  shows "GET_WORD z i = Some (stream_word z i)"
proof -
  define q t where "q = i div 32" and "t = i mod 32"
  have i: "i = 32 * q + t" "t < 32" by (simp_all add: q_def t_def)
  have word: "bit (stream_word z i) n =
      (if n < t then bit (z ! (q + 1)) (32 + n - t) else bit (z ! q) (n - t))" if n: "n < 32" for n
  proof (cases "n < t")
    case True
    then have "32 \<le> t + (31 - n)" "t + (31 - n) < 64" "63 - (t + (31 - n)) = 32 + n - t" using n i(2) by auto
    then have "stream_bit z (32 * q + (t + (31 - n))) = bit (z ! (q + 1)) (32 + n - t)"
      using stream_bit_next [of "t + (31 - n)" z q] by (simp only:)
    then show ?thesis unfolding bit_stream_word [OF n] i(1) add.assoc using True by (simp only: if_True)
  next
    case False
    then have "t + (31 - n) < 32" "31 - (t + (31 - n)) = n - t" using n i(2) by auto
    then have "stream_bit z (32 * q + (t + (31 - n))) = bit (z ! q) (n - t)"
      using stream_bit_block [of "t + (31 - n)" z q] by (simp only:)
    then show ?thesis unfolding bit_stream_word [OF n] i(1) add.assoc using False by (simp only: if_False)
  qed
  show ?thesis
  proof (cases "t = 0")
    case True
    have "z ! q = stream_word z i"
      by (rule bit_word_eqI) (use True word in auto)
    then show ?thesis using True assms by (simp add: GET_WORD_def word_at_def q_def t_def)
  next
    case False
    have "push_bit t (z ! q) OR drop_bit (32 - t) (z ! (q + 1)) = stream_word z i"
    proof (rule bit_word_eqI)
      fix n assume "n < LENGTH(32)"
      then have n: "n < 32" by simp
      have "bit (z ! (q + 1)) (32 - t + n) \<Longrightarrow> 32 - t + n < 32"
        by (drule bit_imp_le_length) simp
      then show "bit (push_bit t (z ! q) OR drop_bit (32 - t) (z ! (q + 1))) n = bit (stream_word z i) n"
        unfolding word [OF n] using n i(2) False by (auto simp: bit_simps)
    qed
    then show ?thesis using False assms by (simp add: GET_WORD_def word_at_def Let_def flip: q_def t_def)
  qed
qed

lemma GET_BIT_message:
  assumes "i < 8 * length M"
  shows "GET_BIT M i = Some (message_bit M i)"
proof -
  have "i div 8 < length M" using assms by (simp add: less_mult_imp_div_less mult.commute)
  then show ?thesis
    unfolding GET_BIT_def message_bit_def bit_iff_and_push_bit_not_eq_0 by simp
qed

definition eia3_sum :: "u32 list \<Rightarrow> bytes \<Rightarrow> nat list \<Rightarrow> u32 \<Rightarrow> u32" where
  "eia3_sum z M is T = foldl (\<lambda>T i. if message_bit M i then T XOR stream_word z i else T) T is"

lemma eia3_loop_sum:
  assumes "\<forall>i \<in> set is. i < 8 * length M \<and> i div 32 + 1 < length z"
  shows "eia3_loop z M is T = Some (eia3_sum z M is T)"
  using assms
proof (induction "is" arbitrary: T)
  case (Cons i "is")
  then have "GET_BIT M i = Some (message_bit M i)" "GET_WORD z i = Some (stream_word z i)"
    by (auto intro!: GET_BIT_message GET_WORD_stream)
  then show ?case using Cons by (simp add: eia3_sum_def)
qed (simp add: eia3_sum_def)

text \<open>C37. Over a message that has the octets its length says, the authentication code of EIA3 reads nothing outside the key stream and the message, and is the sum of the stream words at the set bits of the message, at its end and of the last word.\<close>

theorem zuc_eia3_sum:
  assumes "nbits \<le> 8 * length M"
  shows "let L = (nbits + 95) div 32; z = ZUC ik (eia3_iv count bearer dir) L
         in zuc_eia3 ik count bearer dir nbits M =
            Some (eia3_sum z M [0..<nbits] 0 XOR stream_word z nbits XOR stream_word z (32 * (L - 1)))"
proof -
  define L where "L = (nbits + 95) div 32"
  define z where "z = ZUC ik (eia3_iv count bearer dir) L"
  have len: "length z = L" by (simp add: z_def)
  have L: "i div 32 + 1 < L" if "i \<le> nbits" for i
  proof -
    have "i div 32 \<le> nbits div 32" using that by (rule div_le_mono)
    moreover have "(nbits + 64) div 32 \<le> (nbits + 95) div 32" by (rule div_le_mono) simp
    ultimately show ?thesis by (simp add: L_def)
  qed
  have loop: "eia3_loop z M [0..<nbits] 0 = Some (eia3_sum z M [0..<nbits] 0)"
    by (rule eia3_loop_sum) (use assms L in \<open>auto simp: len\<close>)
  have w: "GET_WORD z nbits = Some (stream_word z nbits)"
    using L [of nbits] by (intro GET_WORD_stream) (auto simp: len)
  have "GET_WORD z (32 * (L - 1)) = Some (stream_word z (32 * (L - 1)))"
    using L [of 0] by (intro GET_WORD_stream) (auto simp: len)
  then have e: "word_at z (L - 1) = Some (stream_word z (32 * (L - 1)))"
    by (simp add: GET_WORD_def)
  have "nbits + 64 + 31 = nbits + 95" by simp
  then show ?thesis
    unfolding zuc_eia3_def Let_def by (simp only: flip: L_def) (simp add: loop w e del: One_nat_def flip: z_def)
qed

theorem zuc_eia3_sum_witness:
  "zuc_eia3 (replicate 16 0) 0 0 0 1 [0] =
   Some (eia3_sum (ZUC (replicate 16 0) (eia3_iv 0 0 0) 3) [0] [0] 0 XOR
         stream_word (ZUC (replicate 16 0) (eia3_iv 0 0 0) 3) 1 XOR
         stream_word (ZUC (replicate 16 0) (eia3_iv 0 0 0) 3) 64)"
  using zuc_eia3_sum [of 1 "[0]" "replicate 16 0" 0 0 0] by (simp add: Let_def)

end
