(* ===== verification/Aes.thy ===== *)
theory Aes
  imports Aes_Tables Crypt_Words
begin

text \<open>
  The block cipher of \<open>lib/crypt/ogs-aes.c\<close> and its chaining modes. The state is the four 32-bit
  columns \<open>s0\<close> to \<open>s3\<close>; the unrolled rounds, which differ in the offset of the round key only, are a
  recursion. A key schedule is the list of its words. Keys have at least as many octets as the
  key size says, blocks have 16.
\<close>

type_synonym aes_state = "u32 \<times> u32 \<times> u32 \<times> u32"

subsection \<open>Key schedules\<close>

definition aes_sub_rot :: "u32 \<Rightarrow> u32" where
  "aes_sub_rot t =
     (entry Te4 (byte32 t 1) AND 0xff000000) XOR (entry Te4 (byte32 t 2) AND 0x00ff0000) XOR
     (entry Te4 (byte32 t 3) AND 0x0000ff00) XOR (entry Te4 (byte32 t 0) AND 0x000000ff)"

definition aes_sub :: "u32 \<Rightarrow> u32" where
  "aes_sub t =
     (entry Te4 (byte32 t 0) AND 0xff000000) XOR (entry Te4 (byte32 t 1) AND 0x00ff0000) XOR
     (entry Te4 (byte32 t 2) AND 0x0000ff00) XOR (entry Te4 (byte32 t 3) AND 0x000000ff)"

text \<open>
  The loops of the three key sizes. The first argument counts the rounds left; the last round
  of the longer keys writes four words only.
\<close>

fun aes_expand128 :: "nat \<Rightarrow> nat \<Rightarrow> u32 list \<Rightarrow> u32 list" where
  "aes_expand128 0 i rk = rk"
| "aes_expand128 (Suc n) i rk =
     (let b = 4 * i;
          k4 = rk ! b XOR aes_sub_rot (rk ! (b + 3)) XOR rcon ! i;
          k5 = rk ! (b + 1) XOR k4;
          k6 = rk ! (b + 2) XOR k5;
          k7 = rk ! (b + 3) XOR k6
      in aes_expand128 n (i + 1) (rk @ [k4, k5, k6, k7]))"

fun aes_expand192 :: "nat \<Rightarrow> nat \<Rightarrow> u32 list \<Rightarrow> u32 list" where
  "aes_expand192 0 i rk = rk"
| "aes_expand192 (Suc n) i rk =
     (let b = 6 * i;
          k6 = rk ! b XOR aes_sub_rot (rk ! (b + 5)) XOR rcon ! i;
          k7 = rk ! (b + 1) XOR k6;
          k8 = rk ! (b + 2) XOR k7;
          k9 = rk ! (b + 3) XOR k8;
          k10 = rk ! (b + 4) XOR k9;
          k11 = rk ! (b + 5) XOR k10
      in if n = 0 then rk @ [k6, k7, k8, k9]
         else aes_expand192 n (i + 1) (rk @ [k6, k7, k8, k9, k10, k11]))"

fun aes_expand256 :: "nat \<Rightarrow> nat \<Rightarrow> u32 list \<Rightarrow> u32 list" where
  "aes_expand256 0 i rk = rk"
| "aes_expand256 (Suc n) i rk =
     (let b = 8 * i;
          k8 = rk ! b XOR aes_sub_rot (rk ! (b + 7)) XOR rcon ! i;
          k9 = rk ! (b + 1) XOR k8;
          k10 = rk ! (b + 2) XOR k9;
          k11 = rk ! (b + 3) XOR k10;
          k12 = rk ! (b + 4) XOR aes_sub k11;
          k13 = rk ! (b + 5) XOR k12;
          k14 = rk ! (b + 6) XOR k13;
          k15 = rk ! (b + 7) XOR k14
      in if n = 0 then rk @ [k8, k9, k10, k11]
         else aes_expand256 n (i + 1) (rk @ [k8, k9, k10, k11, k12, k13, k14, k15]))"

text \<open>The number of rounds, 0 for an unknown key size, and the words written.\<close>

definition ogs_aes_setup_enc :: "bytes \<Rightarrow> nat \<Rightarrow> nat \<times> u32 list" where
  "ogs_aes_setup_enc key keybits =
     (let rk = [be_word key 0, be_word key 4, be_word key 8, be_word key 12]
      in if keybits = 128 then (10, aes_expand128 10 0 rk)
         else
           let rk = rk @ [be_word key 16, be_word key 20]
           in if keybits = 192 then (12, aes_expand192 8 0 rk)
              else
                let rk = rk @ [be_word key 24, be_word key 28]
                in if keybits = 256 then (14, aes_expand256 7 0 rk) else (0, rk))"

definition aes_swap :: "nat \<Rightarrow> nat \<Rightarrow> u32 list \<Rightarrow> u32 list" where
  "aes_swap i j rk = rk[i := rk ! j, j := rk ! i]"

function aes_reverse :: "nat \<Rightarrow> nat \<Rightarrow> u32 list \<Rightarrow> u32 list" where
  "aes_reverse i j rk =
     (if i < j
      then aes_reverse (i + 4) (j - 4)
             (aes_swap (i + 3) (j + 3) (aes_swap (i + 2) (j + 2) (aes_swap (i + 1) (j + 1) (aes_swap i j rk))))
      else rk)"
  by pat_completeness auto
termination by (relation "measure (\<lambda>(i, j, _). j - i)") auto

declare aes_reverse.simps [simp del]

definition aes_inv_mix :: "u32 \<Rightarrow> u32" where
  "aes_inv_mix w =
     entry Td0 (ucast (entry Te4 (byte32 w 0) AND 0xff)) XOR entry Td1 (ucast (entry Te4 (byte32 w 1) AND 0xff)) XOR
     entry Td2 (ucast (entry Te4 (byte32 w 2) AND 0xff)) XOR entry Td3 (ucast (entry Te4 (byte32 w 3) AND 0xff))"

fun aes_mix_keys :: "nat list \<Rightarrow> u32 list \<Rightarrow> u32 list" where
  "aes_mix_keys [] rk = rk"
| "aes_mix_keys (i # is) rk =
     aes_mix_keys is
       (rk[4 * i := aes_inv_mix (rk ! (4 * i)), 4 * i + 1 := aes_inv_mix (rk ! (4 * i + 1)),
           4 * i + 2 := aes_inv_mix (rk ! (4 * i + 2)), 4 * i + 3 := aes_inv_mix (rk ! (4 * i + 3))])"

definition ogs_aes_setup_dec :: "bytes \<Rightarrow> nat \<Rightarrow> nat \<times> u32 list" where
  "ogs_aes_setup_dec key keybits =
     (let (nrounds, rk) = ogs_aes_setup_enc key keybits
      in (nrounds, aes_mix_keys [1..<nrounds] (aes_reverse 0 (4 * nrounds) rk)))"

subsection \<open>Blocks\<close>

definition aes_load :: "bytes \<Rightarrow> u32 list \<Rightarrow> aes_state" where
  "aes_load bs rk = (be_word bs 0 XOR rk ! 0, be_word bs 4 XOR rk ! 1, be_word bs 8 XOR rk ! 2, be_word bs 12 XOR rk ! 3)"

definition aes_store :: "aes_state \<Rightarrow> bytes" where
  "aes_store = (\<lambda>(s0, s1, s2, s3). put32 s0 @ put32 s1 @ put32 s2 @ put32 s3)"

definition aes_enc_word :: "u32 \<Rightarrow> u32 \<Rightarrow> u32 \<Rightarrow> u32 \<Rightarrow> u32" where
  "aes_enc_word a b c d =
     entry Te0 (byte32 a 0) XOR entry Te1 (byte32 b 1) XOR entry Te2 (byte32 c 2) XOR entry Te3 (byte32 d 3)"

definition aes_enc_round :: "u32 list \<Rightarrow> nat \<Rightarrow> aes_state \<Rightarrow> aes_state" where
  "aes_enc_round rk r = (\<lambda>(s0, s1, s2, s3).
     (aes_enc_word s0 s1 s2 s3 XOR rk ! (4 * r), aes_enc_word s1 s2 s3 s0 XOR rk ! (4 * r + 1),
      aes_enc_word s2 s3 s0 s1 XOR rk ! (4 * r + 2), aes_enc_word s3 s0 s1 s2 XOR rk ! (4 * r + 3)))"

definition aes_last_word :: "u32 list \<Rightarrow> u32 \<Rightarrow> u32 \<Rightarrow> u32 \<Rightarrow> u32 \<Rightarrow> u32" where
  "aes_last_word T a b c d =
     (entry T (byte32 a 0) AND 0xff000000) XOR (entry T (byte32 b 1) AND 0x00ff0000) XOR
     (entry T (byte32 c 2) AND 0x0000ff00) XOR (entry T (byte32 d 3) AND 0x000000ff)"

text \<open>The number of full rounds before the last one.\<close>

definition aes_full_rounds :: "nat \<Rightarrow> nat" where
  "aes_full_rounds nrounds = (if nrounds > 12 then 13 else if nrounds > 10 then 11 else 9)"

definition ogs_aes_encrypt :: "u32 list \<Rightarrow> nat \<Rightarrow> bytes \<Rightarrow> bytes" where
  "ogs_aes_encrypt rk nrounds plaintext =
     (let (t0, t1, t2, t3) = fold (aes_enc_round rk) [1..<Suc (aes_full_rounds nrounds)] (aes_load plaintext rk);
          o4 = 4 * nrounds
      in aes_store
           (aes_last_word Te4 t0 t1 t2 t3 XOR rk ! o4, aes_last_word Te4 t1 t2 t3 t0 XOR rk ! (o4 + 1),
            aes_last_word Te4 t2 t3 t0 t1 XOR rk ! (o4 + 2), aes_last_word Te4 t3 t0 t1 t2 XOR rk ! (o4 + 3)))"

definition aes_dec_word :: "u32 \<Rightarrow> u32 \<Rightarrow> u32 \<Rightarrow> u32 \<Rightarrow> u32" where
  "aes_dec_word a b c d =
     entry Td0 (byte32 a 0) XOR entry Td1 (byte32 b 1) XOR entry Td2 (byte32 c 2) XOR entry Td3 (byte32 d 3)"

definition aes_dec_round :: "u32 list \<Rightarrow> nat \<Rightarrow> aes_state \<Rightarrow> aes_state" where
  "aes_dec_round rk r = (\<lambda>(s0, s1, s2, s3).
     (aes_dec_word s0 s3 s2 s1 XOR rk ! (4 * r), aes_dec_word s1 s0 s3 s2 XOR rk ! (4 * r + 1),
      aes_dec_word s2 s1 s0 s3 XOR rk ! (4 * r + 2), aes_dec_word s3 s2 s1 s0 XOR rk ! (4 * r + 3)))"

definition ogs_aes_decrypt :: "u32 list \<Rightarrow> nat \<Rightarrow> bytes \<Rightarrow> bytes" where
  "ogs_aes_decrypt rk nrounds ciphertext =
     (let (t0, t1, t2, t3) = fold (aes_dec_round rk) [1..<Suc (aes_full_rounds nrounds)] (aes_load ciphertext rk);
          o4 = 4 * nrounds
      in aes_store
           (aes_last_word Td4 t0 t3 t2 t1 XOR rk ! o4, aes_last_word Td4 t1 t0 t3 t2 XOR rk ! (o4 + 1),
            aes_last_word Td4 t2 t1 t0 t3 XOR rk ! (o4 + 2), aes_last_word Td4 t3 t2 t1 t0 XOR rk ! (o4 + 3)))"

end
