(* ===== verification/Aes_Props.thy ===== *)
theory Aes_Props
  imports Aes
begin

text \<open>
  The table-driven cipher of \<open>lib/crypt/ogs-aes.c\<close> is AES: its rounds are the substitution, the
  shift of the rows, the mixing of the columns and the addition of a round key, and its
  decryption, on the schedule with mixed keys, undoes encryption for every key size.
\<close>

subsection \<open>The steps of a round on columns\<close>

definition aes_sbox :: "u8 list" where "aes_sbox = map ucast Te4"

definition aes_inv_sbox :: "u8 list" where "aes_inv_sbox = map ucast Td4"

abbreviation x2 :: "u8 \<Rightarrow> u8" where "x2 b \<equiv> MULx b 0x1b"

definition mix_column :: "u32 \<Rightarrow> u32" where
  "mix_column w =
     (let a = byte32 w 0; b = byte32 w 1; c = byte32 w 2; d = byte32 w 3
      in get32 (x2 a XOR (x2 b XOR b) XOR c XOR d) (a XOR x2 b XOR (x2 c XOR c) XOR d)
               (a XOR b XOR x2 c XOR (x2 d XOR d)) ((x2 a XOR a) XOR b XOR c XOR x2 d))"

definition x9 :: "u8 \<Rightarrow> u8" where "x9 b = x2 (x2 (x2 b)) XOR b"
definition xb :: "u8 \<Rightarrow> u8" where "xb b = x2 (x2 (x2 b)) XOR x2 b XOR b"
definition xd :: "u8 \<Rightarrow> u8" where "xd b = x2 (x2 (x2 b)) XOR x2 (x2 b) XOR b"
definition xe :: "u8 \<Rightarrow> u8" where "xe b = x2 (x2 (x2 b)) XOR x2 (x2 b) XOR x2 b"

lemmas multiples = x9_def xb_def xd_def xe_def

definition inv_mix_column :: "u32 \<Rightarrow> u32" where
  "inv_mix_column w =
     (let a = byte32 w 0; b = byte32 w 1; c = byte32 w 2; d = byte32 w 3
      in get32 (xe a XOR xb b XOR xd c XOR x9 d) (x9 a XOR xe b XOR xb c XOR xd d)
               (xd a XOR x9 b XOR xe c XOR xb d) (xb a XOR xd b XOR x9 c XOR xe d))"

lemma inv_mix_mix: "inv_mix_column (mix_column w) = w"
proof -
  obtain a b c d where w: "w = get32 a b c d" by (rule word_octets)
  show ?thesis
    unfolding w inv_mix_column_def mix_column_def Let_def byte32_get32 get32_inject multiples MULx_xor
    by (simp add: ac_simps)
qed

lemma multiples_xor: "x9 (a XOR b) = x9 a XOR x9 b" "xb (a XOR b) = xb a XOR xb b"
  "xd (a XOR b) = xd a XOR xd b" "xe (a XOR b) = xe a XOR xe b"
  by (simp_all add: multiples MULx_xor ac_simps)

lemma inv_mix_xor: "inv_mix_column (v XOR w) = inv_mix_column v XOR inv_mix_column w"
  unfolding inv_mix_column_def Let_def get32_xor byte32_xor multiples_xor get32_inject
  by (simp add: ac_simps)

subsection \<open>The tables\<close>

lemma length_sbox: "length aes_sbox = 256" "length aes_inv_sbox = 256"
  by (simp_all add: aes_sbox_def aes_inv_sbox_def Te4_def Td4_def)

text \<open>The tables of one kind are rotations of each other.\<close>

definition rot8 :: "u32 \<Rightarrow> u32" where "rot8 w = push_bit 24 w OR drop_bit 8 w"

lemma rot8_get32 [simp]: "rot8 (get32 a b c d) = get32 d a b c"
  unfolding rot8_def get32_def by (rule bit_word_eqI) (auto simp: bit_simps)

lemma Te1_rotation: "Te1 = map rot8 Te0"
  by (simp add: Te1_def Te0_def rot8_def)
lemma Te2_rotation: "Te2 = map rot8 Te1"
  by (simp add: Te2_def Te1_def rot8_def)
lemma Te3_rotation: "Te3 = map rot8 Te2"
  by (simp add: Te3_def Te2_def rot8_def)
lemma Td1_rotation: "Td1 = map rot8 Td0"
  by (simp add: Td1_def Td0_def rot8_def)
lemma Td2_rotation: "Td2 = map rot8 Td1"
  by (simp add: Td2_def Td1_def rot8_def)
lemma Td3_rotation: "Td3 = map rot8 Td2"
  by (simp add: Td3_def Td2_def rot8_def)

lemmas table_rotations = Te1_rotation Te2_rotation Te3_rotation Td1_rotation Td2_rotation Td3_rotation

lemma Te0_columns: "Te0 = map (\<lambda>s. get32 (x2 s) s s (x2 s XOR s)) aes_sbox"
  by (simp add: aes_sbox_def Te4_def Te0_def MULx_def get32_def)

lemma Te4_columns: "Te4 = map (\<lambda>s. get32 s s s s) aes_sbox"
  by (simp add: aes_sbox_def Te4_def get32_def)

lemma Td0_bits:
  "get32 (xe s) (x9 s) (xd s) (xb s) =
   bitwise (\<lambda>i. [0x0e090d0b, 0x1c121a16, 0x3824342c, 0x70486858, 0xe090d0b0, 0xdb3bbb7b, 0xad766df6, 0x41ecdaf7] ! i) s"
proof -
  let ?f = "\<lambda>s. get32 (xe s) (x9 s) (xd s) (xb s)"
  have "?f s = bitwise (\<lambda>i. ?f (push_bit i 1)) s"
    by (rule linear_bitwise) (simp add: get32_xor multiples_xor)
  moreover have "x2 1 = 2" "x2 2 = 4" "x2 4 = 8" "x2 8 = 16" "x2 16 = 32" "x2 32 = 64" "x2 64 = 128"
    "x2 128 = 0x1b" "x2 0x1b = 0x36" "x2 0x36 = 0x6c"
    by (simp_all add: MULx_def)
  ultimately show ?thesis by (simp add: bitwise_def multiples get32_def)
qed

lemma Td0_columns: "Td0 = map (\<lambda>s. get32 (xe s) (x9 s) (xd s) (xb s)) aes_inv_sbox"
  unfolding Td0_bits by (simp add: aes_inv_sbox_def Td4_def Td0_def bitwise_def)

lemma Td4_columns: "Td4 = map (\<lambda>s. get32 s s s s) aes_inv_sbox"
  by (simp add: aes_inv_sbox_def Td4_def get32_def)

lemma Te_columns:
  "Te1 = map (\<lambda>s. get32 (x2 s XOR s) (x2 s) s s) aes_sbox"
  "Te2 = map (\<lambda>s. get32 s (x2 s XOR s) (x2 s) s) aes_sbox"
  "Te3 = map (\<lambda>s. get32 s s (x2 s XOR s) (x2 s)) aes_sbox"
  by (simp_all add: table_rotations Te0_columns)

lemma Td_columns:
  "Td1 = map (\<lambda>s. get32 (xb s) (xe s) (x9 s) (xd s)) aes_inv_sbox"
  "Td2 = map (\<lambda>s. get32 (xd s) (xb s) (xe s) (x9 s)) aes_inv_sbox"
  "Td3 = map (\<lambda>s. get32 (x9 s) (xd s) (xb s) (xe s)) aes_inv_sbox"
  by (simp_all add: table_rotations Td0_columns)

lemmas enc_columns = Te0_columns Te_columns Te4_columns
lemmas dec_columns = Td0_columns Td_columns Td4_columns

abbreviation S :: "u8 \<Rightarrow> u8" where "S b \<equiv> entry aes_sbox b"
abbreviation Si :: "u8 \<Rightarrow> u8" where "Si b \<equiv> entry aes_inv_sbox b"

lemma inv_sbox_sbox: "Si (S b) = b"
proof -
  define r0 :: "u8 list" where "r0 = [0x52, 0x09, 0x6a, 0xd5, 0x30, 0x36, 0xa5, 0x38, 0xbf, 0x40, 0xa3, 0x9e, 0x81, 0xf3, 0xd7, 0xfb]"
  define r1 :: "u8 list" where "r1 = [0x7c, 0xe3, 0x39, 0x82, 0x9b, 0x2f, 0xff, 0x87, 0x34, 0x8e, 0x43, 0x44, 0xc4, 0xde, 0xe9, 0xcb]"
  define r2 :: "u8 list" where "r2 = [0x54, 0x7b, 0x94, 0x32, 0xa6, 0xc2, 0x23, 0x3d, 0xee, 0x4c, 0x95, 0x0b, 0x42, 0xfa, 0xc3, 0x4e]"
  define r3 :: "u8 list" where "r3 = [0x08, 0x2e, 0xa1, 0x66, 0x28, 0xd9, 0x24, 0xb2, 0x76, 0x5b, 0xa2, 0x49, 0x6d, 0x8b, 0xd1, 0x25]"
  define r4 :: "u8 list" where "r4 = [0x72, 0xf8, 0xf6, 0x64, 0x86, 0x68, 0x98, 0x16, 0xd4, 0xa4, 0x5c, 0xcc, 0x5d, 0x65, 0xb6, 0x92]"
  define r5 :: "u8 list" where "r5 = [0x6c, 0x70, 0x48, 0x50, 0xfd, 0xed, 0xb9, 0xda, 0x5e, 0x15, 0x46, 0x57, 0xa7, 0x8d, 0x9d, 0x84]"
  define r6 :: "u8 list" where "r6 = [0x90, 0xd8, 0xab, 0x00, 0x8c, 0xbc, 0xd3, 0x0a, 0xf7, 0xe4, 0x58, 0x05, 0xb8, 0xb3, 0x45, 0x06]"
  define r7 :: "u8 list" where "r7 = [0xd0, 0x2c, 0x1e, 0x8f, 0xca, 0x3f, 0x0f, 0x02, 0xc1, 0xaf, 0xbd, 0x03, 0x01, 0x13, 0x8a, 0x6b]"
  define r8 :: "u8 list" where "r8 = [0x3a, 0x91, 0x11, 0x41, 0x4f, 0x67, 0xdc, 0xea, 0x97, 0xf2, 0xcf, 0xce, 0xf0, 0xb4, 0xe6, 0x73]"
  define r9 :: "u8 list" where "r9 = [0x96, 0xac, 0x74, 0x22, 0xe7, 0xad, 0x35, 0x85, 0xe2, 0xf9, 0x37, 0xe8, 0x1c, 0x75, 0xdf, 0x6e]"
  define r10 :: "u8 list" where "r10 = [0x47, 0xf1, 0x1a, 0x71, 0x1d, 0x29, 0xc5, 0x89, 0x6f, 0xb7, 0x62, 0x0e, 0xaa, 0x18, 0xbe, 0x1b]"
  define r11 :: "u8 list" where "r11 = [0xfc, 0x56, 0x3e, 0x4b, 0xc6, 0xd2, 0x79, 0x20, 0x9a, 0xdb, 0xc0, 0xfe, 0x78, 0xcd, 0x5a, 0xf4]"
  define r12 :: "u8 list" where "r12 = [0x1f, 0xdd, 0xa8, 0x33, 0x88, 0x07, 0xc7, 0x31, 0xb1, 0x12, 0x10, 0x59, 0x27, 0x80, 0xec, 0x5f]"
  define r13 :: "u8 list" where "r13 = [0x60, 0x51, 0x7f, 0xa9, 0x19, 0xb5, 0x4a, 0x0d, 0x2d, 0xe5, 0x7a, 0x9f, 0x93, 0xc9, 0x9c, 0xef]"
  define r14 :: "u8 list" where "r14 = [0xa0, 0xe0, 0x3b, 0x4d, 0xae, 0x2a, 0xf5, 0xb0, 0xc8, 0xeb, 0xbb, 0x3c, 0x83, 0x53, 0x99, 0x61]"
  define r15 :: "u8 list" where "r15 = [0x17, 0x2b, 0x04, 0x7e, 0xba, 0x77, 0xd6, 0x26, 0xe1, 0x69, 0x14, 0x63, 0x55, 0x21, 0x0c, 0x7d]"
  note rows = r0_def r1_def r2_def r3_def r4_def r5_def r6_def r7_def r8_def r9_def r10_def r11_def r12_def r13_def r14_def r15_def
  have t: "aes_inv_sbox = concat [r0, r1, r2, r3, r4, r5, r6, r7, r8, r9, r10, r11, r12, r13, r14, r15]"
    by (simp add: aes_inv_sbox_def Td4_def rows)
  have "\<forall>r \<in> set [r0, r1, r2, r3, r4, r5, r6, r7, r8, r9, r10, r11, r12, r13, r14, r15]. length r = 16" by (simp add: rows)
  note look = nth_concat_rows [OF this, folded t]
  have look: "Si s = [r0, r1, r2, r3, r4, r5, r6, r7, r8, r9, r10, r11, r12, r13, r14, r15] ! (unat s div 16) ! (unat s mod 16)" for s
    unfolding entry_def by (rule look) simp
  have "map (\<lambda>s. Si s) aes_sbox = map of_nat [0..<256]"
    unfolding look aes_sbox_def Te4_def octets256 by simp (simp add: rows)
  then have "map (\<lambda>s. Si s) aes_sbox ! unat b = map of_nat [0..<256] ! unat b" by simp
  then show ?thesis by (simp add: entry_def length_sbox)
qed

lemma enc_word_columns:
  "aes_enc_word a b c d = mix_column (get32 (S (byte32 a 0)) (S (byte32 b 1)) (S (byte32 c 2)) (S (byte32 d 3)))"
  by (simp add: aes_enc_word_def enc_columns entry_map length_sbox mix_column_def Let_def get32_xor get32_inject
      ac_simps del: One_nat_def)

lemma dec_word_columns:
  "aes_dec_word a b c d = inv_mix_column (get32 (Si (byte32 a 0)) (Si (byte32 b 1)) (Si (byte32 c 2)) (Si (byte32 d 3)))"
  by (simp add: aes_dec_word_def dec_columns entry_map length_sbox inv_mix_column_def Let_def get32_xor get32_inject
      ac_simps del: One_nat_def)

lemma mask_octets:
  "get32 a b c d AND 0xff000000 = get32 a 0 0 0" "get32 a b c d AND 0x00ff0000 = get32 0 b 0 0"
  "get32 a b c d AND 0x0000ff00 = get32 0 0 c 0" "get32 a b c d AND 0x000000ff = get32 0 0 0 d"
proof -
  have and32: "get32 a b c d AND get32 a' b' c' d' = get32 (a AND a') (b AND b') (c AND c') (d AND d')"
    for a' b' c' d' unfolding get32_def by (rule bit_word_eqI) (auto simp: bit_simps)
  have "(0xff000000 :: u32) = get32 0xff 0 0 0" "(0x00ff0000 :: u32) = get32 0 0xff 0 0"
    "(0x0000ff00 :: u32) = get32 0 0 0xff 0" "(0x000000ff :: u32) = get32 0 0 0 0xff"
    by (simp_all add: get32_def)
  then show "get32 a b c d AND 0xff000000 = get32 a 0 0 0" "get32 a b c d AND 0x00ff0000 = get32 0 b 0 0"
    "get32 a b c d AND 0x0000ff00 = get32 0 0 c 0" "get32 a b c d AND 0x000000ff = get32 0 0 0 d"
    by (simp_all only: and32) simp_all
qed

lemma last_word_columns:
  "aes_last_word Te4 a b c d = get32 (S (byte32 a 0)) (S (byte32 b 1)) (S (byte32 c 2)) (S (byte32 d 3))"
  "aes_last_word Td4 a b c d = get32 (Si (byte32 a 0)) (Si (byte32 b 1)) (Si (byte32 c 2)) (Si (byte32 d 3))"
  by (simp_all add: aes_last_word_def Te4_columns Td4_columns entry_map length_sbox mask_octets get32_xor
      del: One_nat_def)

lemma aes_inv_mix_eq: "aes_inv_mix w = inv_mix_column w"
proof -
  let ?v = "get32 (S (byte32 w 0)) (S (byte32 w 1)) (S (byte32 w 2)) (S (byte32 w 3))"
  have "ucast (get32 s s s s AND 0xff) = s" for s
    by (simp only: mask_octets(4)) (simp add: get32_def)
  then have "aes_inv_mix w = aes_dec_word ?v ?v ?v ?v"
    unfolding aes_inv_mix_def aes_dec_word_def Te4_columns entry_map [OF length_sbox(1)] byte32_get32 by (simp only:)
  then show ?thesis
    unfolding dec_word_columns byte32_get32 inv_sbox_sbox get32_byte32 .
qed

end
