(* ===== verification/Aes_Rounds.thy ===== *)
theory Aes_Rounds
  imports Aes_Props
begin

text \<open>
  Encryption and decryption as sequences of rounds, the key schedules, and the round trip of
  a block for all three key sizes.
\<close>

subsection \<open>Rounds on four columns\<close>

definition sub_shift :: "aes_state \<Rightarrow> aes_state" where
  "sub_shift = (\<lambda>(s0, s1, s2, s3).
     (get32 (S (byte32 s0 0)) (S (byte32 s1 1)) (S (byte32 s2 2)) (S (byte32 s3 3)),
      get32 (S (byte32 s1 0)) (S (byte32 s2 1)) (S (byte32 s3 2)) (S (byte32 s0 3)),
      get32 (S (byte32 s2 0)) (S (byte32 s3 1)) (S (byte32 s0 2)) (S (byte32 s1 3)),
      get32 (S (byte32 s3 0)) (S (byte32 s0 1)) (S (byte32 s1 2)) (S (byte32 s2 3))))"

definition inv_sub_shift :: "aes_state \<Rightarrow> aes_state" where
  "inv_sub_shift = (\<lambda>(s0, s1, s2, s3).
     (get32 (Si (byte32 s0 0)) (Si (byte32 s3 1)) (Si (byte32 s2 2)) (Si (byte32 s1 3)),
      get32 (Si (byte32 s1 0)) (Si (byte32 s0 1)) (Si (byte32 s3 2)) (Si (byte32 s2 3)),
      get32 (Si (byte32 s2 0)) (Si (byte32 s1 1)) (Si (byte32 s0 2)) (Si (byte32 s3 3)),
      get32 (Si (byte32 s3 0)) (Si (byte32 s2 1)) (Si (byte32 s1 2)) (Si (byte32 s0 3))))"

definition map4 :: "(u32 \<Rightarrow> u32) \<Rightarrow> aes_state \<Rightarrow> aes_state" where
  "map4 f = (\<lambda>(s0, s1, s2, s3). (f s0, f s1, f s2, f s3))"

definition add4 :: "aes_state \<Rightarrow> aes_state \<Rightarrow> aes_state" where
  "add4 = (\<lambda>(s0, s1, s2, s3) (k0, k1, k2, k3). (s0 XOR k0, s1 XOR k1, s2 XOR k2, s3 XOR k3))"

definition round_key :: "u32 list \<Rightarrow> nat \<Rightarrow> aes_state" where
  "round_key rk r = (rk ! (4 * r), rk ! (4 * r + 1), rk ! (4 * r + 2), rk ! (4 * r + 3))"

lemma inv_sub_shift_sub_shift: "inv_sub_shift (sub_shift s) = s"
  by (cases s) (simp add: inv_sub_shift_def sub_shift_def inv_sbox_sbox)

lemma add4_twice: "add4 (add4 s k) k = s"
  by (cases s; cases k) (simp add: add4_def xor.assoc)

lemma map4_add4:
  "(\<And>v w. f (v XOR w) = f v XOR f w) \<Longrightarrow> map4 f (add4 s k) = add4 (map4 f s) (map4 f k)"
  by (cases s; cases k) (simp add: map4_def add4_def)

lemma map4_inverse: "(\<And>w. f (g w) = w) \<Longrightarrow> map4 f (map4 g s) = s"
  by (cases s) (simp add: map4_def)

lemma enc_round_steps: "aes_enc_round rk r s = add4 (map4 mix_column (sub_shift s)) (round_key rk r)"
  by (cases s) (simp add: aes_enc_round_def enc_word_columns add4_def map4_def sub_shift_def round_key_def)

lemma dec_round_steps: "aes_dec_round rk r s = add4 (map4 inv_mix_column (inv_sub_shift s)) (round_key rk r)"
  by (cases s) (simp add: aes_dec_round_def dec_word_columns add4_def map4_def inv_sub_shift_def round_key_def)

lemma be_word_store:
  "be_word (aes_store (s0, s1, s2, s3)) 0 = s0" "be_word (aes_store (s0, s1, s2, s3)) 4 = s1"
  "be_word (aes_store (s0, s1, s2, s3)) 8 = s2" "be_word (aes_store (s0, s1, s2, s3)) 12 = s3"
  by (simp_all add: be_word_def aes_store_def put32_bytes)

lemma load_store: "aes_load (aes_store s) rk = add4 s (round_key rk 0)"
  by (cases s) (simp add: aes_load_def be_word_store add4_def round_key_def numeral_3_eq_3 numeral_2_eq_2)

lemma store_block:
  assumes "length bs = 16"
  shows "aes_store (be_word bs 0, be_word bs 4, be_word bs 8, be_word bs 12) = bs"
proof -
  have "[0..<16] = [0, 1, 2, 3, 4, 5, 6, 7, 8, 9, 10, 11, 12, 13, 14, 15 :: nat]"
    by (simp add: upt_rec [of 0] upt_rec [of "Suc 0"] numeral_2_eq_2 [symmetric])
  then have "map ((!) bs) [0, 1, 2, 3, 4, 5, 6, 7, 8, 9, 10, 11, 12, 13, 14, 15] = bs"
    using map_nth [of bs] assms by simp
  then show ?thesis by (simp add: aes_store_def be_word_def put32_bytes del: One_nat_def add_2_eq_Suc add_2_eq_Suc')
qed

definition aes_enc_state :: "u32 list \<Rightarrow> bytes \<Rightarrow> nat \<Rightarrow> aes_state" where
  "aes_enc_state rk p r = fold (aes_enc_round rk) [1..<Suc r] (aes_load p rk)"

definition aes_dec_state :: "u32 list \<Rightarrow> bytes \<Rightarrow> nat \<Rightarrow> aes_state" where
  "aes_dec_state rk c r = fold (aes_dec_round rk) [1..<Suc r] (aes_load c rk)"

lemma enc_state_simps:
  "aes_enc_state rk p 0 = aes_load p rk"
  "aes_enc_state rk p (Suc r) = add4 (map4 mix_column (sub_shift (aes_enc_state rk p r))) (round_key rk (Suc r))"
  by (simp_all add: aes_enc_state_def enc_round_steps)

lemma dec_state_simps:
  "aes_dec_state rk c 0 = aes_load c rk"
  "aes_dec_state rk c (Suc r) =
     add4 (map4 inv_mix_column (inv_sub_shift (aes_dec_state rk c r))) (round_key rk (Suc r))"
  by (simp_all add: aes_dec_state_def dec_round_steps)

lemma encrypt_steps:
  "ogs_aes_encrypt rk nrounds p =
   aes_store (add4 (sub_shift (aes_enc_state rk p (aes_full_rounds nrounds))) (round_key rk nrounds))"
  by (cases "aes_enc_state rk p (aes_full_rounds nrounds)")
    (simp add: ogs_aes_encrypt_def last_word_columns sub_shift_def add4_def round_key_def
      Let_def flip: aes_enc_state_def del: One_nat_def upt_Suc)

lemma decrypt_steps:
  "ogs_aes_decrypt rk nrounds c =
   aes_store (add4 (inv_sub_shift (aes_dec_state rk c (aes_full_rounds nrounds))) (round_key rk nrounds))"
  by (cases "aes_dec_state rk c (aes_full_rounds nrounds)")
    (simp add: ogs_aes_decrypt_def last_word_columns inv_sub_shift_def add4_def round_key_def
      Let_def flip: aes_dec_state_def del: One_nat_def upt_Suc)

text \<open>Decryption with a schedule that inverts the one of encryption.\<close>

definition inverse_schedule :: "nat \<Rightarrow> u32 list \<Rightarrow> u32 list \<Rightarrow> bool" where
  "inverse_schedule n rk dk \<longleftrightarrow>
     round_key dk 0 = round_key rk n \<and> round_key dk n = round_key rk 0 \<and>
     (\<forall>r. 0 < r \<and> r < n \<longrightarrow> round_key dk r = map4 inv_mix_column (round_key rk (n - r)))"

lemma decrypt_encrypt:
  assumes n: "aes_full_rounds n = n - 1" "0 < n" and dk: "inverse_schedule n rk dk" and p: "length p = 16"
  shows "ogs_aes_decrypt dk n (ogs_aes_encrypt rk n p) = p"
proof -
  let ?c = "ogs_aes_encrypt rk n p"
  have states: "aes_dec_state dk ?c r = sub_shift (aes_enc_state rk p (n - 1 - r))" if "r \<le> n - 1" for r
    using that
  proof (induction r)
    case 0
    then show ?case
      using dk by (simp add: dec_state_simps encrypt_steps n load_store inverse_schedule_def add4_twice)
  next
    case (Suc r)
    define m where "m = n - 1 - Suc r"
    have m: "n - 1 - r = Suc m" "n - Suc r = Suc m" using Suc.prems by (auto simp: m_def)
    have "inv_sub_shift (aes_dec_state dk ?c r) = aes_enc_state rk p (Suc m)"
      using Suc m by (simp add: inv_sub_shift_sub_shift)
    moreover have "round_key dk (Suc r) = map4 inv_mix_column (round_key rk (Suc m))"
      using dk Suc.prems m(2) unfolding inverse_schedule_def by auto
    ultimately show ?case
      unfolding dec_state_simps m_def [symmetric]
      by (simp add: enc_state_simps map4_add4 inv_mix_xor map4_inverse inv_mix_mix add4_twice)
  qed
  have "ogs_aes_decrypt dk n ?c = aes_store (add4 (aes_load p rk) (round_key rk 0))"
    using states [of "n - 1"] dk
    by (simp add: decrypt_steps n inv_sub_shift_sub_shift enc_state_simps inverse_schedule_def)
  also have "add4 (aes_load p rk) (round_key rk 0) = (be_word p 0, be_word p 4, be_word p 8, be_word p 12)"
    by (simp add: aes_load_def add4_def round_key_def xor.assoc numeral_3_eq_3 numeral_2_eq_2)
  finally show ?thesis by (simp add: store_block p)
qed

subsection \<open>The schedule of decryption\<close>

definition swap_blocks :: "nat \<Rightarrow> nat \<Rightarrow> u32 list \<Rightarrow> u32 list" where
  "swap_blocks i j rk =
     aes_swap (i + 3) (j + 3) (aes_swap (i + 2) (j + 2) (aes_swap (i + 1) (j + 1) (aes_swap i j rk)))"

lemma nth_swap:
  "i < length rk \<Longrightarrow> j < length rk \<Longrightarrow> m < length rk \<Longrightarrow>
   aes_swap i j rk ! m = (if m = j then rk ! i else if m = i then rk ! j else rk ! m)"
  by (simp add: aes_swap_def nth_list_update)

lemma length_swap [simp]: "length (aes_swap i j rk) = length rk"
  by (simp add: aes_swap_def)

lemma length_swap_blocks [simp]: "length (swap_blocks i j rk) = length rk"
  by (simp add: swap_blocks_def)

lemma nth_swap_blocks:
  assumes ab: "a < b" "4 * b + 3 < length rk" and k: "k < 4" and q: "4 * q + k < length rk"
  shows "swap_blocks (4 * a) (4 * b) rk ! (4 * q + k) =
    rk ! (4 * (if q = a then b else if q = b then a else q) + k)"
proof -
  have k4: "k = 0 \<or> k = 1 \<or> k = 2 \<or> k = 3" using k by auto
  consider "q = a" | "q = b" | "q < a" | "a < q" "q < b" | "b < q" by linarith
  then show ?thesis
  proof cases
    case 1
    then show ?thesis using k4 ab q by (elim disjE) (simp_all add: swap_blocks_def nth_swap)
  next
    case 2
    then show ?thesis using k4 ab q by (elim disjE) (simp_all add: swap_blocks_def nth_swap)
  next
    case 3
    then show ?thesis using k4 ab q by (elim disjE) (simp_all add: swap_blocks_def nth_swap)
  next
    case 4
    then show ?thesis using k4 ab q by (elim disjE) (simp_all add: swap_blocks_def nth_swap)
  next
    case 5
    then show ?thesis using k4 ab q by (elim disjE) (simp_all add: swap_blocks_def nth_swap)
  qed
qed

lemma round_key_swap_blocks:
  assumes "a < b" "4 * b + 3 < length rk" "4 * q + 3 < length rk"
  shows "round_key (swap_blocks (4 * a) (4 * b) rk) q =
    round_key rk (if q = a then b else if q = b then a else q)"
  using nth_swap_blocks [OF assms(1,2), of 0 q] nth_swap_blocks [OF assms(1,2), of 1 q]
    nth_swap_blocks [OF assms(1,2), of 2 q] nth_swap_blocks [OF assms(1,2), of 3 q] assms(3)
  by (simp add: round_key_def)

lemma length_reverse [simp]: "length (aes_reverse i j rk) = length rk"
  by (induction i j rk rule: aes_reverse.induct) (subst aes_reverse.simps, simp)

lemma round_key_reverse:
  "4 * b + 3 < length rk \<Longrightarrow> 4 * q + 3 < length rk \<Longrightarrow>
   round_key (aes_reverse (4 * a) (4 * b) rk) q =
   round_key rk (if a \<le> q \<and> q \<le> b then a + b - q else q)"
proof (induction "b - a" arbitrary: a b rk rule: less_induct)
  case less
  show ?case
  proof (cases "a < b")
    case False
    then have "a \<le> q \<and> q \<le> b \<Longrightarrow> a + b - q = q" by auto
    then show ?thesis using False by (subst aes_reverse.simps) auto
  next
    case True
    let ?rk = "swap_blocks (4 * a) (4 * b) rk"
    have b: "4 * b - 4 = 4 * (b - 1)" "4 * a + 4 = 4 * (a + 1)" by auto
    have "aes_reverse (4 * a) (4 * b) rk = aes_reverse (4 * (a + 1)) (4 * (b - 1)) ?rk"
      using True unfolding b [symmetric] by (subst aes_reverse.simps) (simp add: swap_blocks_def)
    moreover have "round_key (aes_reverse (4 * (a + 1)) (4 * (b - 1)) ?rk) q =
        round_key ?rk (if a + 1 \<le> q \<and> q \<le> b - 1 then a + 1 + (b - 1) - q else q)"
      using True less.prems by (intro less.hyps) auto
    moreover have "4 * (if a + 1 \<le> q \<and> q \<le> b - 1 then a + 1 + (b - 1) - q else q) + 3 < length rk"
      using less.prems True by auto
    ultimately show ?thesis
      using True less.prems by (simp add: round_key_swap_blocks) auto
  qed
qed

lemma length_mix_keys [simp]: "length (aes_mix_keys is rk) = length rk"
  by (induction "is" rk rule: aes_mix_keys.induct) simp_all

lemma round_key_mix_keys:
  "distinct is \<Longrightarrow> \<forall>i \<in> set is. 4 * i + 3 < length rk \<Longrightarrow> 4 * q + 3 < length rk \<Longrightarrow>
   round_key (aes_mix_keys is rk) q =
   (if q \<in> set is then map4 inv_mix_column (round_key rk q) else round_key rk q)"
proof (induction "is" arbitrary: rk)
  case (Cons i "is")
  let ?rk = "rk[4 * i := aes_inv_mix (rk ! (4 * i)), 4 * i + 1 := aes_inv_mix (rk ! (4 * i + 1)),
    4 * i + 2 := aes_inv_mix (rk ! (4 * i + 2)), 4 * i + 3 := aes_inv_mix (rk ! (4 * i + 3))]"
  have "round_key ?rk q = (if q = i then map4 inv_mix_column (round_key rk q) else round_key rk q)"
  proof -
    consider "q = i" | "q < i" | "i < q" by linarith
    then show ?thesis
      using Cons.prems(2,3) by cases (simp_all add: round_key_def map4_def aes_inv_mix_eq nth_list_update)
  qed
  then show ?case using Cons by auto
qed simp

lemma inverse_schedule_dec:
  assumes "ogs_aes_setup_enc key keybits = (n, rk)" "length rk = 4 * n + 4" "0 < n"
  shows "ogs_aes_setup_dec key keybits = (n, snd (ogs_aes_setup_dec key keybits))"
    and "inverse_schedule n rk (snd (ogs_aes_setup_dec key keybits))"
proof -
  let ?r = "aes_reverse 0 (4 * n) rk" and ?d = "aes_mix_keys [1..<n] (aes_reverse 0 (4 * n) rk)"
  show "ogs_aes_setup_dec key keybits = (n, snd (ogs_aes_setup_dec key keybits))"
    using assms(1) by (simp add: ogs_aes_setup_dec_def)
  have d: "snd (ogs_aes_setup_dec key keybits) = ?d" using assms(1) by (simp add: ogs_aes_setup_dec_def)
  have rev: "round_key ?r q = round_key rk (n - q)" if "q \<le> n" for q
    using round_key_reverse [of n rk q 0] assms(2) that by simp
  have mix: "round_key ?d q = (if q \<in> {1..<n} then map4 inv_mix_column (round_key ?r q) else round_key ?r q)"
    if "q \<le> n" for q
    using round_key_mix_keys [of "[1..<n]" ?r q] assms(2) that by simp
  show "inverse_schedule n rk (snd (ogs_aes_setup_dec key keybits))"
    unfolding d inverse_schedule_def using assms(3) rev mix by auto
qed

end
