(* ===== verification/Aes_Sbox.thy ===== *)
theory Aes_Sbox
  imports Aes_Props
begin

text \<open>
  The substitution of FIPS 197 (section 5.1.1) as the standard defines it, without any
  table: the multiplicative inverse of an octet in the field of 256 elements with the polynomial
  \<open>x^8 + x^4 + x^3 + x + 1\<close>, followed by an affine map of its bits. The octets of the
  table \<open>Te4\<close> of \<open>lib/crypt/ogs-aes.c\<close> are this substitution.
\<close>

subsection \<open>The field of the octets\<close>

definition gf_xtime :: "u8 \<Rightarrow> u8" where
  "gf_xtime a = push_bit 1 a XOR (if bit a 7 then 0x1b else 0)"

fun gf_shift_add :: "nat \<Rightarrow> u8 \<Rightarrow> u8 \<Rightarrow> u8" where
  "gf_shift_add 0 a b = 0"
| "gf_shift_add (Suc n) a b =
     (if odd b then a else 0) XOR gf_shift_add n (gf_xtime a) (drop_bit 1 b)"

definition gf_mul :: "u8 \<Rightarrow> u8 \<Rightarrow> u8" where
  "gf_mul a b = gf_shift_add 8 a b"

text \<open>The octet whose product with the given one is the unit; the octet 0 has none and goes to
  0.\<close>

definition gf_inverse :: "u8 \<Rightarrow> u8" where
  "gf_inverse a = (case find (\<lambda>c. gf_mul a c = 1) (map of_nat [0..<256]) of Some c \<Rightarrow> c | None \<Rightarrow> 0)"

definition rotate_left8 :: "nat \<Rightarrow> u8 \<Rightarrow> u8" where
  "rotate_left8 k b = push_bit k b OR drop_bit (8 - k) b"

definition fips_affine :: "u8 \<Rightarrow> u8" where
  "fips_affine b =
     b XOR rotate_left8 1 b XOR rotate_left8 2 b XOR rotate_left8 3 b XOR rotate_left8 4 b XOR 0x63"

definition fips_sbox :: "u8 \<Rightarrow> u8" where
  "fips_sbox b = fips_affine (gf_inverse b)"

subsection \<open>Products are linear in both octets, commutative and associative\<close>

lemma gf_xtime_MULx: "gf_xtime a = MULx a 0x1b"
  by (simp add: gf_xtime_def MULx_bit)

lemma gf_xtime_xor: "gf_xtime (a XOR b) = gf_xtime a XOR gf_xtime b"
  by (simp add: gf_xtime_MULx MULx_xor)

lemma gf_shift_add_xor_left:
  "gf_shift_add n (a XOR a') b = gf_shift_add n a b XOR gf_shift_add n a' b"
proof (induction n arbitrary: a a' b)
  case (Suc n)
  then show ?case by (simp add: gf_xtime_xor ac_simps)
qed simp

lemma gf_shift_add_xor_right:
  "gf_shift_add n a (b XOR b') = gf_shift_add n a b XOR gf_shift_add n a b'"
proof (induction n arbitrary: a b b')
  case (Suc n)
  have d: "drop_bit 1 (b XOR b') = drop_bit 1 b XOR drop_bit 1 b'"
    by (rule bit_word_eqI) (simp add: bit_simps)
  have o: "odd (b XOR b') \<longleftrightarrow> odd b \<noteq> odd b'"
    by (simp flip: bit_0 add: bit_xor_iff)
  show ?case
    unfolding gf_shift_add.simps d o Suc.IH by (cases "odd b"; cases "odd b'") (simp_all add: ac_simps)
qed simp

lemmas gf_mul_xor = gf_shift_add_xor_left [of 8, folded gf_mul_def] gf_shift_add_xor_right [of 8, folded gf_mul_def]

lemma gf_shift_add_xtime: "gf_shift_add n (gf_xtime a) b = gf_xtime (gf_shift_add n a b)"
proof (induction n arbitrary: a b)
  case 0
  show ?case by (simp add: gf_xtime_def)
next
  case (Suc n)
  then show ?case by (simp add: gf_xtime_xor gf_xtime_def [of 0])
qed

lemma gf_mul_xtime: "gf_mul (gf_xtime a) b = gf_xtime (gf_mul a b)"
  by (simp add: gf_mul_def gf_shift_add_xtime)

lemma gf_xtime_zero [simp]: "gf_xtime 0 = 0"
  by (simp add: gf_xtime_def)

lemma gf_shift_add_zero [simp]: "gf_shift_add n a 0 = 0"
  by (induction n arbitrary: a) simp_all

text \<open>The product with a power of the indeterminate, and with any octet as the sum of its
  bits.\<close>

lemma gf_shift_add_power:
  "i < n \<Longrightarrow> i < 8 \<Longrightarrow> gf_shift_add n a (push_bit i 1) = (gf_xtime ^^ i) a"
proof (induction n arbitrary: i a)
  case (Suc n)
  show ?case
  proof (cases i)
    case (Suc j)
    have "drop_bit 1 (push_bit (Suc j) 1 :: u8) = push_bit j 1"
      by (rule bit_word_eqI) (use Suc.prems Suc in \<open>auto simp: bit_simps\<close>)
    then show ?thesis
      using Suc.IH [of j "gf_xtime a"] Suc.prems Suc by (simp add: funpow_swap1)
  qed simp
qed simp

lemma gf_mul_power: "i < 8 \<Longrightarrow> gf_mul a (push_bit i 1) = (gf_xtime ^^ i) a"
  unfolding gf_mul_def by (rule gf_shift_add_power)

lemma bitwise_cong: "(\<And>i. i < 8 \<Longrightarrow> f i = g i) \<Longrightarrow> bitwise f c = bitwise g c"
  by (simp add: bitwise_def del: One_nat_def)

lemma gf_mul_bits: "gf_mul a b = bitwise (\<lambda>i. (gf_xtime ^^ i) a) b"
proof -
  have "gf_mul a b = bitwise (\<lambda>i. gf_mul a (push_bit i 1)) b"
    by (rule linear_bitwise) (rule gf_mul_xor)
  also have "\<dots> = bitwise (\<lambda>i. (gf_xtime ^^ i) a) b" by (rule bitwise_cong) (rule gf_mul_power)
  finally show ?thesis .
qed

lemma push_bit_xtime: "i < 8 \<Longrightarrow> push_bit i 1 = (gf_xtime ^^ i) 1"
proof (induction i)
  case (Suc i)
  have "gf_xtime (push_bit i 1) = push_bit (Suc i) 1"
    using Suc.prems by (simp add: gf_xtime_def bit_simps)
  then show ?case using Suc by simp
qed simp

lemma gf_mul_commute: "gf_mul a b = gf_mul b a"
proof -
  have basis: "gf_mul (push_bit i 1) (push_bit j 1) = gf_mul (push_bit j 1) (push_bit i 1)"
    if "i < 8" "j < 8" for i j
    unfolding gf_mul_power [OF that(1)] gf_mul_power [OF that(2)] unfolding push_bit_xtime [OF that(1)] push_bit_xtime [OF that(2)]
    by (simp flip: funpow_add comp_apply [of "_ ^^ _"] add: add.commute)
  have one: "gf_mul (push_bit i 1) b = gf_mul b (push_bit i 1)" if "i < 8" for i b
  proof -
    have "gf_mul (push_bit i 1) b = bitwise (\<lambda>j. gf_mul (push_bit i 1) (push_bit j 1)) b"
      by (rule linear_bitwise) (rule gf_mul_xor)
    also have "\<dots> = bitwise (\<lambda>j. gf_mul (push_bit j 1) (push_bit i 1)) b"
      by (rule bitwise_cong) (rule basis [OF that])
    also have "\<dots> = gf_mul b (push_bit i 1)"
      by (rule linear_bitwise [symmetric]) (rule gf_mul_xor)
    finally show ?thesis .
  qed
  have "gf_mul a b = bitwise (\<lambda>i. gf_mul (push_bit i 1) b) a"
    by (rule linear_bitwise) (rule gf_mul_xor)
  also have "\<dots> = bitwise (\<lambda>i. gf_mul b (push_bit i 1)) a"
    by (rule bitwise_cong) (rule one)
  also have "\<dots> = gf_mul b a" by (rule linear_bitwise [symmetric]) (rule gf_mul_xor)
  finally show ?thesis .
qed

lemma gf_mul_one: "gf_mul b 1 = b" "gf_mul 1 b = b"
  using gf_mul_power [of 0 b] gf_mul_commute [of 1 b] by simp_all

lemma gf_mul_xtime_right: "gf_mul a ((gf_xtime ^^ i) b) = (gf_xtime ^^ i) (gf_mul a b)"
  by (induction i) (simp_all add: gf_mul_commute [of a] gf_mul_xtime)

lemma gf_mul_assoc: "gf_mul (gf_mul a b) c = gf_mul a (gf_mul b c)"
proof -
  have "gf_mul a (gf_mul b c) = bitwise (\<lambda>i. gf_mul a (gf_mul b (push_bit i 1))) c"
    by (rule linear_bitwise) (simp add: gf_mul_xor)
  also have "\<dots> = bitwise (\<lambda>i. (gf_xtime ^^ i) (gf_mul a b)) c"
    by (rule bitwise_cong) (simp only: gf_mul_power gf_mul_xtime_right)
  finally show ?thesis by (simp add: gf_mul_bits [of "gf_mul a b" c])
qed

subsection \<open>Inverses\<close>

lemma gf_inverse_unique:
  assumes "gf_mul a c = 1" and "gf_mul a d = 1"
  shows "d = c"
proof -
  have "d = gf_mul d (gf_mul a c)" by (simp add: assms gf_mul_one)
  also have "\<dots> = gf_mul (gf_mul a d) c" by (simp add: gf_mul_assoc gf_mul_commute [of a d])
  finally show ?thesis by (simp add: assms gf_mul_one)
qed

lemma gf_inverse_eq:
  assumes "gf_mul a c = 1"
  shows "gf_inverse a = c"
proof -
  have "c \<in> set (map of_nat [0..<256])" by (rule all_octets) (auto simp del: upt_conv_Cons)
  then have "find (\<lambda>c. gf_mul a c = 1) (map of_nat [0..<256]) \<noteq> None"
    using assms by (simp add: find_None_iff del: set_map set_upt) blast
  then obtain d where d: "find (\<lambda>c. gf_mul a c = 1) (map of_nat [0..<256]) = Some d" by auto
  then have "gf_mul a d = 1" by (auto simp: find_Some_iff)
  then show ?thesis using gf_inverse_unique [OF assms] by (simp add: gf_inverse_def d)
qed

lemma gf_inverse_zero: "gf_inverse 0 = 0"
proof -
  have "find (\<lambda>c. gf_mul 0 c = 1) (map of_nat [0..<256]) = None"
    using gf_mul_xor(1) [of 0 0] by (simp add: find_None_iff)
  then show ?thesis by (simp add: gf_inverse_def)
qed

text \<open>The inverses of the octets in order, each checked by its product.\<close>

definition gf_inverses :: "u8 list" where
  "gf_inverses =
    [0x00, 0x01, 0x8d, 0xf6, 0xcb, 0x52, 0x7b, 0xd1, 0xe8, 0x4f, 0x29, 0xc0, 0xb0, 0xe1, 0xe5, 0xc7,
     0x74, 0xb4, 0xaa, 0x4b, 0x99, 0x2b, 0x60, 0x5f, 0x58, 0x3f, 0xfd, 0xcc, 0xff, 0x40, 0xee, 0xb2,
     0x3a, 0x6e, 0x5a, 0xf1, 0x55, 0x4d, 0xa8, 0xc9, 0xc1, 0x0a, 0x98, 0x15, 0x30, 0x44, 0xa2, 0xc2,
     0x2c, 0x45, 0x92, 0x6c, 0xf3, 0x39, 0x66, 0x42, 0xf2, 0x35, 0x20, 0x6f, 0x77, 0xbb, 0x59, 0x19,
     0x1d, 0xfe, 0x37, 0x67, 0x2d, 0x31, 0xf5, 0x69, 0xa7, 0x64, 0xab, 0x13, 0x54, 0x25, 0xe9, 0x09,
     0xed, 0x5c, 0x05, 0xca, 0x4c, 0x24, 0x87, 0xbf, 0x18, 0x3e, 0x22, 0xf0, 0x51, 0xec, 0x61, 0x17,
     0x16, 0x5e, 0xaf, 0xd3, 0x49, 0xa6, 0x36, 0x43, 0xf4, 0x47, 0x91, 0xdf, 0x33, 0x93, 0x21, 0x3b,
     0x79, 0xb7, 0x97, 0x85, 0x10, 0xb5, 0xba, 0x3c, 0xb6, 0x70, 0xd0, 0x06, 0xa1, 0xfa, 0x81, 0x82,
     0x83, 0x7e, 0x7f, 0x80, 0x96, 0x73, 0xbe, 0x56, 0x9b, 0x9e, 0x95, 0xd9, 0xf7, 0x02, 0xb9, 0xa4,
     0xde, 0x6a, 0x32, 0x6d, 0xd8, 0x8a, 0x84, 0x72, 0x2a, 0x14, 0x9f, 0x88, 0xf9, 0xdc, 0x89, 0x9a,
     0xfb, 0x7c, 0x2e, 0xc3, 0x8f, 0xb8, 0x65, 0x48, 0x26, 0xc8, 0x12, 0x4a, 0xce, 0xe7, 0xd2, 0x62,
     0x0c, 0xe0, 0x1f, 0xef, 0x11, 0x75, 0x78, 0x71, 0xa5, 0x8e, 0x76, 0x3d, 0xbd, 0xbc, 0x86, 0x57,
     0x0b, 0x28, 0x2f, 0xa3, 0xda, 0xd4, 0xe4, 0x0f, 0xa9, 0x27, 0x53, 0x04, 0x1b, 0xfc, 0xac, 0xe6,
     0x7a, 0x07, 0xae, 0x63, 0xc5, 0xdb, 0xe2, 0xea, 0x94, 0x8b, 0xc4, 0xd5, 0x9d, 0xf8, 0x90, 0x6b,
     0xb1, 0x0d, 0xd6, 0xeb, 0xc6, 0x0e, 0xcf, 0xad, 0x08, 0x4e, 0xd7, 0xe3, 0x5d, 0x50, 0x1e, 0xb3,
     0x5b, 0x23, 0x38, 0x34, 0x68, 0x46, 0x03, 0x8c, 0xdd, 0x9c, 0x7d, 0xa0, 0xcd, 0x1a, 0x41, 0x1c]"

text \<open>Products of numerals, along the digits of the second.\<close>

fun gf_num :: "u8 \<Rightarrow> num \<Rightarrow> u8" where
  "gf_num a num.One = a"
| "gf_num a (num.Bit0 n) = gf_num (MULx a 0x1b) n"
| "gf_num a (num.Bit1 n) = a XOR gf_num (MULx a 0x1b) n"

lemma drop_bit_octet:
  assumes "m < 256"
  shows "drop_bit 1 (of_nat m :: u8) = of_nat (m div 2)"
  using assms by (simp add: word_unat_eq_iff unat_drop_bit_eq drop_bit_nat_def unat_of_nat del: drop_bit_of_1)

lemma gf_shift_add_num:
  "numeral n < (2 :: nat) ^ k \<Longrightarrow> k \<le> 8 \<Longrightarrow> gf_shift_add k a (numeral n) = gf_num a n"
proof (induction n arbitrary: k a)
  case One
  then obtain j where "k = Suc j" by (cases k) auto
  then show ?case by (simp add: drop_bit_octet [of 1, simplified])
next
  case (Bit0 n)
  then obtain j where k: "k = Suc j" by (cases k) auto
  have "(2 :: nat) ^ k \<le> 256" using Bit0.prems(2) power_increasing [of k 8 "2 :: nat"] by simp
  then have "(numeral (num.Bit0 n) :: nat) < 256" by (rule less_le_trans [OF Bit0.prems(1)])
  then have "drop_bit 1 (numeral (num.Bit0 n) :: u8) = numeral n"
    using drop_bit_octet [of "numeral (num.Bit0 n)"] by simp
  moreover have "gf_shift_add j (MULx a 0x1b) (numeral n) = gf_num (MULx a 0x1b) n"
  proof (rule Bit0.IH)
    show "numeral n < (2 :: nat) ^ j"
      using Bit0.prems(1) unfolding k power_Suc numeral.simps(2) [of n] by linarith
    show "j \<le> 8" using Bit0.prems(2) k by simp
  qed
  ultimately show ?case unfolding k gf_shift_add.simps gf_xtime_MULx by simp
next
  case (Bit1 n)
  then obtain j where k: "k = Suc j" by (cases k) auto
  have "(2 :: nat) ^ k \<le> 256" using Bit1.prems(2) power_increasing [of k 8 "2 :: nat"] by simp
  then have "(numeral (num.Bit1 n) :: nat) < 256" by (rule less_le_trans [OF Bit1.prems(1)])
  then have "drop_bit 1 (numeral (num.Bit1 n) :: u8) = numeral n"
    using drop_bit_octet [of "numeral (num.Bit1 n)"] by simp
  moreover have "gf_shift_add j (MULx a 0x1b) (numeral n) = gf_num (MULx a 0x1b) n"
  proof (rule Bit1.IH)
    show "numeral n < (2 :: nat) ^ j"
      using Bit1.prems(1) unfolding k power_Suc numeral.simps(3) [of n] by linarith
    show "j \<le> 8" using Bit1.prems(2) k by simp
  qed
  ultimately show ?case unfolding k gf_shift_add.simps gf_xtime_MULx by simp
qed

lemma gf_mul_num: "numeral n < (256 :: nat) \<Longrightarrow> gf_mul a (numeral n) = gf_num a n"
  using gf_shift_add_num [of n 8 a] by (simp add: gf_mul_def)

lemma gf_inverses_products:
  "list_all2 (\<lambda>a c. gf_mul a c = 1) (tl (map of_nat [0..<256])) (tl gf_inverses)"
  unfolding octets256 by (simp add: gf_inverses_def gf_mul_num gf_mul_one MULx_def)

lemma gf_inverses_eq: "map (\<lambda>n. gf_inverse (of_nat n)) [0..<256] = gf_inverses"
proof -
  have "list_all2 (\<lambda>a c. gf_inverse a = c) (tl (map of_nat [0..<256])) (tl gf_inverses)"
    by (rule list_all2_mono [OF gf_inverses_products]) (rule gf_inverse_eq)
  then have "map gf_inverse (tl (map of_nat [0..<256])) = tl gf_inverses"
    by (simp add: list_all2_map1 [symmetric, of "(=)"] list.rel_eq)
  moreover have "map of_nat [0..<256] = 0 # tl (map of_nat [0..<256] :: u8 list)"
    by (simp add: upt_conv_Cons)
  moreover have "gf_inverses = 0 # tl gf_inverses" by (simp add: gf_inverses_def)
  ultimately have "map gf_inverse (map of_nat [0..<256]) = gf_inverses"
    using gf_inverse_zero by (metis list.simps(9))
  then show ?thesis by (simp add: comp_def)
qed

lemma aes_sbox_fips: "aes_sbox = map (\<lambda>n. fips_sbox (of_nat n)) [0..<256]"
proof -
  have "aes_sbox = map fips_affine gf_inverses"
    by (simp add: aes_sbox_def Te4_def gf_inverses_def fips_affine_def rotate_left8_def)
  then show ?thesis by (simp add: fips_sbox_def comp_def flip: gf_inverses_eq)
qed

lemma entry_sbox_fips: "entry aes_sbox b = fips_sbox b"
  by (simp only: aes_sbox_fips entry_octets)

text \<open>The affine map on bits, as the standard writes it.\<close>

lemma fips_affine_bit:
  assumes "i < 8"
  shows "bit (fips_affine b) i \<longleftrightarrow>
    (((((bit b i \<noteq> bit b ((i + 4) mod 8)) \<noteq> bit b ((i + 5) mod 8)) \<noteq> bit b ((i + 6) mod 8)) \<noteq>
      bit b ((i + 7) mod 8)) \<noteq> bit (0x63 :: u8) i)"
proof -
  have "bit (rotate_left8 k b) i \<longleftrightarrow> bit b ((i + (8 - k)) mod 8)" if "0 < k" "k < 8" for k
    using assms that by (cases "k \<le> i") (auto simp: rotate_left8_def bit_simps mod_if add.commute dest: bit_imp_le_length)
  then have "bit (rotate_left8 1 b) i \<longleftrightarrow> bit b ((i + 7) mod 8)"
    "bit (rotate_left8 2 b) i \<longleftrightarrow> bit b ((i + 6) mod 8)"
    "bit (rotate_left8 3 b) i \<longleftrightarrow> bit b ((i + 5) mod 8)"
    "bit (rotate_left8 4 b) i \<longleftrightarrow> bit b ((i + 4) mod 8)"
    by (simp_all add: add.commute)
  then show ?thesis unfolding fips_affine_def bit_xor_iff by argo
qed

end
