(* ===== verification/Aes_Fips.thy ===== *)
theory Aes_Fips
  imports Aes_Rounds Aes_Sbox
begin

text \<open>
  AES as the standard FIPS 197 describes it, on the sixteen octets of the state and with one key
  expansion for all key sizes. What \<open>lib/crypt/ogs-aes.c\<close> computes with its eight tables and three
  unrolled schedules is this cipher, and decryption undoes encryption.
\<close>

subsection \<open>The standard\<close>

definition fips_sub_bytes :: "bytes \<Rightarrow> bytes" where
  "fips_sub_bytes st = map fips_sbox st"

definition fips_shift_rows :: "bytes \<Rightarrow> bytes" where
  "fips_shift_rows st = map (\<lambda>i. st ! ((i + 4 * (i mod 4)) mod 16)) [0..<16]"

definition fips_mix_column :: "bytes \<Rightarrow> bytes" where
  "fips_mix_column s =
     map (\<lambda>r. gf_mul 2 (s ! r) XOR gf_mul 3 (s ! ((r + 1) mod 4)) XOR
              s ! ((r + 2) mod 4) XOR s ! ((r + 3) mod 4)) [0..<4]"

definition fips_mix_columns :: "bytes \<Rightarrow> bytes" where
  "fips_mix_columns st = concat (map (\<lambda>c. fips_mix_column (take 4 (drop (4 * c) st))) [0..<4])"

definition fips_sub_word :: "u32 \<Rightarrow> u32" where
  "fips_sub_word t =
     get32 (fips_sbox (byte32 t 0)) (fips_sbox (byte32 t 1)) (fips_sbox (byte32 t 2)) (fips_sbox (byte32 t 3))"

definition fips_rot_word :: "u32 \<Rightarrow> u32" where
  "fips_rot_word t = get32 (byte32 t 1) (byte32 t 2) (byte32 t 3) (byte32 t 0)"

fun fips_rcon :: "nat \<Rightarrow> u8" where
  "fips_rcon 0 = 1"
| "fips_rcon (Suc i) = gf_mul 2 (fips_rcon i)"

text \<open>The words of the expanded key, for a key of \<open>nk\<close> words.\<close>

function fips_w :: "nat \<Rightarrow> bytes \<Rightarrow> nat \<Rightarrow> u32" where
  "fips_w nk key i =
     (if i < nk \<or> nk = 0 then be_word key (4 * i)
      else let temp = fips_w nk key (i - 1);
               temp = (if i mod nk = 0
                       then fips_sub_word (fips_rot_word temp) XOR push_bit 24 (ucast (fips_rcon (i div nk - 1)))
                       else if nk > 6 \<and> i mod nk = 4 then fips_sub_word temp else temp)
           in fips_w nk key (i - nk) XOR temp)"
  by pat_completeness auto
termination by (relation "measure (\<lambda>(_, _, i). i)") auto

declare fips_w.simps [simp del]

definition fips_round_key :: "nat \<Rightarrow> bytes \<Rightarrow> nat \<Rightarrow> bytes" where
  "fips_round_key nk key r = concat (map (\<lambda>c. put32 (fips_w nk key (4 * r + c))) [0..<4])"

fun fips_state :: "nat \<Rightarrow> bytes \<Rightarrow> bytes \<Rightarrow> nat \<Rightarrow> bytes" where
  "fips_state nk key p 0 = xor_bytes p (fips_round_key nk key 0)"
| "fips_state nk key p (Suc r) =
     xor_bytes (fips_mix_columns (fips_shift_rows (fips_sub_bytes (fips_state nk key p r))))
               (fips_round_key nk key (Suc r))"

definition fips_cipher :: "nat \<Rightarrow> bytes \<Rightarrow> bytes \<Rightarrow> bytes" where
  "fips_cipher nk key p =
     (let nr = nk + 6
      in xor_bytes (fips_shift_rows (fips_sub_bytes (fips_state nk key p (nr - 1)))) (fips_round_key nk key nr))"

subsection \<open>The steps on octets\<close>

lemma gf_mul_two: "gf_mul 2 b = MULx b 0x1b"
  using gf_mul_power [of 1 b] by (simp add: gf_mul_commute [of 2] gf_xtime_MULx)

lemma gf_mul_three: "gf_mul 3 b = MULx b 0x1b XOR b"
  using gf_mul_xor(1) [of 2 1 b] by (simp add: gf_mul_two gf_mul_one)

lemma upt16: "[0..<16] = [0, 1, 2, 3, 4, 5, 6, 7, 8, 9, 10, 11, 12, 13, 14, 15 :: nat]"
  by (simp add: upt_rec [of 0] upt_rec [of "Suc 0"] numeral_2_eq_2 [symmetric])

lemma upt4: "[0..<4] = [0, 1, 2, 3 :: nat]"
  by (simp add: upt_rec [of 0] upt_rec [of "Suc 0"] numeral_2_eq_2 [symmetric])

lemma put32_get32 [simp]: "put32 (get32 a b c d) = [a, b, c, d]"
  by (simp add: put32_bytes)

lemma put32_xor: "put32 (v XOR w) = xor_bytes (put32 v) (put32 w)"
  by (simp add: put32_bytes xor_bytes_def)

lemma store_add4: "aes_store (add4 s k) = xor_bytes (aes_store s) (aes_store k)"
  by (cases s; cases k) (simp add: aes_store_def add4_def put32_xor xor_bytes_append)

lemma state_octets:
  obtains a0 a1 a2 a3 b0 b1 b2 b3 c0 c1 c2 c3 d0 d1 d2 d3
  where "s = (get32 a0 a1 a2 a3, get32 b0 b1 b2 b3, get32 c0 c1 c2 c3, get32 d0 d1 d2 d3)"
proof -
  obtain w x y z where s: "s = (w, x, y, z)" by (cases s)
  obtain a0 a1 a2 a3 where w: "w = get32 a0 a1 a2 a3" by (rule word_octets)
  obtain b0 b1 b2 b3 where x: "x = get32 b0 b1 b2 b3" by (rule word_octets)
  obtain c0 c1 c2 c3 where y: "y = get32 c0 c1 c2 c3" by (rule word_octets)
  obtain d0 d1 d2 d3 where z: "z = get32 d0 d1 d2 d3" by (rule word_octets)
  show ?thesis by (rule that) (simp only: s w x y z)
qed

lemma store_sub_shift: "aes_store (sub_shift s) = fips_shift_rows (fips_sub_bytes (aes_store s))"
  by (rule state_octets [of s])
    (simp add: aes_store_def sub_shift_def fips_shift_rows_def fips_sub_bytes_def upt16 entry_sbox_fips)

lemma put32_mix_column: "put32 (mix_column (get32 a b c d)) = fips_mix_column [a, b, c, d]"
  unfolding mix_column_def Let_def byte32_get32 put32_get32 fips_mix_column_def upt4
  by (simp add: gf_mul_two gf_mul_three ac_simps)

lemma store_mix: "aes_store (map4 mix_column s) = fips_mix_columns (aes_store s)"
  by (rule state_octets [of s])
    (simp add: aes_store_def map4_def put32_mix_column fips_mix_columns_def upt4)

lemma store_load:
  assumes "length p = 16"
  shows "aes_store (aes_load p rk) = xor_bytes p (aes_store (round_key rk 0))"
proof -
  have "aes_load p rk = add4 (be_word p 0, be_word p 4, be_word p 8, be_word p 12) (round_key rk 0)"
    by (simp add: aes_load_def add4_def round_key_def numeral_3_eq_3 numeral_2_eq_2)
  then show ?thesis by (simp add: store_add4 store_block assms)
qed

subsection \<open>The key schedules\<close>

lemma aes_sub_rot_fips: "aes_sub_rot t = fips_sub_word (fips_rot_word t)"
  by (simp add: aes_sub_rot_def fips_sub_word_def fips_rot_word_def Te4_columns entry_map length_sbox mask_octets
      get32_xor entry_sbox_fips del: One_nat_def)

lemma aes_sub_fips: "aes_sub t = fips_sub_word t"
  by (simp add: aes_sub_def fips_sub_word_def Te4_columns entry_map length_sbox mask_octets get32_xor
      entry_sbox_fips del: One_nat_def)

lemma rcon_nth:
  assumes "i < 10"
  shows "rcon ! i = push_bit 24 (ucast (fips_rcon i))"
proof -
  have step: "fips_rcon (n + 1) = MULx (fips_rcon n) 0x1b" for n by (simp add: gf_mul_two)
  have f0: "fips_rcon 0 = 1" by simp
  have f1: "fips_rcon (Suc 0) = 0x2" using step [of 0] unfolding f0 by (simp add: MULx_def)
  have f2: "fips_rcon 2 = 0x4" using step [of "Suc 0"] unfolding f1 by (simp add: MULx_def numeral_2_eq_2)
  have f3: "fips_rcon 3 = 0x8" using step [of 2] unfolding f2 by (simp add: MULx_def)
  have f4: "fips_rcon 4 = 0x10" using step [of 3] unfolding f3 by (simp add: MULx_def)
  have f5: "fips_rcon 5 = 0x20" using step [of 4] unfolding f4 by (simp add: MULx_def)
  have f6: "fips_rcon 6 = 0x40" using step [of 5] unfolding f5 by (simp add: MULx_def)
  have f7: "fips_rcon 7 = 0x80" using step [of 6] unfolding f6 by (simp add: MULx_def)
  have f8: "fips_rcon 8 = 0x1b" using step [of 7] unfolding f7 by (simp add: MULx_def)
  have f9: "fips_rcon 9 = 0x36" using step [of 8] unfolding f8 by (simp add: MULx_def)
  have "i \<in> {0, 1, 2, 3, 4, 5, 6, 7, 8, 9}" using assms by auto
  then show ?thesis
    by (elim insertE emptyE) (simp_all only: f0 f1 One_nat_def f2 f3 f4 f5 f6 f7 f8 f9, simp_all add: rcon_def)
qed

text \<open>Words of the schedule by their place in a round of the expansion.\<close>

lemma fips_w_key: "i < nk \<Longrightarrow> fips_w nk key i = be_word key (4 * i)"
  by (subst fips_w.simps) simp

lemma fips_w_first:
  assumes "0 < nk" "i < 10"
  shows "fips_w nk key (nk * Suc i) =
    fips_w nk key (nk * i) XOR aes_sub_rot (fips_w nk key (nk * i + (nk - 1))) XOR rcon ! i"
proof -
  have "nk * Suc i - 1 = nk * i + (nk - 1)" "nk * Suc i div nk - 1 = i" using assms(1) by auto
  then show ?thesis
    using assms by (subst fips_w.simps) (simp add: aes_sub_rot_fips rcon_nth xor.assoc)
qed

lemma fips_w_other:
  assumes "0 < j" "j < nk"
  shows "fips_w nk key (nk * Suc i + j) =
    fips_w nk key (nk * i + j) XOR
    (if nk > 6 \<and> j = 4 then aes_sub (fips_w nk key (nk * Suc i + (j - 1))) else fips_w nk key (nk * Suc i + (j - 1)))"
proof -
  have "nk * Suc i + j - nk = nk * i + j" "nk * Suc i + j - 1 = nk * Suc i + (j - 1)"
    "\<not> (nk * Suc i + j < nk \<or> nk = 0)"
    using assms by auto
  moreover have "(nk * Suc i + j) mod nk = j" using assms by (simp only: mod_mult_self4 mod_less)
  ultimately have
    "fips_w nk key (nk * Suc i + j) =
      fips_w nk key (nk * i + j) XOR
      (if j = 0 then fips_sub_word (fips_rot_word (fips_w nk key (nk * Suc i + (j - 1)))) XOR
                     push_bit 24 (ucast (fips_rcon ((nk * Suc i + j) div nk - 1)))
       else if nk > 6 \<and> j = 4 then fips_sub_word (fips_w nk key (nk * Suc i + (j - 1)))
       else fips_w nk key (nk * Suc i + (j - 1)))"
    by (subst fips_w.simps) (simp only: Let_def if_False)
  then show ?thesis using assms(1) by (simp only: aes_sub_fips neq0_conv [symmetric] if_False)
qed

abbreviation fips_words :: "nat \<Rightarrow> bytes \<Rightarrow> nat \<Rightarrow> u32 list" where
  "fips_words nk key n \<equiv> map (fips_w nk key) [0..<n]"

lemma fips_words_append:
  "fips_words nk key (a + m) = fips_words nk key a @ map (\<lambda>j. fips_w nk key (a + j)) [0..<m]"
  by (rule nth_equalityI) (auto simp: nth_append)

lemma upt6: "[0..<6] = [0, 1, 2, 3, 4, 5 :: nat]"
  by (simp add: upt_rec [of 0] upt_rec [of "Suc 0"] numeral_2_eq_2 [symmetric])

lemma upt8: "[0..<8] = [0, 1, 2, 3, 4, 5, 6, 7 :: nat]"
  by (simp add: upt_rec [of 0] upt_rec [of "Suc 0"] numeral_2_eq_2 [symmetric])

text \<open>One round of the expansion: the words \<open>b\<close> to \<open>c - 1\<close> give those from \<open>c\<close> on.\<close>

lemma fips_w_round:
  assumes "b = nk * i" "c = b + nk" "0 < nk" "i < 10"
  shows "fips_w nk key b XOR aes_sub_rot (fips_w nk key (b + (nk - 1))) XOR rcon ! i = fips_w nk key c"
  and "0 < j \<Longrightarrow> j < nk \<Longrightarrow>
    fips_w nk key (b + j) XOR
    (if nk > 6 \<and> j = 4 then aes_sub (fips_w nk key (c + (j - 1))) else fips_w nk key (c + (j - 1))) =
    fips_w nk key (c + j)"
  using fips_w_first [of nk i key] fips_w_other [of j nk key i] assms
  by (simp_all only: mult_Suc_right add.commute [of nk])

lemma expand128_round:
  assumes "i < 10"
  shows "aes_expand128 (Suc n) i (fips_words 4 key (4 * i + 4)) =
    aes_expand128 n (i + 1) (fips_words 4 key (4 * (i + 1) + 4))"
proof -
  define b where "b = 4 * i"
  define c where "c = b + 4"
  define rk where "rk = fips_words 4 key c"
  note w = fips_w_round [OF b_def c_def _ assms, simplified]
  have nth: "rk ! b = fips_w 4 key b" "rk ! (b + 1) = fips_w 4 key (b + 1)" "rk ! (b + 2) = fips_w 4 key (b + 2)"
    "rk ! (b + 3) = fips_w 4 key (b + 3)"
    by (simp_all add: rk_def c_def)
  have "aes_expand128 (Suc n) i rk =
      aes_expand128 n (i + 1)
        (rk @ [fips_w 4 key c, fips_w 4 key (c + 1), fips_w 4 key (c + 2), fips_w 4 key (c + 3)])"
    using w(1) w(2) [of 1] w(2) [of 2] w(2) [of 3] nth
    by (simp add: Let_def flip: b_def)
  moreover have "rk @ [fips_w 4 key c, fips_w 4 key (c + 1), fips_w 4 key (c + 2), fips_w 4 key (c + 3)] =
      fips_words 4 key (c + 4)"
    by (simp only: fips_words_append upt4 rk_def list.map add_0_right)
  ultimately show ?thesis by (simp add: rk_def b_def c_def)
qed


lemma expand192_round:
  assumes "i < 10"
  shows "aes_expand192 (Suc n) i (fips_words 6 key (6 * i + 6)) =
    (if n = 0 then fips_words 6 key (6 * (i + 1) + 4)
     else aes_expand192 n (i + 1) (fips_words 6 key (6 * (i + 1) + 6)))"
proof -
  define b where "b = 6 * i"
  define c where "c = b + 6"
  define rk where "rk = fips_words 6 key c"
  note w = fips_w_round [OF b_def c_def _ assms, simplified]
  have nth: "rk ! b = fips_w 6 key b"
    "rk ! (b + 1) = fips_w 6 key (b + 1)"
    "rk ! (b + 2) = fips_w 6 key (b + 2)"
    "rk ! (b + 3) = fips_w 6 key (b + 3)"
    "rk ! (b + 4) = fips_w 6 key (b + 4)"
    "rk ! (b + 5) = fips_w 6 key (b + 5)"
    by (simp_all add: rk_def c_def)
  have "aes_expand192 (Suc n) i rk =
      (if n = 0 then rk @ [fips_w 6 key c, fips_w 6 key (c + 1), fips_w 6 key (c + 2), fips_w 6 key (c + 3)]
       else aes_expand192 n (i + 1)
         (rk @ [fips_w 6 key c, fips_w 6 key (c + 1), fips_w 6 key (c + 2), fips_w 6 key (c + 3), fips_w 6 key (c + 4), fips_w 6 key (c + 5)]))"
    using w(1) w(2) [of 1] w(2) [of 2] w(2) [of 3] w(2) [of 4] w(2) [of 5] nth
    by (simp add: Let_def flip: b_def)
  moreover have "rk @ [fips_w 6 key c, fips_w 6 key (c + 1), fips_w 6 key (c + 2), fips_w 6 key (c + 3), fips_w 6 key (c + 4), fips_w 6 key (c + 5)] =
      fips_words 6 key (c + 6)"
    by (simp only: fips_words_append upt6 rk_def list.map add_0_right)
  moreover have "rk @ [fips_w 6 key c, fips_w 6 key (c + 1), fips_w 6 key (c + 2), fips_w 6 key (c + 3)] = fips_words 6 key (c + 4)"
    by (simp only: fips_words_append upt4 rk_def list.map add_0_right)
  ultimately show ?thesis by (simp add: rk_def b_def c_def)
qed

lemma expand256_round:
  assumes "i < 10"
  shows "aes_expand256 (Suc n) i (fips_words 8 key (8 * i + 8)) =
    (if n = 0 then fips_words 8 key (8 * (i + 1) + 4)
     else aes_expand256 n (i + 1) (fips_words 8 key (8 * (i + 1) + 8)))"
proof -
  define b where "b = 8 * i"
  define c where "c = b + 8"
  define rk where "rk = fips_words 8 key c"
  note w = fips_w_round [OF b_def c_def _ assms, simplified]
  have nth: "rk ! b = fips_w 8 key b"
    "rk ! (b + 1) = fips_w 8 key (b + 1)"
    "rk ! (b + 2) = fips_w 8 key (b + 2)"
    "rk ! (b + 3) = fips_w 8 key (b + 3)"
    "rk ! (b + 4) = fips_w 8 key (b + 4)"
    "rk ! (b + 5) = fips_w 8 key (b + 5)"
    "rk ! (b + 6) = fips_w 8 key (b + 6)"
    "rk ! (b + 7) = fips_w 8 key (b + 7)"
    by (simp_all add: rk_def c_def)
  have "aes_expand256 (Suc n) i rk =
      (if n = 0 then rk @ [fips_w 8 key c, fips_w 8 key (c + 1), fips_w 8 key (c + 2), fips_w 8 key (c + 3)]
       else aes_expand256 n (i + 1)
         (rk @ [fips_w 8 key c, fips_w 8 key (c + 1), fips_w 8 key (c + 2), fips_w 8 key (c + 3), fips_w 8 key (c + 4), fips_w 8 key (c + 5), fips_w 8 key (c + 6), fips_w 8 key (c + 7)]))"
    using w(1) w(2) [of 1] w(2) [of 2] w(2) [of 3] w(2) [of 4] w(2) [of 5] w(2) [of 6] w(2) [of 7] nth
    by (simp add: Let_def flip: b_def)
  moreover have "rk @ [fips_w 8 key c, fips_w 8 key (c + 1), fips_w 8 key (c + 2), fips_w 8 key (c + 3), fips_w 8 key (c + 4), fips_w 8 key (c + 5), fips_w 8 key (c + 6), fips_w 8 key (c + 7)] =
      fips_words 8 key (c + 8)"
    by (simp only: fips_words_append upt8 rk_def list.map add_0_right)
  moreover have "rk @ [fips_w 8 key c, fips_w 8 key (c + 1), fips_w 8 key (c + 2), fips_w 8 key (c + 3)] = fips_words 8 key (c + 4)"
    by (simp only: fips_words_append upt4 rk_def list.map add_0_right)
  ultimately show ?thesis by (simp add: rk_def b_def c_def)
qed

lemma expand128_fips:
  "i + n \<le> 10 \<Longrightarrow> aes_expand128 n i (fips_words 4 key (4 * i + 4)) = fips_words 4 key (4 * (i + n) + 4)"
proof (induction n arbitrary: i)
  case (Suc n)
  then show ?case using Suc.IH [of "Suc i"] by (simp only: expand128_round) simp
qed simp

lemma expand192_fips:
  "i + n < 10 \<Longrightarrow> aes_expand192 (Suc n) i (fips_words 6 key (6 * i + 6)) = fips_words 6 key (6 * (i + Suc n) + 4)"
proof (induction n arbitrary: i)
  case (Suc n)
  then show ?case using Suc.IH [of "Suc i"] by (simp only: expand192_round) simp
qed (simp only: expand192_round, simp)

lemma expand256_fips:
  "i + n < 10 \<Longrightarrow> aes_expand256 (Suc n) i (fips_words 8 key (8 * i + 8)) = fips_words 8 key (8 * (i + Suc n) + 4)"
proof (induction n arbitrary: i)
  case (Suc n)
  then show ?case using Suc.IH [of "Suc i"] by (simp only: expand256_round) simp
qed (simp only: expand256_round, simp)

lemma setup_enc_fips:
  assumes "keybits = 128 \<and> nk = 4 \<or> keybits = 192 \<and> nk = 6 \<or> keybits = 256 \<and> nk = 8"
  shows "ogs_aes_setup_enc key keybits = (nk + 6, fips_words nk key (4 * (nk + 6) + 4))"
proof -
  have k4: "fips_words 4 key 4 = [be_word key 0, be_word key 4, be_word key 8, be_word key 12]"
    by (simp add: upt4 fips_w_key del: One_nat_def)
  have k6: "fips_words 6 key 6 = [be_word key 0, be_word key 4, be_word key 8, be_word key 12,
      be_word key 16, be_word key 20]"
    by (simp add: upt6 fips_w_key del: One_nat_def)
  have k8: "fips_words 8 key 8 = [be_word key 0, be_word key 4, be_word key 8, be_word key 12,
      be_word key 16, be_word key 20, be_word key 24, be_word key 28]"
    by (simp add: upt8 fips_w_key del: One_nat_def)
  show ?thesis
    using assms expand128_fips [of 0 10 key] expand192_fips [of 0 7 key] expand256_fips [of 0 6 key]
    by (elim disjE) (simp_all add: ogs_aes_setup_enc_def k4 k6 k8 Let_def)
qed

lemma store_fips_key:
  assumes "4 * r + 4 \<le> n"
  shows "aes_store (round_key (fips_words nk key n) r) = fips_round_key nk key r"
  using assms by (simp add: aes_store_def round_key_def fips_round_key_def upt4)

lemma enc_state_fips:
  assumes "length p = 16" "4 * r + 4 \<le> n"
  shows "aes_store (aes_enc_state (fips_words nk key n) p r) = fips_state nk key p r"
  using assms(2)
proof (induction r)
  case 0
  then show ?case using assms(1) by (simp add: enc_state_simps store_load store_fips_key)
next
  case (Suc r)
  then show ?case
    by (simp only: enc_state_simps store_add4 store_mix store_sub_shift store_fips_key fips_state.simps) simp
qed

subsection \<open>Properties\<close>

lemma encrypt_fips:
  assumes "keybits = 128 \<and> nk = 4 \<or> keybits = 192 \<and> nk = 6 \<or> keybits = 256 \<and> nk = 8" and "length p = 16"
  shows "ogs_aes_encrypt (snd (ogs_aes_setup_enc key keybits)) (nk + 6) p = fips_cipher nk key p"
proof -
  have "aes_full_rounds (nk + 6) = nk + 5" using assms(1) by (auto simp: aes_full_rounds_def)
  then show ?thesis
    using assms(2) by (simp add: setup_enc_fips [OF assms(1)] encrypt_steps store_add4 store_sub_shift
        enc_state_fips store_fips_key fips_cipher_def Let_def add.commute [of nk])
qed

text \<open>C38. For all three key sizes the key schedule and the table-driven rounds of \<open>ogs-aes.c\<close> compute the cipher of FIPS 197, with the number of rounds the standard prescribes.\<close>

theorem aes_encrypt_fips:
  assumes "keybits = 128 \<and> nk = 4 \<or> keybits = 192 \<and> nk = 6 \<or> keybits = 256 \<and> nk = 8"
    and "4 * nk \<le> length key" and "length p = 16"
  shows "case ogs_aes_setup_enc key keybits of (nrounds, rk) \<Rightarrow>
    nrounds = nk + 6 \<and> ogs_aes_encrypt rk nrounds p = fips_cipher nk key p"
  using setup_enc_fips [OF assms(1), of key] encrypt_fips [OF assms(1,3), of key] by simp

theorem aes_encrypt_fips_witness:
  "case ogs_aes_setup_enc [0, 1, 2, 3, 4, 5, 6, 7, 8, 9, 10, 11, 12, 13, 14, 15] 128 of (nrounds, rk) \<Rightarrow>
     nrounds = 10 \<and>
     ogs_aes_encrypt rk nrounds (replicate 16 0x11) =
     fips_cipher 4 [0, 1, 2, 3, 4, 5, 6, 7, 8, 9, 10, 11, 12, 13, 14, 15] (replicate 16 0x11)"
  using aes_encrypt_fips [of 128 4 "[0, 1, 2, 3, 4, 5, 6, 7, 8, 9, 10, 11, 12, 13, 14, 15]" "replicate 16 0x11"]
  by (simp split: prod.splits)

text \<open>C39. Decryption with the schedule of \<open>ogs_aes_setup_dec\<close> gives back every block that \<open>ogs_aes_encrypt\<close> encrypted with the same key of 128, 192 or 256 bits.\<close>

theorem aes_roundtrip:
  assumes "keybits \<in> {128, 192, 256}" and "keybits \<le> 8 * length key" and "length p = 16"
  shows "case ogs_aes_setup_enc key keybits of (nrounds, rk) \<Rightarrow>
    case ogs_aes_setup_dec key keybits of (drounds, dk) \<Rightarrow>
      drounds = nrounds \<and> ogs_aes_decrypt dk drounds (ogs_aes_encrypt rk nrounds p) = p"
proof -
  obtain nk where nk: "keybits = 128 \<and> nk = (4 :: nat) \<or> keybits = 192 \<and> nk = 6 \<or> keybits = 256 \<and> nk = 8"
    using assms(1) by auto
  note enc = setup_enc_fips [OF nk, of key]
  have "aes_full_rounds (nk + 6) = nk + 6 - 1" using nk by (auto simp: aes_full_rounds_def)
  then show ?thesis
    using inverse_schedule_dec [OF enc] decrypt_encrypt [of "nk + 6"] assms(3) enc
    by (auto split: prod.split)
qed

theorem aes_roundtrip_witness:
  "case ogs_aes_setup_enc (replicate 32 7) 256 of (nrounds, rk) \<Rightarrow>
   case ogs_aes_setup_dec (replicate 32 7) 256 of (drounds, dk) \<Rightarrow>
     drounds = nrounds \<and>
     ogs_aes_decrypt dk drounds (ogs_aes_encrypt rk nrounds (replicate 16 0x11)) = replicate 16 0x11"
  by (rule aes_roundtrip) simp_all

end
