(* ===== verification/Nas_Ciphers.thy ===== *)
theory Nas_Ciphers
  imports Nas_Security_Octets Snow3g_Equiv Zuc_Props Aes_Fips
begin

text \<open>
  The ciphers of \<open>lib/crypt\<close> as \<open>lib/nas/common/security.c\<close> calls them. The results of the
  octet models are \<open>None\<close> only when a message is shorter than its length says, which no call here
  allows; what the security of NAS relies on (\<open>ciphers_ok\<close>) holds for them.
\<close>

text \<open>The two calls by which the CMAC and the counter mode encrypt a block, key schedule
  included.\<close>

definition aes_128_encrypt_block :: "bytes \<Rightarrow> bytes \<Rightarrow> bytes" where
  "aes_128_encrypt_block key b = (let (nrounds, rk) = ogs_aes_setup_enc key 128 in ogs_aes_encrypt rk nrounds b)"

definition nas_eia1 :: "bytes \<Rightarrow> u32 \<Rightarrow> u32 \<Rightarrow> u8 \<Rightarrow> bytes \<Rightarrow> bytes" where
  "nas_eia1 key count fresh dir data = the (snow_3g_f9 key count fresh (ucast dir) data (8 * length data))"

definition nas_eea1 :: "bytes \<Rightarrow> u32 \<Rightarrow> u8 \<Rightarrow> u8 \<Rightarrow> bytes \<Rightarrow> bytes" where
  "nas_eea1 key count bearer dir data = SNOW data (SNOW_init count bearer dir key)"

definition nas_eia3 :: "bytes \<Rightarrow> u32 \<Rightarrow> u8 \<Rightarrow> u8 \<Rightarrow> bytes \<Rightarrow> u32" where
  "nas_eia3 key count bearer dir data =
     the (zuc_eia3 key count (ucast bearer) (ucast dir) (8 * length data) data)"

definition nas_eea3 :: "bytes \<Rightarrow> u32 \<Rightarrow> u8 \<Rightarrow> u8 \<Rightarrow> bytes \<Rightarrow> bytes" where
  "nas_eea3 key count bearer dir data =
     the (zuc_eea3 key count (ucast bearer) (ucast dir) (8 * length data) data)"

definition core_ciphers :: nas_ciphers where
  "core_ciphers = \<lparr>nc_aes = aes_128_encrypt_block, nc_snow_f9 = nas_eia1, nc_snow = nas_eea1,
     nc_zuc_eia3 = nas_eia3, nc_zuc_eea3 = nas_eea3\<rparr>"

lemma length_aes_store: "length (aes_store s) = 16"
  by (cases s) (simp add: aes_store_def put32_def)

lemma length_aes_128_encrypt_block: "length (aes_128_encrypt_block key b) = 16"
  by (simp add: aes_128_encrypt_block_def split_beta encrypt_steps length_aes_store)

lemma length_nas_eia1: "data \<noteq> [] \<Longrightarrow> length (nas_eia1 key count fresh dir data) = 4"
  by (simp add: nas_eia1_def snow_3g_f9_def Let_def split_beta)

lemma nas_eea3:
  shows "length (nas_eea3 key count bearer dir data) = length data"
  and "nas_eea3 key count bearer dir (nas_eea3 key count bearer dir data) = data"
proof -
  obtain C where C: "zuc_eea3 key count (ucast bearer) (ucast dir) (8 * length data) data = Some C"
    unfolding eea3_stream by blast
  note inv = eea3_twice [OF C]
  show "length (nas_eea3 key count bearer dir data) = length data"
    unfolding nas_eea3_def C option.sel by (rule inv(1))
  show "nas_eea3 key count bearer dir (nas_eea3 key count bearer dir data) = data"
    unfolding nas_eea3_def C option.sel inv(2) by (rule refl)
qed

text \<open>C40. The ciphers of the code have what the protection of NAS messages relies on: AES gives blocks of sixteen octets, the authentication code of SNOW 3G has four octets, and both stream ciphers keep the length of a message and undo themselves.\<close>

theorem core_ciphers_ok: "ciphers_ok core_ciphers"
  by (simp add: ciphers_ok_def core_ciphers_def length_aes_128_encrypt_block length_nas_eia1 nas_eea1_def SNOW_twice nas_eea3)

end
