(* ===== verification/Spec2Isabelle.thy ===== *)
theory Spec2Isabelle
  imports Ogs_Pool Ogs_Tlv_Build Ogs_Conv Pfcp_Types Gtp2_Types_Props Ogs_List Ogs_Hash Ogs_Queue Ogs_Timer_Tree Sbi_Nf_Sm Pfcp_Xact_Expiry Nas_Security_Props Nas_Ciphers
begin

text \<open>
  \<^bold>\<open>Open5GS, the libraries under the network functions.\<close>

  Open5GS is a 5G core and EPC: some twenty network functions (\<open>src/amf\<close>, \<open>src/smf\<close>,
  \<open>src/upf\<close> and so on), each a process with one event loop, on top of shared libraries.
  \<open>lib/core\<close> has the containers, buffers, timers, the event queue and the state-machine
  framework; \<open>lib/pfcp\<close>, \<open>lib/gtp\<close> and \<open>lib/sbi\<close> have the protocols between the functions. The
  development models these libraries from the bottom up, and the places where the parts meet.

  \<^bold>\<open>Conventions\<close> (\<open>Ogs_Prelude\<close>). Fixed-width integers are words, octets are \<open>8 word\<close>. A result of
  type \<open>option\<close> is \<open>None\<close> where the C code aborts by \<open>ogs_assert\<close> or would access memory
  outside an object; an error that is returned is a value. Structures are records, enumerations
  datatypes, loops recursive functions with a measure, or \<open>partial_function (option)\<close> where they
  follow pointers. Time is an integer handed to the operations. Logging is left out.

  \<^bold>\<open>Containers.\<close>
  \<^item> \<open>Ogs_Pool\<close>, \<open>lib/core/ogs-pool.h\<close>: the ring of free objects with its index table and the
    identifiers handed out with the objects. Allocation takes the object free longest, freeing
    returns it; identifiers are unique until the 31-bit counter wraps, and then are not.
  \<^item> \<open>Ogs_List\<close>, \<open>lib/core/ogs-list.h\<close>: the intrusive doubly linked list on a memory of links;
    it refines the sequence of its nodes. The client side is the locale \<open>intrusive_list\<close>.
  \<^item> \<open>Ogs_Hash\<close>, \<open>lib/core/ogs-hash.c\<close>: chained hashing with a growing array; it refines a map
    through any sequence of operations. The contract for its users is the locale \<open>keyed_index\<close>.
  \<^item> \<open>Ogs_Rbtree\<close>, \<open>lib/core/ogs-rbtree.[hc]\<close>: red-black trees on a memory of nodes with parent
    links. \<open>Ogs_Rbtree_Rep\<close> splits the memory into a focused subtree and its context and says what
    each pointer manipulation does to them; \<open>Ogs_Rbtree_Inv\<close> shows that the rebalancing loops end
    and restore the shape; \<open>Ogs_Rbtree_Props\<close> has iteration (locale \<open>rb_iterator\<close>, for both
    directions) and deletion.
  \<^item> \<open>Ogs_Queue\<close>, \<open>lib/core/ogs-queue.c\<close>: the bounded queue between threads, as a step relation
    that interleaves the critical sections of any number of pushing, popping and terminating
    threads; first in, first out, with nothing lost or duplicated.

  \<^bold>\<open>Octets.\<close>
  \<^item> \<open>Ogs_Conv\<close>, \<open>lib/core/ogs-conv.c\<close>: hexadecimal, decimal (TBCD) and integer conversions.
  \<^item> \<open>Ogs_Pkbuf\<close>, \<open>lib/core/ogs-pkbuf.[hc]\<close>: head, data, tail and end of a packet buffer.
  \<^item> \<open>Ogs_Tlv\<close>, \<open>lib/core/ogs-tlv.c\<close>: chains of type-length-value elements from a pool, rendering
    and parsing in the five header formats.
  \<^item> \<open>Ogs_Tlv_Msg\<close>, \<open>lib/core/ogs-tlv-msg.c\<close>: messages built and parsed along descriptor tables.
    The tables are generated; they are an argument, with their well-formedness as a hypothesis.
    \<open>Ogs_Tlv_Build\<close> says what the octets of a message are, field by field and without the pool and
    the nodes of the code, and shows that the builder gives them.
  \<^item> \<open>Ogs_Ie\<close>, \<open>Pfcp_Types\<close>, \<open>Gtp2_Types\<close>, \<open>Gtp2_Types_Props\<close>: the structured elements of
    \<open>lib/pfcp/types.c\<close> and \<open>lib/gtp/v2/types.c\<close>, from bit rates to traffic flow templates. A pair
    of builder and parser is an interpretation of the locale \<open>ie_codec\<close>.

  \<^bold>\<open>Time and events.\<close>
  \<^item> \<open>Ogs_Timer\<close>, \<open>lib/core/ogs-timer.c\<close>: timers of a manager, in the order of their expiry;
    expiry runs the callbacks of the caller, which may stop, start and delete timers (locale
    \<open>timer_callbacks\<close>; what they start must not be due yet, and they add no timer).
    \<open>Ogs_Timer_Tree\<close> is
    the same manager on its red-black tree; it refines the former (locale \<open>timer_store\<close>), so
    that clients reason about a sorted sequence.
  \<^item> \<open>Ogs_Fsm\<close>, \<open>lib/core/ogs-fsm.c\<close>: initialisation, dispatch with transitions, finish; the
    locale \<open>fsm_client\<close> lifts an invariant of the handlers to all runs.
  \<^item> \<open>Sbi_Nf_Sm\<close>, \<open>lib/sbi/nf-sm.c\<close>: the machine of a network function instance towards the
    NRF (registration, heartbeat, deregistration) with its timers and the events in the queue.
    The profile of an instance assigns its type: the properties hold for the client's own NRF,
    which no profile reaches, and for other instances unless a profile is that of an NRF; then
    the program can abort, which is shown too.

  \<^bold>\<open>Security.\<close> \<open>Nas_Security\<close>: the protection of NAS messages between UE and core,
  \<open>lib/nas/common/security.c\<close> with counter mode and CMAC of \<open>lib/crypt\<close>, the encoders and decoders
  of \<open>src/amf/nas-security.c\<close> and \<open>src/mme/nas-security.c\<close> on packet buffers, and the way of
  received octets into them (\<open>ngap_send_to_nas\<close>, \<open>s1ap_send_to_nas\<close>). \<open>Nas_Security_Octets\<close> relates
  the code on buffers to functions on octets; \<open>Nas_Security_Props\<close> shows that a message is
  delivered as it was protected, that no NAS COUNT is taken twice (locale \<open>nas_receiver\<close>,
  interpreted for AMF and MME), and on which octets reception fails. The ciphers are
  an interface there (\<open>ciphers_ok\<close>): blocks have 16 octets, codes four, and ciphering keeps the
  length and undoes itself. The encoder of plain messages is generated;
  its result is an argument. \<open>ue_ok\<close> limits the selected algorithms to the four of the switch.

  \<open>Nas_Ciphers\<close> fills it with the ciphers of \<open>lib/crypt\<close>:
  \<^item> \<open>Snow3g\<close>, \<open>Snow3g_Equiv\<close>: SNOW 3G twice, on octets (\<open>snow-3g.c\<close>, used for authentication
    codes) and with tables (\<open>openssl/snow_core.c\<close>, used for ciphering), and their equivalence.
  \<^item> \<open>Zuc\<close>, \<open>Zuc_Props\<close>: \<open>zuc.c\<close>; the register computes modulo \<open>2 ^ 31 - 1\<close>, and the authentication
    code is the sum its specification gives.
  \<^item> \<open>Aes\<close>, \<open>Aes_Props\<close>, \<open>Aes_Rounds\<close>, \<open>Aes_Sbox\<close>, \<open>Aes_Fips\<close>: \<open>ogs-aes.c\<close> with its tables is the
    cipher of FIPS 197 for the three key sizes, and decryption inverts it. \<open>Aes_Sbox\<close> defines the
    S-box as the standard does, by inversion in the field and the affine map, apart from the
    tables of the code.
  \<open>Crypt_Words\<close> has the octets of words and the linear maps behind the tables, which are evaluated
  entry by entry.

  \<^bold>\<open>Composition.\<close> \<open>Pfcp_Xact\<close>, \<open>Pfcp_Xact_Inv\<close>, \<open>Pfcp_Xact_Props\<close>, \<open>Pfcp_Xact_Expiry\<close>: the reliable transport of
  \<open>lib/pfcp/xact.c\<close> on top of pools, timers, buffers and TLV headers. The invariant of the whole
  state holds for every history of calls, received packets and expiring timers; from it follow
  at-most-once execution of requests, matching of responses and that nothing leaks.
  \<open>Pfcp_Xact_Expiry\<close> lets the timer manager run: a request is resent once in every interval, each
  round arming the timer for the next, until the limit is reached and the user is told. The
  callbacks of the transactions are an interpretation of \<open>timer_callbacks\<close>.

  \<^bold>\<open>Hypotheses and bounds.\<close> Allocation of memory succeeds. Sizes stay below \<open>2 ^ 32\<close> (hash tables) and
  \<open>2 ^ 15\<close> (elements, whose counters are \<open>int16_t\<close>; beyond, the builders are undefined here). The
  host is little-endian. The octets of a hash key do not change while it is in a table. The
  thread library may wake a waiting thread at any time. Numbers of a TLV message stay in
  network order after building. A loop along pointers is shown to end on every represented
  structure; no fuel is used.

  \<^bold>\<open>Not modelled.\<close> The network functions above NAS security, whose handlers work on contexts of hundreds of
  fields and on generated structures; generated code (ASN.1, OpenAPI, message tables); third-party
  code (hashes, elliptic curves, ipfw) and calls of libraries and the system (sockets, HTTP, Diameter,
  database, threads, logging). Not reached yet: the contexts and handlers of \<open>lib/pfcp\<close>, the
  transactions of \<open>lib/gtp\<close>, \<open>lib/proto/types.c\<close>.
\<close>

end
